(* ===== verification/Prelude.thy ===== *)
theory Prelude
  imports Main "HOL-Library.Char_ord" "HOL-Library.Sublist"
begin

text \<open>
  Shared vocabulary of the development: Go strings and byte slices are lists of 8-bit
  characters, a function that returns \<open>(value, error)\<close> is a sum with the error on the left, and
  the generic facts on lists, sums and byte classes that the component theories share.
\<close>

type_synonym bytes = string

named_theorems go_defs \<open>definitions of Go standard-library byte helpers\<close>

subsection \<open>Results: the error on the left\<close>

fun bind_res :: "'e + 'a \<Rightarrow> ('a \<Rightarrow> 'e + 'b) \<Rightarrow> 'e + 'b" where
  "bind_res (Inl e) f = Inl e"
| "bind_res (Inr x) f = f x"

fun map_err :: "('e \<Rightarrow> 'f) \<Rightarrow> 'e + 'a \<Rightarrow> 'f + 'a" where
  "map_err g (Inl e) = Inl (g e)"
| "map_err g (Inr x) = Inr x"

fun is_ok :: "'e + 'a \<Rightarrow> bool" where
  "is_ok (Inl e) = False"
| "is_ok (Inr x) = True"

lemma bind_res_Inr: "bind_res r f = Inr y \<longleftrightarrow> (\<exists>x. r = Inr x \<and> f x = Inr y)"
  by (cases r) auto

lemma bind_res_Inl: "bind_res r f = Inl e \<longleftrightarrow> r = Inl e \<or> (\<exists>x. r = Inr x \<and> f x = Inl e)"
  by (cases r) auto

lemma is_ok_iff: "is_ok r \<longleftrightarrow> (\<exists>x. r = Inr x)"
  by (cases r) auto

lemma map_err_Inr: "map_err g x = Inr y \<longleftrightarrow> x = Inr y"
  by (cases x) simp_all

lemma map_err_Inl: "map_err g r = Inl e \<longleftrightarrow> (\<exists>e'. r = Inl e' \<and> e = g e')"
  by (cases r) auto

lemma bind_ok: "is_ok x \<Longrightarrow> (\<And>y. is_ok (f y)) \<Longrightarrow> is_ok (bind_res x f)"
  by (cases x) simp_all

subsection \<open>Byte classes\<close>

definition is_lower :: "char \<Rightarrow> bool" where
  "is_lower c \<longleftrightarrow> CHR ''a'' \<le> c \<and> c \<le> CHR ''z''"

definition is_upper :: "char \<Rightarrow> bool" where
  "is_upper c \<longleftrightarrow> CHR ''A'' \<le> c \<and> c \<le> CHR ''Z''"

definition is_digit :: "char \<Rightarrow> bool" where
  "is_digit c \<longleftrightarrow> CHR ''0'' \<le> c \<and> c \<le> CHR ''9''"

declare is_lower_def [go_defs] is_upper_def [go_defs] is_digit_def [go_defs]

text \<open>A byte as a number, and back.\<close>

definition ord_of :: "char \<Rightarrow> nat" where
  "ord_of c = of_char c"

lemma ord_of_less [simp]: "ord_of c < 256"
  by (simp add: ord_of_def)

lemma char_of_ord_of [simp]: "char_of (ord_of c) = c"
  by (simp add: ord_of_def)

lemma ord_of_char_of: "n < 256 \<Longrightarrow> ord_of (char_of n) = n"
  by (simp add: ord_of_def of_char_of)

lemma ord_of_inj: "ord_of a = ord_of b \<Longrightarrow> a = b"
  by (metis char_of_ord_of)

lemma char_le_ord: "(a \<le> b) = (ord_of a \<le> ord_of b)" for a b :: char
  by (simp add: less_eq_char_def ord_of_def)

subsection \<open>Go's \<open>strings\<close> helpers the program uses\<close>

text \<open>\<open>strings.IndexByte\<close>: the first position of a byte, \<open>None\<close> for -1.\<close>

fun index_byte :: "bytes \<Rightarrow> char \<Rightarrow> nat option" where
  "index_byte [] c = None"
| "index_byte (x # xs) c = (if x = c then Some 0 else map_option Suc (index_byte xs c))"

text \<open>\<open>strings.HasPrefix\<close> and \<open>strings.TrimLeft\<close> with a one-byte cut set.\<close>

definition has_prefix :: "bytes \<Rightarrow> bytes \<Rightarrow> bool" where
  "has_prefix s p \<longleftrightarrow> take (length p) s = p"

fun trim_left :: "char \<Rightarrow> bytes \<Rightarrow> bytes" where
  "trim_left c [] = []"
| "trim_left c (x # xs) = (if x = c then trim_left c xs else x # xs)"

definition trim_right :: "char \<Rightarrow> bytes \<Rightarrow> bytes" where
  "trim_right c s = rev (trim_left c (rev s))"

lemma index_byte_None [simp]: "index_byte s c = None \<longleftrightarrow> c \<notin> set s"
  by (induction s) auto

lemma index_byte_Some:
  "index_byte s c = Some i \<longleftrightarrow> i < length s \<and> s ! i = c \<and> c \<notin> set (take i s)"
proof (induction s arbitrary: i)
  case Nil
  then show ?case by simp
next
  case (Cons x s)
  show ?case
  proof (cases i)
    case 0
    then show ?thesis by auto
  next
    case (Suc j)
    then show ?thesis using Cons.IH [of j] by auto
  qed
qed

lemma index_byte_append_notin: "c \<notin> set p \<Longrightarrow> index_byte (p @ c # s) c = Some (length p)"
  by (induction p) auto

lemma index_byte_split:
  "index_byte s c = Some i \<Longrightarrow> s = take i s @ c # drop (Suc i) s \<and> c \<notin> set (take i s)"
  by (simp add: index_byte_Some id_take_nth_drop [of i s, symmetric]) (metis id_take_nth_drop)

lemma has_prefix_iff: "has_prefix s p \<longleftrightarrow> (\<exists>t. s = p @ t)"
  by (auto simp: has_prefix_def) (metis append_take_drop_id)

lemma trim_left_set: "set (trim_left c s) \<subseteq> set s"
  by (induction s) auto

lemma trim_left_suffix: "\<exists>p. s = p @ trim_left c s \<and> set p \<subseteq> {c}"
proof (induction s)
  case Nil
  then show ?case by simp
next
  case (Cons x s)
  then obtain p where p: "s = p @ trim_left c s" "set p \<subseteq> {c}" by blast
  show ?case
  proof (cases "x = c")
    case True
    have "x # s = (x # p) @ trim_left c (x # s)" using p(1) True by simp
    moreover have "set (x # p) \<subseteq> {c}" using p(2) True by simp
    ultimately show ?thesis by blast
  next
    case False
    then show ?thesis by (intro exI [of _ "[]"]) simp
  qed
qed

lemma trim_left_hd: "trim_left c s \<noteq> [] \<Longrightarrow> hd (trim_left c s) \<noteq> c"
  by (induction s) auto

subsection \<open>Decimal text (\<open>%d\<close>)\<close>

fun show_nat :: "nat \<Rightarrow> bytes" where
  "show_nat n =
     (if n < 10 then [char_of (48 + n)] else show_nat (n div 10) @ [char_of (48 + n mod 10)])"

declare show_nat.simps [simp del]

definition show_int :: "int \<Rightarrow> bytes" where
  "show_int i = (if i < 0 then CHR ''-'' # show_nat (nat (- i)) else show_nat (nat i))"

lemma char_of_digit: "n < 10 \<Longrightarrow> is_digit (char_of (48 + n))" for n :: nat
  by (simp add: is_digit_def char_le_ord ord_of_char_of) (simp add: ord_of_def)

lemma show_nat_digits: "list_all is_digit (show_nat n)"
proof (induction n rule: show_nat.induct)
  case (1 n)
  then show ?case by (subst show_nat.simps) (auto intro!: char_of_digit)
qed

lemma show_nat_length: "n < 10 ^ Suc k \<Longrightarrow> length (show_nat n) \<le> Suc k"
proof (induction k arbitrary: n)
  case 0
  then show ?case by (subst show_nat.simps) simp
next
  case (Suc k)
  then have "n div 10 < 10 ^ Suc k" by (simp add: less_mult_imp_div_less)
  then show ?case using Suc.IH [of "n div 10"] by (subst show_nat.simps) simp
qed

subsection \<open>Lists\<close>

lemma find_Some_iff2: "find P xs = Some x \<Longrightarrow> P x \<and> x \<in> set xs"
  by (induction xs) (auto split: if_splits)

lemma distinct_map_inj: "distinct (map f xs) \<Longrightarrow> x \<in> set xs \<Longrightarrow> y \<in> set xs \<Longrightarrow> f x = f y \<Longrightarrow> x = y"
  by (metis distinct_map inj_onD)

lemma distinct_map_map_cong:
  "(\<And>x. x \<in> set xs \<Longrightarrow> g (f x) = g x) \<Longrightarrow> distinct (map g (map f xs)) = distinct (map g xs)"
  by (simp cong: map_cong)

end
