(* ===== verification/Utf8.thy ===== *)
theory Utf8
  imports Prelude
begin

text \<open>
  The part of Go's \<open>unicode/utf8\<close> and \<open>strings\<close> packages that the program uses on text:
  decoding one rune off the front of a byte string, encoding one rune, validity, the rune
  sequence a \<open>range\<close> loop visits, and the two questions the program asks of text before it
  reaches Postgres (\<open>storable\<close>, in internal/outbox and internal/hub) and before it is recorded
  (\<open>clip\<close>, in internal/outbox).
\<close>

abbreviation rune_error :: nat where "rune_error \<equiv> 65533"

definition cont :: "nat \<Rightarrow> nat \<Rightarrow> char \<Rightarrow> bool" where
  "cont lo hi b \<longleftrightarrow> lo \<le> ord_of b \<and> ord_of b \<le> hi"

text \<open>The permitted second byte of a three- and of a four-byte sequence.\<close>

definition second3 :: "nat \<Rightarrow> char \<Rightarrow> bool" where
  "second3 n0 b = cont (if n0 = 224 then 160 else 128) (if n0 = 237 then 159 else 191) b"

definition second4 :: "nat \<Rightarrow> char \<Rightarrow> bool" where
  "second4 n0 b = cont (if n0 = 240 then 144 else 128) (if n0 = 244 then 143 else 191) b"

text \<open>\<open>utf8.DecodeRuneInString\<close>: the rune and its width, \<open>(U+FFFD, 1)\<close> for a bad byte.\<close>

fun decode_rune :: "bytes \<Rightarrow> nat \<times> nat" where
  "decode_rune [] = (rune_error, 0)"
| "decode_rune (b0 # s) =
     (let n0 = ord_of b0 in
      if n0 < 128 then (n0, 1)
      else if 194 \<le> n0 \<and> n0 \<le> 223 then
        (case s of
           b1 # _ \<Rightarrow> if cont 128 191 b1
                     then ((n0 - 192) * 64 + (ord_of b1 - 128), 2) else (rune_error, 1)
         | _ \<Rightarrow> (rune_error, 1))
      else if 224 \<le> n0 \<and> n0 \<le> 239 then
        (case s of
           b1 # b2 # _ \<Rightarrow> if second3 n0 b1 \<and> cont 128 191 b2
                     then ((n0 - 224) * 4096 + (ord_of b1 - 128) * 64 + (ord_of b2 - 128), 3)
                     else (rune_error, 1)
         | _ \<Rightarrow> (rune_error, 1))
      else if 240 \<le> n0 \<and> n0 \<le> 244 then
        (case s of
           b1 # b2 # b3 # _ \<Rightarrow> if second4 n0 b1 \<and> cont 128 191 b2 \<and> cont 128 191 b3
                     then ((n0 - 240) * 262144 + (ord_of b1 - 128) * 4096
                           + (ord_of b2 - 128) * 64 + (ord_of b3 - 128), 4)
                     else (rune_error, 1)
         | _ \<Rightarrow> (rune_error, 1))
      else (rune_error, 1))"

text \<open>A Unicode scalar value, and \<open>utf8.AppendRune\<close>, which writes U+FFFD for anything else.\<close>

definition scalar :: "nat \<Rightarrow> bool" where
  "scalar r \<longleftrightarrow> r < 55296 \<or> (57344 \<le> r \<and> r < 1114112)"

definition encode_rune :: "nat \<Rightarrow> bytes" where
  "encode_rune r0 =
     (let r = (if scalar r0 then r0 else rune_error) in
      if r < 128 then [char_of r]
      else if r < 2048 then [char_of (192 + r div 64), char_of (128 + r mod 64)]
      else if r < 65536 then
        [char_of (224 + r div 4096), char_of (128 + r div 64 mod 64), char_of (128 + r mod 64)]
      else
        [char_of (240 + r div 262144), char_of (128 + r div 4096 mod 64),
         char_of (128 + r div 64 mod 64), char_of (128 + r mod 64)])"

lemma decode_rune_width:
  "s \<noteq> [] \<Longrightarrow> 0 < snd (decode_rune s) \<and> snd (decode_rune s) \<le> length s"
  by (cases s) (auto simp: Let_def split: list.splits)

lemma decode_rune_less: "s \<noteq> [] \<Longrightarrow> length (drop (snd (decode_rune s)) s) < length s"
  using decode_rune_width [of s] by simp

lemma encode_rune_width: "length (encode_rune r) \<in> {1..4}"
  by (simp add: encode_rune_def Let_def)

lemma encode_rune_nonempty [simp]: "encode_rune r \<noteq> []"
  by (simp add: encode_rune_def Let_def)

lemma decode_rune_Cons: "(r, w) = decode_rune (b # s) \<Longrightarrow> 0 < w \<and> w \<le> Suc (length s)"
  using decode_rune_width [of "b # s"] by (metis length_Cons list.distinct(1) snd_conv)

lemma dm64:
  fixes q b :: nat
  shows "b < 64 \<Longrightarrow> (q * 64 + b) div 64 = q" and "b < 64 \<Longrightarrow> (q * 64 + b) mod 64 = b"
  by simp_all

lemma quot_4096: "r div 4096 = r div 64 div 64" for r :: nat
  using div_mult2_eq [of r 64 64] by simp

lemma quot_262144: "r div 262144 = r div 64 div 64 div 64" for r :: nat
  using div_mult2_eq [of r 4096 64] quot_4096 [of r] by simp

lemma mult_64: "64 * 64 = (4096::nat)" "4096 * 64 = (262144::nat)"
  by simp_all

subsection \<open>Encoding and decoding are inverse\<close>

lemma split_base64:
  fixes r :: nat
  obtains a b c d where "r = a * 262144 + b * 4096 + c * 64 + d" "b < 64" "c < 64" "d < 64"
    "r div 262144 = a" "r div 4096 = a * 64 + b" "r div 4096 mod 64 = b" "r div 64 mod 64 = c"
    "r mod 64 = d"
proof -
  define q1 q2 q3 where "q1 = r div 64" and "q2 = q1 div 64" and "q3 = q2 div 64"
  have "r = q1 * 64 + r mod 64" "q1 = q2 * 64 + q1 mod 64" "q2 = q3 * 64 + q2 mod 64"
    unfolding q1_def q2_def q3_def by (simp_all only: div_mult_mod_eq)
  then have "r = q3 * 262144 + q2 mod 64 * 4096 + q1 mod 64 * 64 + r mod 64"
    "q2 = q3 * 64 + q2 mod 64" by linarith+
  moreover have "r div 262144 = q3" "r div 4096 = q2"
    unfolding q1_def q2_def q3_def by (simp_all only: quot_4096 quot_262144)
  ultimately show ?thesis
    using that [of q3 "q2 mod 64" "q1 mod 64" "r mod 64"] unfolding q1_def by simp
qed

lemma decode_encode:
  assumes "scalar r"
  shows "decode_rune (encode_rune r @ s) = (r, length (encode_rune r))"
proof -
  have m: "r mod 64 \<le> 63" "r div 64 mod 64 \<le> 63" "r div 4096 mod 64 \<le> 63" by simp_all
  note o = ord_of_char_of
  consider "r < 128" | "128 \<le> r \<and> r < 2048" | "2048 \<le> r \<and> r < 65536" | "65536 \<le> r" by linarith
  then show ?thesis
  proof cases
    case 1
    then show ?thesis using assms by (simp add: encode_rune_def ord_of_char_of)
  next
    case 2
    then have b: "r div 64 \<le> 31" "2 \<le> r div 64" by linarith+
    then have o: "ord_of (char_of (192 + r div 64)) = 192 + r div 64"
      "ord_of (char_of (128 + r mod 64)) = 128 + r mod 64" using m by (intro o; linarith)+
    show ?thesis using assms 2 b m(1) unfolding encode_rune_def
      by (simp add: o cont_def Let_def)
  next
    case 3
    note split = quot_4096 [of r] div_mult_mod_eq [of r 64, symmetric]
      div_mult_mod_eq [of "r div 64" 64, symmetric]
    have b: "r div 4096 \<le> 15" using 3 by linarith
    have lo: "r div 4096 = 0 \<Longrightarrow> 32 \<le> r div 64 mod 64" using 3 split by linarith
    have hi: "r div 4096 = 13 \<Longrightarrow> r div 64 mod 64 < 32" using assms 3 split
      unfolding scalar_def by linarith
    have sum: "r div 4096 * 4096 + r div 64 mod 64 * 64 + r mod 64 = r" using split by linarith
    have o: "ord_of (char_of (224 + r div 4096)) = 224 + r div 4096"
      "ord_of (char_of (128 + r div 64 mod 64)) = 128 + r div 64 mod 64"
      "ord_of (char_of (128 + r mod 64)) = 128 + r mod 64" using m b by (intro o; linarith)+
    have "second3 (224 + r div 4096) (char_of (128 + r div 64 mod 64))"
      using lo hi m by (auto simp: second3_def cont_def o)
    then show ?thesis using assms 3 b m sum unfolding encode_rune_def
      by (simp add: o cont_def Let_def)
  next
    case 4
    obtain a b c d where e: "r = a * 262144 + b * 4096 + c * 64 + d" "b < 64" "c < 64" "d < 64"
      "r div 262144 = a" "r div 4096 = a * 64 + b" "r div 4096 mod 64 = b" "r div 64 mod 64 = c"
      "r mod 64 = d" by (rule split_base64)
    have "r < 1114112" using assms 4 by (simp add: scalar_def)
    then have a: "a \<le> 4" and hi: "a = 4 \<Longrightarrow> b < 16" using e(1) by linarith+
    have lo: "a = 0 \<Longrightarrow> 16 \<le> b" using 4 e(1-4) by linarith
    have o: "ord_of (char_of (240 + a)) = 240 + a" "ord_of (char_of (128 + b)) = 128 + b"
      "ord_of (char_of (128 + c)) = 128 + c" "ord_of (char_of (128 + d)) = 128 + d"
      using e(2-4) a by (intro o; linarith)+
    have bs: "encode_rune r = [char_of (240 + a), char_of (128 + b), char_of (128 + c), char_of (128 + d)]"
      using assms 4 unfolding encode_rune_def by (simp add: e(5,7,8,9))
    have "second4 (240 + a) (char_of (128 + b))" using lo hi e(2) by (auto simp: second4_def cont_def o)
    then show ?thesis using a e(1-4) unfolding bs by (simp add: o cont_def)
  qed
qed

text \<open>A decoded rune that is not the error of width one is a scalar value spelled as read.\<close>

lemma encode_decode:
  assumes "decode_rune s = (r, w)" and "\<not> (r = rune_error \<and> w = 1)" and "s \<noteq> []"
  shows "scalar r \<and> encode_rune r = take w s"
proof -
  obtain b0 t where s: "s = b0 # t" using assms(3) by (cases s) auto
  let ?n = "ord_of b0"
  consider "?n < 128" | "194 \<le> ?n \<and> ?n \<le> 223" | "224 \<le> ?n \<and> ?n \<le> 239" | "240 \<le> ?n \<and> ?n \<le> 244"
    using assms s by (auto simp: Let_def split: if_splits)
  then show ?thesis
  proof cases
    case 1
    then have "r = ?n" "w = 1" using assms s by (auto simp: Let_def)
    then show ?thesis using 1 s by (simp add: encode_rune_def scalar_def)
  next
    case 2
    then obtain b1 u where t: "t = b1 # u" "cont 128 191 b1"
      and r: "r = (?n - 192) * 64 + (ord_of b1 - 128)" and w: "w = 2"
      using assms s by (auto simp: Let_def split: if_splits list.splits)
    define a b where "a = ?n - 192" and "b = ord_of b1 - 128"
    have n: "?n = 192 + a" "ord_of b1 = 128 + b" "2 \<le> a" "a < 32" "b < 64"
      using 2 t by (auto simp: a_def b_def cont_def)
    have r': "r = a * 64 + b" using r by (simp add: a_def b_def)
    then have "r div 64 = a" "r mod 64 = b" using dm64 [OF n(5), of a] r' by (simp_all only:)
    then show ?thesis using n r' s t w
      by (simp add: encode_rune_def scalar_def Let_def flip: n(1,2))
  next
    case 3
    then obtain b1 b2 u where t: "t = b1 # b2 # u" "second3 ?n b1" "cont 128 191 b2"
      and r: "r = (?n - 224) * 4096 + (ord_of b1 - 128) * 64 + (ord_of b2 - 128)" and w: "w = 3"
      using assms s by (auto simp: Let_def split: if_splits list.splits)
    define a b c where "a = ?n - 224" and "b = ord_of b1 - 128" and "c = ord_of b2 - 128"
    have n: "?n = 224 + a" "ord_of b1 = 128 + b" "ord_of b2 = 128 + c" "a < 16" "b < 64" "c < 64"
      "a = 0 \<Longrightarrow> 32 \<le> b" "a = 13 \<Longrightarrow> b < 32"
      using 3 t by (auto simp: a_def b_def c_def cont_def second3_def split: if_splits)
    have r': "r = (a * 64 + b) * 64 + c" using r by (simp add: a_def b_def c_def)
    from r' have d: "r div 64 = a * 64 + b" "r mod 64 = c" 
      using dm64 [OF n(6), of "a * 64 + b"] r' by (simp_all only:)
    then have d': "r div 4096 = a" "r div 64 mod 64 = b"
      using dm64 [OF n(5), of a] div_mult2_eq [of r 64 64] by (simp_all only: mult_64)
    have r'': "r = a * 4096 + b * 64 + c" using r' by (simp add: algebra_simps)
    have "2048 \<le> r" using n(4-7) r'' by (cases "a = 0") auto
    moreover have "r < 65536" using n(4-6) r'' by linarith
    moreover have "scalar r" using n(4-8) r'' unfolding scalar_def
      by (cases "a = 13"; cases "a < 13"; linarith)
    ultimately show ?thesis using d d' s t w
      by (simp add: encode_rune_def Let_def flip: n(1,2,3))
  next
    case 4
    then obtain b1 b2 b3 u where t: "t = b1 # b2 # b3 # u" "second4 ?n b1" "cont 128 191 b2"
        "cont 128 191 b3"
      and r: "r = (?n - 240) * 262144 + (ord_of b1 - 128) * 4096 + (ord_of b2 - 128) * 64
              + (ord_of b3 - 128)" and w: "w = 4"
      using assms s by (auto simp: Let_def split: if_splits list.splits)
    define a b c d where "a = ?n - 240" and "b = ord_of b1 - 128" and "c = ord_of b2 - 128"
      and "d = ord_of b3 - 128"
    have n: "?n = 240 + a" "ord_of b1 = 128 + b" "ord_of b2 = 128 + c" "ord_of b3 = 128 + d"
      "a \<le> 4" "b < 64" "c < 64" "d < 64" "a = 0 \<Longrightarrow> 16 \<le> b" "a = 4 \<Longrightarrow> b < 16"
      using 4 t by (auto simp: a_def b_def c_def d_def cont_def second4_def split: if_splits)
    have r': "r = ((a * 64 + b) * 64 + c) * 64 + d" using r by (simp add: a_def b_def c_def d_def)
    then have e: "r div 64 = (a * 64 + b) * 64 + c" "r mod 64 = d"
      using dm64 [OF n(8), of "(a * 64 + b) * 64 + c"] r' by (simp_all only:)
    then have e': "r div 4096 = a * 64 + b" "r div 64 mod 64 = c"
      using dm64 [OF n(7), of "a * 64 + b"] div_mult2_eq [of r 64 64] by (simp_all only: mult_64)
    then have e'': "r div 262144 = a" "r div 4096 mod 64 = b"
      using dm64 [OF n(6), of a] div_mult2_eq [of r 4096 64] by (simp_all only: mult_64)
    have r'': "r = a * 262144 + b * 4096 + c * 64 + d" using r' by (simp add: algebra_simps)
    have lo: "65536 \<le> r" using n(5-9) r'' by (cases "a = 0"; linarith)
    have hi: "r < 1114112" using n(5-8,10) r'' by (cases "a = 4"; linarith)
    show ?thesis using lo hi e e' e'' s t w
      by (simp add: encode_rune_def scalar_def Let_def flip: n(1,2,3,4))
  qed
qed

subsection \<open>Validity and the runes of a string\<close>

text \<open>\<open>utf8.ValidString\<close>, and the sequence of runes a \<open>range\<close> loop over a string visits
  (each bad byte is one U+FFFD). \<open>utf8.RuneCountInString\<close> is its length.\<close>

declare decode_rune.simps(2) [simp del]

function valid_string :: "bytes \<Rightarrow> bool" where
  "valid_string [] = True"
| "valid_string (b # s) =
     (let (r, w) = decode_rune (b # s) in
      if r = rune_error \<and> w = 1 then False else valid_string (drop w (b # s)))"
  by pat_completeness auto
termination
  by (relation "measure length") (auto dest!: decode_rune_Cons)

function runes :: "bytes \<Rightarrow> nat list" where
  "runes [] = []"
| "runes (b # s) = (let (r, w) = decode_rune (b # s) in r # runes (drop w (b # s)))"
  by pat_completeness auto
termination
  by (relation "measure length") (auto dest!: decode_rune_Cons)

definition rune_count :: "bytes \<Rightarrow> nat" where
  "rune_count s = length (runes s)"

definition encode_runes :: "nat list \<Rightarrow> bytes" where
  "encode_runes rs = concat (map encode_rune rs)"

lemma encode_runes_simps [simp]:
  "encode_runes [] = []" "encode_runes (r # rs) = encode_rune r @ encode_runes rs"
  "encode_runes (rs @ qs) = encode_runes rs @ encode_runes qs"
  by (simp_all add: encode_runes_def)

lemma valid_string_step:
  "s \<noteq> [] \<Longrightarrow> decode_rune s = (r, w) \<Longrightarrow>
   valid_string s = (\<not> (r = rune_error \<and> w = 1) \<and> valid_string (drop w s))"
  by (cases s) auto

lemma runes_step:
  "s \<noteq> [] \<Longrightarrow> decode_rune s = (r, w) \<Longrightarrow> runes s = r # runes (drop w s)"
  by (cases s) auto

lemma encode_rune_error_width: "\<not> (r = rune_error \<and> length (encode_rune r) = 1)"
  by (auto simp: encode_rune_def scalar_def)

lemma decode_scalar:
  assumes "decode_rune s = (r, w)"
  shows "scalar r"
proof (cases "s = [] \<or> (r = rune_error \<and> w = 1)")
  case True
  then show ?thesis using assms by (auto simp: scalar_def)
next
  case False
  then show ?thesis using encode_decode [OF assms] by blast
qed

lemma runes_scalar: "r \<in> set (runes s) \<Longrightarrow> scalar r"
proof (induction s rule: runes.induct)
  case (2 b s)
  obtain q w where d: "decode_rune (b # s) = (q, w)" by fastforce
  with 2 show ?case by (auto dest: decode_scalar)
qed simp

lemma runes_encode_append:
  "scalar r \<Longrightarrow> runes (encode_rune r @ s) = r # runes s"
  "scalar r \<Longrightarrow> valid_string (encode_rune r @ s) = valid_string s"
proof -
  assume r: "scalar r"
  note d = decode_encode [OF r, of s]
  show "runes (encode_rune r @ s) = r # runes s"
    using runes_step [OF _ d] by simp
  show "valid_string (encode_rune r @ s) = valid_string s"
    using valid_string_step [OF _ d] encode_rune_error_width by simp
qed

lemma encode_runes_roundtrip:
  assumes "\<forall>r \<in> set rs. scalar r"
  shows "valid_string (encode_runes rs) \<and> runes (encode_runes rs) = rs"
  using assms by (induction rs) (auto simp: runes_encode_append)

lemma runes_encode_runes: "list_all scalar rs \<Longrightarrow> runes (encode_runes rs) = rs"
  using encode_runes_roundtrip by (simp add: list_all_iff)

lemma valid_encode_runes: "list_all scalar rs \<Longrightarrow> valid_string (encode_runes rs)"
  using encode_runes_roundtrip by (simp add: list_all_iff)

lemma encode_runes_runes: "valid_string s \<Longrightarrow> encode_runes (runes s) = s"
proof (induction s rule: runes.induct)
  case (2 b s)
  obtain r w where d: "decode_rune (b # s) = (r, w)" by fastforce
  have v: "\<not> (r = rune_error \<and> w = 1)" "valid_string (drop w (b # s))"
    using 2(2) valid_string_step [OF _ d] by auto
  have "encode_rune r = take w (b # s)" using encode_decode [OF d v(1)] by simp
  moreover have "encode_runes (runes (drop w (b # s))) = drop w (b # s)"
    using 2(1) [OF d [symmetric] refl v(2)] .
  ultimately show ?case using runes_step [OF _ d] by simp
qed simp

lemma valid_string_iff: "valid_string s \<longleftrightarrow> (\<exists>rs. list_all scalar rs \<and> s = encode_runes rs)"
proof
  assume "valid_string s"
  then show "\<exists>rs. list_all scalar rs \<and> s = encode_runes rs"
    by (intro exI [of _ "runes s"]) (auto simp: encode_runes_runes list_all_iff intro: runes_scalar)
qed (auto simp: valid_encode_runes)

lemma length_runes_le: "length (runes s) \<le> length s"
proof (induction s rule: runes.induct)
  case (2 b s)
  obtain r w where d: "decode_rune (b # s) = (r, w)" by fastforce
  have "0 < w" "w \<le> Suc (length s)" using decode_rune_Cons [OF d [symmetric]] by auto
  then show ?case using 2 [OF d [symmetric] refl] runes_step [OF _ d] by simp
qed simp

lemma rune_count_le: "rune_count s \<le> length s"
  by (simp add: rune_count_def length_runes_le)

subsection \<open>ASCII bytes and runes\<close>

lemma decode_ascii: "ord_of b < 128 \<Longrightarrow> decode_rune (b # s) = (ord_of b, 1)"
  by (simp add: decode_rune.simps(2))

lemma runes_ascii: "ord_of b < 128 \<Longrightarrow> runes (b # s) = ord_of b # runes s"
  using runes_step [OF _ decode_ascii] by simp

lemma valid_ascii: "ord_of b < 128 \<Longrightarrow> valid_string (b # s) = valid_string s"
  using valid_string_step [OF _ decode_ascii] by auto

lemma valid_all_ascii: "\<forall>b \<in> set s. ord_of b < 128 \<Longrightarrow> valid_string s"
  by (induction s) (auto simp: valid_ascii simp del: valid_string.simps(2))

lemma runes_all_ascii: "\<forall>b \<in> set s. ord_of b < 128 \<Longrightarrow> runes s = map ord_of s"
  by (induction s) (auto simp: runes_ascii simp del: runes.simps(2))

text \<open>In an encoded rune every byte is at least 128, unless the rune is that one ASCII byte.\<close>

lemma encode_rune_bytes:
  assumes "c \<in> set (encode_rune r)"
  shows "128 \<le> ord_of c \<or> (r < 128 \<and> encode_rune r = [c] \<and> ord_of c = r)"
proof -
  have m: "x mod 64 + 128 < 256" for x :: nat using mod_less_divisor [of 64 x] by linarith
  have q: "x < 1114112 \<Longrightarrow> x div 262144 + 240 < 256" "x < 65536 \<Longrightarrow> x div 4096 + 224 < 256"
    "x < 2048 \<Longrightarrow> x div 64 + 192 < 256" for x :: nat by linarith+
  have "(if scalar r then r else rune_error) < 1114112" by (auto simp: scalar_def)
  then show ?thesis using assms
    by (auto simp: encode_rune_def Let_def ord_of_char_of m q add.commute [of _ "_ mod _"]
        add.commute [of _ "_ div _"] scalar_def split: if_splits)
qed

subsection \<open>\<open>storable\<close>\<close>

abbreviation nul :: char where "nul \<equiv> CHR 0x00"

definition storable :: "bytes \<Rightarrow> bool" where
  "storable s \<longleftrightarrow> valid_string s \<and> index_byte s nul = None"

lemma storable_ascii: "\<forall>b \<in> set s. ord_of b < 128 \<and> b \<noteq> nul \<Longrightarrow> storable s"
  by (auto simp: storable_def intro: valid_all_ascii)

lemma storable_eval: "list_all (\<lambda>b. ord_of b < 128 \<and> b \<noteq> nul) s \<Longrightarrow> storable s"
  by (rule storable_ascii) (simp add: list_all_iff)

end
