(* ===== verification/Tenancy.thy ===== *)
theory Tenancy
  imports Utf8
begin

text \<open>
  internal/tenancy and the transactions of internal/store: tenant ids, the sentinel tenant, the
  binding of a tenant to a transaction, and the two kinds of transaction the program opens. A
  transaction is modelled by the two facts the program can observe of it: whether it runs under
  a cross-tenant helper role, and the value of its transaction-local setting
  \<open>lawang.tenant\<close>. A transaction body is a state transformer that may fail; a failure rolls the
  state back.
\<close>

datatype tenancy_error = ErrInvalidID | ErrCrossTenantTx | ErrNoTenantBound

abbreviation max_id_len :: nat where "max_id_len \<equiv> 64"

definition tenant_char :: "char \<Rightarrow> bool" where
  "tenant_char c \<longleftrightarrow> CHR ''A'' \<le> c \<and> c \<le> CHR ''Z'' \<or> CHR ''a'' \<le> c \<and> c \<le> CHR ''z''
     \<or> CHR ''0'' \<le> c \<and> c \<le> CHR ''9'' \<or> c = CHR ''_'' \<or> c = CHR ''-''"

definition sentinel :: bytes where
  "sentinel = ''_parked''"

definition parse_tenant :: "bytes \<Rightarrow> tenancy_error + bytes" where
  "parse_tenant s =
     (if s = [] \<or> length s > max_id_len then Inl ErrInvalidID
      else if list_all tenant_char s then Inr s
      else Inl ErrInvalidID)"

definition valid_tenant :: "bytes \<Rightarrow> bool" where
  "valid_tenant s \<longleftrightarrow> s \<noteq> [] \<and> length s \<le> max_id_len \<and> list_all tenant_char s"

lemma parse_tenant_Inr [simp]: "parse_tenant s = Inr t \<longleftrightarrow> valid_tenant s \<and> t = s"
  by (auto simp: parse_tenant_def valid_tenant_def)

lemma parse_tenant_Inl [simp]: "parse_tenant s = Inl e \<longleftrightarrow> \<not> valid_tenant s \<and> e = ErrInvalidID"
  by (auto simp: parse_tenant_def valid_tenant_def)

lemma parse_tenant_valid: "valid_tenant s \<Longrightarrow> parse_tenant s = Inr s"
  by simp

lemma valid_acme: "valid_tenant ''acme''"
  by (simp add: valid_tenant_def tenant_char_def)

lemma valid_sentinel [simp]: "valid_tenant sentinel"
  by (simp add: valid_tenant_def sentinel_def tenant_char_def)

lemma tenant_char_ascii: "tenant_char c \<Longrightarrow> 45 \<le> ord_of c \<and> ord_of c < 128"
  by (auto simp: tenant_char_def char_le_ord) (auto simp: ord_of_def)

lemma valid_tenant_storable: "valid_tenant s \<Longrightarrow> storable s"
  by (auto simp: valid_tenant_def list_all_iff ord_of_def dest!: tenant_char_ascii
      intro!: storable_ascii dest: bspec)

subsection \<open>Transactions\<close>

record txn =
  tx_cross :: bool
  tx_tenant :: "bytes option"

definition bind_tenant :: "bytes \<Rightarrow> txn \<Rightarrow> tenancy_error + txn" where
  "bind_tenant i tx =
     (case parse_tenant i of
        Inl e \<Rightarrow> Inl e
      | Inr _ \<Rightarrow> if tx_cross tx then Inl ErrCrossTenantTx else Inr (tx\<lparr>tx_tenant := Some i\<rparr>))"

definition current_tenant :: "txn \<Rightarrow> tenancy_error + bytes" where
  "current_tenant tx =
     (case tx_tenant tx of None \<Rightarrow> Inl ErrNoTenantBound | Some b \<Rightarrow> parse_tenant b)"

definition begin_tx :: "('d \<Rightarrow> 'e + 'a \<times> 'd) \<Rightarrow> 'd \<Rightarrow> ('e + 'a) \<times> 'd" where
  "begin_tx body d = (case body d of Inl e \<Rightarrow> (Inl e, d) | Inr (x, d') \<Rightarrow> (Inr x, d'))"

definition fresh_txn :: "bool \<Rightarrow> txn" where
  "fresh_txn cross = \<lparr>tx_cross = cross, tx_tenant = None\<rparr>"

definition tenant_tx ::
  "(tenancy_error \<Rightarrow> 'e) \<Rightarrow> bytes \<Rightarrow> (txn \<Rightarrow> 'd \<Rightarrow> 'e + 'a \<times> 'd) \<Rightarrow> 'd \<Rightarrow> ('e + 'a) \<times> 'd" where
  "tenant_tx emb i body =
     begin_tx (\<lambda>d. case bind_tenant i (fresh_txn False) of
                     Inl e \<Rightarrow> Inl (emb e) | Inr tx \<Rightarrow> body tx d)"

definition role_tx :: "(txn \<Rightarrow> 'd \<Rightarrow> 'e + 'a \<times> 'd) \<Rightarrow> 'd \<Rightarrow> ('e + 'a) \<times> 'd" where
  "role_tx body = begin_tx (body (fresh_txn True))"

lemma begin_tx_rollback: "begin_tx body d = (Inl e, d') \<Longrightarrow> d' = d"
  by (auto simp: begin_tx_def split: sum.splits prod.splits)

lemma begin_tx_commit: "begin_tx body d = (Inr x, d') \<longleftrightarrow> body d = Inr (x, d')"
  by (auto simp: begin_tx_def split: sum.splits prod.splits)

lemma begin_tx_Inl: "fst (begin_tx body d) = Inl e \<longleftrightarrow> body d = Inl e"
  by (auto simp: begin_tx_def split: sum.splits prod.splits)

lemma bind_tenant_fresh:
  "valid_tenant i \<Longrightarrow> bind_tenant i (fresh_txn False) = Inr \<lparr>tx_cross = False, tx_tenant = Some i\<rparr>"
  by (simp add: bind_tenant_def parse_tenant_valid fresh_txn_def)

lemma tenant_tx_valid:
  "valid_tenant i \<Longrightarrow>
   tenant_tx emb i body d = begin_tx (body \<lparr>tx_cross = False, tx_tenant = Some i\<rparr>) d"
  by (simp add: tenant_tx_def begin_tx_def bind_tenant_fresh)

lemma tenant_tx_invalid: "\<not> valid_tenant i \<Longrightarrow> tenant_tx emb i body d = (Inl (emb ErrInvalidID), d)"
  by (simp add: tenant_tx_def begin_tx_def bind_tenant_def split: sum.split)

lemma tenant_tx_commit:
  "tenant_tx emb i body d = (Inr x, d') \<longleftrightarrow>
   valid_tenant i \<and> body \<lparr>tx_cross = False, tx_tenant = Some i\<rparr> d = Inr (x, d')"
  by (cases "valid_tenant i") (simp_all add: tenant_tx_valid tenant_tx_invalid begin_tx_commit)

lemma tenant_tx_rollback: "tenant_tx emb i body d = (Inl e, d') \<Longrightarrow> d' = d"
  unfolding tenant_tx_def by (rule begin_tx_rollback)

subsection \<open>The helper roles the preflight accepts\<close>

datatype role_verdict =
    RoleOk | RoleMissing bytes | RoleUnsafe bytes | RoleInherited bytes
  | RoleAdministers bytes | RoleCannotSet bytes | NotBootstrapped | SchemaNotOwned

record helper_state =
  h_name :: bytes
  h_exists :: bool
  h_unsafe :: bool
  h_inherited :: bool
  h_administers :: bool
  h_can_set :: bool

definition helper_check :: "helper_state \<Rightarrow> role_verdict option" where
  "helper_check h =
     (if \<not> h_exists h then Some (RoleMissing (h_name h))
      else if h_inherited h then Some (RoleInherited (h_name h))
      else if h_administers h then Some (RoleAdministers (h_name h))
      else if \<not> h_can_set h then Some (RoleCannotSet (h_name h))
      else None)"

fun first_refusal :: "('a \<Rightarrow> 'b option) \<Rightarrow> 'a list \<Rightarrow> 'b option" where
  "first_refusal f [] = None"
| "first_refusal f (x # xs) = (case f x of Some v \<Rightarrow> Some v | None \<Rightarrow> first_refusal f xs)"

definition preflight_roles :: "bool \<Rightarrow> bool \<Rightarrow> helper_state list \<Rightarrow> role_verdict" where
  "preflight_roles has_schema own_schema hs =
     (case first_refusal
             (\<lambda>h. if h_exists h \<and> h_unsafe h then Some (RoleUnsafe (h_name h)) else None) hs of
        Some v \<Rightarrow> v
      | None \<Rightarrow>
          if \<not> has_schema then NotBootstrapped
          else if \<not> own_schema then SchemaNotOwned
          else (case first_refusal helper_check hs of Some v \<Rightarrow> v | None \<Rightarrow> RoleOk))"

lemma first_refusal_None [simp]: "first_refusal f xs = None \<longleftrightarrow> (\<forall>x \<in> set xs. f x = None)"
  by (induction xs) (auto split: option.splits)

lemma first_refusal_Some: "first_refusal f xs = Some v \<Longrightarrow> \<exists>x \<in> set xs. f x = Some v"
  by (induction xs) (auto split: option.splits)

lemma helper_check_None:
  "helper_check h = None \<longleftrightarrow>
   h_exists h \<and> \<not> h_inherited h \<and> \<not> h_administers h \<and> h_can_set h"
  by (simp add: helper_check_def)

lemma helper_check_not_ok: "helper_check h \<noteq> Some RoleOk"
  by (simp add: helper_check_def)

lemma preflight_roles_ok:
  "preflight_roles hs os xs = RoleOk \<longleftrightarrow> hs \<and> os \<and>
     (\<forall>h \<in> set xs. h_exists h \<and> \<not> h_unsafe h \<and> \<not> h_inherited h \<and> \<not> h_administers h \<and> h_can_set h)"
  unfolding preflight_roles_def
  by (auto simp: helper_check_None dest!: first_refusal_Some split: option.splits if_splits)
     (auto simp: helper_check_def split: if_splits)

text \<open>The start-up check lets the program run exactly when the schema exists and belongs to the
  login role and every helper role exists, is not a superuser and does not bypass row-level
  security, cannot be inherited from or administered by the login role, and can be assumed by it.\<close>

theorem preflight_accepts_only_confined_roles:
  "preflight_roles has_schema own_schema hs = RoleOk \<longleftrightarrow> has_schema \<and> own_schema \<and>
     list_all (\<lambda>h. h_exists h \<and> \<not> h_unsafe h \<and> \<not> h_inherited h \<and> \<not> h_administers h \<and> h_can_set h) hs"
  unfolding list_all_iff by (rule preflight_roles_ok)

text \<open>A tenant transaction sees one tenant: its body runs only with a well-formed tenant id, bound
  to the transaction, outside every cross-tenant role; and when the body fails the state is what
  it was. In a cross-tenant transaction no tenant can be bound at all.\<close>

theorem tenant_tx_is_bound_to_its_tenant:
  "(tenant_tx emb i body d = (Inr x, d') \<longleftrightarrow>
      valid_tenant i \<and> body \<lparr>tx_cross = False, tx_tenant = Some i\<rparr> d = Inr (x, d')) \<and>
   (is_ok (fst (tenant_tx emb i body d)) \<or> snd (tenant_tx emb i body d) = d) \<and>
   \<not> is_ok (bind_tenant j (fresh_txn True))"
proof -
  have "is_ok (fst (tenant_tx emb i body d)) \<or> snd (tenant_tx emb i body d) = d"
    by (cases "tenant_tx emb i body d"; cases "fst (tenant_tx emb i body d)") (auto dest: tenant_tx_rollback)
  moreover have "\<not> is_ok (bind_tenant j (fresh_txn True))"
    by (auto simp: bind_tenant_def fresh_txn_def split: sum.split)
  ultimately show ?thesis by (simp add: tenant_tx_commit)
qed

end
