(* ===== verification/Ids.thy ===== *)
theory Ids
  imports Tenancy
begin

text \<open>
  internal/ids: the hashed key recipes. BLAKE3 is a third-party package, so the hash is a
  parameter \<open>h\<close> that maps the bytes written to the hasher to the lower-case hex text of the
  digest. A ULID (github.com/oklog/ulid) is a parameter wherever one is minted.
\<close>

abbreviation sep :: char where "sep \<equiv> CHR 0x1F"

abbreviation record_prefix :: bytes where "record_prefix \<equiv> ''rec_''"

abbreviation record_hex_len :: nat where "record_hex_len \<equiv> 32"

datatype id_error = ErrEmptyPart bytes | ErrSeparatorInPart bytes

fun id_error_text :: "id_error \<Rightarrow> bytes" where
  "id_error_text (ErrEmptyPart name) = ''ids: empty key part: '' @ name"
| "id_error_text (ErrSeparatorInPart name) = ''ids: key part contains the 0x1F separator: '' @ name"

definition check_part :: "bytes \<Rightarrow> bytes \<Rightarrow> id_error option" where
  "check_part name v =
     (if v = [] then Some (ErrEmptyPart name)
      else if index_byte v sep \<noteq> None then Some (ErrSeparatorInPart name)
      else None)"

definition delivery_input :: "bytes \<Rightarrow> bytes \<Rightarrow> bytes" where
  "delivery_input provider body = provider @ [sep] @ body"

definition delivery_id :: "(bytes \<Rightarrow> bytes) \<Rightarrow> bytes \<Rightarrow> bytes \<Rightarrow> id_error + bytes" where
  "delivery_id h provider body =
     (case check_part ''provider'' provider of
        Some e \<Rightarrow> Inl e
      | None \<Rightarrow> Inr (h (delivery_input provider body)))"

text \<open>The loop of \<open>RecordID\<close>: every part is checked before it is written, and every part but the
  first is preceded by the separator. The result is what has been written to the hasher.\<close>

fun record_input :: "(bytes \<times> bytes) list \<Rightarrow> bytes \<Rightarrow> bool \<Rightarrow> id_error + bytes" where
  "record_input [] written started = Inr written"
| "record_input ((name, v) # ps) written started =
     (case check_part name v of
        Some e \<Rightarrow> Inl e
      | None \<Rightarrow> record_input ps (written @ (if started then [sep] else []) @ v) True)"

definition record_parts :: "bytes \<Rightarrow> bytes \<Rightarrow> bytes \<Rightarrow> bytes \<Rightarrow> bytes \<Rightarrow> (bytes \<times> bytes) list" where
  "record_parts provider external_id version scope tenant =
     [(''provider'', provider), (''external_id'', external_id), (''version'', version),
      (''scope'', scope), (''tenant'', tenant)]"

definition record_id ::
  "(bytes \<Rightarrow> bytes) \<Rightarrow> bytes \<Rightarrow> bytes \<Rightarrow> bytes \<Rightarrow> bytes \<Rightarrow> bytes \<Rightarrow> id_error + bytes" where
  "record_id h provider external_id version scope tenant =
     (case record_input (record_parts provider external_id version scope tenant) [] False of
        Inl e \<Rightarrow> Inl e
      | Inr i \<Rightarrow> Inr (record_prefix @ take record_hex_len (h i)))"

subsection \<open>The hash input determines the parts\<close>

definition part_ok :: "bytes \<Rightarrow> bool" where
  "part_ok v \<longleftrightarrow> v \<noteq> [] \<and> sep \<notin> set v"

lemma check_part_None [simp]: "check_part n v = None \<longleftrightarrow> part_ok v"
  by (auto simp: check_part_def part_ok_def)

lemma sep_split:
  "sep \<notin> set a \<Longrightarrow> sep \<notin> set b \<Longrightarrow> a @ sep # s = b @ sep # t \<longleftrightarrow> a = b \<and> s = t"
proof
  assume a: "sep \<notin> set a" "sep \<notin> set b" and eq: "a @ sep # s = b @ sep # t"
  have "takeWhile (\<lambda>c. c \<noteq> sep) (a @ sep # s) = a"
    using a(1) by (subst takeWhile_append2) auto
  moreover have "takeWhile (\<lambda>c. c \<noteq> sep) (b @ sep # t) = b"
    using a(2) by (subst takeWhile_append2) auto
  ultimately show "a = b \<and> s = t" using eq by (metis append_eq_append_conv list.inject)
qed simp

lemma delivery_input_inj:
  "part_ok p \<Longrightarrow> part_ok q \<Longrightarrow> delivery_input p b = delivery_input q c \<longleftrightarrow> p = q \<and> b = c"
  by (simp add: delivery_input_def part_ok_def sep_split)

lemma record_input_parts:
  "record_input (record_parts p e v s t) [] False = Inr i \<longleftrightarrow>
   part_ok p \<and> part_ok e \<and> part_ok v \<and> part_ok s \<and> part_ok t \<and>
   i = p @ sep # e @ sep # v @ sep # s @ sep # t"
  unfolding record_parts_def
  by (auto split: option.splits) (auto simp: check_part_def part_ok_def split: if_splits)

lemma record_input_inj:
  assumes "record_input (record_parts p e v s t) [] False = Inr i"
    and "record_input (record_parts p' e' v' s' t') [] False = Inr i"
  shows "p = p' \<and> e = e' \<and> v = v' \<and> s = s' \<and> t = t'"
  using assms by (auto simp: record_input_parts part_ok_def sep_split)

lemma record_id_Inr:
  "record_id h p e v s t = Inr i \<longleftrightarrow>
   (\<exists>x. record_input (record_parts p e v s t) [] False = Inr x
        \<and> i = record_prefix @ take record_hex_len (h x))"
  by (auto simp: record_id_def split: sum.splits)

text \<open>Documented behaviour of BLAKE3 under \<open>hex.EncodeToString\<close>: at least 32 lower-case hex digits.\<close>

definition hex_digit :: "char \<Rightarrow> bool" where
  "hex_digit c \<longleftrightarrow> CHR ''0'' \<le> c \<and> c \<le> CHR ''9'' \<or> CHR ''a'' \<le> c \<and> c \<le> CHR ''f''"

definition hex_hash :: "(bytes \<Rightarrow> bytes) \<Rightarrow> bool" where
  "hex_hash h \<longleftrightarrow> (\<forall>x. length (h x) = 64 \<and> list_all hex_digit (h x))"

text \<open>A concrete hash with the documented shape, for the witnesses: 64 hex digits made of the
  low nibbles of the input's length.\<close>

definition toy_hash :: "bytes \<Rightarrow> bytes" where
  "toy_hash x = replicate 64 (if even (length x) then CHR ''a'' else CHR ''7'')"

lemma toy_hash_hex [simp]: "hex_hash toy_hash"
  by (simp add: hex_hash_def toy_hash_def list_all_iff hex_digit_def)

lemma delivery_id_ok: "delivery_id h p b = Inr i \<longleftrightarrow> part_ok p \<and> i = h (delivery_input p b)"
  by (cases "check_part ''provider'' p") (auto simp: delivery_id_def check_part_def part_ok_def split: if_splits)

text \<open>The bytes that are hashed determine what is being named. Two records with one hash input are
  the same provider, external id, version, scope and tenant, and two deliveries with one hash input
  the same provider and body, so only a collision of the hash itself can give two different things
  one id. In particular no two tenants share a record id.\<close>

theorem hash_input_determines_the_parts:
  assumes "record_input (record_parts p e v s t) [] False = Inr i"
    and "record_input (record_parts p' e' v' s' t') [] False = Inr i"
    and "delivery_id h q b = Inr j" and "delivery_id h q' b' = Inr j'"
  shows "p = p' \<and> e = e' \<and> v = v' \<and> s = s' \<and> t = t' \<and>
    (delivery_input q b = delivery_input q' b' \<longleftrightarrow> q = q' \<and> b = b')"
proof -
  have "part_ok q" "part_ok q'" using assms(3,4) by (simp_all add: delivery_id_ok)
  then show ?thesis using record_input_inj [OF assms(1,2)] delivery_input_inj by blast
qed

lemma ex_record_input: "record_input (record_parts ''f'' ''f:1'' ''1'' ''f:c:1'' ''acme'') [] False =
     Inr (''f'' @ sep # ''f:1'' @ sep # ''1'' @ sep # ''f:c:1'' @ sep # ''acme'')"
  unfolding record_input_parts by (simp add: part_ok_def)

theorem hash_input_determines_the_parts_witness:
  "delivery_input ''f'' ''x'' \<noteq> delivery_input ''g'' ''x''"
proof -
  have "delivery_id toy_hash ''f'' ''x'' = Inr (toy_hash (delivery_input ''f'' ''x''))"
    "delivery_id toy_hash ''g'' ''x'' = Inr (toy_hash (delivery_input ''g'' ''x''))"
    by (simp_all add: delivery_id_ok part_ok_def)
  from hash_input_determines_the_parts [OF ex_record_input ex_record_input this] show ?thesis by simp
qed

end
