(* ===== verification/Cause.thy ===== *)
theory Cause
  imports Ids
begin

text \<open>
  internal/outbox/cause.go and ladder.go, and \<open>clip\<close> of outbox.go: why an attempt failed, in the
  only form that is stored, and the retry schedule. Durations and times are integers in
  nanoseconds (Go's \<open>time.Duration\<close>).
\<close>

subsection \<open>The class of a failure\<close>

text \<open>\<open>Class\<close> is a \<open>uint8\<close>: the named constants, and any other value.\<close>

datatype fail_class =
    ClassUnclassified | ClassNormalizer | ClassProviderUnavailable | ClassSinkUnavailable
  | ClassSinkRejected | ClassSinkUnauthorized | ClassSinkRefused | ClassSinkUnreadable
  | ClassVaultUnavailable | ClassInternal | ClassWorkerLost | ClassValue nat

fun class_text :: "fail_class \<Rightarrow> bytes option" where
  "class_text ClassUnclassified = Some ''unclassified failure''"
| "class_text ClassNormalizer = Some ''normalizer failed''"
| "class_text ClassProviderUnavailable = Some ''provider unavailable''"
| "class_text ClassSinkUnavailable = Some ''sink unavailable''"
| "class_text ClassSinkRejected = Some ''sink rejected the record''"
| "class_text ClassSinkUnauthorized = Some ''sink refused the credential''"
| "class_text ClassSinkRefused = Some ''sink refused the request''"
| "class_text ClassSinkUnreadable = Some ''the sink's answer could not be read''"
| "class_text ClassVaultUnavailable = Some ''vault unavailable''"
| "class_text ClassInternal = Some ''internal error''"
| "class_text ClassWorkerLost = Some ''no attempt on this row reported an outcome''"
| "class_text (ClassValue _) = None"

abbreviation max_code_len :: nat where "max_code_len \<equiv> 64"

abbreviation code_withheld :: bytes where "code_withheld \<equiv> ''withheld''"

record cause =
  c_class :: fail_class
  c_status :: int
  c_code :: bytes

definition new_cause :: "fail_class \<Rightarrow> cause" where
  "new_cause cl = \<lparr>c_class = cl, c_status = 0, c_code = []\<rparr>"

definition with_status :: "int \<Rightarrow> cause \<Rightarrow> cause" where
  "with_status status c = (if status \<ge> 100 \<and> status \<le> 599 then c\<lparr>c_status := status\<rparr> else c)"

text \<open>\<open>notCodeChar\<close> on a rune; \<open>strings.IndexFunc\<close> visits the runes of the code.\<close>

definition code_char :: "nat \<Rightarrow> bool" where
  "code_char r \<longleftrightarrow> 97 \<le> r \<and> r \<le> 122 \<or> 65 \<le> r \<and> r \<le> 90 \<or> 48 \<le> r \<and> r \<le> 57
     \<or> r = 95 \<or> r = 45 \<or> r = 46"

definition with_code :: "bytes \<Rightarrow> cause \<Rightarrow> cause" where
  "with_code code c =
     (if code = [] then c
      else if length code \<le> max_code_len \<and> list_all code_char (runes code)
           then c\<lparr>c_code := code\<rparr> else c\<lparr>c_code := code_withheld\<rparr>)"

definition cause_text :: "cause \<Rightarrow> bytes" where
  "cause_text c =
     (let text = (case class_text (c_class c) of
                    Some t \<Rightarrow> t | None \<Rightarrow> the (class_text ClassUnclassified)) in
      if c_status c \<noteq> 0 \<and> c_code c \<noteq> [] then
        text @ '' (status '' @ show_int (c_status c) @ '', code '' @ c_code c @ '')''
      else if c_status c \<noteq> 0 then text @ '' (status '' @ show_int (c_status c) @ '')''
      else if c_code c \<noteq> [] then text @ '' (code '' @ c_code c @ '')''
      else text)"

text \<open>The causes the package can build: from a class, by any sequence of the two setters.\<close>

inductive built_cause :: "cause \<Rightarrow> bool" where
  built_new: "built_cause (new_cause cl)"
| built_status: "built_cause c \<Longrightarrow> built_cause (with_status st c)"
| built_code: "built_cause c \<Longrightarrow> built_cause (with_code cd c)"

lemma runes_code_ascii: "list_all code_char (runes s) \<Longrightarrow> list_all (\<lambda>b. code_char (ord_of b)) s"
proof (induction s rule: runes.induct)
  case (2 b s)
  show ?case
  proof (cases "ord_of b < 128")
    case True
    then have "runes (b # s) = ord_of b # runes s" by (rule runes_ascii)
    moreover have "decode_rune (b # s) = (ord_of b, 1)" using True by (rule decode_ascii)
    ultimately show ?thesis using 2 by simp
  next
    case False
    obtain r w where d: "decode_rune (b # s) = (r, w)" by fastforce
    have "128 \<le> r"
    proof (rule ccontr)
      assume r: "\<not> 128 \<le> r"
      then have "encode_rune r = take w (b # s)" and "encode_rune r = [char_of r]"
        using encode_decode [OF d] by (auto simp: encode_rune_def scalar_def)
      then have "b = char_of r" by (cases w) auto
      then show False using r False ord_of_char_of [of r] by simp
    qed
    then have "\<not> code_char r" by (auto simp: code_char_def)
    then show ?thesis using 2(2) runes_step [OF _ d] by simp
  qed
qed simp

definition plain_code :: "bytes \<Rightarrow> bool" where
  "plain_code s \<longleftrightarrow> length s \<le> max_code_len \<and> list_all (\<lambda>b. code_char (ord_of b)) s"

lemma built_cause_plain: "built_cause c \<Longrightarrow> plain_code (c_code c)
    \<and> (c_status c = 0 \<or> 100 \<le> c_status c \<and> c_status c \<le> 599)"
proof (induction rule: built_cause.induct)
  case (built_new cl)
  then show ?case by (simp add: new_cause_def plain_code_def)
next
  case (built_status c st)
  then show ?case by (simp add: with_status_def)
next
  case (built_code c cd)
  then show ?case
    by (auto simp: with_code_def plain_code_def intro: runes_code_ascii)
       (auto simp: code_char_def ord_of_def)
qed

lemma length_class_text: "class_text cl = Some t \<Longrightarrow> length t \<le> 42 \<and> list_all (\<lambda>b. 32 \<le> ord_of b \<and> ord_of b < 127) t"
  by (cases cl) (auto simp: ord_of_def)

lemma show_int_status: "100 \<le> i \<Longrightarrow> i \<le> 599 \<Longrightarrow> length (show_int i) \<le> 3 \<and> list_all is_digit (show_int i)"
  using show_nat_length [of "nat i" 2] show_nat_digits [of "nat i"] by (simp add: show_int_def)

lemma is_digit_print: "is_digit b \<Longrightarrow> 32 \<le> ord_of b \<and> ord_of b < 127"
  by (auto simp: is_digit_def char_le_ord) (auto simp: ord_of_def)

lemma code_char_print: "code_char (ord_of b) \<Longrightarrow> 32 \<le> ord_of b \<and> ord_of b < 127"
  by (auto simp: code_char_def)

lemma cause_text_bounded:
  assumes "built_cause c"
  shows "length (cause_text c) \<le> 128 \<and> list_all (\<lambda>b. 32 \<le> ord_of b \<and> ord_of b < 127) (cause_text c)"
proof -
  define t where "t = (case class_text (c_class c) of
                    Some t \<Rightarrow> t | None \<Rightarrow> the (class_text ClassUnclassified))"
  have t: "length t \<le> 42" "list_all (\<lambda>b. 32 \<le> ord_of b \<and> ord_of b < 127) t"
    unfolding t_def by (auto split: option.split simp: ord_of_def dest!: length_class_text)
  have c: "length (c_code c) \<le> 64" "list_all (\<lambda>b. 32 \<le> ord_of b \<and> ord_of b < 127) (c_code c)"
    and st: "c_status c = 0 \<or> 100 \<le> c_status c \<and> c_status c \<le> 599"
    using built_cause_plain [OF assms] by (auto simp: plain_code_def list_all_iff dest: code_char_print)
  have s: "c_status c \<noteq> 0 \<Longrightarrow> length (show_int (c_status c)) \<le> 3
      \<and> list_all (\<lambda>b. 32 \<le> ord_of b \<and> ord_of b < 127) (show_int (c_status c))"
    using st show_int_status [of "c_status c"] by (auto simp: list_all_iff dest: is_digit_print)
  show ?thesis using t c s unfolding cause_text_def t_def [symmetric] Let_def
    by (auto simp: ord_of_def)
qed

subsection \<open>\<open>clip\<close>: storable and bounded text\<close>

abbreviation max_error_len :: nat where "max_error_len \<equiv> 1000"

abbreviation replacement :: bytes where "replacement \<equiv> encode_rune rune_error"

text \<open>\<open>strings.ToValidUTF8\<close> writes the replacement once per run of bad bytes.\<close>

function to_valid :: "bool \<Rightarrow> bytes \<Rightarrow> bytes" where
  "to_valid in_bad [] = []"
| "to_valid in_bad (b # s) =
     (let (r, w) = decode_rune (b # s) in
      if r = rune_error \<and> w = 1
      then (if in_bad then [] else replacement) @ to_valid True s
      else take w (b # s) @ to_valid False (drop w (b # s)))"
  by pat_completeness auto
termination
  by (relation "measure (\<lambda>(_, s). length s)") (auto dest!: decode_rune_Cons)

definition replace_nul :: "bytes \<Rightarrow> bytes" where
  "replace_nul s = concat (map (\<lambda>b. if b = nul then replacement else [b]) s)"

definition rune_start :: "char \<Rightarrow> bool" where
  "rune_start b \<longleftrightarrow> \<not> (128 \<le> ord_of b \<and> ord_of b < 192)"

fun cut_back :: "bytes \<Rightarrow> nat \<Rightarrow> nat" where
  "cut_back s 0 = 0"
| "cut_back s (Suc n) = (if rune_start (s ! Suc n) then Suc n else cut_back s n)"

definition clip :: "bytes \<Rightarrow> bytes" where
  "clip s0 =
     (let s = replace_nul (to_valid False s0) in
      if length s \<le> max_error_len then s else take (cut_back s max_error_len) s)"

lemma cut_back_le: "cut_back s n \<le> n"
  by (induction n) auto

lemma cut_back_start: "cut_back s n = 0 \<or> rune_start (s ! cut_back s n)"
  by (induction n) auto

lemma encode_rune_cont:
  assumes "0 < k" and "k < length (encode_rune r)"
  shows "\<not> rune_start (encode_rune r ! k)"
proof -
  have m: "128 + x mod 64 < 256" "x mod 64 < 64" for x :: nat
    using mod_less_divisor [of 64 x] by linarith+
  show ?thesis using assms unfolding encode_rune_def Let_def rune_start_def
    by (auto simp: ord_of_char_of m nth_Cons split: if_splits nat.splits)
qed

lemma rune_start_boundary:
  "k < length (encode_runes rs) \<Longrightarrow> rune_start (encode_runes rs ! k) \<Longrightarrow>
   \<exists>m. take k (encode_runes rs) = encode_runes (take m rs)"
proof (induction rs arbitrary: k)
  case (Cons r rs)
  let ?n = "length (encode_rune r)"
  consider "k = 0" | "0 < k" "k < ?n" | "?n \<le> k" by linarith
  then show ?case
  proof cases
    case 1
    then show ?thesis by (intro exI [of _ 0]) simp
  next
    case 2
    then show ?thesis using Cons.prems encode_rune_cont [of k r] by (simp add: nth_append)
  next
    case 3
    then have "k - ?n < length (encode_runes rs)" "rune_start (encode_runes rs ! (k - ?n))"
      using Cons.prems by (auto simp: nth_append)
    then obtain m where "take (k - ?n) (encode_runes rs) = encode_runes (take m rs)"
      using Cons.IH by blast
    then show ?thesis using 3 by (intro exI [of _ "Suc m"]) simp
  qed
qed simp

lemma take_cut_back_valid:
  assumes "valid_string s" and "n < length s"
  shows "valid_string (take (cut_back s n) s)"
proof (cases "cut_back s n = 0")
  case False
  obtain rs where rs: "list_all scalar rs" "s = encode_runes rs"
    using assms(1) valid_string_iff by blast
  have "rune_start (s ! cut_back s n)" "cut_back s n < length s"
    using False cut_back_start [of s n] cut_back_le [of s n] assms(2) by auto
  then obtain m where "take (cut_back s n) s = encode_runes (take m rs)"
    using rune_start_boundary rs(2) by blast
  moreover have "list_all scalar (take m rs)"
    using rs(1) by (auto simp: list_all_iff dest: in_set_takeD)
  ultimately show ?thesis by (simp add: valid_encode_runes)
qed simp

lemma valid_append: "valid_string s \<Longrightarrow> valid_string t \<Longrightarrow> valid_string (s @ t)"
  unfolding valid_string_iff by (metis encode_runes_simps(3) list_all_append)

lemma valid_encode_rune: "scalar r \<Longrightarrow> valid_string (encode_rune r)"
  using valid_encode_runes [of "[r]"] by simp

lemma scalar_error [simp]: "scalar rune_error"
  by (simp add: scalar_def)

lemma to_valid_valid: "valid_string (to_valid q s)"
proof (induction q s rule: to_valid.induct)
  case (2 q b s)
  obtain r w where d: "decode_rune (b # s) = (r, w)" by fastforce
  show ?case
  proof (cases "r = rune_error \<and> w = 1")
    case True
    then show ?thesis using 2(1) [OF d [symmetric] refl] d
      by (auto intro!: valid_append valid_encode_rune)
  next
    case False
    then have "scalar r" "encode_rune r = take w (b # s)" using encode_decode [OF d] by auto
    then have "valid_string (take w (b # s))" using valid_encode_rune by metis
    moreover have "valid_string (to_valid False (drop w (b # s)))"
      using 2(2) [OF d [symmetric] refl False] .
    ultimately show ?thesis using False d by (auto intro!: valid_append)
  qed
qed simp

lemma to_valid_id: "valid_string s \<Longrightarrow> to_valid q s = s"
proof (induction q s rule: to_valid.induct)
  case (2 q b s)
  obtain r w where d: "decode_rune (b # s) = (r, w)" by fastforce
  have v: "\<not> (r = rune_error \<and> w = 1)" "valid_string (drop w (b # s))"
    using 2(3) valid_string_step [OF _ d] by auto
  have "to_valid q (b # s) = take w (b # s) @ to_valid False (drop w (b # s))"
    using v(1) d by auto
  then show ?case using 2(2) [OF d [symmetric] refl v(1) v(2)] by simp
qed simp

lemma replace_nul_append [simp]: "replace_nul (s @ t) = replace_nul s @ replace_nul t"
  by (simp add: replace_nul_def)

lemma replace_nul_id: "nul \<notin> set s \<Longrightarrow> replace_nul s = s"
  unfolding replace_nul_def by (induction s) auto

lemma replacement_no_nul: "nul \<notin> set replacement"
  using encode_rune_bytes [of nul rune_error] by (auto simp: ord_of_def)

lemma replace_nul_no_nul: "nul \<notin> set (replace_nul s)"
  unfolding replace_nul_def using replacement_no_nul by auto

lemma replace_nul_rune: "scalar r \<Longrightarrow> valid_string (replace_nul (encode_rune r))"
proof (cases "nul \<in> set (encode_rune r)")
  case True
  then have "encode_rune r = [nul]"
    using encode_rune_bytes [OF True] by (auto simp: ord_of_def)
  then show ?thesis by (simp add: replace_nul_def valid_encode_rune)
next
  case False
  assume "scalar r"
  then show ?thesis using False by (simp add: replace_nul_id valid_encode_rune)
qed

lemma replace_nul_valid:
  assumes "valid_string s"
  shows "valid_string (replace_nul s)"
proof -
  obtain rs where "list_all scalar rs" "s = encode_runes rs"
    using assms valid_string_iff by blast
  then show ?thesis
  proof (induction rs arbitrary: s)
    case Nil
    then show ?case by (simp add: replace_nul_def)
  next
    case (Cons r rs)
    then show ?case by (auto intro!: valid_append replace_nul_rune)
  qed
qed

lemma clip_storable: "storable (clip s) \<and> length (clip s) \<le> max_error_len"
proof -
  let ?s = "replace_nul (to_valid False s)"
  have v: "valid_string ?s" by (intro replace_nul_valid to_valid_valid)
  have n: "nul \<notin> set ?s" by (rule replace_nul_no_nul)
  show ?thesis
  proof (cases "length ?s \<le> max_error_len")
    case True
    then show ?thesis using v n by (simp add: clip_def storable_def)
  next
    case False
    then have "valid_string (take (cut_back ?s max_error_len) ?s)"
      by (intro take_cut_back_valid v) simp
    moreover have "nul \<notin> set (take (cut_back ?s max_error_len) ?s)"
      using n by (auto dest: in_set_takeD)
    ultimately show ?thesis using False cut_back_le [of ?s max_error_len]
      by (simp add: clip_def storable_def Let_def)
  qed
qed

lemma clip_id: "storable s \<Longrightarrow> length s \<le> max_error_len \<Longrightarrow> clip s = s"
  by (simp add: clip_def storable_def to_valid_id replace_nul_id)

subsection \<open>The retry ladder\<close>

type_synonym ladder = "int list"

abbreviation second_ns :: int where "second_ns \<equiv> 1000000000"

definition default_ladder :: ladder where
  "default_ladder = [5 * second_ns, 30 * second_ns, 120 * second_ns, 600 * second_ns,
     3600 * second_ns, 6 * 3600 * second_ns, 12 * 3600 * second_ns]"

definition ladder_next :: "ladder \<Rightarrow> int \<Rightarrow> int option" where
  "ladder_next l attempts =
     (if attempts < 1 \<or> attempts > int (length l) then None else Some (l ! nat (attempts - 1)))"

definition ladder_exhausted :: "ladder \<Rightarrow> int \<Rightarrow> bool" where
  "ladder_exhausted l attempts \<longleftrightarrow> attempts > int (length l) + 1"

lemma ladder_next_None: "ladder_next l n = None \<longleftrightarrow> n < 1 \<or> n > int (length l)"
  by (simp add: ladder_next_def)

lemma ladder_next_mem: "ladder_next l n = Some d \<Longrightarrow> d \<in> set l"
  by (auto simp: ladder_next_def split: if_splits)

text \<open>The text of a cause, which goes into a plain-text column and a log line, is bounded and
  printable whatever a remote system answered: at most 128 characters of printable ASCII, made of
  a fixed sentence, a three-digit status and a code of letters, digits and punctuation. It is
  stored as it is: \<open>clip\<close> does not have to cut it.\<close>

theorem cause_text_is_harmless:
  assumes "built_cause c"
  shows "length (cause_text c) \<le> 128 \<and> list_all (\<lambda>b. 32 \<le> ord_of b \<and> ord_of b < 127) (cause_text c) \<and>
    clip (cause_text c) = cause_text c"
proof -
  note b = cause_text_bounded [OF assms]
  have "storable (cause_text c)"
    by (rule storable_ascii) (use b in \<open>auto simp: list_all_iff ord_of_def\<close>)
  then show ?thesis using b clip_id [of "cause_text c"] by simp
qed

theorem cause_text_is_harmless_witness:
  "clip (cause_text (with_code ''bad token!'' (with_status 401 (new_cause ClassSinkUnauthorized)))) =
     cause_text (with_code ''bad token!'' (with_status 401 (new_cause ClassSinkUnauthorized)))"
  using cause_text_is_harmless [OF built_code [OF built_status [OF built_new]]] by blast

text \<open>What \<open>clip\<close> returns can always be stored (valid UTF-8, no NUL) in its column of 1000 bytes,
  and a text that could be stored already comes back unchanged.\<close>

theorem clip_makes_storable:
  "storable (clip s) \<and> length (clip s) \<le> 1000 \<and> (clip s = s \<longleftrightarrow> storable s \<and> length s \<le> 1000)"
  using clip_storable [of s] clip_id [of s] by metis

end
