(* ===== verification/Outbox_Table.thy ===== *)
theory Outbox_Table
  imports Cause "HOL-Library.Product_Lexorder" "HOL-Library.List_Lexorder"
begin

text \<open>
  The tables \<open>outbox\<close> and \<open>outbox_record\<close> (migrations 00002 and 00005) and one definition per
  SQL statement of internal/outbox (queries.sql, as compiled into outboxdb/queries.sql.go). A
  table is the list of its rows in insertion order; an \<open>UPDATE\<close> maps over it, an \<open>INSERT\<close>
  appends. Every statement takes the transaction it runs in, because row-level security decides
  which rows it can see. \<open>now()\<close> and the ULIDs are arguments. The advisory locks serialise the
  writers of one ordering key, so each statement sequence runs here as one atomic step. The CHECK
  and UNIQUE constraints other than the two primary keys and the delivery key are not tested by
  the statements: Outbox_Inv proves that no operation ever produces a table they would refuse.
\<close>

datatype row_state = Pending | Prepared | Delivered | Dead

datatype rec_state = RPrepared | RDelivered | RDead

record row =
  r_id :: bytes
  r_seq :: nat
  r_tenant :: bytes
  r_provider :: bytes
  r_delivery_id :: bytes
  r_ordering_key :: bytes
  r_raw_body :: bytes
  r_state :: row_state
  r_is_head :: bool
  r_attempts :: nat
  r_next_attempt_at :: int
  r_lease_until :: "int option"
  r_lease_token :: "bytes option"
  r_last_error :: bytes
  r_dead_reason :: bytes
  r_accepted_at :: int
  r_prepared_at :: "int option"
  r_finished_at :: "int option"

record orec =
  x_outbox_id :: bytes
  x_record_id :: bytes
  x_pos :: nat
  x_document :: bytes
  x_op :: bytes
  x_kind :: bytes
  x_state :: rec_state
  x_dead_reason :: bytes
  x_last_error :: bytes
  x_prepared_at :: int
  x_finished_at :: "int option"

record odb =
  rows :: "row list"
  recs :: "orec list"
  next_seq :: nat

definition empty_odb :: odb where
  "empty_odb = \<lparr>rows = [], recs = [], next_seq = 1\<rparr>"

text \<open>The generated column \<open>due_at\<close>, and what the partial indexes call unfinished.\<close>

definition due_at :: "row \<Rightarrow> int" where
  "due_at r = (case r_lease_until r of None \<Rightarrow> r_next_attempt_at r | Some l \<Rightarrow> max (r_next_attempt_at r) l)"

definition unfinished :: "row \<Rightarrow> bool" where
  "unfinished r \<longleftrightarrow> r_state r = Pending \<or> r_state r = Prepared"

definition of_key :: "bytes \<Rightarrow> bytes \<Rightarrow> row \<Rightarrow> bool" where
  "of_key t k r \<longleftrightarrow> r_tenant r = t \<and> r_ordering_key r = k"

text \<open>The policies \<open>tenant_isolation\<close> and \<open>worker_claim_*\<close>.\<close>

definition visible :: "txn \<Rightarrow> row \<Rightarrow> bool" where
  "visible tx r \<longleftrightarrow> tx_cross tx \<or> tx_tenant tx = Some (r_tenant r)"

definition visible_rec :: "txn \<Rightarrow> odb \<Rightarrow> orec \<Rightarrow> bool" where
  "visible_rec tx d x \<longleftrightarrow>
     list_ex (\<lambda>r. r_id r = x_outbox_id x \<and> tx_tenant tx = Some (r_tenant r)) (rows d)"

definition update_rows :: "(row \<Rightarrow> bool) \<Rightarrow> (row \<Rightarrow> row) \<Rightarrow> odb \<Rightarrow> odb" where
  "update_rows P f d = d\<lparr>rows := map (\<lambda>r. if P r then f r else r) (rows d)\<rparr>"

definition update_recs :: "(orec \<Rightarrow> bool) \<Rightarrow> (orec \<Rightarrow> orec) \<Rightarrow> odb \<Rightarrow> odb" where
  "update_recs P f d = d\<lparr>recs := map (\<lambda>x. if P x then f x else x) (recs d)\<rparr>"

definition no_unfinished :: "bytes \<Rightarrow> bytes \<Rightarrow> odb \<Rightarrow> bool" where
  "no_unfinished t k d \<longleftrightarrow> \<not> list_ex (\<lambda>u. of_key t k u \<and> unfinished u) (rows d)"

datatype ob_error =
    ErrLeaseLost | ErrNotFound | ErrBadOrderingKey nat | ErrBadProvider | ErrNoParkReason
  | ErrNoSuchRecord bytes | ErrBadArgument | ErrBadPrepared | ErrIds id_error
  | ErrTenancy tenancy_error | ErrDb

subsection \<open>Inserting\<close>

definition insert_row :: "row \<Rightarrow> odb \<Rightarrow> ob_error + bytes option \<times> odb" where
  "insert_row r d =
     (let d1 = d\<lparr>next_seq := Suc (next_seq d)\<rparr> in
      if list_ex (\<lambda>o'. r_tenant o' = r_tenant r \<and> r_delivery_id o' = r_delivery_id r) (rows d)
      then Inr (None, d1)
      else if list_ex (\<lambda>o'. r_id o' = r_id r) (rows d) then Inl ErrDb
      else Inr (Some (r_id r), d1\<lparr>rows := rows d @ [r]\<rparr>))"

definition sql_accept ::
  "txn \<Rightarrow> int \<Rightarrow> bytes \<Rightarrow> bytes \<Rightarrow> bytes \<Rightarrow> bytes \<Rightarrow> bytes \<Rightarrow> bytes \<Rightarrow> odb
   \<Rightarrow> ob_error + bytes option \<times> odb" where
  "sql_accept tx now i tenant provider did key body d =
     (if tx_tenant tx \<noteq> Some tenant then Inl ErrDb
      else insert_row
        \<lparr>r_id = i, r_seq = next_seq d, r_tenant = tenant, r_provider = provider,
         r_delivery_id = did, r_ordering_key = key, r_raw_body = body, r_state = Pending,
         r_is_head = no_unfinished tenant key d, r_attempts = 0, r_next_attempt_at = now,
         r_lease_until = None, r_lease_token = None, r_last_error = [], r_dead_reason = [],
         r_accepted_at = now, r_prepared_at = None, r_finished_at = None\<rparr> d)"

definition sql_park ::
  "txn \<Rightarrow> int \<Rightarrow> bytes \<Rightarrow> bytes \<Rightarrow> bytes \<Rightarrow> bytes \<Rightarrow> bytes \<Rightarrow> bytes \<Rightarrow> odb
   \<Rightarrow> ob_error + bytes option \<times> odb" where
  "sql_park tx now i tenant provider did body reason d =
     (if tx_tenant tx \<noteq> Some tenant then Inl ErrDb
      else insert_row
        \<lparr>r_id = i, r_seq = next_seq d, r_tenant = tenant, r_provider = provider,
         r_delivery_id = did, r_ordering_key = did, r_raw_body = body, r_state = Dead,
         r_is_head = False, r_attempts = 0, r_next_attempt_at = now,
         r_lease_until = None, r_lease_token = None, r_last_error = [], r_dead_reason = reason,
         r_accepted_at = now, r_prepared_at = None, r_finished_at = Some now\<rparr> d)"

subsection \<open>Claiming\<close>

text \<open>\<open>locked\<close> holds the ids of the rows other transactions have locked, which
  \<open>FOR UPDATE SKIP LOCKED\<close> passes over.\<close>

definition claimable :: "int \<Rightarrow> bytes list \<Rightarrow> row \<Rightarrow> bool" where
  "claimable now locked r \<longleftrightarrow> r_is_head r \<and> due_at r \<le> now \<and> r_id r \<notin> set locked"

definition claim_candidates :: "int \<Rightarrow> bytes list \<Rightarrow> nat \<Rightarrow> odb \<Rightarrow> row list" where
  "claim_candidates now locked n d =
     take n (sort_key (\<lambda>r. (due_at r, r_seq r)) (filter (claimable now locked) (rows d)))"

definition lease_row :: "int \<Rightarrow> int \<Rightarrow> bytes \<Rightarrow> row \<Rightarrow> row" where
  "lease_row now lease token r =
     r\<lparr>r_lease_until := Some (now + lease), r_lease_token := Some token,
       r_attempts := Suc (r_attempts r)\<rparr>"

definition sql_claim ::
  "int \<Rightarrow> int \<Rightarrow> bytes \<Rightarrow> nat \<Rightarrow> bytes list \<Rightarrow> odb \<Rightarrow> (bytes \<times> bytes \<times> nat) list \<times> odb" where
  "sql_claim now lease token n locked d =
     (let cs = claim_candidates now locked n d in
      (map (\<lambda>r. (r_id r, r_tenant r, Suc (r_attempts r))) cs,
       update_rows (\<lambda>r. r_id r \<in> set (map r_id cs)) (lease_row now lease token) d))"

subsection \<open>The lease-guarded transitions\<close>

definition holds_lease :: "txn \<Rightarrow> bytes \<Rightarrow> bytes \<Rightarrow> row \<Rightarrow> bool" where
  "holds_lease tx i token r \<longleftrightarrow> visible tx r \<and> r_id r = i \<and> r_lease_token r = Some token"

definition matching :: "(row \<Rightarrow> bool) \<Rightarrow> odb \<Rightarrow> row list" where
  "matching P d = filter P (rows d)"

text \<open>\<open>:execrows\<close> statements return the number of rows they matched.\<close>

definition exec_rows :: "(row \<Rightarrow> bool) \<Rightarrow> (row \<Rightarrow> row) \<Rightarrow> odb \<Rightarrow> nat \<times> odb" where
  "exec_rows P f d = (length (matching P d), update_rows P f d)"

definition sql_mark_prepared :: "txn \<Rightarrow> int \<Rightarrow> bytes \<Rightarrow> bytes \<Rightarrow> odb \<Rightarrow> nat \<times> odb" where
  "sql_mark_prepared tx now i token =
     exec_rows (\<lambda>r. holds_lease tx i token r \<and> r_state r = Pending)
       (\<lambda>r. r\<lparr>r_state := Prepared, r_prepared_at := Some now\<rparr>)"

definition sql_retry :: "txn \<Rightarrow> int \<Rightarrow> bytes \<Rightarrow> bytes \<Rightarrow> int \<Rightarrow> bytes \<Rightarrow> odb \<Rightarrow> nat \<times> odb" where
  "sql_retry tx now i token delay err =
     exec_rows (\<lambda>r. holds_lease tx i token r \<and> unfinished r)
       (\<lambda>r. r\<lparr>r_next_attempt_at := now + delay, r_last_error := err,
              r_lease_until := None, r_lease_token := None\<rparr>)"

definition sql_halt :: "txn \<Rightarrow> int \<Rightarrow> bytes \<Rightarrow> bytes \<Rightarrow> int \<Rightarrow> bytes \<Rightarrow> odb \<Rightarrow> nat \<times> odb" where
  "sql_halt tx now i token pause err =
     exec_rows (\<lambda>r. holds_lease tx i token r \<and> unfinished r)
       (\<lambda>r. r\<lparr>r_next_attempt_at := now + pause, r_last_error := err,
              r_lease_until := None, r_lease_token := None,
              r_attempts := r_attempts r - 1\<rparr>)"

definition sql_release :: "txn \<Rightarrow> bytes \<Rightarrow> bytes \<Rightarrow> odb \<Rightarrow> nat \<times> odb" where
  "sql_release tx i token =
     exec_rows (\<lambda>r. holds_lease tx i token r \<and> unfinished r)
       (\<lambda>r. r\<lparr>r_lease_until := None, r_lease_token := None, r_attempts := r_attempts r - 1\<rparr>)"

text \<open>The two finishing statements return the ordering key, or no row.\<close>

definition finish_rows :: "(row \<Rightarrow> bool) \<Rightarrow> (row \<Rightarrow> row) \<Rightarrow> odb \<Rightarrow> bytes option \<times> odb" where
  "finish_rows P f d =
     (case matching P d of
        [] \<Rightarrow> (None, d) | r # _ \<Rightarrow> (Some (r_ordering_key r), update_rows P f d))"

definition sql_mark_delivered :: "txn \<Rightarrow> int \<Rightarrow> bytes \<Rightarrow> bytes \<Rightarrow> odb \<Rightarrow> bytes option \<times> odb" where
  "sql_mark_delivered tx now i token =
     finish_rows (\<lambda>r. holds_lease tx i token r \<and> unfinished r)
       (\<lambda>r. r\<lparr>r_state := Delivered, r_is_head := False, r_finished_at := Some now,
              r_lease_until := None, r_lease_token := None, r_last_error := []\<rparr>)"

definition sql_mark_dead ::
  "txn \<Rightarrow> int \<Rightarrow> bytes \<Rightarrow> bytes \<Rightarrow> bytes \<Rightarrow> bytes \<Rightarrow> odb \<Rightarrow> bytes option \<times> odb" where
  "sql_mark_dead tx now i token reason err =
     finish_rows (\<lambda>r. holds_lease tx i token r \<and> unfinished r)
       (\<lambda>r. r\<lparr>r_state := Dead, r_is_head := False, r_dead_reason := reason, r_last_error := err,
              r_finished_at := Some now, r_lease_until := None, r_lease_token := None\<rparr>)"

definition next_of_key :: "txn \<Rightarrow> bytes \<Rightarrow> bytes \<Rightarrow> odb \<Rightarrow> row option" where
  "next_of_key tx t k d =
     (case sort_key r_seq (filter (\<lambda>n. visible tx n \<and> of_key t k n \<and> unfinished n) (rows d)) of
        [] \<Rightarrow> None | n # _ \<Rightarrow> Some n)"

definition sql_promote :: "txn \<Rightarrow> bytes \<Rightarrow> bytes \<Rightarrow> odb \<Rightarrow> odb" where
  "sql_promote tx t k d =
     (case next_of_key tx t k d of
        None \<Rightarrow> d
      | Some n \<Rightarrow> update_rows (\<lambda>r. r_id r = r_id n) (\<lambda>r. r\<lparr>r_is_head := True\<rparr>) d)"

subsection \<open>Replay\<close>

definition has_dead_record :: "txn \<Rightarrow> bytes \<Rightarrow> odb \<Rightarrow> bool" where
  "has_dead_record tx i d \<longleftrightarrow>
     list_ex (\<lambda>x. visible_rec tx d x \<and> x_outbox_id x = i \<and> x_state x = RDead) (recs d)"

definition replayable :: "txn \<Rightarrow> bytes \<Rightarrow> odb \<Rightarrow> row \<Rightarrow> bool" where
  "replayable tx i d r \<longleftrightarrow> visible tx r \<and> r_id r = i \<and>
     (r_state r = Dead \<or> r_state r = Delivered \<and> has_dead_record tx i d)"

definition replay_row :: "odb \<Rightarrow> int \<Rightarrow> row \<Rightarrow> row" where
  "replay_row d now r =
     r\<lparr>r_seq := next_seq d,
       r_state := (if r_prepared_at r = None then Pending else Prepared),
       r_is_head := no_unfinished (r_tenant r) (r_ordering_key r) d,
       r_attempts := 0, r_next_attempt_at := now, r_dead_reason := [],
       r_finished_at := None\<rparr>"

definition sql_replay :: "txn \<Rightarrow> int \<Rightarrow> bytes \<Rightarrow> odb \<Rightarrow> nat \<times> odb" where
  "sql_replay tx now i d =
     (let n = length (matching (replayable tx i d) d) in
      (n, (update_rows (replayable tx i d) (replay_row d now) d)\<lparr>next_seq := next_seq d + n\<rparr>))"

subsection \<open>The records of one delivery\<close>

record prepared_record =
  p_record_id :: bytes
  p_document :: bytes
  p_op :: bytes
  p_kind :: bytes

text \<open>The position is the array ordinality less one. A second row under one primary key,
  or at one position of a delivery, is refused.\<close>

definition new_orec :: "int \<Rightarrow> bytes \<Rightarrow> nat \<Rightarrow> prepared_record \<Rightarrow> orec" where
  "new_orec now i n p =
     \<lparr>x_outbox_id = i, x_record_id = p_record_id p, x_pos = n, x_document = p_document p,
      x_op = p_op p, x_kind = p_kind p, x_state = RPrepared, x_dead_reason = [],
      x_last_error = [], x_prepared_at = now, x_finished_at = None\<rparr>"

definition sql_store_prepared ::
  "txn \<Rightarrow> int \<Rightarrow> bytes \<Rightarrow> prepared_record list \<Rightarrow> odb \<Rightarrow> ob_error + odb" where
  "sql_store_prepared tx now i ps d =
     (let xs = map (\<lambda>(n, p). new_orec now i n p) (enumerate 0 ps) in
      if \<not> list_all (visible_rec tx d) xs then Inl ErrDb
      else if \<not> distinct (map p_record_id ps) then Inl ErrDb
      else if list_ex (\<lambda>x. list_ex (\<lambda>y. x_outbox_id y = i \<and>
                 (x_record_id y = x_record_id x \<or> x_pos y = x_pos x)) (recs d)) xs then Inl ErrDb
      else Inr (d\<lparr>recs := recs d @ xs\<rparr>))"

definition sql_prepared_records :: "txn \<Rightarrow> bytes \<Rightarrow> odb \<Rightarrow> orec list" where
  "sql_prepared_records tx i d =
     sort_key x_pos (filter (\<lambda>x. visible_rec tx d x \<and> x_outbox_id x = i \<and> x_state x = RPrepared) (recs d))"

definition sql_mark_record_dead ::
  "txn \<Rightarrow> int \<Rightarrow> bytes \<Rightarrow> bytes \<Rightarrow> bytes \<Rightarrow> bytes \<Rightarrow> odb \<Rightarrow> nat \<times> odb" where
  "sql_mark_record_dead tx now i rid reason err d =
     (let P = (\<lambda>x. visible_rec tx d x \<and> x_outbox_id x = i \<and> x_record_id x = rid \<and> x_state x = RPrepared) in
      (length (filter P (recs d)),
       update_recs P (\<lambda>x. x\<lparr>x_state := RDead, x_dead_reason := reason, x_last_error := err,
                            x_finished_at := Some now\<rparr>) d))"

definition sql_mark_records_delivered :: "txn \<Rightarrow> int \<Rightarrow> bytes \<Rightarrow> odb \<Rightarrow> odb" where
  "sql_mark_records_delivered tx now i d =
     update_recs (\<lambda>x. visible_rec tx d x \<and> x_outbox_id x = i \<and> x_state x = RPrepared)
       (\<lambda>x. x\<lparr>x_state := RDelivered, x_finished_at := Some now\<rparr>) d"

definition sql_revive_dead_records :: "txn \<Rightarrow> bytes \<Rightarrow> odb \<Rightarrow> odb" where
  "sql_revive_dead_records tx i d =
     update_recs (\<lambda>x. visible_rec tx d x \<and> x_outbox_id x = i \<and> x_state x = RDead)
       (\<lambda>x. x\<lparr>x_state := RPrepared, x_dead_reason := [], x_last_error := [],
              x_finished_at := None\<rparr>) d"

subsection \<open>Reading\<close>

definition sql_get :: "txn \<Rightarrow> bytes \<Rightarrow> odb \<Rightarrow> row option" where
  "sql_get tx i d = find (\<lambda>r. visible tx r \<and> r_id r = i) (rows d)"

definition sql_work :: "txn \<Rightarrow> bytes \<Rightarrow> odb \<Rightarrow> (bytes \<times> row_state \<times> bytes option) option" where
  "sql_work tx i d =
     map_option (\<lambda>r. (r_provider r, r_state r,
                      if r_state r = Pending then Some (r_raw_body r) else None))
       (sql_get tx i d)"

definition stranded :: "odb \<Rightarrow> row \<Rightarrow> bool" where
  "stranded d u \<longleftrightarrow> unfinished u \<and> \<not> r_is_head u \<and>
     \<not> list_ex (\<lambda>h. of_key (r_tenant u) (r_ordering_key u) h \<and> r_is_head h) (rows d)"

definition sql_stranded_keys :: "txn \<Rightarrow> bytes \<Rightarrow> nat \<Rightarrow> odb \<Rightarrow> bytes list" where
  "sql_stranded_keys tx t n d =
     take n (sort (remdups (map r_ordering_key
       (filter (\<lambda>u. visible tx u \<and> r_tenant u = t \<and> stranded d u) (rows d)))))"

end
