(* ===== verification/Outbox.thy ===== *)
theory Outbox
  imports Outbox_Table
begin

text \<open>
  The operations of internal/outbox/outbox.go, each one transaction over the tables of
  Outbox_Table. An operation returns its Go results and the table after it; an error leaves the
  table as it was, because the transaction rolls back. The clock (\<open>now\<close>), the minted ULIDs and
  the hash are arguments. A statement the server refuses is \<open>ErrDb\<close>; losing the connection is
  not modelled (the transaction then rolls back like any other failed one).
\<close>

abbreviation max_ordering_key_len :: nat where "max_ordering_key_len \<equiv> 512"

abbreviation max_batch :: nat where "max_batch \<equiv> 1000"

record delivery =
  d_provider :: bytes
  d_ordering_key :: bytes
  d_raw_body :: bytes

record claimed =
  cl_id :: bytes
  cl_tenant :: bytes
  cl_attempt :: nat
  cl_token :: bytes

subsection \<open>Accept\<close>

definition bad_ordering_key :: "bytes \<Rightarrow> bool" where
  "bad_ordering_key k \<longleftrightarrow> k = [] \<or> length k > max_ordering_key_len \<or> \<not> storable k"

definition accept_in ::
  "(bytes \<Rightarrow> bytes) \<Rightarrow> int \<Rightarrow> bytes \<Rightarrow> bytes \<Rightarrow> delivery \<Rightarrow> txn \<Rightarrow> odb
   \<Rightarrow> ob_error + (bytes \<times> bool) \<times> odb" where
  "accept_in h now new_id tenant dl tx d =
     (if bad_ordering_key (d_ordering_key dl) then Inl (ErrBadOrderingKey (length (d_ordering_key dl)))
      else case delivery_id h (d_provider dl) (d_raw_body dl) of
        Inl e \<Rightarrow> Inl (ErrIds e)
      | Inr did \<Rightarrow>
          if \<not> storable (d_provider dl) then Inl ErrBadProvider
          else case sql_accept tx now new_id tenant (d_provider dl) did (d_ordering_key dl)
                      (d_raw_body dl) d of
            Inl e \<Rightarrow> Inl e
          | Inr (None, d') \<Rightarrow> Inr (([], False), d')
          | Inr (Some i, d') \<Rightarrow> Inr ((new_id, True), d'))"

definition accept ::
  "(bytes \<Rightarrow> bytes) \<Rightarrow> int \<Rightarrow> bytes \<Rightarrow> bytes \<Rightarrow> delivery \<Rightarrow> odb
   \<Rightarrow> (ob_error + bytes \<times> bool) \<times> odb" where
  "accept h now new_id tenant dl = tenant_tx ErrTenancy tenant (accept_in h now new_id tenant dl)"

subsection \<open>Park\<close>

datatype park_reason =
    ParkUnreasoned | ParkNoOwner | ParkAmbiguousOwner | ParkUnreadable | ParkUnverifiable
  | ParkUnstorable | ParkValue nat

fun park_reason_text :: "park_reason \<Rightarrow> bytes option" where
  "park_reason_text ParkNoOwner = Some ''unattributable: no owner''"
| "park_reason_text ParkAmbiguousOwner = Some ''unattributable: ambiguous owner''"
| "park_reason_text ParkUnreadable = Some ''unattributable: unreadable delivery''"
| "park_reason_text ParkUnverifiable = Some ''unattributable: the provider's verification panicked''"
| "park_reason_text ParkUnstorable = Some ''poison: the delivery cannot be stored''"
| "park_reason_text _ = None"

definition keeps_body :: "park_reason \<Rightarrow> bool" where
  "keeps_body r \<longleftrightarrow> r \<noteq> ParkUnreadable"

text \<open>\<open>%q\<close> of a delivery id, which is hex text, is the text between double quotes.\<close>

definition body_not_kept :: "bytes \<Rightarrow> nat \<Rightarrow> bytes" where
  \<open>body_not_kept body_delivery_id n =
     ''{"lawang":"body not kept","body_delivery_id":"'' @ body_delivery_id
       @ ''","body_bytes":'' @ show_nat n @ ''}''\<close>

definition park_in ::
  "int \<Rightarrow> bytes \<Rightarrow> bytes \<Rightarrow> bytes \<Rightarrow> bytes \<Rightarrow> bytes \<Rightarrow> txn \<Rightarrow> odb
   \<Rightarrow> ob_error + (bytes \<times> bool) \<times> odb" where
  "park_in now new_id provider did body text tx d =
     (case sql_park tx now new_id sentinel provider did body text d of
        Inl e \<Rightarrow> Inl e
      | Inr (None, d') \<Rightarrow> Inr (([], False), d')
      | Inr (Some i, d') \<Rightarrow> Inr ((i, True), d'))"

definition park ::
  "(bytes \<Rightarrow> bytes) \<Rightarrow> int \<Rightarrow> bytes \<Rightarrow> bytes \<Rightarrow> bytes \<Rightarrow> park_reason \<Rightarrow> odb
   \<Rightarrow> (ob_error + bytes \<times> bool) \<times> odb" where
  "park h now new_id provider raw_body reason d =
     (case park_reason_text reason of
        None \<Rightarrow> (Inl ErrNoParkReason, d)
      | Some text \<Rightarrow>
          (case delivery_id h provider raw_body of
             Inl e \<Rightarrow> (Inl (ErrIds e), d)
           | Inr body_id \<Rightarrow>
               if \<not> storable provider then (Inl ErrBadProvider, d)
               else
                 let body = (if keeps_body reason then raw_body
                             else body_not_kept body_id (length raw_body)) in
                 (case (if keeps_body reason then Inr body_id else delivery_id h provider body) of
                    Inl e \<Rightarrow> (Inl (ErrIds e), d)
                  | Inr did \<Rightarrow>
                      tenant_tx ErrTenancy sentinel (park_in now new_id provider did body text) d)))"

subsection \<open>Claim\<close>

fun parse_claims :: "bytes \<Rightarrow> (bytes \<times> bytes \<times> nat) list \<Rightarrow> ob_error + claimed list" where
  "parse_claims token [] = Inr []"
| "parse_claims token ((i, t, n) # cs) =
     (case parse_tenant t of
        Inl e \<Rightarrow> Inl (ErrTenancy e)
      | Inr t' \<Rightarrow>
          (case parse_claims token cs of
             Inl e \<Rightarrow> Inl e
           | Inr rest \<Rightarrow>
               Inr (\<lparr>cl_id = i, cl_tenant = t', cl_attempt = n, cl_token = token\<rparr> # rest)))"

definition claim ::
  "int \<Rightarrow> bytes \<Rightarrow> bytes list \<Rightarrow> int \<Rightarrow> int \<Rightarrow> odb \<Rightarrow> (ob_error + claimed list) \<times> odb" where
  "claim now token locked batch lease d =
     (if batch \<le> 0 \<or> lease \<le> 0 then (Inl ErrBadArgument, d)
      else role_tx (\<lambda>tx d.
        let (cs, d') = sql_claim now lease token (min (nat batch) max_batch) locked d in
        (case parse_claims token cs of Inl e \<Rightarrow> Inl e | Inr r \<Rightarrow> Inr (r, d'))) d)"

subsection \<open>Reading a row\<close>

definition get_row :: "bytes \<Rightarrow> bytes \<Rightarrow> odb \<Rightarrow> ob_error + row" where
  "get_row tenant i d =
     (if \<not> storable i then Inl ErrNotFound
      else fst (tenant_tx ErrTenancy tenant
        (\<lambda>tx d. case sql_get tx i d of None \<Rightarrow> Inl ErrNotFound | Some r \<Rightarrow> Inr (r, d)) d))"

record work =
  w_provider :: bytes
  w_state :: row_state
  w_body :: "bytes option"

definition work_of :: "claimed \<Rightarrow> odb \<Rightarrow> ob_error + work" where
  "work_of c d =
     fst (tenant_tx ErrTenancy (cl_tenant c)
       (\<lambda>tx d. case sql_work tx (cl_id c) d of
          None \<Rightarrow> Inl ErrNotFound
        | Some (p, s, b) \<Rightarrow> Inr (\<lparr>w_provider = p, w_state = s, w_body = b\<rparr>, d)) d)"

definition prepared_records :: "claimed \<Rightarrow> odb \<Rightarrow> ob_error + prepared_record list" where
  "prepared_records c d =
     fst (tenant_tx ErrTenancy (cl_tenant c)
       (\<lambda>tx d. Inr (map (\<lambda>x. \<lparr>p_record_id = x_record_id x, p_document = x_document x,
                             p_op = x_op x, p_kind = x_kind x\<rparr>)
                    (sql_prepared_records tx (cl_id c) d), d)) d)"

subsection \<open>Transitions\<close>

text \<open>\<open>held\<close> and \<open>transition\<close>.\<close>

definition held :: "nat \<times> odb \<Rightarrow> ob_error + unit \<times> odb" where
  "held r = (if fst r = 0 then Inl ErrLeaseLost else Inr ((), snd r))"

definition transition ::
  "claimed \<Rightarrow> (txn \<Rightarrow> odb \<Rightarrow> ob_error + unit \<times> odb) \<Rightarrow> odb \<Rightarrow> (ob_error + unit) \<times> odb" where
  "transition c change d =
     (if cl_token c = [] then (Inl ErrLeaseLost, d)
      else tenant_tx ErrTenancy (cl_tenant c) change d)"

definition release :: "claimed \<Rightarrow> odb \<Rightarrow> (ob_error + unit) \<times> odb" where
  "release c = transition c (\<lambda>tx d. held (sql_release tx (cl_id c) (cl_token c) d))"

definition bad_prepared :: "prepared_record \<Rightarrow> bool" where
  "bad_prepared p \<longleftrightarrow> p_record_id p = [] \<or> \<not> storable (p_record_id p) \<or>
     p_op p = [] \<or> \<not> storable (p_op p) \<or> p_kind p = [] \<or> \<not> storable (p_kind p)"

text \<open>\<open>PrepareIn\<close> runs in the caller's transaction, so it takes that transaction.\<close>

definition prepare_in ::
  "txn \<Rightarrow> int \<Rightarrow> claimed \<Rightarrow> prepared_record list \<Rightarrow> odb \<Rightarrow> ob_error + unit \<times> odb" where
  "prepare_in tx now c ps d =
     (if cl_token c = [] then Inl ErrLeaseLost
      else case held (sql_mark_prepared tx now (cl_id c) (cl_token c) d) of
        Inl e \<Rightarrow> Inl e
      | Inr (_, d') \<Rightarrow>
          if ps = [] then Inr ((), d')
          else if list_ex bad_prepared ps then Inl ErrBadPrepared
          else case sql_store_prepared tx now (cl_id c) ps d' of
            Inl e \<Rightarrow> Inl e
          | Inr d'' \<Rightarrow> Inr ((), d''))"

text \<open>\<open>finishIn\<close>: the state change, then the hand-over of the head marker.\<close>

definition finish_in ::
  "txn \<Rightarrow> claimed \<Rightarrow> (odb \<Rightarrow> ob_error + bytes option \<times> odb) \<Rightarrow> odb \<Rightarrow> ob_error + unit \<times> odb" where
  "finish_in tx c finish d =
     (case finish d of
        Inl e \<Rightarrow> Inl e
      | Inr (None, _) \<Rightarrow> Inl ErrLeaseLost
      | Inr (Some key, d') \<Rightarrow> Inr ((), sql_promote tx (cl_tenant c) key d'))"

abbreviation reason_retries_exhausted :: bytes where
  "reason_retries_exhausted \<equiv> ''retries exhausted''"

abbreviation reason_not_retryable :: bytes where
  "reason_not_retryable \<equiv> ''not retryable''"

abbreviation reason_abandoned :: bytes where
  "reason_abandoned \<equiv> ''attempts exhausted without a recorded failure''"

record dead_record =
  dr_record_id :: bytes
  dr_cause :: cause

fun mark_dead_records ::
  "txn \<Rightarrow> int \<Rightarrow> bytes \<Rightarrow> dead_record list \<Rightarrow> odb \<Rightarrow> ob_error + odb" where
  "mark_dead_records tx now i [] d = Inr d"
| "mark_dead_records tx now i (r # rs) d =
     (let (n, d') = sql_mark_record_dead tx now i (dr_record_id r) reason_not_retryable
                      (clip (cause_text (dr_cause r))) d in
      if n = 0 then Inl (ErrNoSuchRecord (dr_record_id r))
      else mark_dead_records tx now i rs d')"

definition mark_delivered_in ::
  "int \<Rightarrow> claimed \<Rightarrow> dead_record list \<Rightarrow> txn \<Rightarrow> odb \<Rightarrow> ob_error + unit \<times> odb" where
  "mark_delivered_in now c dead tx =
     finish_in tx c (\<lambda>d.
       case mark_dead_records tx now (cl_id c) dead d of
         Inl e \<Rightarrow> Inl e
       | Inr d' \<Rightarrow> Inr (sql_mark_delivered tx now (cl_id c) (cl_token c)
                        (sql_mark_records_delivered tx now (cl_id c) d')))"

definition mark_delivered ::
  "int \<Rightarrow> claimed \<Rightarrow> dead_record list \<Rightarrow> odb \<Rightarrow> (ob_error + unit) \<times> odb" where
  "mark_delivered now c dead = transition c (mark_delivered_in now c dead)"

definition halt :: "int \<Rightarrow> claimed \<Rightarrow> int \<Rightarrow> cause \<Rightarrow> odb \<Rightarrow> (ob_error + unit) \<times> odb" where
  "halt now c pause cs d =
     (if pause \<le> 0 then (Inl ErrBadArgument, d)
      else transition c (\<lambda>tx d.
        held (sql_halt tx now (cl_id c) (cl_token c) pause (clip (cause_text cs)) d)) d)"

definition mark_dead_reason ::
  "int \<Rightarrow> claimed \<Rightarrow> bytes \<Rightarrow> cause \<Rightarrow> odb \<Rightarrow> (ob_error + unit) \<times> odb" where
  "mark_dead_reason now c reason cs =
     transition c (\<lambda>tx. finish_in tx c (\<lambda>d.
       Inr (sql_mark_dead tx now (cl_id c) (cl_token c) reason (clip (cause_text cs)) d)))"

definition mark_dead :: "int \<Rightarrow> claimed \<Rightarrow> cause \<Rightarrow> odb \<Rightarrow> (ob_error + unit) \<times> odb" where
  "mark_dead now c cs = mark_dead_reason now c reason_not_retryable cs"

definition mark_abandoned :: "int \<Rightarrow> claimed \<Rightarrow> odb \<Rightarrow> (ob_error + unit) \<times> odb" where
  "mark_abandoned now c = mark_dead_reason now c reason_abandoned (new_cause ClassWorkerLost)"

definition fail :: "int \<Rightarrow> claimed \<Rightarrow> ladder \<Rightarrow> cause \<Rightarrow> odb \<Rightarrow> (ob_error + unit) \<times> odb" where
  "fail now c l cs =
     (case ladder_next l (int (cl_attempt c)) of
        None \<Rightarrow> mark_dead_reason now c reason_retries_exhausted cs
      | Some delay \<Rightarrow> transition c (\<lambda>tx d.
          held (sql_retry tx now (cl_id c) (cl_token c) delay (clip (cause_text cs)) d)))"

subsection \<open>Replay and detection\<close>

definition replay_in :: "int \<Rightarrow> bytes \<Rightarrow> txn \<Rightarrow> odb \<Rightarrow> ob_error + nat \<times> odb" where
  "replay_in now i tx d =
     (let (n, d') = sql_replay tx now i d in
      if n = 0 then Inr (0, d') else Inr (n, sql_revive_dead_records tx i d'))"

definition replay :: "int \<Rightarrow> bytes \<Rightarrow> bytes \<Rightarrow> odb \<Rightarrow> (ob_error + unit) \<times> odb" where
  "replay now tenant i d =
     (if \<not> storable i then (Inl ErrNotFound, d)
      else case tenant_tx ErrTenancy tenant (replay_in now i) d of
        (Inl e, d') \<Rightarrow> (Inl e, d')
      | (Inr n, d') \<Rightarrow> (if n = 0 then (Inl ErrNotFound, d') else (Inr (), d')))"

definition stranded_keys :: "bytes \<Rightarrow> int \<Rightarrow> odb \<Rightarrow> ob_error + bytes list" where
  "stranded_keys tenant limit d =
     (if limit \<le> 0 then Inl ErrBadArgument
      else fst (tenant_tx ErrTenancy tenant
        (\<lambda>tx d. Inr (sql_stranded_keys tx tenant (min (nat limit) max_batch) d, d)) d))"

end
