(* ===== verification/Outbox_Inv.thy ===== *)
theory Outbox_Inv
  imports Outbox
begin

text \<open>
  The invariant of the outbox tables and its preservation by every operation: identities are
  unique, the head marker sits on exactly the earliest unfinished row of each ordering key, a
  lease is held only on a head, and the records of a delivery agree with its row. The CHECK and
  UNIQUE constraints of the migrations are consequences, so no operation is ever refused by one.
\<close>

definition ids_ok :: "odb \<Rightarrow> bool" where
  "ids_ok d \<longleftrightarrow> distinct (map r_id (rows d)) \<and> distinct (map r_seq (rows d)) \<and>
     distinct (map (\<lambda>r. (r_tenant r, r_delivery_id r)) (rows d)) \<and>
     (\<forall>r \<in> set (rows d). r_seq r < next_seq d)"

definition first_of_key :: "odb \<Rightarrow> row \<Rightarrow> bool" where
  "first_of_key d r \<longleftrightarrow> unfinished r \<and>
     (\<forall>u \<in> set (rows d). of_key (r_tenant r) (r_ordering_key r) u \<and> unfinished u \<longrightarrow> r_seq r \<le> r_seq u)"

definition heads_ok :: "odb \<Rightarrow> bool" where
  "heads_ok d \<longleftrightarrow> (\<forall>r \<in> set (rows d). r_is_head r \<longleftrightarrow> first_of_key d r)"

definition row_ok :: "row \<Rightarrow> bool" where
  "row_ok r \<longleftrightarrow> valid_tenant (r_tenant r) \<and> r_provider r \<noteq> [] \<and> r_delivery_id r \<noteq> [] \<and>
     \<not> bad_ordering_key (r_ordering_key r) \<and>
     (r_lease_until r = None \<longleftrightarrow> r_lease_token r = None) \<and> (r_lease_token r \<noteq> None \<longrightarrow> r_is_head r) \<and>
     (r_state r = Pending \<longrightarrow> r_prepared_at r = None) \<and> (r_state r = Prepared \<longrightarrow> r_prepared_at r \<noteq> None) \<and>
     (unfinished r \<longleftrightarrow> r_finished_at r = None)"

definition orec_ok :: "orec \<Rightarrow> bool" where
  "orec_ok x \<longleftrightarrow> x_record_id x \<noteq> [] \<and> x_op x \<noteq> [] \<and> x_kind x \<noteq> [] \<and>
     (x_state x = RPrepared \<longleftrightarrow> x_finished_at x = None) \<and>
     (x_dead_reason x \<noteq> [] \<longleftrightarrow> x_state x = RDead)"

definition recs_ok :: "odb \<Rightarrow> bool" where
  "recs_ok d \<longleftrightarrow> distinct (map (\<lambda>x. (x_outbox_id x, x_record_id x)) (recs d)) \<and>
     distinct (map (\<lambda>x. (x_outbox_id x, x_pos x)) (recs d)) \<and>
     (\<forall>x \<in> set (recs d). orec_ok x \<and>
        (\<exists>r \<in> set (rows d). r_id r = x_outbox_id x \<and> r_prepared_at r \<noteq> None \<and>
           (r_state r = Delivered \<longrightarrow> x_state x \<noteq> RPrepared)))"

definition ob_inv :: "odb \<Rightarrow> bool" where
  "ob_inv d \<longleftrightarrow> ids_ok d \<and> heads_ok d \<and> (\<forall>r \<in> set (rows d). row_ok r) \<and> recs_ok d"

lemma ob_inv_empty: "ob_inv empty_odb"
  by (simp add: ob_inv_def empty_odb_def ids_ok_def heads_ok_def recs_ok_def)

subsection \<open>Statements that touch one row or none\<close>

lemma rows_update_rows [simp]: "rows (update_rows P f d) = map (\<lambda>r. if P r then f r else r) (rows d)"
  and recs_update_rows [simp]: "recs (update_rows P f d) = recs d"
  and next_seq_update_rows [simp]: "next_seq (update_rows P f d) = next_seq d"
  and rows_update_recs [simp]: "rows (update_recs P' f' d) = rows d"
  and recs_update_recs [simp]: "recs (update_recs P' f' d) = map (\<lambda>x. if P' x then f' x else x) (recs d)"
  and next_seq_update_recs [simp]: "next_seq (update_recs P' f' d) = next_seq d"
  by (simp_all add: update_rows_def update_recs_def)

lemma visible_bound: "visible \<lparr>tx_cross = False, tx_tenant = Some t\<rparr> r \<longleftrightarrow> r_tenant r = t"
  by (auto simp: visible_def)

lemma bound_txn [simp]: "tx_tenant \<lparr>tx_cross = c, tx_tenant = t\<rparr> = t" "tx_cross \<lparr>tx_cross = c, tx_tenant = t\<rparr> = c"
  by simp_all

text \<open>What identifies a row and places it in its queue. A statement that changes nothing of it
  keeps the identities and the head marker's rule.\<close>

definition place :: "row \<Rightarrow> bytes \<times> nat \<times> bytes \<times> bytes \<times> bytes \<times> bool" where
  "place r = (r_id r, r_seq r, r_tenant r, r_ordering_key r, r_delivery_id r, unfinished r)"

definition skeleton :: "row \<Rightarrow> (bytes \<times> nat \<times> bytes \<times> bytes \<times> bytes \<times> bool) \<times> bool" where
  "skeleton r = (place r, r_is_head r)"

text \<open>The sequence numbers of the unfinished rows of a key: its queue, as a set.\<close>

definition live :: "odb \<Rightarrow> bytes \<Rightarrow> bytes \<Rightarrow> nat set" where
  "live d t k = r_seq ` set (filter (\<lambda>u. of_key t k u \<and> unfinished u) (rows d))"

lemma first_of_key_live:
  "first_of_key d r \<longleftrightarrow> unfinished r \<and> (\<forall>s \<in> live d (r_tenant r) (r_ordering_key r). r_seq r \<le> s)"
  by (auto simp: first_of_key_def live_def)

lemma no_unfinished_live: "no_unfinished t k d \<longleftrightarrow> live d t k = {}"
  by (auto simp: no_unfinished_def live_def list_ex_iff filter_empty_conv)

lemma live_less: "ids_ok d \<Longrightarrow> s \<in> live d t k \<Longrightarrow> s < next_seq d"
  by (auto simp: live_def ids_ok_def)

lemma live_map:
  assumes "\<And>r. r \<in> set (rows d) \<Longrightarrow> place (g r) = place r" and "rows d' = map g (rows d)"
  shows "live d' = live d"
proof (intro ext)
  fix t k
  have "filter (\<lambda>u. of_key t k u \<and> unfinished u) (rows d') =
        map g (filter (\<lambda>u. of_key t k u \<and> unfinished u) (rows d))"
    unfolding assms(2) filter_map o_def
    by (rule arg_cong [where f = "map g"], rule filter_cong [OF refl])
      (use assms(1) in \<open>simp add: place_def of_key_def\<close>)
  then show "live d' t k = live d t k"
    unfolding live_def using assms(1) by (auto simp: image_image place_def intro!: image_cong)
qed

lemma ids_ok_ident:
  assumes "ids_ok d" and "\<And>r. r \<in> set (rows d) \<Longrightarrow> r_id (g r) = r_id r \<and> r_seq (g r) = r_seq r \<and>
      r_tenant (g r) = r_tenant r \<and> r_delivery_id (g r) = r_delivery_id r"
    and "rows d' = map g (rows d)" and "next_seq d' = next_seq d"
  shows "ids_ok d'"
proof -
  have "map r_id (rows d') = map r_id (rows d)" "map r_seq (rows d') = map r_seq (rows d)"
    "map (\<lambda>r. (r_tenant r, r_delivery_id r)) (rows d') = map (\<lambda>r. (r_tenant r, r_delivery_id r)) (rows d)"
    using assms(2) unfolding assms(3) by simp_all
  moreover have "\<forall>r \<in> set (rows d'). r_seq r < next_seq d'"
    using assms(1,2) unfolding assms(3,4) by (simp add: ids_ok_def)
  ultimately show ?thesis using assms(1) unfolding ids_ok_def by simp
qed

lemma ids_ok_map:
  assumes "ids_ok d" and "\<And>r. r \<in> set (rows d) \<Longrightarrow> place (g r) = place r"
    and "rows d' = map g (rows d)" and "next_seq d' = next_seq d"
  shows "ids_ok d'"
  by (rule ids_ok_ident [OF assms(1) _ assms(3,4)]) (use assms(2) in \<open>simp add: place_def\<close>)

lemma first_of_key_image:
  assumes "\<And>r. r \<in> set (rows d) \<Longrightarrow> place (g r) = place r" and "rows d' = map g (rows d)"
    and "r \<in> set (rows d)"
  shows "first_of_key d' (g r) \<longleftrightarrow> first_of_key d r"
  using assms(1) [OF assms(3)] live_map [OF assms(1,2)] by (simp add: first_of_key_live place_def)

lemma skeleton_place: "skeleton q = skeleton r \<Longrightarrow> place q = place r"
  by (simp add: skeleton_def)

lemma heads_ok_map:
  assumes "heads_ok d" and "\<And>r. r \<in> set (rows d) \<Longrightarrow> skeleton (g r) = skeleton r"
    and "rows d' = map g (rows d)"
  shows "heads_ok d'"
proof -
  have "r_is_head (g r) \<longleftrightarrow> first_of_key d' (g r)" if "r \<in> set (rows d)" for r
    using first_of_key_image [OF skeleton_place [OF assms(2)] assms(3) that] assms(1) assms(2) [OF that] that
    by (simp add: heads_ok_def skeleton_def)
  then show ?thesis unfolding heads_ok_def assms(3) by simp
qed

lemma recs_ok_map:
  assumes "recs_ok d"
    and "\<And>r. r \<in> set (rows d) \<Longrightarrow> r_id (g r) = r_id r \<and>
           (r_prepared_at r \<noteq> None \<longrightarrow> r_prepared_at (g r) \<noteq> None) \<and>
           (r_state (g r) = Delivered \<longrightarrow> r_state r = Delivered \<or>
              (\<forall>x \<in> set (recs d). x_outbox_id x = r_id r \<longrightarrow> x_state x \<noteq> RPrepared))"
    and "rows d' = map g (rows d)" and "recs d' = recs d"
  shows "recs_ok d'"
proof -
  have "\<exists>q \<in> set (rows d'). r_id q = x_outbox_id x \<and> r_prepared_at q \<noteq> None \<and>
           (r_state q = Delivered \<longrightarrow> x_state x \<noteq> RPrepared)" if x: "x \<in> set (recs d)" for x
  proof -
    from assms(1) x obtain r where r: "r \<in> set (rows d)" "r_id r = x_outbox_id x"
      "r_prepared_at r \<noteq> None" "r_state r = Delivered \<longrightarrow> x_state x \<noteq> RPrepared"
      unfolding recs_ok_def by blast
    show ?thesis
      by (rule bexI [of _ "g r"]) (use r x assms(2) [OF r(1)] assms(3) in auto)
  qed
  then show ?thesis using assms(1) unfolding recs_ok_def assms(4) by blast
qed

lemma ob_inv_map:
  assumes "ob_inv d"
    and "\<And>r. r \<in> set (rows d) \<Longrightarrow> skeleton (g r) = skeleton r \<and> row_ok (g r) \<and>
           (r_prepared_at r \<noteq> None \<longrightarrow> r_prepared_at (g r) \<noteq> None) \<and>
           (r_state (g r) = Delivered \<longrightarrow> r_state r = Delivered)"
    and "rows d' = map g (rows d)" and "next_seq d' = next_seq d" and "recs d' = recs d"
  shows "ob_inv d'"
proof -
  have sk: "\<And>r. r \<in> set (rows d) \<Longrightarrow> skeleton (g r) = skeleton r"
    and rec: "\<And>r. r \<in> set (rows d) \<Longrightarrow> r_id (g r) = r_id r \<and>
           (r_prepared_at r \<noteq> None \<longrightarrow> r_prepared_at (g r) \<noteq> None) \<and>
           (r_state (g r) = Delivered \<longrightarrow> r_state r = Delivered \<or>
              (\<forall>x \<in> set (recs d). x_outbox_id x = r_id r \<longrightarrow> x_state x \<noteq> RPrepared))"
    using assms(2) by (simp_all add: skeleton_def place_def)
  have "ids_ok d'" "heads_ok d'" "recs_ok d'"
    using assms(1) ids_ok_map [OF _ skeleton_place [OF sk] assms(3,4)] heads_ok_map [OF _ sk assms(3)]
      recs_ok_map [OF _ rec assms(3,5)] by (simp_all add: ob_inv_def)
  then show ?thesis using assms(2) unfolding ob_inv_def assms(3) by simp
qed

lemma ob_inv_row: "ob_inv d \<Longrightarrow> r \<in> set (rows d) \<Longrightarrow> row_ok r"
  by (simp add: ob_inv_def)

lemma ob_inv_update:
  assumes "ob_inv d"
    and "\<And>r. r \<in> set (rows d) \<Longrightarrow> P r \<Longrightarrow> row_ok r \<Longrightarrow> skeleton (f r) = skeleton r \<and> row_ok (f r) \<and>
           (r_prepared_at r \<noteq> None \<longrightarrow> r_prepared_at (f r) \<noteq> None) \<and>
           (r_state (f r) = Delivered \<longrightarrow> r_state r = Delivered)"
  shows "ob_inv (update_rows P f d)"
  by (rule ob_inv_map [OF assms(1), where g = "\<lambda>r. if P r then f r else r"])
    (use assms ob_inv_row [OF assms(1)] in simp_all)

lemmas one_row_defs = sql_mark_prepared_def sql_retry_def sql_halt_def sql_release_def exec_rows_def
  holds_lease_def

lemma held_ok: "held r = Inr (u, d') \<longleftrightarrow> fst r \<noteq> 0 \<and> d' = snd r"
  by (auto simp: held_def)

lemma ob_inv_mark_prepared: "ob_inv d \<Longrightarrow> ob_inv (snd (sql_mark_prepared tx now i tok d))"
  unfolding one_row_defs snd_conv
  by (erule ob_inv_update) (simp add: skeleton_def place_def row_ok_def unfinished_def)

lemma ob_inv_retry: "ob_inv d \<Longrightarrow> ob_inv (snd (sql_retry tx now i tok dl e d))"
  unfolding one_row_defs snd_conv
  by (erule ob_inv_update) (simp add: skeleton_def place_def row_ok_def unfinished_def)

lemma ob_inv_halt: "ob_inv d \<Longrightarrow> ob_inv (snd (sql_halt tx now i tok p e d))"
  unfolding one_row_defs snd_conv
  by (erule ob_inv_update) (simp add: skeleton_def place_def row_ok_def unfinished_def)

lemma ob_inv_release: "ob_inv d \<Longrightarrow> ob_inv (snd (sql_release tx i tok d))"
  unfolding one_row_defs snd_conv
  by (erule ob_inv_update) (simp add: skeleton_def place_def row_ok_def unfinished_def)

lemma claim_candidates_rows:
  "r \<in> set (claim_candidates now locked n d) \<Longrightarrow> r \<in> set (rows d) \<and> claimable now locked r"
  by (auto simp: claim_candidates_def dest!: in_set_takeD)

lemma ids_inj: "ids_ok d \<Longrightarrow> r \<in> set (rows d) \<Longrightarrow> q \<in> set (rows d) \<Longrightarrow> r_id r = r_id q \<Longrightarrow> r = q"
  by (auto simp: ids_ok_def dest: distinct_map_inj)

lemma ob_inv_ids: "ob_inv d \<Longrightarrow> ids_ok d"
  by (simp add: ob_inv_def)

lemma claimed_rows_claimable:
  assumes "ids_ok d" and "r \<in> set (rows d)"
    and "r_id r \<in> r_id ` set (claim_candidates now locked n d)"
  shows "claimable now locked r"
proof -
  from assms(3) obtain q where q: "q \<in> set (claim_candidates now locked n d)" "r_id q = r_id r" by force
  then have "q = r" using ids_inj [OF assms(1) _ assms(2)] claim_candidates_rows by blast
  then show ?thesis using claim_candidates_rows q(1) by blast
qed

lemma ob_inv_claim: "ob_inv d \<Longrightarrow> ob_inv (snd (sql_claim now lease tok n locked d))"
  unfolding sql_claim_def Let_def snd_conv
  by (frule ob_inv_ids, erule ob_inv_update)
    (use claimed_rows_claimable in \<open>fastforce simp: claimable_def skeleton_def place_def row_ok_def lease_row_def unfinished_def\<close>)

subsection \<open>Promoting the next delivery of a key\<close>

definition headless :: "bytes \<Rightarrow> bytes \<Rightarrow> odb \<Rightarrow> bool" where
  "headless t k d \<longleftrightarrow>
     (\<forall>r \<in> set (rows d). if of_key t k r then \<not> r_is_head r else r_is_head r = first_of_key d r)"

abbreviation bound :: "bytes \<Rightarrow> txn" where
  "bound t \<equiv> \<lparr>tx_cross = False, tx_tenant = Some t\<rparr>"

lemma list_option_None: "(case zs of [] \<Rightarrow> None | n # _ \<Rightarrow> Some n) = None \<longleftrightarrow> zs = []"
  by (cases zs) simp_all

lemma next_of_key_None: "next_of_key (bound t) t k d = None \<longleftrightarrow> live d t k = {}"
proof -
  have "filter (\<lambda>n. visible (bound t) n \<and> of_key t k n \<and> unfinished n) (rows d) =
        filter (\<lambda>n. of_key t k n \<and> unfinished n) (rows d)"
    by (rule filter_cong) (auto simp: visible_def of_key_def)
  moreover have "sort_key r_seq xs = [] \<longleftrightarrow> xs = []" for xs :: "row list"
    by (metis set_empty set_sort)
  ultimately have "next_of_key (bound t) t k d = None \<longleftrightarrow> filter (\<lambda>n. of_key t k n \<and> unfinished n) (rows d) = []"
    unfolding next_of_key_def by (simp only: list_option_None)
  then show ?thesis by (auto simp: live_def filter_empty_conv)
qed

lemma next_of_key_Some:
  assumes "next_of_key (bound t) t k d = Some n"
  shows "n \<in> set (rows d) \<and> of_key t k n \<and> first_of_key d n"
proof -
  define xs where "xs = filter (\<lambda>n. visible (bound t) n \<and> of_key t k n \<and> unfinished n) (rows d)"
  obtain ys where ys: "sort_key r_seq xs = n # ys"
    using assms unfolding next_of_key_def xs_def [symmetric] by (auto split: list.splits)
  have sx: "set xs = {n \<in> set (rows d). of_key t k n \<and> unfinished n}"
    unfolding xs_def by (auto simp: visible_def of_key_def)
  have "set (sort_key r_seq xs) = set xs" "sorted (map r_seq (sort_key r_seq xs))" by simp_all
  then have "n \<in> set xs" "\<forall>u \<in> set xs. r_seq n \<le> r_seq u" unfolding ys by auto
  then show ?thesis unfolding sx by (auto simp: first_of_key_def of_key_def)
qed

lemma seq_inj: "ids_ok d \<Longrightarrow> r \<in> set (rows d) \<Longrightarrow> q \<in> set (rows d) \<Longrightarrow> r_seq r = r_seq q \<Longrightarrow> r = q"
  by (auto simp: ids_ok_def dest: distinct_map_inj)

lemma first_of_key_unique:
  assumes "ids_ok d" "r \<in> set (rows d)" "q \<in> set (rows d)" "of_key t k r" "of_key t k q"
    "first_of_key d r" "first_of_key d q"
  shows "r = q"
proof -
  have "r_seq r \<le> r_seq q" "r_seq q \<le> r_seq r"
    using assms(2-7) by (auto simp: first_of_key_def of_key_def)
  then show ?thesis using seq_inj [OF assms(1-3)] by simp
qed

definition mark_head :: "bytes option \<Rightarrow> row \<Rightarrow> row" where
  "mark_head i r = (if i = Some (r_id r) then r\<lparr>r_is_head := True\<rparr> else r)"

lemma place_mark_head [simp]: "place (mark_head i r) = place r"
  by (simp add: mark_head_def place_def unfinished_def)

lemma mark_head_sel [simp]:
  "r_id (mark_head i r) = r_id r" "r_state (mark_head i r) = r_state r"
  "r_prepared_at (mark_head i r) = r_prepared_at r" "r_attempts (mark_head i r) = r_attempts r"
  by (simp_all add: mark_head_def)

lemma row_ok_mark_head: "row_ok r \<Longrightarrow> row_ok (mark_head i r)"
  by (simp add: mark_head_def row_ok_def unfinished_def)

lemma promote_rows:
  "rows (sql_promote tx t k d) = map (mark_head (map_option r_id (next_of_key tx t k d))) (rows d)"
  "recs (sql_promote tx t k d) = recs d" "next_seq (sql_promote tx t k d) = next_seq d"
  unfolding sql_promote_def
  by (cases "next_of_key tx t k d"; auto simp: mark_head_def map_idI)+

lemma promote_ids_ok: "ids_ok d \<Longrightarrow> ids_ok (sql_promote tx t k d)"
  by (rule ids_ok_map [OF _ place_mark_head promote_rows(1) promote_rows(3)])

lemma promote_live: "live (sql_promote tx t k d) = live d"
  by (rule live_map [OF place_mark_head promote_rows(1)])

lemma promote_recs_ok: "recs_ok d \<Longrightarrow> recs_ok (sql_promote tx t k d)"
  by (rule recs_ok_map [OF _ _ promote_rows(1,2)]) simp_all

lemma promote_heads_ok:
  assumes ids: "ids_ok d" and hl: "headless t k d"
  shows "heads_ok (sql_promote (bound t) t k d)"
proof (cases "next_of_key (bound t) t k d")
  case None
  then have "live d t k = {}" by (simp add: next_of_key_None)
  then have "\<not> first_of_key d r" if "r \<in> set (rows d)" "of_key t k r" for r
    using that by (auto simp: first_of_key_def live_def filter_empty_conv)
  then show ?thesis using hl None by (auto simp: heads_ok_def headless_def sql_promote_def split: if_splits)
next
  case (Some n)
  define g where "g = mark_head (Some (r_id n))"
  have n: "n \<in> set (rows d)" "of_key t k n" "first_of_key d n" using next_of_key_Some [OF Some] by auto
  have rows': "rows (sql_promote (bound t) t k d) = map g (rows d)"
    unfolding g_def by (simp add: promote_rows Some)
  have "r_is_head (g r) \<longleftrightarrow> first_of_key (sql_promote (bound t) t k d) (g r)" if r: "r \<in> set (rows d)" for r
  proof -
    have "first_of_key (sql_promote (bound t) t k d) (g r) \<longleftrightarrow> first_of_key d r"
      by (rule first_of_key_image [OF _ rows' r]) (simp add: g_def)
    moreover have "r_is_head (g r) \<longleftrightarrow> first_of_key d r"
    proof (cases "r = n")
      case True then show ?thesis using n(3) by (simp add: g_def mark_head_def)
    next
      case False
      then have "g r = r" using ids_inj [OF ids r n(1)] by (auto simp: g_def mark_head_def)
      then show ?thesis using hl r first_of_key_unique [OF ids r n(1) _ n(2) _ n(3)] False
        by (auto simp: headless_def split: if_splits)
    qed
    ultimately show ?thesis by simp
  qed
  then show ?thesis unfolding heads_ok_def rows' by simp
qed

subsection \<open>Finishing a delivery\<close>

text \<open>A statement that changes the one row \<open>r0\<close>.\<close>

definition one_row :: "odb \<Rightarrow> (row \<Rightarrow> bool) \<Rightarrow> row \<Rightarrow> bool" where
  "one_row d P r0 \<longleftrightarrow> r0 \<in> set (rows d) \<and> (\<forall>r \<in> set (rows d). P r = (r = r0))"

lemma one_rowI: "ids_ok d \<Longrightarrow> r0 \<in> set (rows d) \<Longrightarrow> P r0 \<Longrightarrow> (\<And>r. P r \<Longrightarrow> r_id r = r_id r0) \<Longrightarrow> one_row d P r0"
  unfolding one_row_def using ids_inj by blast

lemma rows_one_row:
  "one_row d P r0 \<Longrightarrow> rows (update_rows P f d) = map (\<lambda>r. if r = r0 then f r0 else r) (rows d)"
  by (auto simp: one_row_def)

text \<open>The queue of a key after one row of the table is changed: what was in it, less the row's
  old place, with its new one when it is unfinished.\<close>

lemma live_one_row:
  assumes "ids_ok d" "one_row d P r0" "of_key t k (f r0) = of_key t k r0"
  shows "live (update_rows P f d) t k =
    (live d t k - (if of_key t k r0 then {r_seq r0} else {})) \<union>
    (if of_key t k r0 \<and> unfinished (f r0) then {r_seq (f r0)} else {})"
proof -
  let ?g = "\<lambda>r. if r = r0 then f r0 else r"
  have r0: "r0 \<in> set (rows d)" using assms(2) by (simp add: one_row_def)
  have sq: "r \<in> set (rows d) \<Longrightarrow> r_seq r = r_seq r0 \<Longrightarrow> r = r0" for r
    using seq_inj [OF assms(1) _ r0] by blast
  have "live (update_rows P f d) t k = r_seq ` {u \<in> ?g ` set (rows d). of_key t k u \<and> unfinished u}"
    unfolding live_def rows_one_row [OF assms(2)] by simp
  also have "{u \<in> ?g ` set (rows d). of_key t k u \<and> unfinished u} =
     {u \<in> set (rows d). u \<noteq> r0 \<and> of_key t k u \<and> unfinished u} \<union>
     (if of_key t k r0 \<and> unfinished (f r0) then {f r0} else {})"
    using r0 assms(3) by (auto split: if_splits)
  also have "r_seq ` \<dots> = r_seq ` {u \<in> set (rows d). u \<noteq> r0 \<and> of_key t k u \<and> unfinished u} \<union>
     (if of_key t k r0 \<and> unfinished (f r0) then {r_seq (f r0)} else {})"
    by (simp add: image_Un)
  also have "r_seq ` {u \<in> set (rows d). u \<noteq> r0 \<and> of_key t k u \<and> unfinished u} =
     live d t k - (if of_key t k r0 then {r_seq r0} else {})"
    unfolding live_def using sq by (auto simp: image_iff)
  finally show ?thesis .
qed

lemma head_first: "ob_inv d \<Longrightarrow> r \<in> set (rows d) \<Longrightarrow> r_is_head r = first_of_key d r"
  by (simp add: ob_inv_def heads_ok_def)

text \<open>Finishing the head of a key leaves the key without a head and every other key as it was.\<close>

lemma finish_headless:
  assumes inv: "ob_inv d" and P: "one_row d P r0" and head: "r_is_head r0"
    and f: "r_tenant (f r0) = r_tenant r0" "r_ordering_key (f r0) = r_ordering_key r0"
      "\<not> unfinished (f r0)" "\<not> r_is_head (f r0)"
  shows "headless (r_tenant r0) (r_ordering_key r0) (update_rows P f d)"
proof -
  have r0: "r0 \<in> set (rows d)" using P by (simp add: one_row_def)
  have ok: "of_key t k (f r0) = of_key t k r0" for t k using f by (simp add: of_key_def)
  have "if of_key (r_tenant r0) (r_ordering_key r0) r then \<not> r_is_head r
        else r_is_head r = first_of_key (update_rows P f d) r"
    if r: "r \<in> set (rows d)" "r \<noteq> r0" for r
  proof (cases "of_key (r_tenant r0) (r_ordering_key r0) r")
    case True
    then show ?thesis
      using first_of_key_unique [OF ob_inv_ids [OF inv] r(1) r0 True] r head head_first [OF inv]
        head_first [OF inv r0] by (auto simp: of_key_def)
  next
    case False
    then have "\<not> of_key (r_tenant r) (r_ordering_key r) r0" by (auto simp: of_key_def)
    then have "live (update_rows P f d) (r_tenant r) (r_ordering_key r) =
        live d (r_tenant r) (r_ordering_key r)"
      using live_one_row [OF ob_inv_ids [OF inv] P, where f = f and t = "r_tenant r" and k = "r_ordering_key r"] ok
      by simp
    then show ?thesis using False head_first [OF inv r(1)] by (simp add: first_of_key_live)
  qed
  then show ?thesis unfolding headless_def rows_one_row [OF P] using f by (auto simp: of_key_def)
qed

lemma ids_ok_one_row:
  assumes "ids_ok d" "one_row d P r0" and "r_id (f r0) = r_id r0 \<and> r_seq (f r0) = r_seq r0 \<and>
      r_tenant (f r0) = r_tenant r0 \<and> r_delivery_id (f r0) = r_delivery_id r0"
  shows "ids_ok (update_rows P f d)"
  by (rule ids_ok_ident [OF assms(1) _ rows_one_row [OF assms(2)]]) (use assms(3) in simp_all)

lemma finish_promote:
  assumes inv: "ob_inv d" and P: "one_row d P r0" and head: "r_is_head r0"
    and f: "place (f r0) = (r_id r0, r_seq r0, r_tenant r0, r_ordering_key r0, r_delivery_id r0, False)"
      "\<not> r_is_head (f r0)" "row_ok (f r0)" "r_prepared_at (f r0) = r_prepared_at r0"
      "r_state (f r0) = Delivered \<longrightarrow> (\<forall>x \<in> set (recs d). x_outbox_id x = r_id r0 \<longrightarrow> x_state x \<noteq> RPrepared)"
  shows "ob_inv (sql_promote (bound (r_tenant r0)) (r_tenant r0) (r_ordering_key r0) (update_rows P f d))"
    (is "ob_inv ?d'")
proof -
  have ids: "ids_ok (update_rows P f d)"
    by (rule ids_ok_one_row [OF ob_inv_ids [OF inv] P]) (use f(1) in \<open>simp add: place_def\<close>)
  have "heads_ok ?d'"
    by (rule promote_heads_ok [OF ids finish_headless [OF inv P head]])
      (use f in \<open>simp_all add: place_def\<close>)
  moreover have "recs_ok (update_rows P f d)"
    by (rule recs_ok_map [OF _ _ rows_one_row [OF P]])
      (use inv f in \<open>auto simp: ob_inv_def place_def\<close>)
  then have "recs_ok ?d'" by (rule promote_recs_ok)
  moreover have "\<forall>r \<in> set (rows (update_rows P f d)). row_ok r"
    unfolding rows_one_row [OF P] using inv f(3) by (auto simp: ob_inv_def)
  then have "\<forall>r \<in> set (rows ?d'). row_ok r" by (auto simp: promote_rows intro: row_ok_mark_head)
  ultimately show ?thesis using promote_ids_ok [OF ids] unfolding ob_inv_def by blast
qed

end
