(* ===== verification/Outbox_Reach.thy ===== *)
theory Outbox_Reach
  imports Outbox_Inv
begin

text \<open>
  Every operation of the outbox keeps the invariant of Outbox_Inv, whoever calls it and with
  whatever claim; the step relation of the tables under all of them, and its reachable states.
\<close>

subsection \<open>Inserting and replaying\<close>

lemma ids_ok_seq: "ids_ok d \<Longrightarrow> ids_ok (d\<lparr>next_seq := Suc (next_seq d)\<rparr>)"
  by (auto simp: ids_ok_def less_Suc_eq)

lemma first_of_key_rows: "rows d' = rows d \<Longrightarrow> first_of_key d' r = first_of_key d r"
  by (simp add: first_of_key_def)

lemma ob_inv_seq: "ob_inv d \<Longrightarrow> ob_inv (d\<lparr>next_seq := Suc (next_seq d)\<rparr>)"
  using first_of_key_rows [of "d\<lparr>next_seq := Suc (next_seq d)\<rparr>" d] ids_ok_seq [of d]
  by (simp add: ob_inv_def heads_ok_def recs_ok_def)

text \<open>Adding the newest unfinished place to a key changes no head but makes a new one when the
  key had no unfinished row.\<close>

lemma first_of_key_newest:
  assumes "ids_ok d" "r \<in> set (rows d)" "live d' (r_tenant r) (r_ordering_key r) \<subseteq>
      insert (next_seq d) (live d (r_tenant r) (r_ordering_key r))"
    "live d (r_tenant r) (r_ordering_key r) \<subseteq> live d' (r_tenant r) (r_ordering_key r)"
  shows "first_of_key d' r = first_of_key d r"
proof -
  have "r_seq r \<le> next_seq d" using assms(1,2) by (auto simp: ids_ok_def)
  then show ?thesis using assms(3,4) unfolding first_of_key_live by blast
qed

lemma live_insert:
  "live (d\<lparr>next_seq := n, rows := rows d @ [r]\<rparr>) t k =
   live d t k \<union> (if of_key t k r \<and> unfinished r then {r_seq r} else {})"
  by (auto simp: live_def)

lemma heads_ok_insert:
  assumes inv: "ob_inv d" and sq: "r_seq r = next_seq d"
    and hd: "r_is_head r = (unfinished r \<and> no_unfinished (r_tenant r) (r_ordering_key r) d)"
  shows "heads_ok (d\<lparr>next_seq := n, rows := rows d @ [r]\<rparr>)" (is "heads_ok ?d'")
proof -
  have "r_is_head q = first_of_key ?d' q" if q: "q \<in> set (rows d)" for q
    unfolding head_first [OF inv q]
    by (rule first_of_key_newest [OF ob_inv_ids [OF inv] q, symmetric]) (auto simp: live_insert sq)
  moreover have "r_is_head r = first_of_key ?d' r"
    using live_less [OF ob_inv_ids [OF inv], of _ "r_tenant r" "r_ordering_key r"]
    unfolding hd first_of_key_live live_insert no_unfinished_live sq
    by (auto simp: of_key_def dest: leD)
  ultimately show ?thesis by (simp add: heads_ok_def)
qed

lemma ob_inv_insert:
  assumes inv: "ob_inv d" and "insert_row r d = Inr (res, d')" and sq: "r_seq r = next_seq d"
    and ok: "row_ok r"
    and hd: "r_is_head r = (unfinished r \<and> no_unfinished (r_tenant r) (r_ordering_key r) d)"
  shows "ob_inv d'"
proof (cases "d' = d\<lparr>next_seq := Suc (next_seq d)\<rparr>")
  case True
  then show ?thesis using ob_inv_seq [OF inv] by simp
next
  case False
  then have d': "d' = d\<lparr>next_seq := Suc (next_seq d), rows := rows d @ [r]\<rparr>"
    and new: "\<forall>q \<in> set (rows d). r_id q \<noteq> r_id r"
      "\<forall>q \<in> set (rows d). (r_tenant q, r_delivery_id q) \<noteq> (r_tenant r, r_delivery_id r)"
    using assms(2) by (auto simp: insert_row_def Let_def list_ex_iff split: if_splits)
  have "ids_ok d'" using ob_inv_ids [OF inv] new sq unfolding d'
    by (auto simp: ids_ok_def image_iff less_Suc_eq)
  moreover have "heads_ok d'" unfolding d' by (rule heads_ok_insert [OF inv sq hd])
  moreover have "recs_ok d'" using inv unfolding d' ob_inv_def recs_ok_def by auto
  ultimately show ?thesis using inv ok unfolding ob_inv_def d' by auto
qed

lemma delivery_id_part: "delivery_id h p b = Inr did \<Longrightarrow> p \<noteq> [] \<and> did = h (delivery_input p b)"
  by (auto simp: delivery_id_def delivery_input_def check_part_def split: option.splits if_splits)

lemma hex_hash_nonempty: "hex_hash h \<Longrightarrow> h x \<noteq> []"
proof -
  assume "hex_hash h"
  then have "length (h x) = 64" by (simp add: hex_hash_def)
  then show ?thesis by auto
qed

lemma accept_in_inv:
  assumes "ob_inv d" "hex_hash h" "valid_tenant t" "accept_in h now i t dl (bound t) d = Inr (r, d')"
  shows "ob_inv d'"
proof -
  from assms(4) obtain did res where ok: "\<not> bad_ordering_key (d_ordering_key dl)"
    "delivery_id h (d_provider dl) (d_raw_body dl) = Inr did"
    and ins: "sql_accept (bound t) now i t (d_provider dl) did (d_ordering_key dl) (d_raw_body dl) d = Inr (res, d')"
    unfolding accept_in_def by (auto split: if_splits sum.splits option.splits prod.splits)
  show ?thesis using ins unfolding sql_accept_def
    by (simp, elim ob_inv_insert [OF assms(1)])
      (use ok delivery_id_part [OF ok(2)] hex_hash_nonempty [OF assms(2)] assms(3) in \<open>simp_all add: row_ok_def unfinished_def\<close>)
qed

lemma hex_good_key: "hex_hash h \<Longrightarrow> \<not> bad_ordering_key (h x)"
proof -
  assume "hex_hash h"
  then have l: "length (h x) = 64" and d: "list_all hex_digit (h x)" by (simp_all add: hex_hash_def)
  have "ord_of b < 128 \<and> b \<noteq> nul" if "hex_digit b" for b
    using that by (auto simp: hex_digit_def char_le_ord) (auto simp: ord_of_def)
  then have "storable (h x)" using d by (intro storable_ascii) (auto simp: list_all_iff)
  then show ?thesis using l by (auto simp: bad_ordering_key_def)
qed

lemma park_in_inv:
  assumes "ob_inv d" "hex_hash h" "p \<noteq> []"
    and "park_in now i p (h x) b txt (bound sentinel) d = Inr (r, d')"
  shows "ob_inv d'"
proof -
  from assms(4) obtain res where "sql_park (bound sentinel) now i sentinel p (h x) b txt d = Inr (res, d')"
    unfolding park_in_def by (auto split: sum.splits option.splits prod.splits)
  then show ?thesis unfolding sql_park_def
    by (simp, elim ob_inv_insert [OF assms(1)])
      (use assms(3) hex_good_key [OF assms(2)] hex_hash_nonempty [OF assms(2)] in \<open>simp_all add: row_ok_def unfinished_def\<close>)
qed

subsection \<open>The row a guarded statement matches\<close>

lemma distinct_singleton: "distinct xs \<Longrightarrow> set xs = {a} \<Longrightarrow> xs = [a]"
proof (cases xs)
  case (Cons x ys)
  assume "distinct xs" "set xs = {a}"
  then show ?thesis using Cons by (cases ys) auto
qed simp

lemma matching_cases:
  assumes "ids_ok d" and "\<And>r. P r \<Longrightarrow> r_id r = i"
  obtains "matching P d = []" "\<forall>f. update_rows P f d = d"
  | r0 where "matching P d = [r0]" "one_row d P r0" "P r0"
proof (cases "\<exists>r \<in> set (rows d). P r")
  case False
  then have "matching P d = []" "\<forall>f. rows (update_rows P f d) = rows d"
    by (auto simp: matching_def filter_empty_conv map_idI)
  then show ?thesis using that(1) by (simp add: update_rows_def)
next
  case True
  then obtain r0 where r0: "r0 \<in> set (rows d)" "P r0" by blast
  have one: "one_row d P r0"
    by (rule one_rowI [OF assms(1) r0(1)]) (use r0(2) assms(2) in simp_all)
  have "distinct (rows d)" using assms(1) by (simp add: ids_ok_def distinct_map)
  then have "distinct (matching P d)" "set (matching P d) = {r0}"
    using one by (auto simp: matching_def one_row_def)
  then have "matching P d = [r0]" by (rule distinct_singleton)
  then show ?thesis using that(2) one r0(2) by blast
qed

lemma of_key_self: "of_key (r_tenant r) (r_ordering_key r) r"
  by (simp add: of_key_def)

text \<open>The newest place in its key: heads stay heads, and the row is one exactly when the key
  had no unfinished row.\<close>

lemma heads_ok_replayed:
  assumes inv: "ob_inv d" and P: "one_row d P r0" and fin: "\<not> unfinished r0"
    and f: "r_tenant (f r0) = r_tenant r0" "r_ordering_key (f r0) = r_ordering_key r0"
      "r_seq (f r0) = next_seq d" "unfinished (f r0)"
      "r_is_head (f r0) = no_unfinished (r_tenant r0) (r_ordering_key r0) d"
  shows "heads_ok (update_rows P f d)" (is "heads_ok ?d'")
proof -
  note ids = ob_inv_ids [OF inv]
  have lv: "live ?d' t k = live d t k \<union> (if of_key t k r0 then {next_seq d} else {})" for t k
  proof -
    have "r_seq r0 \<notin> live d t k" if "of_key t k r0"
      using fin P seq_inj [OF ids] by (auto simp: live_def one_row_def)
    then show ?thesis using live_one_row [OF ids P, where f = f and t = t and k = k] f
      by (auto simp: of_key_def)
  qed
  have "r_is_head r = first_of_key ?d' r" if r: "r \<in> set (rows d)" for r
    unfolding head_first [OF inv r]
    by (rule first_of_key_newest [OF ids r, symmetric]) (auto simp: lv)
  moreover have "r_is_head (f r0) = first_of_key ?d' (f r0)"
    using live_less [OF ids, of _ "r_tenant r0" "r_ordering_key r0"] f
    by (auto simp: first_of_key_live lv no_unfinished_live of_key_self dest: leD)
  ultimately show ?thesis unfolding heads_ok_def rows_one_row [OF P] by auto
qed

lemma finished_no_lease: "ob_inv d \<Longrightarrow> r \<in> set (rows d) \<Longrightarrow> \<not> unfinished r \<Longrightarrow>
    r_lease_token r = None \<and> r_lease_until r = None \<and> \<not> r_is_head r"
  using head_first [of d r] ob_inv_row [of d r] by (auto simp: row_ok_def first_of_key_def)

lemma replay_ids:
  assumes "ids_ok d" "r0 \<in> set (rows d)" "r_id (f r0) = r_id r0" "r_tenant (f r0) = r_tenant r0"
    "r_delivery_id (f r0) = r_delivery_id r0" "r_seq (f r0) = next_seq d"
    "rows d' = map (\<lambda>r. if r = r0 then f r0 else r) (rows d)" "next_seq d' = next_seq d + 1"
  shows "ids_ok d'"
proof -
  have same: "map g (rows d') = map g (rows d)" if "g (f r0) = g r0" for g :: "row \<Rightarrow> 'a"
    unfolding assms(7) using that by simp
  have seqs: "map r_seq (rows d') = map (\<lambda>r. if r = r0 then next_seq d else r_seq r) (rows d)"
    unfolding assms(7) using assms(6) by simp
  have "inj_on (\<lambda>r. if r = r0 then next_seq d else r_seq r) (set (rows d))"
    using seq_inj [OF assms(1)] assms(1) by (auto simp: inj_on_def ids_ok_def)
  then have "distinct (map r_seq (rows d'))"
    unfolding seqs using assms(1) by (simp add: ids_ok_def distinct_map)
  moreover have "\<forall>r \<in> set (rows d'). r_seq r < next_seq d'"
    using assms(1,6) unfolding assms(7,8) by (auto simp: ids_ok_def)
  ultimately show ?thesis using assms(1) same [of r_id] same [of "\<lambda>r. (r_tenant r, r_delivery_id r)"] assms(3-5)
    by (simp add: ids_ok_def)
qed

lemma replay_sql_inv:
  assumes inv: "ob_inv d"
  shows "ob_inv (snd (sql_replay tx now i d))"
proof (rule matching_cases [OF ob_inv_ids [OF inv], where P = "replayable tx i d" and i = i])
  show "replayable tx i d r \<Longrightarrow> r_id r = i" for r by (simp add: replayable_def)
next
  assume "matching (replayable tx i d) d = []" "\<forall>f. update_rows (replayable tx i d) f d = d"
  then show ?thesis using inv by (simp add: sql_replay_def Let_def)
next
  fix r0 assume m: "matching (replayable tx i d) d = [r0]" and P: "one_row d (replayable tx i d) r0"
    and r0: "replayable tx i d r0"
  define f where "f = replay_row d now"
  let ?d = "update_rows (replayable tx i d) f d"
  have res: "snd (sql_replay tx now i d) = ?d\<lparr>next_seq := next_seq d + 1\<rparr>"
    by (simp add: sql_replay_def Let_def m f_def)
  have mem: "r0 \<in> set (rows d)" and fin: "\<not> unfinished r0"
    using P r0 by (auto simp: one_row_def replayable_def unfinished_def)
  have rows': "rows (?d\<lparr>next_seq := next_seq d + 1\<rparr>) = map (\<lambda>r. if r = r0 then f r0 else r) (rows d)"
    using rows_one_row [OF P] by simp
  have "heads_ok ?d"
    by (rule heads_ok_replayed [OF inv P fin]) (simp_all add: f_def replay_row_def unfinished_def)
  then have "heads_ok (?d\<lparr>next_seq := next_seq d + 1\<rparr>)" by (simp add: heads_ok_def first_of_key_def)
  moreover have "ids_ok (?d\<lparr>next_seq := next_seq d + 1\<rparr>)"
    using replay_ids [OF ob_inv_ids [OF inv] mem, of f] rows' by (simp add: f_def replay_row_def)
  moreover have "recs_ok (?d\<lparr>next_seq := next_seq d + 1\<rparr>)"
    by (rule recs_ok_map [OF _ _ rows']) (use inv in \<open>auto simp: ob_inv_def f_def replay_row_def\<close>)
  moreover have "row_ok (f r0)"
    using ob_inv_row [OF inv mem] finished_no_lease [OF inv mem fin]
    by (auto simp: f_def replay_row_def row_ok_def unfinished_def)
  ultimately show ?thesis using inv unfolding res ob_inv_def rows' by auto
qed

subsection \<open>The records of a delivery\<close>

lemma heads_ok_rows: "rows d' = rows d \<Longrightarrow> heads_ok d \<Longrightarrow> heads_ok d'"
  using first_of_key_rows [of d' d] by (simp add: heads_ok_def)

lemma ids_ok_rows: "rows d' = rows d \<Longrightarrow> next_seq d' = next_seq d \<Longrightarrow> ids_ok d \<Longrightarrow> ids_ok d'"
  by (simp add: ids_ok_def)

lemma ob_inv_recs: "ob_inv d \<Longrightarrow> rows d' = rows d \<Longrightarrow> next_seq d' = next_seq d \<Longrightarrow> recs_ok d' \<Longrightarrow> ob_inv d'"
  using heads_ok_rows [of d' d] ids_ok_rows [of d' d] by (simp add: ob_inv_def)

lemma ob_inv_update_recs:
  assumes inv: "ob_inv d"
    and f: "\<And>x. x \<in> set (recs d) \<Longrightarrow> P x \<Longrightarrow> x_outbox_id (f x) = x_outbox_id x \<and>
      x_record_id (f x) = x_record_id x \<and> x_pos (f x) = x_pos x \<and> (orec_ok x \<longrightarrow> orec_ok (f x)) \<and>
      (x_state (f x) = RPrepared \<longrightarrow> x_state x = RPrepared \<or>
         (\<forall>r \<in> set (rows d). r_id r = x_outbox_id x \<longrightarrow> r_state r \<noteq> Delivered))"
  shows "ob_inv (update_recs P f d)"
proof -
  have ro: "recs_ok d" using inv by (simp add: ob_inv_def)
  define g where "g x = (if P x then f x else x)" for x
  have g: "x_outbox_id (g x) = x_outbox_id x \<and> x_record_id (g x) = x_record_id x \<and> x_pos (g x) = x_pos x"
    if "x \<in> set (recs d)" for x using f [OF that] by (simp add: g_def)
  have recs': "recs (update_recs P f d) = map g (recs d)" by (simp add: g_def)
  have "map (\<lambda>x. (x_outbox_id x, x_record_id x)) (recs (update_recs P f d)) = map (\<lambda>x. (x_outbox_id x, x_record_id x)) (recs d)"
    "map (\<lambda>x. (x_outbox_id x, x_pos x)) (recs (update_recs P f d)) = map (\<lambda>x. (x_outbox_id x, x_pos x)) (recs d)"
    unfolding recs' using g by simp_all
  moreover have "orec_ok (g x) \<and> (\<exists>r \<in> set (rows d). r_id r = x_outbox_id (g x) \<and> r_prepared_at r \<noteq> None \<and>
           (r_state r = Delivered \<longrightarrow> x_state (g x) \<noteq> RPrepared))" if x: "x \<in> set (recs d)" for x
  proof -
    from ro x obtain r where "orec_ok x" "r \<in> set (rows d)" "r_id r = x_outbox_id x"
      "r_prepared_at r \<noteq> None" "r_state r = Delivered \<longrightarrow> x_state x \<noteq> RPrepared"
      unfolding recs_ok_def by blast
    then show ?thesis using f [OF x] unfolding g_def by (cases "P x") auto
  qed
  then have "\<forall>x \<in> set (recs (update_recs P f d)). orec_ok x \<and> (\<exists>r \<in> set (rows d). r_id r = x_outbox_id x \<and>
      r_prepared_at r \<noteq> None \<and> (r_state r = Delivered \<longrightarrow> x_state x \<noteq> RPrepared))"
    unfolding recs' by simp
  ultimately have "recs_ok (update_recs P f d)"
    using ro unfolding recs_ok_def rows_update_recs by argo
  then show ?thesis by (rule ob_inv_recs [OF inv, rotated 2]) simp_all
qed

lemma mark_record_dead_inv: "ob_inv d \<Longrightarrow> ob_inv (snd (sql_mark_record_dead tx now i rid reason_not_retryable e d))"
  unfolding sql_mark_record_dead_def Let_def snd_conv
  by (erule ob_inv_update_recs) (simp add: orec_ok_def)

lemma mark_records_delivered_inv: "ob_inv d \<Longrightarrow> ob_inv (sql_mark_records_delivered tx now i d)"
  unfolding sql_mark_records_delivered_def
  by (erule ob_inv_update_recs) (auto simp add: orec_ok_def)

lemma revive_inv:
  "ob_inv d \<Longrightarrow> (\<forall>r \<in> set (rows d). r_id r = i \<longrightarrow> r_state r \<noteq> Delivered) \<Longrightarrow>
   ob_inv (sql_revive_dead_records tx i d)"
  unfolding sql_revive_dead_records_def
  by (erule ob_inv_update_recs) (auto simp add: orec_ok_def)

lemma mark_dead_records_inv: "mark_dead_records tx now i rs d = Inr d' \<Longrightarrow> ob_inv d \<Longrightarrow> ob_inv d'"
proof (induction rs arbitrary: d)
  case (Cons r rs)
  then show ?case
    using mark_record_dead_inv [of d tx now i "dr_record_id r" "clip (cause_text (dr_cause r))"]
    by (auto simp: split_beta Let_def split: if_splits)
qed simp

lemma mark_dead_records_rows: "mark_dead_records tx now i rs d = Inr d' \<Longrightarrow> rows d' = rows d"
  by (induction rs arbitrary: d) (force simp: split_beta Let_def sql_mark_record_dead_def split: if_splits)+

lemma enumerate_new_recs:
  "map (\<lambda>(n, p). new_orec now i n p) (enumerate k ps) = map (\<lambda>j. new_orec now i (k + j) (ps ! j)) [0..<length ps]"
  by (rule nth_equalityI) (simp_all add: nth_enumerate_eq)

lemma store_prepared_inv:
  assumes inv: "ob_inv d" and st: "sql_store_prepared tx now i ps d = Inr d'"
    and good: "\<not> list_ex bad_prepared ps"
    and row: "r \<in> set (rows d)" "r_id r = i" "r_prepared_at r \<noteq> None" "r_state r \<noteq> Delivered"
  shows "ob_inv d'"
proof -
  define xs where "xs = map (\<lambda>j. new_orec now i j (ps ! j)) [0..<length ps]"
  have xs: "map (\<lambda>(n, p). new_orec now i n p) (enumerate 0 ps) = xs"
    unfolding xs_def using enumerate_new_recs [of now i 0 ps] by simp
  have d': "d' = d\<lparr>recs := recs d @ xs\<rparr>" and dist: "distinct (map p_record_id ps)"
    and fresh: "\<forall>x \<in> set xs. \<forall>y \<in> set (recs d). x_outbox_id y = i \<longrightarrow> x_record_id y \<noteq> x_record_id x \<and> x_pos y \<noteq> x_pos x"
    using st unfolding sql_store_prepared_def xs Let_def by (auto simp: list_ex_iff split: if_splits)
  have oid: "x \<in> set xs \<Longrightarrow> x_outbox_id x = i" for x by (auto simp: xs_def new_orec_def)
  have "map x_record_id xs = map p_record_id ps"
    by (rule nth_equalityI) (simp_all add: xs_def new_orec_def)
  then have "distinct (map x_record_id xs)" using dist by simp
  moreover have "distinct (map x_pos xs)" by (simp add: xs_def new_orec_def comp_def)
  ultimately have "distinct (map (\<lambda>x. (x_outbox_id x, x_record_id x)) (recs d @ xs))"
    "distinct (map (\<lambda>x. (x_outbox_id x, x_pos x)) (recs d @ xs))"
    using inv fresh oid unfolding ob_inv_def recs_ok_def
    by (fastforce simp: distinct_map inj_on_def)+
  moreover have "orec_ok x \<and> x_state x = RPrepared" if "x \<in> set xs" for x
    using that good by (fastforce simp: xs_def new_orec_def orec_ok_def bad_prepared_def list_ex_iff)
  ultimately have "recs_ok d'"
    using inv oid row unfolding d' ob_inv_def recs_ok_def by auto
  then show ?thesis by (rule ob_inv_recs [OF inv, rotated 2]) (simp_all add: d')
qed

subsection \<open>The operations\<close>

lemma transition_keeps:
  assumes "Q d" "transition c change d = (res, d')"
    and "\<And>u d1. change (bound (cl_tenant c)) d = Inr (u, d1) \<Longrightarrow> Q d1"
  shows "Q d'"
proof (cases res)
  case (Inl e)
  then show ?thesis using assms(1,2) by (auto simp: transition_def split: if_splits dest!: tenant_tx_rollback)
next
  case (Inr u)
  then show ?thesis using assms(2,3) by (auto simp: transition_def tenant_tx_commit split: if_splits)
qed

lemmas transition_inv = transition_keeps [where Q = ob_inv]

lemma release_inv: "ob_inv d \<Longrightarrow> release c d = (res, d') \<Longrightarrow> ob_inv d'"
  unfolding release_def
  by (rule transition_inv, assumption, assumption) (auto simp: held_ok intro: ob_inv_release)

lemma halt_inv: "ob_inv d \<Longrightarrow> halt now c p cs d = (res, d') \<Longrightarrow> ob_inv d'"
  unfolding halt_def
  by (cases "p \<le> 0", simp, simp, rule transition_inv, assumption, assumption)
    (auto simp: held_ok intro: ob_inv_halt)

lemma prepare_in_inv:
  assumes inv: "ob_inv d" and ok: "prepare_in tx now c ps d = Inr (u, d')"
  shows "ob_inv d'"
proof -
  define d1 where "d1 = snd (sql_mark_prepared tx now (cl_id c) (cl_token c) d)"
  define P where "P r \<longleftrightarrow> holds_lease tx (cl_id c) (cl_token c) r \<and> r_state r = Pending" for r
  have inv1: "ob_inv d1" unfolding d1_def by (rule ob_inv_mark_prepared [OF inv])
  have n: "matching P d \<noteq> []"
    using ok unfolding prepare_in_def P_def sql_mark_prepared_def exec_rows_def held_def
    by (auto split: if_splits)
  have cases: "ps = [] \<and> d' = d1 \<or> \<not> list_ex bad_prepared ps \<and> sql_store_prepared tx now (cl_id c) ps d1 = Inr d'"
    using ok unfolding prepare_in_def d1_def held_def by (auto split: if_splits sum.splits)
  obtain r0 where r0: "r0 \<in> set (rows d)" "P r0" using n by (auto simp: matching_def filter_empty_conv)
  then have "r0\<lparr>r_state := Prepared, r_prepared_at := Some now\<rparr> \<in> set (rows d1)" "r_id r0 = cl_id c"
    unfolding d1_def sql_mark_prepared_def exec_rows_def P_def holds_lease_def by force+
  then show ?thesis using cases inv1 store_prepared_inv [OF inv1, of tx now "cl_id c" ps d'] by force
qed

lemma unfinished_states: "unfinished r \<longleftrightarrow> r_state r \<in> {Pending, Prepared}"
  by (auto simp: unfinished_def)

lemma leased_head: "ob_inv d \<Longrightarrow> r \<in> set (rows d) \<Longrightarrow> r_lease_token r \<noteq> None \<Longrightarrow> r_is_head r"
  using ob_inv_row by (auto simp: row_ok_def)

lemma finish_in_cases:
  assumes ids: "ids_ok d1" and fin: "finish_in (bound t) c finish d = Inr (u, d')" and t: "t = cl_tenant c"
    and fin1: "finish d = Inr (finish_rows (\<lambda>r. holds_lease (bound t) i tok r \<and> unfinished r) f d1)"
  obtains r0 where "one_row d1 (\<lambda>r. holds_lease (bound t) i tok r \<and> unfinished r) r0"
    "r0 \<in> set (rows d1)" "r_tenant r0 = t" "r_id r0 = i" "unfinished r0" "r_lease_token r0 = Some tok"
    "d' = sql_promote (bound t) t (r_ordering_key r0)
            (update_rows (\<lambda>r. holds_lease (bound t) i tok r \<and> unfinished r) f d1)"
proof -
  define P where "P r \<longleftrightarrow> holds_lease (bound t) i tok r \<and> unfinished r" for r
  have idP: "P r \<Longrightarrow> r_id r = i" for r by (simp add: P_def holds_lease_def)
  show ?thesis
  proof (rule matching_cases [OF ids idP])
    assume "matching P d1 = []"
    then have "finish d = Inr (None, d1)" unfolding fin1 finish_rows_def P_def by simp
    then show ?thesis using fin by (simp add: finish_in_def)
  next
    fix r0 assume m: "matching P d1 = [r0]" and one: "one_row d1 P r0" and r0: "P r0"
    have fd: "finish d = Inr (Some (r_ordering_key r0), update_rows P f d1)"
      unfolding fin1 finish_rows_def P_def [symmetric] m by simp
    then have d': "d' = sql_promote (bound t) t (r_ordering_key r0) (update_rows P f d1)"
      using fin t by (simp add: finish_in_def)
    show ?thesis
      by (rule that [of r0])
        (use one r0 d' in \<open>auto simp: P_def [abs_def] holds_lease_def visible_bound one_row_def\<close>)
  qed
qed

lemma finish_in_inv:
  assumes inv: "ob_inv d1" and fin: "finish_in (bound t) c finish d = Inr (u, d')" and t: "t = cl_tenant c"
    and fin1: "finish d = Inr (finish_rows (\<lambda>r. holds_lease (bound t) i tok r \<and> unfinished r) f d1)"
    and f: "\<And>r. r \<in> set (rows d1) \<Longrightarrow> unfinished r \<Longrightarrow> r_id r = i \<Longrightarrow> row_ok r \<Longrightarrow> r_tenant r = t \<Longrightarrow>
      place (f r) = (r_id r, r_seq r, r_tenant r, r_ordering_key r, r_delivery_id r, False) \<and>
      \<not> r_is_head (f r) \<and> row_ok (f r) \<and> r_prepared_at (f r) = r_prepared_at r \<and>
      (r_state (f r) = Delivered \<longrightarrow> (\<forall>x \<in> set (recs d1). x_outbox_id x = i \<longrightarrow> x_state x \<noteq> RPrepared))"
  shows "ob_inv d'"
proof (rule finish_in_cases [OF ob_inv_ids [OF inv] fin t fin1])
  fix r0 assume one: "one_row d1 (\<lambda>r. holds_lease (bound t) i tok r \<and> unfinished r) r0"
    and r0: "r0 \<in> set (rows d1)" "r_tenant r0 = t" "r_id r0 = i" "unfinished r0" "r_lease_token r0 = Some tok"
    and d': "d' = sql_promote (bound t) t (r_ordering_key r0)
            (update_rows (\<lambda>r. holds_lease (bound t) i tok r \<and> unfinished r) f d1)"
  have "r_is_head r0" using leased_head [OF inv r0(1)] r0(5) by simp
  then show ?thesis unfolding d'
    using finish_promote [OF inv one, of f] f [OF r0(1,4,3) ob_inv_row [OF inv r0(1)] r0(2)] r0 by simp
qed

lemma records_all_delivered:
  assumes "ob_inv d" "r \<in> set (rows d)" "r_id r = i" "r_tenant r = t"
  shows "\<forall>x \<in> set (recs (sql_mark_records_delivered (bound t) now i d)). x_outbox_id x = i \<longrightarrow> x_state x \<noteq> RPrepared"
  using assms unfolding sql_mark_records_delivered_def visible_rec_def by (auto simp: list_ex_iff)

lemma rows_mark_records_delivered [simp]: "rows (sql_mark_records_delivered tx now i d) = rows d"
  by (simp add: sql_mark_records_delivered_def)

lemma mark_delivered_inv:
  assumes inv: "ob_inv d" and run: "mark_delivered now c dead d = (res, d')"
  shows "ob_inv d'"
proof (rule transition_inv [OF inv run [unfolded mark_delivered_def]])
  fix u d2 assume *: "mark_delivered_in now c dead (bound (cl_tenant c)) d = Inr (u, d2)"
  then obtain d0 where d0: "mark_dead_records (bound (cl_tenant c)) now (cl_id c) dead d = Inr d0"
    unfolding mark_delivered_in_def finish_in_def by (auto split: sum.splits)
  let ?d1 = "sql_mark_records_delivered (bound (cl_tenant c)) now (cl_id c) d0"
  have inv0: "ob_inv d0" by (rule mark_dead_records_inv [OF d0 inv])
  have inv1: "ob_inv ?d1" by (rule mark_records_delivered_inv [OF inv0])
  show "ob_inv d2"
    by (rule finish_in_inv [OF inv1 *[unfolded mark_delivered_in_def] refl, where i = "cl_id c" and tok = "cl_token c"
          and f = "\<lambda>r. r\<lparr>r_state := Delivered, r_is_head := False, r_finished_at := Some now,
              r_lease_until := None, r_lease_token := None, r_last_error := []\<rparr>"])
      (use records_all_delivered [OF inv0, of _ "cl_id c" "cl_tenant c" now] in
        \<open>auto simp: d0 sql_mark_delivered_def place_def unfinished_def row_ok_def\<close>)
qed

lemma mark_dead_reason_inv:
  assumes inv: "ob_inv d" and run: "mark_dead_reason now c reason cs d = (res, d')"
  shows "ob_inv d'"
proof (rule transition_inv [OF inv run [unfolded mark_dead_reason_def]])
  fix u d2 assume *: "finish_in (bound (cl_tenant c)) c (\<lambda>d. Inr (sql_mark_dead (bound (cl_tenant c)) now
      (cl_id c) (cl_token c) reason (clip (cause_text cs)) d)) d = Inr (u, d2)"
  show "ob_inv d2"
    by (rule finish_in_inv [OF inv * refl, where i = "cl_id c" and tok = "cl_token c"
          and f = "\<lambda>r. r\<lparr>r_state := Dead, r_is_head := False, r_dead_reason := reason,
              r_last_error := clip (cause_text cs), r_finished_at := Some now,
              r_lease_until := None, r_lease_token := None\<rparr>"])
      (simp_all add: sql_mark_dead_def place_def unfinished_def row_ok_def)
qed

lemma fail_inv:
  assumes inv: "ob_inv d" and run: "fail now c l cs d = (res, d')"
  shows "ob_inv d'"
proof (cases "ladder_next l (int (cl_attempt c))")
  case None
  then show ?thesis using mark_dead_reason_inv [OF inv] run by (simp add: fail_def)
next
  case (Some delay)
  have "transition c (\<lambda>tx d. held (sql_retry tx now (cl_id c) (cl_token c) delay (clip (cause_text cs)) d)) d = (res, d')"
    using run Some by (simp add: fail_def)
  then show ?thesis by (rule transition_inv [OF inv]) (auto simp: held_ok intro: ob_inv_retry [OF inv])
qed

lemma replay_in_inv:
  assumes inv: "ob_inv d" and ok: "replay_in now i (bound t) d = Inr (n, d')"
  shows "ob_inv d'"
proof -
  obtain k d1 where sq: "sql_replay (bound t) now i d = (k, d1)" by (metis surj_pair)
  have inv1: "ob_inv d1" using replay_sql_inv [OF inv, of "bound t" now i] sq by simp
  show ?thesis
  proof (cases "k = 0")
    case True then show ?thesis using ok inv1 sq by (simp add: replay_in_def)
  next
    case False
    have idP: "replayable (bound t) i d r \<Longrightarrow> r_id r = i" for r by (simp add: replayable_def)
    have "\<forall>r \<in> set (rows d1). r_id r = i \<longrightarrow> r_state r \<noteq> Delivered"
    proof (rule matching_cases [OF ob_inv_ids [OF inv] idP])
      assume "matching (replayable (bound t) i d) d = []"
      then show ?thesis using sq False by (simp add: sql_replay_def Let_def)
    next
      fix r0 assume one: "one_row d (replayable (bound t) i d) r0" and r0: "replayable (bound t) i d r0"
      have "replayable (bound t) i d q" if "q \<in> set (rows d)" "r_id q = i" for q
        using ids_inj [OF ob_inv_ids [OF inv] that(1)] one idP [OF r0] that(2) r0 by (auto simp: one_row_def)
      moreover have "rows d1 = map (\<lambda>r. if replayable (bound t) i d r then replay_row d now r else r) (rows d)"
        using sq by (auto simp: sql_replay_def Let_def)
      moreover have "r_id (replay_row d now q) = r_id q" "r_state (replay_row d now q) \<noteq> Delivered" for q
        by (simp_all add: replay_row_def)
      ultimately show ?thesis by auto
    qed
    then show ?thesis using ok False sq revive_inv [OF inv1, of i "bound t"] by (auto simp: replay_in_def)
  qed
qed

lemma replay_inv: "ob_inv d \<Longrightarrow> replay now t i d = (res, d') \<Longrightarrow> ob_inv d'"
  by (auto simp: replay_def tenant_tx_commit split: if_splits prod.splits sum.splits
      dest!: tenant_tx_rollback dest: replay_in_inv)

lemma claim_inv: "ob_inv d \<Longrightarrow> claim now tok locked n lease d = (res, d') \<Longrightarrow> ob_inv d'"
  using ob_inv_claim [of d now lease tok "min (nat n) max_batch" locked]
  by (auto simp: claim_def role_tx_def begin_tx_def split_beta Let_def split: if_splits sum.splits)

lemma accept_inv: "ob_inv d \<Longrightarrow> hex_hash h \<Longrightarrow> accept h now i t dl d = (res, d') \<Longrightarrow> ob_inv d'"
  by (cases res) (auto simp: accept_def tenant_tx_commit dest!: tenant_tx_rollback dest: accept_in_inv)

lemma park_inv:
  assumes "ob_inv d" "hex_hash h" "park h now i p b reason d = (res, d')"
  shows "ob_inv d'"
proof -
  have "d' = d \<or> (\<exists>u x body txt. p \<noteq> [] \<and> park_in now i p (h x) body txt (bound sentinel) d = Inr (u, d'))"
    using assms(3) unfolding park_def Let_def
    by (cases res)
      ((auto split: option.splits sum.splits if_splits simp: tenant_tx_commit
          dest!: tenant_tx_rollback delivery_id_part)?, blast+)
  then show ?thesis using park_in_inv [OF assms(1,2)] assms(1) by blast
qed

subsection \<open>The step relation\<close>

text \<open>One step is one call of the package by anybody, with any claim (a forged, stale or foreign
  one included) and any clock. \<open>PrepareIn\<close> runs in the tenant transaction of its caller.\<close>

inductive ob_step :: "(bytes \<Rightarrow> bytes) \<Rightarrow> odb \<Rightarrow> odb \<Rightarrow> bool" for h where
  StepAccept: "accept h now i t dl d = (r1, d') \<Longrightarrow> ob_step h d d'"
| StepPark: "park h now i p b reason d = (r1, d') \<Longrightarrow> ob_step h d d'"
| StepClaim: "claim now tok locked n lease d = (r2, d') \<Longrightarrow> ob_step h d d'"
| StepRelease: "release c d = (r3, d') \<Longrightarrow> ob_step h d d'"
| StepPrepare: "tenant_tx ErrTenancy (cl_tenant c) (\<lambda>tx. prepare_in tx now c ps) d = (r3, d') \<Longrightarrow> ob_step h d d'"
| StepDelivered: "mark_delivered now c dead d = (r3, d') \<Longrightarrow> ob_step h d d'"
| StepHalt: "halt now c pause cs d = (r3, d') \<Longrightarrow> ob_step h d d'"
| StepDead: "mark_dead now c cs d = (r3, d') \<Longrightarrow> ob_step h d d'"
| StepAbandoned: "mark_abandoned now c d = (r3, d') \<Longrightarrow> ob_step h d d'"
| StepFail: "fail now c l cs d = (r3, d') \<Longrightarrow> ob_step h d d'"
| StepReplay: "replay now t i d = (r3, d') \<Longrightarrow> ob_step h d d'"

inductive ob_reach :: "(bytes \<Rightarrow> bytes) \<Rightarrow> odb \<Rightarrow> bool" for h where
  ReachEmpty: "ob_reach h empty_odb"
| ReachStep: "ob_reach h d \<Longrightarrow> ob_step h d d' \<Longrightarrow> ob_reach h d'"

lemma prepare_tx_inv:
  "ob_inv d \<Longrightarrow> tenant_tx ErrTenancy t (\<lambda>tx. prepare_in tx now c ps) d = (res, d') \<Longrightarrow> ob_inv d'"
  by (cases res) (auto simp: tenant_tx_commit dest!: tenant_tx_rollback dest: prepare_in_inv)

lemmas op_invs = release_inv halt_inv prepare_tx_inv mark_delivered_inv mark_dead_reason_inv
  fail_inv replay_inv claim_inv

lemma ob_step_inv: "ob_step h d d' \<Longrightarrow> hex_hash h \<Longrightarrow> ob_inv d \<Longrightarrow> ob_inv d'"
  by (induction rule: ob_step.induct)
    (auto simp: mark_dead_def mark_abandoned_def intro: op_invs accept_inv park_inv)

lemma ob_reach_inv: "ob_reach h d \<Longrightarrow> hex_hash h \<Longrightarrow> ob_inv d"
  by (induction rule: ob_reach.induct) (auto intro: ob_inv_empty ob_step_inv)

subsection \<open>Rows are never lost\<close>

definition known :: "odb \<Rightarrow> (bytes \<times> bytes) set" where
  "known d = (\<lambda>r. (r_tenant r, r_delivery_id r)) ` set (rows d)"

lemma known_update:
  assumes "\<And>r. r_tenant (f r) = r_tenant r \<and> r_delivery_id (f r) = r_delivery_id r"
  shows "known (update_rows P f d) = known d"
proof -
  have "(\<lambda>r. (r_tenant r, r_delivery_id r)) ` (\<lambda>r. if P r then f r else r) ` set (rows d) =
        (\<lambda>r. (r_tenant r, r_delivery_id r)) ` set (rows d)"
    unfolding image_image by (rule image_cong [OF refl]) (simp add: assms)
  then show ?thesis by (simp only: known_def rows_update_rows set_map)
qed

lemma known_promote [simp]: "known (sql_promote tx t k d) = known d"
  by (simp add: sql_promote_def known_update split: option.split)

lemma known_seq [simp]: "known (d\<lparr>next_seq := n\<rparr>) = known d"
  by (simp add: known_def)

lemma known_recs [simp]: "known (update_recs Q g d) = known d" "known (d\<lparr>recs := xs\<rparr>) = known d"
  by (simp_all add: known_def)

lemma known_statements [simp]:
  "known (snd (sql_mark_prepared tx now i tok d)) = known d"
  "known (snd (sql_retry tx now i tok dl e d)) = known d"
  "known (snd (sql_halt tx now i tok p e d)) = known d"
  "known (snd (sql_release tx i tok d)) = known d"
  "known (snd (sql_mark_delivered tx now i tok d)) = known d"
  "known (snd (sql_mark_dead tx now i tok reason e d)) = known d"
  "known (snd (sql_claim now lease tok n locked d)) = known d"
  "known (snd (sql_replay tx now i d)) = known d"
  "known (sql_revive_dead_records tx i d) = known d"
  "known (sql_mark_records_delivered tx now i d) = known d"
  by (simp_all add: one_row_defs sql_mark_delivered_def sql_mark_dead_def finish_rows_def sql_claim_def
      Let_def sql_replay_def known_update lease_row_def replay_row_def sql_revive_dead_records_def
      sql_mark_records_delivered_def split: list.split)

lemma finish_in_known:
  assumes "finish_in tx c finish d = Inr (u, d')" and "\<And>k d1. finish d = Inr (k, d1) \<Longrightarrow> known d1 = known d"
  shows "known d' = known d"
  using assms by (auto simp: finish_in_def split: sum.splits option.splits)

lemma mark_dead_records_known: "mark_dead_records tx now i rs d = Inr d' \<Longrightarrow> known d' = known d"
  using mark_dead_records_rows by (metis known_def)

lemma store_prepared_known: "sql_store_prepared tx now i ps d = Inr d' \<Longrightarrow> known d' = known d"
  by (auto simp: sql_store_prepared_def Let_def split: if_splits)

lemma known_finish:
  "sql_mark_delivered tx now i tok d = (k, d1) \<Longrightarrow> known d1 = known d"
  "sql_mark_dead tx now i tok reason e d = (k, d1) \<Longrightarrow> known d1 = known d"
  using known_statements(5,6) by (metis snd_conv)+

lemma mark_delivered_in_known:
  assumes "mark_delivered_in now c dead tx d = Inr (u, d')"
  shows "known d' = known d"
  by (rule finish_in_known [OF assms[unfolded mark_delivered_in_def]])
    (auto split: sum.splits dest!: mark_dead_records_known known_finish)

lemma mark_dead_known:
  assumes "finish_in tx c (\<lambda>d. Inr (sql_mark_dead tx now i tok reason e d)) d = Inr (u, d')"
  shows "known d' = known d"
  by (rule finish_in_known [OF assms]) (auto dest!: known_finish)

lemma prepare_in_known:
  assumes "prepare_in tx now c ps d = Inr (u, d')"
  shows "known d' = known d"
proof -
  let ?d1 = "snd (sql_mark_prepared tx now (cl_id c) (cl_token c) d)"
  have "d' = ?d1 \<or> sql_store_prepared tx now (cl_id c) ps ?d1 = Inr d'"
    using assms by (auto simp: prepare_in_def held_def split: if_splits sum.splits)
  then show ?thesis by (auto dest: store_prepared_known)
qed

lemma insert_row_known: "insert_row r d = Inr (res, d') \<Longrightarrow> known d \<subseteq> known d'"
  by (auto simp: insert_row_def Let_def known_def split: if_splits)

lemma transition_known:
  "transition c change d = (res, d') \<Longrightarrow>
   (\<And>u d1. change (bound (cl_tenant c)) d = Inr (u, d1) \<Longrightarrow> known d1 = known d) \<Longrightarrow> known d' = known d"
  by (rule transition_keeps [where Q = "\<lambda>d'. known d' = known d"]) simp_all

lemma release_known: "release c d = (r3, d') \<Longrightarrow> known d' = known d"
  unfolding release_def by (erule transition_known) (auto simp: held_ok)

lemma halt_known: "halt now c pause cs d = (r3, d') \<Longrightarrow> known d' = known d"
  unfolding halt_def
  by (cases "pause \<le> 0", simp, simp, erule transition_known) (auto simp: held_ok)

lemma mark_delivered_known: "mark_delivered now c dead d = (r3, d') \<Longrightarrow> known d' = known d"
  unfolding mark_delivered_def by (erule transition_known) (rule mark_delivered_in_known)

lemma mark_dead_reason_known: "mark_dead_reason now c reason cs d = (r3, d') \<Longrightarrow> known d' = known d"
  unfolding mark_dead_reason_def by (erule transition_known) (rule mark_dead_known)

lemma fail_known: "fail now c l cs d = (r3, d') \<Longrightarrow> known d' = known d"
  unfolding fail_def
  by (cases "ladder_next l (int (cl_attempt c))", simp add: mark_dead_reason_known, simp,
      erule transition_known) (auto simp: held_ok)

lemma tenant_tx_keeps:
  assumes "tenant_tx emb t body d = (res, d')" and "Q d" and "\<And>x d1. body (bound t) d = Inr (x, d1) \<Longrightarrow> Q d1"
  shows "Q d'"
  using assms by (cases res) (auto simp: tenant_tx_commit dest!: tenant_tx_rollback)

lemma replay_in_known: "replay_in now i tx d = Inr (n, d') \<Longrightarrow> known d' = known d"
  using known_statements(8) [of tx now i d]
  by (auto simp: replay_in_def split_beta Let_def split: if_splits)

lemma replay_tx: "replay now t i d = (r3, d') \<Longrightarrow>
    d' = d \<or> (\<exists>r. tenant_tx ErrTenancy t (replay_in now i) d = (r, d'))"
  by (cases "tenant_tx ErrTenancy t (replay_in now i) d")
    (auto simp: replay_def split: if_splits sum.splits)

lemma replay_known: "replay now t i d = (r3, d') \<Longrightarrow> known d' = known d"
  by (drule replay_tx) (auto elim!: tenant_tx_keeps [where Q = "\<lambda>d'. known d' = known d", THEN eqset_imp_iff, THEN iffD1]
     tenant_tx_keeps [where Q = "\<lambda>d'. known d' = known d", THEN eqset_imp_iff, THEN iffD2] dest: replay_in_known)

lemma claim_known: "claim now tok locked n lease d = (r2, d') \<Longrightarrow> known d' = known d"
  using known_statements(7) [of now lease tok "min (nat n) max_batch" locked d]
  by (auto simp: claim_def role_tx_def begin_tx_def split_beta Let_def split: if_splits sum.splits)

lemma prepare_tx_known:
  "tenant_tx ErrTenancy t (\<lambda>tx. prepare_in tx now c ps) d = (res, d') \<Longrightarrow> known d' = known d"
  by (cases res) (auto simp: tenant_tx_commit dest!: tenant_tx_rollback dest: prepare_in_known)

lemma accept_in_insert:
  "accept_in h now i t dl tx d = Inr (r, d') \<Longrightarrow> \<exists>q res. insert_row q d = Inr (res, d')"
  unfolding accept_in_def sql_accept_def
  by (simp split: if_splits sum.splits option.splits prod.splits) blast+

lemma park_in_insert:
  "park_in now i p did b txt tx d = Inr (r, d') \<Longrightarrow> \<exists>q res. insert_row q d = Inr (res, d')"
  unfolding park_in_def sql_park_def
  by (simp split: if_splits sum.splits option.splits prod.splits) blast+

lemma accept_known: "accept h now i t dl d = (res, d') \<Longrightarrow> known d \<subseteq> known d'"
  by (cases res) (auto simp: accept_def tenant_tx_commit dest!: tenant_tx_rollback accept_in_insert
      dest: subsetD [OF insert_row_known])

lemma park_known: "park h now i p b reason d = (res, d') \<Longrightarrow> known d \<subseteq> known d'"
  by (cases res) (auto simp: park_def Let_def tenant_tx_commit split: option.splits sum.splits if_splits
      dest!: tenant_tx_rollback park_in_insert dest: subsetD [OF insert_row_known])

lemmas op_known = release_known halt_known mark_delivered_known mark_dead_reason_known fail_known
  replay_known claim_known prepare_tx_known

lemma ob_step_known: "ob_step h d d' \<Longrightarrow> known d \<subseteq> known d'"
  by (induction rule: ob_step.induct)
    (simp_all add: mark_dead_def mark_abandoned_def op_known accept_known park_known)

lemma ob_steps_known: "(ob_step h)\<^sup>*\<^sup>* d d' \<Longrightarrow> known d \<subseteq> known d'"
  by (induction rule: rtranclp_induct) (auto dest: ob_step_known)

end
