(* ===== verification/Outbox_Fifo.thy ===== *)
theory Outbox_Fifo
  imports Outbox_Reach "HOL-Library.Multiset"
begin

text \<open>
  The contract of the outbox as a family of FIFO queues, one per (tenant, ordering key): what is
  put at the back is taken from the front. The locale \<open>fifo_family\<close> states the laws of one step
  and proves, once, the order theorem of a run; the interpretation discharges the laws for the
  tables of Outbox_Table under the operations of Outbox.
\<close>

datatype ('k, 'i) event = Put 'k 'i | Take 'k 'i | Quiet

fun puts :: "'k \<Rightarrow> ('k, 'i) event list \<Rightarrow> 'i list" where
  "puts k [] = []"
| "puts k (Put k' i # es) = (if k' = k then i # puts k es else puts k es)"
| "puts k (_ # es) = puts k es"

fun takes :: "'k \<Rightarrow> ('k, 'i) event list \<Rightarrow> 'i list" where
  "takes k [] = []"
| "takes k (Take k' i # es) = (if k' = k then i # takes k es else takes k es)"
| "takes k (_ # es) = takes k es"

inductive run_of :: "('d \<Rightarrow> 'e \<Rightarrow> 'd \<Rightarrow> bool) \<Rightarrow> 'd \<Rightarrow> 'e list \<Rightarrow> 'd \<Rightarrow> bool" for step where
  RunNil: "run_of step d [] d"
| RunCons: "step d e d1 \<Longrightarrow> run_of step d1 es d2 \<Longrightarrow> run_of step d (e # es) d2"

lemma run_snoc: "run_of step d es d1 \<Longrightarrow> step d1 e d2 \<Longrightarrow> run_of step d (es @ [e]) d2"
  by (induction rule: run_of.induct) (auto intro: run_of.intros)

locale fifo_family =
  fixes inv :: "'d \<Rightarrow> bool"
    and queue :: "'d \<Rightarrow> 'k \<Rightarrow> 'i list"
    and step :: "'d \<Rightarrow> ('k, 'i) event \<Rightarrow> 'd \<Rightarrow> bool"
  assumes step_inv: "step d e d' \<Longrightarrow> inv d \<Longrightarrow> inv d'"
    and step_put: "step d (Put k i) d' \<Longrightarrow> inv d \<Longrightarrow>
        queue d' k = queue d k @ [i] \<and> (\<forall>k'. k' \<noteq> k \<longrightarrow> queue d' k' = queue d k')"
    and step_take: "step d (Take k i) d' \<Longrightarrow> inv d \<Longrightarrow>
        queue d k = i # queue d' k \<and> (\<forall>k'. k' \<noteq> k \<longrightarrow> queue d' k' = queue d k')"
    and step_quiet: "step d Quiet d' \<Longrightarrow> inv d \<Longrightarrow> queue d' = queue d"
begin

lemma run_inv: "run_of step d es d' \<Longrightarrow> inv d \<Longrightarrow> inv d'"
  by (induction rule: run_of.induct) (auto intro: step_inv)

lemma run_order: "run_of step d es d' \<Longrightarrow> inv d \<Longrightarrow> queue d k @ puts k es = takes k es @ queue d' k"
proof (induction rule: run_of.induct)
  case (RunNil d)
  then show ?case by simp
next
  case (RunCons d e d1 es d2)
  note ih = RunCons.IH [OF step_inv [OF RunCons.hyps(1) RunCons.prems]]
  show ?case
  proof (cases e)
    case (Put k' i)
    then show ?thesis using ih step_put [of d k' i d1] RunCons.hyps(1) RunCons.prems by (cases "k = k'") auto
  next
    case (Take k' i)
    then show ?thesis using ih step_take [of d k' i d1] RunCons.hyps(1) RunCons.prems by (cases "k = k'") auto
  next
    case Quiet
    then show ?thesis using ih step_quiet [of d d1] RunCons.hyps(1) RunCons.prems by simp
  qed
qed

lemma run_prefix: "run_of step d es d' \<Longrightarrow> inv d \<Longrightarrow> queue d k = [] \<Longrightarrow> prefix (takes k es) (puts k es)"
  using run_order [of d es d' k] by (metis append_Nil prefixI)

end

subsection \<open>The queue of a key\<close>

definition queue_rows :: "odb \<Rightarrow> bytes \<times> bytes \<Rightarrow> row list" where
  "queue_rows d tk = sort_key r_seq (filter (\<lambda>u. of_key (fst tk) (snd tk) u \<and> unfinished u) (rows d))"

definition queue_of :: "odb \<Rightarrow> bytes \<times> bytes \<Rightarrow> bytes list" where
  "queue_of d tk = map r_id (queue_rows d tk)"

text \<open>The queue as the key's live sequence numbers in order, each with its row's id.\<close>

definition id_at :: "odb \<Rightarrow> nat \<Rightarrow> bytes" where
  "id_at d s = the (map_of (map (\<lambda>r. (r_seq r, r_id r)) (rows d)) s)"

lemma id_at_row:
  assumes "ids_ok d" "r \<in> set (rows d)"
  shows "id_at d (r_seq r) = r_id r"
proof -
  have "distinct (map fst (map (\<lambda>r. (r_seq r, r_id r)) (rows d)))"
    using assms(1) by (simp add: ids_ok_def comp_def)
  then have "map_of (map (\<lambda>r. (r_seq r, r_id r)) (rows d)) (r_seq r) = Some (r_id r)"
    using assms(2) by (intro map_of_is_SomeI) auto
  then show ?thesis by (simp add: id_at_def)
qed

lemma distinct_sort_key: "distinct (map f xs) \<Longrightarrow> distinct (map f (sort_key f ys))" if "distinct ys" "set ys \<subseteq> set xs"
  using that by (auto simp: distinct_map inj_on_def)

lemma queue_of_live:
  assumes "ids_ok d"
  shows "queue_of d (t, k) = map (id_at d) (sorted_list_of_set (live d t k))"
proof -
  let ?xs = "filter (\<lambda>u. of_key t k u \<and> unfinished u) (rows d)"
  have rows: "distinct (map r_seq (rows d))" "distinct (rows d)"
    using assms by (auto simp: ids_ok_def distinct_map)
  then have "distinct (map r_seq (sort_key r_seq ?xs))"
    by (intro distinct_sort_key [of _ "rows d"]) auto
  moreover have "sorted (map r_seq (sort_key r_seq ?xs))" by simp
  ultimately have "sorted_list_of_set (set (map r_seq (sort_key r_seq ?xs))) = map r_seq (sort_key r_seq ?xs)"
    by (rule sorted_list_of_set.idem_if_sorted_distinct [rotated])
  moreover have "set (map r_seq (sort_key r_seq ?xs)) = live d t k" by (simp add: live_def)
  ultimately have "map r_seq (sort_key r_seq ?xs) = sorted_list_of_set (live d t k)" by metis
  moreover have "map r_id (sort_key r_seq ?xs) = map (id_at d) (map r_seq (sort_key r_seq ?xs))"
    using id_at_row [OF assms] by simp
  ultimately show ?thesis by (simp add: queue_of_def queue_rows_def)
qed

lemma finite_live [simp]: "finite (live d t k)"
  by (simp add: live_def)

lemma live_id_at: "ids_ok d \<Longrightarrow> s \<in> live d t k \<Longrightarrow> \<exists>r \<in> set (rows d). r_seq r = s \<and> of_key t k r \<and> unfinished r"
  by (auto simp: live_def)

lemma sorted_list_insert_max:
  fixes m :: nat
  assumes "finite A" and "\<And>a. a \<in> A \<Longrightarrow> a < m"
  shows "sorted_list_of_set (insert m A) = sorted_list_of_set A @ [m]"
proof -
  have "sorted (sorted_list_of_set A @ [m])" "distinct (sorted_list_of_set A @ [m])"
    using assms by (auto simp: sorted_append less_imp_le dest: assms(2))
  moreover have "set (sorted_list_of_set A @ [m]) = insert m A" using assms(1) by simp
  ultimately show ?thesis using sorted_list_of_set.idem_if_sorted_distinct by metis
qed

lemma sorted_list_min: "finite A \<Longrightarrow> m \<in> A \<Longrightarrow> (\<And>a. a \<in> A \<Longrightarrow> m \<le> a) \<Longrightarrow>
    sorted_list_of_set A = m # sorted_list_of_set (A - {m})" for m :: nat
  by (metis Min_eqI empty_iff sorted_list_of_set_nonempty)

subsection \<open>How a statement changes the queues\<close>

lemma queue_same:
  assumes "ids_ok d" "ids_ok d'" "live d' t k = live d t k"
    and "\<And>r. r \<in> set (rows d) \<Longrightarrow> of_key t k r \<Longrightarrow> unfinished r \<Longrightarrow>
           \<exists>r' \<in> set (rows d'). r_seq r' = r_seq r \<and> r_id r' = r_id r"
  shows "queue_of d' (t, k) = queue_of d (t, k)"
proof -
  have "id_at d' s = id_at d s" if s: "s \<in> live d t k" for s
  proof -
    obtain r where r: "r \<in> set (rows d)" "r_seq r = s" "of_key t k r" "unfinished r"
      using live_id_at [OF assms(1) s] by blast
    then obtain r' where "r' \<in> set (rows d')" "r_seq r' = s" "r_id r' = r_id r" using assms(4) by blast
    then show ?thesis using id_at_row [OF assms(1) r(1)] id_at_row [OF assms(2)] r(2) by metis
  qed
  then show ?thesis unfolding queue_of_live [OF assms(1)] queue_of_live [OF assms(2)] assms(3) by simp
qed

lemma queue_map:
  assumes "ids_ok d" "rows d' = map g (rows d)" "next_seq d' = next_seq d"
    and "\<And>r. r \<in> set (rows d) \<Longrightarrow> place (g r) = place r"
  shows "queue_of d' = queue_of d"
proof (rule ext)
  fix tk :: "bytes \<times> bytes"
  obtain t k where tk: "tk = (t, k)" by force
  have "ids_ok d'" by (rule ids_ok_map [OF assms(1,4,2,3)])
  then show "queue_of d' tk = queue_of d tk" unfolding tk
    by (rule queue_same [OF assms(1)])
      (use live_map [OF assms(4,2)] assms(2,4) in \<open>auto simp: place_def\<close>)
qed

lemma queue_update:
  assumes "ids_ok d" and "\<And>r. r \<in> set (rows d) \<Longrightarrow> P r \<Longrightarrow> place (f r) = place r"
  shows "queue_of (update_rows P f d) = queue_of d"
  by (rule queue_map [OF assms(1) rows_update_rows]) (use assms(2) in simp_all)

lemma queue_rows_eq: "rows d' = rows d \<Longrightarrow> queue_of d' = queue_of d"
  by (simp add: queue_of_def [abs_def] queue_rows_def)

lemma queue_promote: "ids_ok d \<Longrightarrow> queue_of (sql_promote tx t k d) = queue_of d"
  by (rule queue_map [OF _ promote_rows(1,3)]) simp_all

text \<open>Finishing the first row of a key takes it off the front.\<close>

lemma queue_finish:
  assumes ids: "ids_ok d" and one: "one_row d P r0" and first: "first_of_key d r0"
    and f: "place (f r0) = (r_id r0, r_seq r0, r_tenant r0, r_ordering_key r0, r_delivery_id r0, False)"
  shows "queue_of d (r_tenant r0, r_ordering_key r0) =
           r_id r0 # queue_of (update_rows P f d) (r_tenant r0, r_ordering_key r0)"
    and "(t, k) \<noteq> (r_tenant r0, r_ordering_key r0) \<Longrightarrow> queue_of (update_rows P f d) (t, k) = queue_of d (t, k)"
proof -
  have r0: "r0 \<in> set (rows d)" using one by (simp add: one_row_def)
  have f': "of_key t k (f r0) = of_key t k r0" "\<not> unfinished (f r0)" for t k
    using f by (auto simp: place_def of_key_def)
  let ?d' = "update_rows P f d"
  have ids': "ids_ok ?d'"
    by (rule ids_ok_one_row [OF ids one]) (use f in \<open>simp add: place_def\<close>)
  have keep: "\<exists>r' \<in> set (rows ?d'). r_seq r' = r_seq r \<and> r_id r' = r_id r" if "r \<in> set (rows d)" for r
    using that r0 f unfolding rows_one_row [OF one] by (auto simp: place_def)
  have lv: "live ?d' t k = live d t k - (if of_key t k r0 then {r_seq r0} else {})" for t k
    using live_one_row [OF ids one, where f = f and t = t and k = k] f' by simp
  show "(t, k) \<noteq> (r_tenant r0, r_ordering_key r0) \<Longrightarrow> queue_of ?d' (t, k) = queue_of d (t, k)"
    by (rule queue_same [OF ids ids']) (use lv keep in \<open>auto simp: of_key_def\<close>)
  have "id_at ?d' s = id_at d s" if "s \<in> live d (r_tenant r0) (r_ordering_key r0)" for s
    using live_id_at [OF ids that] keep id_at_row [OF ids] id_at_row [OF ids'] by metis
  moreover have "r_seq r0 \<in> live d (r_tenant r0) (r_ordering_key r0)"
    using first r0 by (auto simp: first_of_key_live live_def of_key_self)
  then have "sorted_list_of_set (live d (r_tenant r0) (r_ordering_key r0)) = r_seq r0 #
      sorted_list_of_set (live ?d' (r_tenant r0) (r_ordering_key r0))"
    unfolding lv using sorted_list_min [OF finite_live, of "r_seq r0"] first
    by (simp add: first_of_key_live of_key_self)
  ultimately show "queue_of d (r_tenant r0, r_ordering_key r0) =
      r_id r0 # queue_of ?d' (r_tenant r0, r_ordering_key r0)"
    unfolding queue_of_live [OF ids] queue_of_live [OF ids'] using id_at_row [OF ids r0]
    by (auto simp: lv)
qed

text \<open>A row with the newest sequence number joins its key at the back.\<close>

lemma queue_newest:
  assumes ids: "ids_ok d" and ids': "ids_ok d'"
    and lv: "\<And>t k. live d' t k = live d t k \<union> (if of_key t k q then {next_seq d} else {})"
    and q: "q \<in> set (rows d')" "r_seq q = next_seq d"
    and keep: "\<And>r. r \<in> set (rows d) \<Longrightarrow> unfinished r \<Longrightarrow> \<exists>r' \<in> set (rows d'). r_seq r' = r_seq r \<and> r_id r' = r_id r"
  shows "queue_of d' (r_tenant q, r_ordering_key q) = queue_of d (r_tenant q, r_ordering_key q) @ [r_id q]"
    and "(t, k) \<noteq> (r_tenant q, r_ordering_key q) \<Longrightarrow> queue_of d' (t, k) = queue_of d (t, k)"
proof -
  show "(t, k) \<noteq> (r_tenant q, r_ordering_key q) \<Longrightarrow> queue_of d' (t, k) = queue_of d (t, k)"
    by (rule queue_same [OF ids ids']) (use lv keep in \<open>auto simp: of_key_def\<close>)
  let ?L = "live d (r_tenant q) (r_ordering_key q)"
  have "id_at d' s = id_at d s" if "s \<in> ?L" for s
    using live_id_at [OF ids that] keep id_at_row [OF ids] id_at_row [OF ids'] by metis
  moreover have "live d' (r_tenant q) (r_ordering_key q) = insert (next_seq d) ?L"
    by (simp add: lv of_key_self)
  moreover have "sorted_list_of_set (insert (next_seq d) ?L) = sorted_list_of_set ?L @ [next_seq d]"
    by (rule sorted_list_insert_max [OF finite_live live_less [OF ids]])
  ultimately show "queue_of d' (r_tenant q, r_ordering_key q) =
      queue_of d (r_tenant q, r_ordering_key q) @ [r_id q]"
    unfolding queue_of_live [OF ids] queue_of_live [OF ids'] using id_at_row [OF ids' q(1)] q(2) by simp
qed

subsection \<open>The operations that leave every queue as it is\<close>

lemma quiet_statements:
  assumes "ids_ok d"
  shows "queue_of (snd (sql_mark_prepared tx now i tok d)) = queue_of d"
    "queue_of (snd (sql_retry tx now i tok dl e d)) = queue_of d"
    "queue_of (snd (sql_halt tx now i tok p e d)) = queue_of d"
    "queue_of (snd (sql_release tx i tok d)) = queue_of d"
    "queue_of (snd (sql_claim now lease tok n locked d)) = queue_of d"
  unfolding one_row_defs sql_claim_def Let_def snd_conv
  by (rule queue_update [OF assms], simp add: place_def unfinished_def lease_row_def)+

abbreviation quiet_from :: "odb \<Rightarrow> odb \<Rightarrow> bool" where
  "quiet_from d d' \<equiv> queue_of d' = queue_of d"

lemma quiet_transition:
  "transition c change d = (res, d') \<Longrightarrow>
   (\<And>u d1. change (bound (cl_tenant c)) d = Inr (u, d1) \<Longrightarrow> quiet_from d d1) \<Longrightarrow> quiet_from d d'"
  by (rule transition_keeps [where Q = "quiet_from d"]) simp_all

lemma release_quiet: "ids_ok d \<Longrightarrow> release c d = (r3, d') \<Longrightarrow> quiet_from d d'"
  unfolding release_def by (rule quiet_transition, assumption) (auto simp: held_ok quiet_statements)

lemma halt_quiet: "ids_ok d \<Longrightarrow> halt now c pause cs d = (r3, d') \<Longrightarrow> quiet_from d d'"
  unfolding halt_def
  by (cases "pause \<le> 0", simp, simp, rule quiet_transition, assumption) (auto simp: held_ok quiet_statements)

lemma retry_quiet:
  assumes "ids_ok d" "fail now c l cs d = (r3, d')" "ladder_next l (int (cl_attempt c)) = Some delay"
  shows "quiet_from d d'"
proof -
  have "transition c (\<lambda>tx d. held (sql_retry tx now (cl_id c) (cl_token c) delay (clip (cause_text cs)) d)) d = (r3, d')"
    using assms by (simp add: fail_def)
  then show ?thesis by (rule quiet_transition) (auto simp: held_ok quiet_statements [OF assms(1)])
qed

lemma store_prepared_rows: "sql_store_prepared tx now i ps d = Inr d' \<Longrightarrow> rows d' = rows d"
  by (auto simp: sql_store_prepared_def Let_def split: if_splits)

lemma prepare_quiet: 
  assumes "ids_ok d" "prepare_in tx now c ps d = Inr (u, d')"
  shows "quiet_from d d'"
proof -
  let ?d1 = "snd (sql_mark_prepared tx now (cl_id c) (cl_token c) d)"
  have "d' = ?d1 \<or> sql_store_prepared tx now (cl_id c) ps ?d1 = Inr d'"
    using assms(2) by (auto simp: prepare_in_def held_def split: if_splits sum.splits)
  then show ?thesis using quiet_statements(1) [OF assms(1)] queue_rows_eq [OF store_prepared_rows] by metis
qed

lemma prepare_tx_quiet:
  "ids_ok d \<Longrightarrow> tenant_tx ErrTenancy t (\<lambda>tx. prepare_in tx now c ps) d = (res, d') \<Longrightarrow> quiet_from d d'"
  by (erule tenant_tx_keeps) (simp_all add: prepare_quiet)

lemma claim_quiet: "ids_ok d \<Longrightarrow> claim now tok locked n lease d = (r2, d') \<Longrightarrow> quiet_from d d'"
  using quiet_statements(5) [of d now lease tok "min (nat n) max_batch" locked]
  by (auto simp: claim_def role_tx_def begin_tx_def split_beta Let_def split: if_splits sum.splits)

lemma insert_row_cases:
  assumes "insert_row q d = Inr (res, d')"
  shows "rows d' = rows d \<and> res = None \<or> rows d' = rows d @ [q] \<and> res = Some (r_id q)"
  using assms by (auto simp: insert_row_def Let_def split: if_splits)

lemma park_insert:
  "park h now i p b reason d = (res, d') \<Longrightarrow>
   d' = d \<or> (\<exists>q r. insert_row q d = Inr (r, d') \<and> \<not> unfinished q)"
  by (cases res)
    (auto simp: park_def Let_def tenant_tx_commit park_in_def sql_park_def unfinished_def
      split: option.splits sum.splits if_splits prod.splits dest!: tenant_tx_rollback; fastforce)+

lemma park_quiet:
  assumes "park h now i p b reason d = (res, d')"
  shows "quiet_from d d'"
proof -
  have "filter (\<lambda>u. of_key t k u \<and> unfinished u) (rows d') = filter (\<lambda>u. of_key t k u \<and> unfinished u) (rows d)" for t k
    using park_insert [OF assms] by (auto dest!: insert_row_cases)
  then show ?thesis by (simp add: queue_of_def [abs_def] queue_rows_def)
qed

subsection \<open>The operations that take from the front\<close>

definition took :: "odb \<Rightarrow> bytes \<times> bytes \<Rightarrow> bytes \<Rightarrow> odb \<Rightarrow> bool" where
  "took d tk i d' \<longleftrightarrow> queue_of d tk = i # queue_of d' tk \<and> (\<forall>k'. k' \<noteq> tk \<longrightarrow> queue_of d' k' = queue_of d k')"

lemma finish_in_took:
  assumes inv: "ob_inv d1" and fin: "finish_in (bound t) c finish d = Inr (u, d')" and t: "t = cl_tenant c"
    and fin1: "finish d = Inr (finish_rows (\<lambda>r. holds_lease (bound t) i tok r \<and> unfinished r) f d1)"
    and f: "\<And>r. place (f r) = (r_id r, r_seq r, r_tenant r, r_ordering_key r, r_delivery_id r, False)"
    and r: "r \<in> set (rows d1)" "r_id r = i"
  shows "r_tenant r = t \<and> took d1 (t, r_ordering_key r) i d'"
proof (rule finish_in_cases [OF ob_inv_ids [OF inv] fin t fin1])
  fix r0 assume one: "one_row d1 (\<lambda>r. holds_lease (bound t) i tok r \<and> unfinished r) r0"
    and r0: "r0 \<in> set (rows d1)" "r_tenant r0 = t" "r_id r0 = i" "unfinished r0" "r_lease_token r0 = Some tok"
    and d': "d' = sql_promote (bound t) t (r_ordering_key r0)
            (update_rows (\<lambda>r. holds_lease (bound t) i tok r \<and> unfinished r) f d1)"
  note ids = ob_inv_ids [OF inv]
  have req: "r = r0" using ids_inj [OF ids r(1) r0(1)] r(2) r0(3) by simp
  have first: "first_of_key d1 r0"
    using leased_head [OF inv r0(1)] head_first [OF inv r0(1)] r0(5) by simp
  have "ids_ok (update_rows (\<lambda>r. holds_lease (bound t) i tok r \<and> unfinished r) f d1)"
    by (rule ids_ok_one_row [OF ids one]) (use f in \<open>simp add: place_def\<close>)
  then have "queue_of d' = queue_of (update_rows (\<lambda>r. holds_lease (bound t) i tok r \<and> unfinished r) f d1)"
    unfolding d' by (rule queue_promote)
  then show ?thesis using queue_finish [OF ids one first, of f] f r0 unfolding req took_def by auto
qed

lemma mark_delivered_took:
  assumes inv: "ob_inv d" and run: "mark_delivered now c dead d = (Inr (), d')"
    and r: "r \<in> set (rows d)" "r_id r = cl_id c"
  shows "r_tenant r = cl_tenant c \<and> took d (r_tenant r, r_ordering_key r) (cl_id c) d'"
proof -
  let ?t = "cl_tenant c"
  have *: "mark_delivered_in now c dead (bound ?t) d = Inr ((), d')"
    using run by (auto simp: mark_delivered_def transition_def tenant_tx_commit split: if_splits)
  then obtain d0 where d0: "mark_dead_records (bound ?t) now (cl_id c) dead d = Inr d0"
    unfolding mark_delivered_in_def finish_in_def by (auto split: sum.splits)
  let ?d1 = "sql_mark_records_delivered (bound ?t) now (cl_id c) d0"
  have inv1: "ob_inv ?d1" by (intro mark_records_delivered_inv mark_dead_records_inv [OF d0 inv])
  have rows: "rows ?d1 = rows d" using mark_dead_records_rows [OF d0] by simp
  have "r_tenant r = ?t \<and> took ?d1 (?t, r_ordering_key r) (cl_id c) d'"
    by (rule finish_in_took [OF inv1 *[unfolded mark_delivered_in_def] refl, where tok = "cl_token c"
          and f = "\<lambda>r. r\<lparr>r_state := Delivered, r_is_head := False, r_finished_at := Some now,
              r_lease_until := None, r_lease_token := None, r_last_error := []\<rparr>"])
      (use r rows in \<open>simp_all add: d0 sql_mark_delivered_def place_def unfinished_def\<close>)
  then show ?thesis using queue_rows_eq [OF rows] by (simp add: took_def)
qed

lemma mark_dead_reason_took:
  assumes inv: "ob_inv d" and run: "mark_dead_reason now c reason cs d = (Inr (), d')"
    and r: "r \<in> set (rows d)" "r_id r = cl_id c"
  shows "r_tenant r = cl_tenant c \<and> took d (r_tenant r, r_ordering_key r) (cl_id c) d'"
proof -
  let ?t = "cl_tenant c"
  have *: "finish_in (bound ?t) c (\<lambda>d. Inr (sql_mark_dead (bound ?t) now (cl_id c) (cl_token c) reason
      (clip (cause_text cs)) d)) d = Inr ((), d')"
    using run by (auto simp: mark_dead_reason_def transition_def tenant_tx_commit split: if_splits)
  have "r_tenant r = ?t \<and> took d (?t, r_ordering_key r) (cl_id c) d'"
    by (rule finish_in_took [OF inv * refl, where tok = "cl_token c"
          and f = "\<lambda>r. r\<lparr>r_state := Dead, r_is_head := False, r_dead_reason := reason,
              r_last_error := clip (cause_text cs), r_finished_at := Some now,
              r_lease_until := None, r_lease_token := None\<rparr>"])
      (use r in \<open>simp_all add: sql_mark_dead_def place_def unfinished_def\<close>)
  then show ?thesis by simp
qed

subsection \<open>The operations that put at the back\<close>

definition put_back :: "odb \<Rightarrow> bytes \<times> bytes \<Rightarrow> bytes \<Rightarrow> odb \<Rightarrow> bool" where
  "put_back d tk i d' \<longleftrightarrow> queue_of d' tk = queue_of d tk @ [i] \<and> (\<forall>k'. k' \<noteq> tk \<longrightarrow> queue_of d' k' = queue_of d k')"

lemma accept_in_new:
  "accept_in h now i t dl tx d = Inr ((j, True), d') \<Longrightarrow>
   j = i \<and> (\<exists>did r. sql_accept tx now i t (d_provider dl) did (d_ordering_key dl) (d_raw_body dl) d = Inr (Some r, d'))"
  unfolding accept_in_def by (simp split: if_splits sum.splits option.splits prod.splits) blast

lemma accept_put:
  assumes inv: "ob_inv d" and hh: "hex_hash h" and run: "accept h now i t dl d = (Inr (j, True), d')"
  shows "j = i \<and> put_back d (t, d_ordering_key dl) i d'"
proof -
  have inv': "ob_inv d'" by (rule accept_inv [OF inv hh run])
  have "accept_in h now i t dl (bound t) d = Inr ((j, True), d')"
    using run by (simp add: accept_def tenant_tx_commit)
  then obtain did r where ins: "sql_accept (bound t) now i t (d_provider dl) did (d_ordering_key dl)
      (d_raw_body dl) d = Inr (Some r, d')" and j: "j = i"
    using accept_in_new by blast
  then obtain q where q: "rows d' = rows d @ [q]" "r_seq q = next_seq d" "r_tenant q = t"
    "r_ordering_key q = d_ordering_key dl" "r_id q = i" "unfinished q"
    unfolding sql_accept_def by (auto dest!: insert_row_cases simp: unfinished_def)
  have lv: "live d' t' k' = live d t' k' \<union> (if of_key t' k' q then {next_seq d} else {})" for t' k'
    using q by (auto simp: live_def)
  note qn = queue_newest [OF ob_inv_ids [OF inv] ob_inv_ids [OF inv'] lv]
  show ?thesis using qn q j unfolding put_back_def by (auto 4 4)
qed

lemma sql_replay_put:
  assumes inv: "ob_inv d" and one: "one_row d (replayable tx i d) r" and r: "replayable tx i d r"
  shows "put_back d (r_tenant r, r_ordering_key r) (r_id r) (snd (sql_replay tx now i d))"
proof -
  let ?d' = "snd (sql_replay tx now i d)"
  note ids = ob_inv_ids [OF inv]
  have ids': "ids_ok ?d'" by (rule ob_inv_ids [OF replay_sql_inv [OF inv]])
  have mem: "r \<in> set (rows d)" and fin: "\<not> unfinished r"
    using one r by (auto simp: one_row_def replayable_def unfinished_def)
  let ?q = "replay_row d now r"
  have rows': "rows ?d' = rows (update_rows (replayable tx i d) (replay_row d now) d)"
    by (simp add: sql_replay_def Let_def)
  have notin: "r_seq r \<notin> live d t k" for t k
    using fin mem seq_inj [OF ids] by (auto simp: live_def)
  have lv: "live ?d' t k = live d t k \<union> (if of_key t k ?q then {next_seq d} else {})" for t k
    using live_one_row [OF ids one, where f = "replay_row d now" and t = t and k = k] notin rows'
    by (auto simp: live_def replay_row_def of_key_def unfinished_def)
  have "\<exists>r' \<in> set (rows ?d'). r_seq r' = r_seq q \<and> r_id r' = r_id q"
    if "q \<in> set (rows d)" "unfinished q" for q
    using that fin unfolding rows' rows_one_row [OF one] by (intro bexI [of _ q]) auto
  moreover have "?q \<in> set (rows ?d')" using mem unfolding rows' rows_one_row [OF one] by auto
  moreover have "r_seq ?q = next_seq d" "r_tenant ?q = r_tenant r" "r_ordering_key ?q = r_ordering_key r"
    "r_id ?q = r_id r" by (simp_all add: replay_row_def)
  ultimately show ?thesis using queue_newest [OF ids ids' lv] unfolding put_back_def by auto
qed

lemma replay_put:
  assumes inv: "ob_inv d" and run: "replay now t i d = (Inr (), d')" and r: "r \<in> set (rows d)" "r_id r = i"
  shows "r_tenant r = t \<and> put_back d (t, r_ordering_key r) i d'"
proof -
  obtain n where n: "replay_in now i (bound t) d = Inr (n, d')" "n \<noteq> 0"
    using run by (auto simp: replay_def tenant_tx_commit split: if_splits prod.splits sum.splits)
  let ?d1 = "snd (sql_replay (bound t) now i d)"
  have d': "rows d' = rows ?d1" and nz: "fst (sql_replay (bound t) now i d) \<noteq> 0"
    using n by (auto simp: replay_in_def split_beta Let_def sql_revive_dead_records_def split: if_splits)
  have idP: "replayable (bound t) i d r \<Longrightarrow> r_id r = i" for r by (simp add: replayable_def)
  show ?thesis
  proof (rule matching_cases [OF ob_inv_ids [OF inv] idP])
    assume "matching (replayable (bound t) i d) d = []"
    then show ?thesis using nz by (simp add: sql_replay_def Let_def)
  next
    fix r0 assume one: "one_row d (replayable (bound t) i d) r0" and r0: "replayable (bound t) i d r0"
    have "r = r0" using ids_inj [OF ob_inv_ids [OF inv] r(1)] one idP [OF r0] r(2) by (auto simp: one_row_def)
    moreover have "r_tenant r0 = t" "r_id r0 = i" using r0 by (simp_all add: replayable_def visible_bound)
    ultimately show ?thesis
      using sql_replay_put [OF inv one r0] queue_rows_eq [OF d'] by (simp add: put_back_def)
  qed
qed

subsection \<open>A failed operation changes nothing\<close>

lemma transition_failed: "transition c change d = (Inl e, d') \<Longrightarrow> d' = d"
  by (auto simp: transition_def split: if_splits dest: tenant_tx_rollback)

lemma accept_failed: "accept h now i t dl d = (Inl e, d') \<Longrightarrow> d' = d"
  unfolding accept_def by (rule tenant_tx_rollback)

lemma mark_delivered_failed: "mark_delivered now c dead d = (Inl e, d') \<Longrightarrow> d' = d"
  unfolding mark_delivered_def by (rule transition_failed)

lemma mark_dead_reason_failed: "mark_dead_reason now c reason cs d = (Inl e, d') \<Longrightarrow> d' = d"
  unfolding mark_dead_reason_def by (rule transition_failed)

lemma no_update: "matching P d = [] \<Longrightarrow> update_rows P f d = d"
  by (auto simp: matching_def filter_empty_conv update_rows_def map_idI)

lemma replay_failed: "replay now t i d = (Inl e, d') \<Longrightarrow> d' = d"
  by (auto simp: replay_def replay_in_def sql_replay_def tenant_tx_commit no_update Let_def
      split: if_splits prod.splits sum.splits dest!: tenant_tx_rollback)

lemmas failed_unchanged = accept_failed mark_delivered_failed mark_dead_reason_failed replay_failed

subsection \<open>The outbox as a family of FIFO queues\<close>

text \<open>Every call with the event it is: what enters a queue, what leaves one, and all the rest.\<close>

inductive ob_event :: "(bytes \<Rightarrow> bytes) \<Rightarrow> odb \<Rightarrow> (bytes \<times> bytes, bytes) event \<Rightarrow> odb \<Rightarrow> bool" for h where
  EvAccepted: "accept h now i t dl d = (Inr (j, True), d') \<Longrightarrow> ob_event h d (Put (t, d_ordering_key dl) j) d'"
| EvDuplicate: "accept h now i t dl d = (Inr (j, False), d') \<Longrightarrow> ob_event h d Quiet d'"
| EvReplayed: "replay now t i d = (Inr (), d') \<Longrightarrow> r \<in> set (rows d) \<Longrightarrow> r_id r = i \<Longrightarrow>
    ob_event h d (Put (t, r_ordering_key r) i) d'"
| EvDelivered: "mark_delivered now c dead d = (Inr (), d') \<Longrightarrow> r \<in> set (rows d) \<Longrightarrow> r_id r = cl_id c \<Longrightarrow>
    ob_event h d (Take (cl_tenant c, r_ordering_key r) (cl_id c)) d'"
| EvDead: "mark_dead_reason now c reason cs d = (Inr (), d') \<Longrightarrow> r \<in> set (rows d) \<Longrightarrow> r_id r = cl_id c \<Longrightarrow>
    ob_event h d (Take (cl_tenant c, r_ordering_key r) (cl_id c)) d'"
| EvPark: "park h now i p b reason d = (r1, d') \<Longrightarrow> ob_event h d Quiet d'"
| EvClaim: "claim now tok locked n lease d = (r2, d') \<Longrightarrow> ob_event h d Quiet d'"
| EvRelease: "release c d = (r3, d') \<Longrightarrow> ob_event h d Quiet d'"
| EvPrepare: "tenant_tx ErrTenancy (cl_tenant c) (\<lambda>tx. prepare_in tx now c ps) d = (r3, d') \<Longrightarrow>
    ob_event h d Quiet d'"
| EvHalt: "halt now c pause cs d = (r3, d') \<Longrightarrow> ob_event h d Quiet d'"
| EvRetry: "fail now c l cs d = (r3, d') \<Longrightarrow> ladder_next l (int (cl_attempt c)) = Some delay \<Longrightarrow>
    ob_event h d Quiet d'"
| EvFailed: "ob_event h d Quiet d"

lemma accept_duplicate_quiet:
  assumes "accept h now i t dl d = (Inr (j, False), d')"
  shows "quiet_from d d'"
proof -
  have "accept_in h now i t dl (bound t) d = Inr ((j, False), d')"
    using assms by (simp add: accept_def tenant_tx_commit)
  then have "rows d' = rows d"
    unfolding accept_in_def sql_accept_def
    by (auto split: if_splits sum.splits option.splits prod.splits dest!: insert_row_cases)
  then show ?thesis by (rule queue_rows_eq)
qed

lemmas quiet_ops = accept_duplicate_quiet park_quiet claim_quiet release_quiet prepare_tx_quiet
  halt_quiet retry_quiet

inductive_cases ob_event_PutE: "ob_event h d (Put k i) d'"
inductive_cases ob_event_TakeE: "ob_event h d (Take k i) d'"
inductive_cases ob_event_QuietE: "ob_event h d Quiet d'"

lemma ob_event_put: "ob_event h d (Put k i) d' \<Longrightarrow> hex_hash h \<Longrightarrow> ob_inv d \<Longrightarrow> put_back d k i d'"
  by (erule ob_event_PutE) (auto dest: accept_put replay_put)

lemma ob_event_take: "ob_event h d (Take k i) d' \<Longrightarrow> ob_inv d \<Longrightarrow> took d k i d'"
  by (erule ob_event_TakeE) (auto dest: mark_delivered_took mark_dead_reason_took)

lemma ob_event_quiet: "ob_event h d Quiet d' \<Longrightarrow> ob_inv d \<Longrightarrow> quiet_from d d'"
  by (erule ob_event_QuietE) (auto dest: quiet_ops [rotated] intro: quiet_ops ob_inv_ids)

lemma ob_event_inv: "ob_event h d e d' \<Longrightarrow> hex_hash h \<Longrightarrow> ob_inv d \<Longrightarrow> ob_inv d'"
  by (induction rule: ob_event.induct) (auto intro: op_invs accept_inv park_inv)

interpretation outbox: fifo_family "\<lambda>d. hex_hash h \<and> ob_inv d" queue_of "ob_event h" for h
  by unfold_locales (use ob_event_inv ob_event_put ob_event_take ob_event_quiet in
      \<open>auto simp: put_back_def took_def\<close>)

text \<open>The events cover every step: a call that succeeds names a row of the table, and a call
  that fails leaves the tables as they were.\<close>

lemma finish_in_row:
  assumes "ids_ok d1" "finish_in (bound t) c finish d = Inr (u, d')" "t = cl_tenant c"
    "finish d = Inr (finish_rows (\<lambda>r. holds_lease (bound t) i tok r \<and> unfinished r) f d1)"
  shows "\<exists>r \<in> set (rows d1). r_id r = i \<and> r_tenant r = t \<and> unfinished r \<and> r_lease_token r = Some tok"
  using finish_in_cases [OF assms] by metis

lemma mark_delivered_row:
  assumes inv: "ob_inv d" and run: "mark_delivered now c dead d = (Inr (), d')"
  shows "\<exists>r \<in> set (rows d). r_id r = cl_id c \<and> r_tenant r = cl_tenant c \<and> unfinished r \<and>
           r_lease_token r = Some (cl_token c)"
proof -
  let ?t = "cl_tenant c"
  have *: "mark_delivered_in now c dead (bound ?t) d = Inr ((), d')"
    using run by (auto simp: mark_delivered_def transition_def tenant_tx_commit split: if_splits)
  then obtain d0 where d0: "mark_dead_records (bound ?t) now (cl_id c) dead d = Inr d0"
    unfolding mark_delivered_in_def finish_in_def by (auto split: sum.splits)
  let ?d1 = "sql_mark_records_delivered (bound ?t) now (cl_id c) d0"
  have "ids_ok ?d1" by (intro ob_inv_ids mark_records_delivered_inv mark_dead_records_inv [OF d0 inv])
  then have "\<exists>r \<in> set (rows ?d1). r_id r = cl_id c \<and> r_tenant r = ?t \<and> unfinished r \<and>
      r_lease_token r = Some (cl_token c)"
    by (rule finish_in_row [OF _ *[unfolded mark_delivered_in_def] refl]) (simp add: d0 sql_mark_delivered_def)
  then show ?thesis using mark_dead_records_rows [OF d0] by simp
qed

lemma mark_dead_reason_row:
  assumes inv: "ob_inv d" and run: "mark_dead_reason now c reason cs d = (Inr (), d')"
  shows "\<exists>r \<in> set (rows d). r_id r = cl_id c \<and> r_tenant r = cl_tenant c \<and> unfinished r \<and>
           r_lease_token r = Some (cl_token c)"
proof -
  let ?t = "cl_tenant c"
  have *: "finish_in (bound ?t) c (\<lambda>d. Inr (sql_mark_dead (bound ?t) now (cl_id c) (cl_token c) reason
      (clip (cause_text cs)) d)) d = Inr ((), d')"
    using run by (auto simp: mark_dead_reason_def transition_def tenant_tx_commit split: if_splits)
  show ?thesis by (rule finish_in_row [OF ob_inv_ids [OF inv] * refl]) (simp add: sql_mark_dead_def)
qed

lemma replay_row_exists:
  assumes "replay now t i d = (Inr (), d')"
  shows "\<exists>r \<in> set (rows d). replayable (bound t) i d r"
proof -
  obtain n where "replay_in now i (bound t) d = Inr (n, d')" "n \<noteq> 0"
    using assms by (auto simp: replay_def tenant_tx_commit split: if_splits prod.splits sum.splits)
  then show ?thesis
    by (auto simp: replay_in_def sql_replay_def Let_def matching_def filter_empty_conv split: if_splits)
qed

lemma dead_event:
  assumes "mark_dead_reason now c reason cs d = (res, d')" "ob_inv d"
  shows "\<exists>e. ob_event h d e d'"
proof (cases res)
  case (Inl a)
  then have "d' = d" using mark_dead_reason_failed assms(1) by simp
  then show ?thesis using EvFailed by blast
next
  case (Inr u)
  then have *: "mark_dead_reason now c reason cs d = (Inr (), d')" using assms(1) by simp
  then show ?thesis using mark_dead_reason_row [OF assms(2) *] EvDead [OF *] by blast
qed

lemma fail_event:
  assumes "fail now c l cs d = (res, d')" "ob_inv d"
  shows "\<exists>e. ob_event h d e d'"
proof (cases "ladder_next l (int (cl_attempt c))")
  case (Some a)
  then show ?thesis using EvRetry [OF assms(1)] by blast
next
  case None
  then have "mark_dead_reason now c reason_retries_exhausted cs d = (res, d')"
    using assms(1) by (simp add: fail_def)
  then show ?thesis using dead_event [OF _ assms(2)] by blast
qed

lemma accept_event:
  assumes "accept h now i t dl d = (res, d')"
  shows "\<exists>e. ob_event h d e d'"
proof (cases res)
  case (Inl a)
  then have "d' = d" using accept_failed assms by simp
  then show ?thesis using EvFailed by blast
next
  case (Inr u)
  then show ?thesis using assms EvAccepted EvDuplicate by (cases u; cases "snd u") fastforce+
qed

lemma delivered_event:
  assumes "mark_delivered now c dead d = (res, d')" "ob_inv d"
  shows "\<exists>e. ob_event h d e d'"
proof (cases res)
  case (Inl a)
  then have "d' = d" using mark_delivered_failed assms(1) by simp
  then show ?thesis using EvFailed by blast
next
  case (Inr u)
  then have *: "mark_delivered now c dead d = (Inr (), d')" using assms(1) by simp
  then show ?thesis using mark_delivered_row [OF assms(2) *] EvDelivered [OF *] by blast
qed

lemma replay_event:
  assumes "replay now t i d = (res, d')"
  shows "\<exists>e. ob_event h d e d'"
proof (cases res)
  case (Inl a)
  then have "d' = d" using replay_failed assms(1) by simp
  then show ?thesis using EvFailed by blast
next
  case (Inr u)
  then have *: "replay now t i d = (Inr (), d')" using assms(1) by simp
  then obtain r where "r \<in> set (rows d)" "replayable (bound t) i d r" using replay_row_exists by blast
  then show ?thesis using EvReplayed [OF *, of r] by (auto simp: replayable_def)
qed

lemma ob_step_event: "ob_step h d d' \<Longrightarrow> ob_inv d \<Longrightarrow> \<exists>e. ob_event h d e d'"
  by (induction rule: ob_step.induct)
    (simp_all add: mark_dead_def mark_abandoned_def accept_event delivered_event dead_event fail_event
      replay_event, (blast intro: EvPark EvClaim EvRelease EvPrepare EvHalt)+)

lemma ob_reach_run: "ob_reach h d \<Longrightarrow> hex_hash h \<Longrightarrow> \<exists>es. run_of (ob_event h) empty_odb es d"
proof (induction rule: ob_reach.induct)
  case ReachEmpty
  then show ?case by (auto intro: RunNil)
next
  case (ReachStep d d')
  then obtain es where es: "run_of (ob_event h) empty_odb es d"
    using ReachStep.IH [OF ReachStep.prems] by (elim exE)
  obtain e where e: "ob_event h d e d'"
    using ob_step_event [OF ReachStep.hyps(2)] ob_reach_inv [OF ReachStep.hyps(1)] ReachStep.prems by blast
  show ?case by (rule exI, rule run_snoc [OF es e])
qed

end
