(* ===== verification/Outbox_Facts.thy ===== *)
theory Outbox_Facts
  imports Outbox_Fifo
begin

text \<open>
  What the outbox promises, over its reachable tables: order, exclusion, idempotence, leases,
  the retry ladder, the two ways a delivery ends and how it comes back.
\<close>

subsection \<open>A concrete table\<close>

text \<open>Two deliveries of one key and one of another, all accepted at time 0, then the first
  claimed at time 1.\<close>

definition ex_delivery :: "bytes \<Rightarrow> bytes \<Rightarrow> delivery" where
  "ex_delivery k b = \<lparr>d_provider = ''clickup'', d_ordering_key = k, d_raw_body = b\<rparr>"

definition ex_hash :: "bytes \<Rightarrow> bytes" where
  "ex_hash x = replicate ((64::nat) - length x mod 16) CHR ''a'' @ replicate (length x mod 16) CHR ''b''"

lemma ex_hash_hex [simp]: "hex_hash ex_hash"
  using mod_less_divisor [of 16]
  by (auto simp: hex_hash_def ex_hash_def hex_digit_def less_imp_le list_all_iff)

definition ex1 :: odb where
  "ex1 = snd (accept ex_hash 0 ''i1'' ''acme'' (ex_delivery ''k'' ''a'') empty_odb)"

definition ex2 :: odb where
  "ex2 = snd (accept ex_hash 0 ''i2'' ''acme'' (ex_delivery ''k'' ''bb'') ex1)"

definition ex3 :: odb where
  "ex3 = snd (accept ex_hash 0 ''i3'' ''acme'' (ex_delivery ''m'' ''ccc'') ex2)"

definition ex4 :: odb where
  "ex4 = snd (claim 1 ''tok'' [] 10 60 ex3)"

definition ex_claim :: claimed where
  "ex_claim = \<lparr>cl_id = ''i1'', cl_tenant = ''acme'', cl_attempt = 1, cl_token = ''tok''\<rparr>"

lemma ex_reach: "ob_reach ex_hash ex1" "ob_reach ex_hash ex2" "ob_reach ex_hash ex3" "ob_reach ex_hash ex4"
proof -
  show 1: "ob_reach ex_hash ex1" unfolding ex1_def
    by (rule ReachStep [OF ReachEmpty], rule StepAccept, rule prod.collapse [symmetric])
  show 2: "ob_reach ex_hash ex2" unfolding ex2_def
    by (rule ReachStep [OF 1], rule StepAccept, rule prod.collapse [symmetric])
  show 3: "ob_reach ex_hash ex3" unfolding ex3_def
    by (rule ReachStep [OF 2], rule StepAccept, rule prod.collapse [symmetric])
  show "ob_reach ex_hash ex4" unfolding ex4_def
    by (rule ReachStep [OF 3], rule StepClaim, rule prod.collapse [symmetric])
qed

text \<open>Evaluating the operations: the statements unfolded, with ASCII text known to be storable.\<close>

lemma mod_nat_eval: "length (delivery_input p b) mod 16 = (length p + length b + 1) mod 16"
  by (simp add: delivery_input_def)

lemmas accept_eval = accept_def tenant_tx_valid begin_tx_def accept_in_def bad_ordering_key_def storable_eval
  ord_of_def delivery_id_def sql_accept_def insert_row_def no_unfinished_def check_part_def Let_def
  ex_delivery_def of_key_def unfinished_def

definition ex_row :: "bytes \<Rightarrow> nat \<Rightarrow> bytes \<Rightarrow> bytes \<Rightarrow> bool \<Rightarrow> row" where
  "ex_row i n k b hm = \<lparr>r_id = i, r_seq = n, r_tenant = ''acme'', r_provider = ''clickup'',
     r_delivery_id = ex_hash (delivery_input ''clickup'' b), r_ordering_key = k, r_raw_body = b,
     r_state = Pending, r_is_head = hm, r_attempts = 0, r_next_attempt_at = 0, r_lease_until = None,
     r_lease_token = None, r_last_error = [], r_dead_reason = [], r_accepted_at = 0,
     r_prepared_at = None, r_finished_at = None\<rparr>"

lemma ex_hash_neq: "length x mod 16 \<noteq> length y mod 16 \<Longrightarrow> ex_hash x \<noteq> ex_hash y"
proof
  assume n: "length x mod 16 \<noteq> length y mod 16" and e: "ex_hash x = ex_hash y"
  have "length (filter (\<lambda>c. c = CHR ''b'') (ex_hash z)) = length z mod 16" for z
    by (simp add: ex_hash_def filter_replicate)
  then show False using n e by metis
qed

lemma ex1_val: "ex1 = \<lparr>rows = [ex_row ''i1'' 1 ''k'' ''a'' True], recs = [], next_seq = 2\<rparr>"
  and ex1_run: "accept ex_hash 0 ''i1'' ''acme'' (ex_delivery ''k'' ''a'') empty_odb = (Inr (''i1'', True), ex1)"
  unfolding ex1_def by (simp_all add: accept_eval valid_acme empty_odb_def ex_row_def)

lemma ex2_val: "ex2 = \<lparr>rows = [ex_row ''i1'' 1 ''k'' ''a'' True, ex_row ''i2'' 2 ''k'' ''bb'' False],
    recs = [], next_seq = 3\<rparr>"
  unfolding ex2_def ex1_val by (simp add: accept_eval valid_acme ex_row_def ex_hash_neq mod_nat_eval)

lemma ex3_val: "ex3 = \<lparr>rows = [ex_row ''i1'' 1 ''k'' ''a'' True, ex_row ''i2'' 2 ''k'' ''bb'' False,
    ex_row ''i3'' 3 ''m'' ''ccc'' True], recs = [], next_seq = 4\<rparr>"
  unfolding ex3_def ex2_val by (simp add: accept_eval valid_acme ex_row_def ex_hash_neq mod_nat_eval)

lemmas parse_acme = parse_tenant_valid [OF valid_acme]

lemmas claim_eval = parse_acme claim_def role_tx_def begin_tx_def sql_claim_def claim_candidates_def claimable_def
  due_at_def update_rows_def lease_row_def Let_def valid_acme ex_row_def

lemma ex4_val: "ex4 = \<lparr>rows = [lease_row 1 60 ''tok'' (ex_row ''i1'' 1 ''k'' ''a'' True),
    ex_row ''i2'' 2 ''k'' ''bb'' False, lease_row 1 60 ''tok'' (ex_row ''i3'' 3 ''m'' ''ccc'' True)],
    recs = [], next_seq = 4\<rparr>"
  and ex4_run: "claim 1 ''tok'' [] 10 60 ex3 = (Inr [ex_claim, ex_claim\<lparr>cl_id := ''i3''\<rparr>], ex4)"
  unfolding ex4_def ex3_val by (simp_all add: claim_eval ex_claim_def)

subsection \<open>Invariants\<close>

text \<open>C20: In every state the package can reach, by any sequence of calls with any claims, the
  head marker sits on exactly the earliest unfinished row of each key, identities are unique, a
  lease is held only on a head, and the stored records agree with their delivery.\<close>

theorem outbox_invariant:
  assumes "ob_reach h d" and "hex_hash h"
  shows "ob_inv d"
  by (rule ob_reach_inv [OF assms])

theorem outbox_invariant_witness: "ob_inv ex4 \<and> length (rows ex4) = 3"
  using outbox_invariant [OF ex_reach(4)] by (simp add: ex4_val)

lemma key_exclusive:
  assumes "ob_inv d" "r \<in> set (rows d)" "q \<in> set (rows d)" "of_key (r_tenant r) (r_ordering_key r) q"
    "r_is_head r \<or> r_lease_token r \<noteq> None" "r_is_head q \<or> r_lease_token q \<noteq> None"
  shows "r = q"
proof -
  have "first_of_key d r" "first_of_key d q"
    using assms leased_head [OF assms(1)] head_first [OF assms(1)] by blast+
  then show ?thesis using first_of_key_unique [OF ob_inv_ids [OF assms(1)] assms(2,3) of_key_self assms(4)] by blast
qed

text \<open>C28: The CHECK and UNIQUE constraints and the partial unique index of migrations 00002 and
  00005 hold in every reachable state, so the server never refuses a statement because of one:
  in particular two rows of one ordering key are never both heads, nor both leased.\<close>

theorem outbox_constraints:
  assumes "ob_reach h d" and "hex_hash h"
  shows "distinct (map (\<lambda>r. (r_tenant r, r_delivery_id r)) (rows d)) \<and>
    (\<forall>r \<in> set (rows d). \<forall>q \<in> set (rows d). of_key (r_tenant r) (r_ordering_key r) q \<and>
       (r_is_head r \<or> r_lease_token r \<noteq> None) \<and> (r_is_head q \<or> r_lease_token q \<noteq> None) \<longrightarrow> r = q) \<and>
    (\<forall>r \<in> set (rows d). r_provider r \<noteq> [] \<and> r_delivery_id r \<noteq> [] \<and> r_ordering_key r \<noteq> [] \<and>
       length (r_ordering_key r) \<le> 512 \<and> (r_lease_until r = None) = (r_lease_token r = None) \<and>
       (r_is_head r \<longrightarrow> unfinished r)) \<and>
    distinct (map (\<lambda>x. (x_outbox_id x, x_pos x)) (recs d)) \<and>
    (\<forall>x \<in> set (recs d). x_record_id x \<noteq> [] \<and> x_op x \<noteq> [] \<and> x_kind x \<noteq> [] \<and>
       (x_state x = RPrepared) = (x_finished_at x = None) \<and> (x_dead_reason x \<noteq> []) = (x_state x = RDead))"
proof -
  note inv = ob_reach_inv [OF assms]
  have "r_provider r \<noteq> [] \<and> r_delivery_id r \<noteq> [] \<and> r_ordering_key r \<noteq> [] \<and>
       length (r_ordering_key r) \<le> 512 \<and> (r_lease_until r = None) = (r_lease_token r = None) \<and>
       (r_is_head r \<longrightarrow> unfinished r)" if "r \<in> set (rows d)" for r
    using ob_inv_row [OF inv that] head_first [OF inv that]
    by (simp add: row_ok_def bad_ordering_key_def first_of_key_def)
  moreover have "distinct (map (\<lambda>r. (r_tenant r, r_delivery_id r)) (rows d))"
    using ob_inv_ids [OF inv] by (simp add: ids_ok_def)
  moreover have "distinct (map (\<lambda>x. (x_outbox_id x, x_pos x)) (recs d))" "\<forall>x \<in> set (recs d). orec_ok x"
    using inv unfolding ob_inv_def recs_ok_def by blast+
  ultimately show ?thesis using key_exclusive [OF inv] unfolding orec_ok_def by blast
qed

theorem outbox_constraints_witness:
  "distinct (map (\<lambda>r. (r_tenant r, r_delivery_id r)) (rows ex4)) \<and>
   \<not> of_key ''acme'' ''k'' (lease_row 1 60 ''tok'' (ex_row ''i3'' 3 ''m'' ''ccc'' True))"
  using outbox_constraints [OF ex_reach(4) ex_hash_hex] by (simp add: of_key_def lease_row_def ex_row_def)



subsection \<open>Order\<close>

lemma queue_front:
  assumes "ids_ok d" "r \<in> set (rows d)" "first_of_key d r"
  shows "\<exists>rest. queue_of d (r_tenant r, r_ordering_key r) = r_id r # rest"
proof -
  have "r_seq r \<in> live d (r_tenant r) (r_ordering_key r)"
    using assms(2,3) by (auto simp: first_of_key_live live_def of_key_self)
  then show ?thesis
    using sorted_list_min [OF finite_live, of "r_seq r"] assms(3) id_at_row [OF assms(1,2)]
    by (simp add: queue_of_live [OF assms(1)] first_of_key_live)
qed

lemma parse_claims_map: "parse_claims tok cs = Inr xs \<Longrightarrow>
    xs = map (\<lambda>(i, t, n). \<lparr>cl_id = i, cl_tenant = t, cl_attempt = n, cl_token = tok\<rparr>) cs"
  by (induction cs arbitrary: xs) (auto split: sum.splits)

lemma claim_result:
  assumes "claim now tok locked n lease d = (Inr cs, d')"
  shows "0 < n \<and> cs = map (\<lambda>r. \<lparr>cl_id = r_id r, cl_tenant = r_tenant r, cl_attempt = Suc (r_attempts r), cl_token = tok\<rparr>)
           (claim_candidates now locked (min (nat n) max_batch) d) \<and>
         d' = snd (sql_claim now lease tok (min (nat n) max_batch) locked d)"
  using assms
  by (auto simp: claim_def role_tx_def begin_tx_commit sql_claim_def Let_def dest!: parse_claims_map
      split: if_splits sum.splits)

lemma claimed_row:
  assumes "claim now tok locked n lease d = (Inr cs, d')" "c \<in> set cs"
  obtains r where "r \<in> set (rows d)" "claimable now locked r" "lease_row now lease tok r \<in> set (rows d')"
    "c = \<lparr>cl_id = r_id r, cl_tenant = r_tenant r, cl_attempt = Suc (r_attempts r), cl_token = tok\<rparr>"
proof -
  obtain r where r: "r \<in> set (claim_candidates now locked (min (nat n) max_batch) d)"
    "c = \<lparr>cl_id = r_id r, cl_tenant = r_tenant r, cl_attempt = Suc (r_attempts r), cl_token = tok\<rparr>"
    using claim_result [OF assms(1)] assms(2) by auto
  have "lease_row now lease tok r \<in> set (rows d')"
    using claim_result [OF assms(1)] r(1) claim_candidates_rows [OF r(1)]
    by (force simp: sql_claim_def Let_def)
  then show ?thesis using that claim_candidates_rows [OF r(1)] r(2) by blast
qed

text \<open>C25: A claim returns only deliveries that stand at the front of their key's queue, are due, and
  are not locked by another transaction; it leases each under its token, counts the attempt,
  and returns no delivery twice and at most the batch (itself at most 1000).\<close>

theorem claim_takes_fronts:
  assumes "ob_reach h d" and "hex_hash h" and "claim now tok locked n lease d = (Inr cs, d')"
  shows "length cs \<le> min (nat n) 1000 \<and> distinct (map cl_id cs) \<and>
    (\<forall>c \<in> set cs. cl_token c = tok \<and> cl_id c \<notin> set locked \<and>
       (\<exists>r \<in> set (rows d). r_id r = cl_id c \<and> r_tenant r = cl_tenant c \<and> due_at r \<le> now \<and>
          cl_attempt c = Suc (r_attempts r) \<and> lease_row now lease tok r \<in> set (rows d') \<and>
          (\<exists>rest. queue_of d (cl_tenant c, r_ordering_key r) = cl_id c # rest)))"
proof -
  note inv = ob_reach_inv [OF assms(1,2)]
  let ?cs = "claim_candidates now locked (min (nat n) max_batch) d"
  have "distinct (rows d)" using ob_inv_ids [OF inv] by (simp add: ids_ok_def distinct_map)
  then have "distinct ?cs" by (simp add: claim_candidates_def distinct_take)
  then have "distinct (map r_id ?cs)"
    using ids_inj [OF ob_inv_ids [OF inv]] claim_candidates_rows by (auto simp: distinct_map inj_on_def)
  moreover have "map cl_id cs = map r_id ?cs" "length cs = length ?cs"
    using claim_result [OF assms(3)] by simp_all
  moreover have "length ?cs \<le> min (nat n) 1000"
    unfolding claim_candidates_def length_take by (rule min.cobounded2)
  moreover have "cl_token c = tok \<and> cl_id c \<notin> set locked \<and>
       (\<exists>r \<in> set (rows d). r_id r = cl_id c \<and> r_tenant r = cl_tenant c \<and> due_at r \<le> now \<and>
          cl_attempt c = Suc (r_attempts r) \<and> lease_row now lease tok r \<in> set (rows d') \<and>
          (\<exists>rest. queue_of d (cl_tenant c, r_ordering_key r) = cl_id c # rest))" if c: "c \<in> set cs" for c
  proof (rule claimed_row [OF assms(3) c])
    fix r assume r: "r \<in> set (rows d)" "claimable now locked r" "lease_row now lease tok r \<in> set (rows d')"
      "c = \<lparr>cl_id = r_id r, cl_tenant = r_tenant r, cl_attempt = Suc (r_attempts r), cl_token = tok\<rparr>"
    then have "first_of_key d r" using head_first [OF inv r(1)] by (simp add: claimable_def)
    then show ?thesis using r queue_front [OF ob_inv_ids [OF inv] r(1)] by (auto simp: claimable_def)
  qed
  ultimately show ?thesis by simp
qed

theorem claim_takes_fronts_witness:
  "cl_id ex_claim = ''i1'' \<and> (\<exists>rest. queue_of ex3 (''acme'', ''k'') = ''i1'' # rest)"
  using claim_takes_fronts [OF ex_reach(3) ex_hash_hex ex4_run]
  by (auto simp: ex_claim_def ex3_val ex_row_def)

text \<open>C21: Deliveries of one ordering key finish in the order they entered its queue: along any run
  of calls from the empty table, what has been finished for a key, followed by what is still
  queued for it, is what was accepted or replayed for it, in that order. Every reachable state
  is the end of such a run.\<close>

theorem fifo_order:
  assumes "run_of (ob_event h) empty_odb es d" and "hex_hash h"
  shows "takes k es @ queue_of d k = puts k es"
  using outbox.run_order [OF assms(1), of k] ob_inv_empty assms(2)
  by (simp add: queue_of_def queue_rows_def empty_odb_def)

theorem fifo_order_witness:
  "takes (''acme'', ''k'') [Put (''acme'', ''k'') ''i1'', Quiet] @ queue_of (snd (claim 1 ''tok'' [] 10 60 ex1)) (''acme'', ''k'') = [''i1'']"
proof -
  have "run_of (ob_event ex_hash) empty_odb [Put (''acme'', d_ordering_key (ex_delivery ''k'' ''a'')) ''i1'', Quiet]
      (snd (claim 1 ''tok'' [] 10 60 ex1))"
    by (rule RunCons, rule EvAccepted, rule ex1_run, rule RunCons, rule EvClaim, rule prod.collapse [symmetric],
        rule RunNil)
  from fifo_order [OF this ex_hash_hex, of "(''acme'', ''k'')"] show ?thesis by (simp add: ex_delivery_def)
qed

subsection \<open>Idempotence\<close>

lemma accept_in_known_delivery:
  assumes "\<not> bad_ordering_key (d_ordering_key dl)" "delivery_id h (d_provider dl) (d_raw_body dl) = Inr did"
    "storable (d_provider dl)" "(t, did) \<in> known d"
  shows "accept_in h now i t dl (bound t) d = Inr (([], False), d\<lparr>next_seq := Suc (next_seq d)\<rparr>)"
  using assms by (auto simp: accept_in_def sql_accept_def insert_row_def known_def list_ex_iff Let_def)

lemma accept_makes_known:
  assumes "accept h now i t dl d = (Inr (j, b), d')"
  shows "valid_tenant t \<and> storable (d_provider dl) \<and>
    (\<exists>did. delivery_id h (d_provider dl) (d_raw_body dl) = Inr did \<and> (t, did) \<in> known d')"
proof -
  have t: "valid_tenant t" and run: "accept_in h now i t dl (bound t) d = Inr ((j, b), d')"
    using assms by (simp_all add: accept_def tenant_tx_commit)
  then obtain did where did: "delivery_id h (d_provider dl) (d_raw_body dl) = Inr did" "storable (d_provider dl)"
    unfolding accept_in_def by (auto split: if_splits sum.splits)
  have "(t, did) \<in> known d'"
    using run did unfolding accept_in_def sql_accept_def insert_row_def known_def
    by (auto simp: Let_def list_ex_iff image_iff split: if_splits)
  then show ?thesis using t did by blast
qed



subsection \<open>Leases\<close>

definition lost :: "claimed \<Rightarrow> odb \<Rightarrow> bool" where
  "lost c d \<longleftrightarrow> (\<forall>r \<in> set (rows d). r_id r = cl_id c \<longrightarrow> r_lease_token r \<noteq> Some (cl_token c))"

lemma lost_matching: "lost c d \<Longrightarrow> matching (\<lambda>r. holds_lease tx (cl_id c) (cl_token c) r \<and> Q r) d = []"
  by (auto simp: matching_def filter_empty_conv lost_def holds_lease_def)

lemma lost_transition:
  assumes "valid_tenant (cl_tenant c)" and "change (bound (cl_tenant c)) d = Inl ErrLeaseLost"
  shows "transition c change d = (Inl ErrLeaseLost, d)"
  using assms by (simp add: transition_def tenant_tx_valid begin_tx_def)

lemma lost_rows: "rows d' = rows d \<Longrightarrow> lost c d' = lost c d"
  by (simp add: lost_def)



lemma find_unique:
  assumes "x \<in> set xs" "P x" "\<And>y. y \<in> set xs \<Longrightarrow> P y \<Longrightarrow> y = x"
  shows "find P xs = Some x"
proof (cases "find P xs")
  case None
  then show ?thesis using assms(1,2) by (auto simp: find_None_iff)
next
  case (Some y)
  then show ?thesis using assms(3) find_Some_iff2 by metis
qed

lemma sql_get_row:
  assumes "ids_ok d" "r \<in> set (rows d)" "r_tenant r = t"
  shows "sql_get (bound t) (r_id r) d = Some r"
  unfolding sql_get_def
  by (rule find_unique) (use assms ids_inj [OF assms(1)] in \<open>auto simp: visible_bound\<close>)

lemma held_one_row:
  assumes "ids_ok d" "r \<in> set (rows d)" "holds_lease (bound t) i tok r" "Q r"
  shows "one_row d (\<lambda>r. holds_lease (bound t) i tok r \<and> Q r) r \<and>
    matching (\<lambda>r. holds_lease (bound t) i tok r \<and> Q r) d \<noteq> []"
  using one_rowI [OF assms(1,2), of "\<lambda>r. holds_lease (bound t) i tok r \<and> Q r"] assms
  by (auto simp: holds_lease_def matching_def filter_empty_conv)

text \<open>Giving a claim back undoes it: after a claim and its release the delivery's row is what it
  was, without a lease, so the interrupted attempt is not counted, and it is due when it was due
  before.\<close>

theorem release_undoes_claim:
  assumes "ob_reach h d" and "hex_hash h" and "tok \<noteq> []"
    and "claim now tok locked n lease d = (Inr cs, d1)" and "c \<in> set cs"
  shows "\<exists>r d2. release c d1 = (Inr (), d2) \<and> sql_get (bound (cl_tenant c)) (cl_id c) d = Some r \<and>
    sql_get (bound (cl_tenant c)) (cl_id c) d2 = Some (r\<lparr>r_lease_until := None, r_lease_token := None\<rparr>)"
proof (rule claimed_row [OF assms(4,5)])
  fix r assume r: "r \<in> set (rows d)" "claimable now locked r" "lease_row now lease tok r \<in> set (rows d1)"
    "c = \<lparr>cl_id = r_id r, cl_tenant = r_tenant r, cl_attempt = Suc (r_attempts r), cl_token = tok\<rparr>"
  note inv = ob_reach_inv [OF assms(1,2)]
  have inv1: "ob_inv d1" by (rule claim_inv [OF inv assms(4)])
  let ?q = "lease_row now lease tok r"
  let ?P = "\<lambda>q. holds_lease (bound (cl_tenant c)) (cl_id c) tok q \<and> unfinished q"
  define f where "f = (\<lambda>r::row. r\<lparr>r_lease_until := None, r_lease_token := None, r_attempts := r_attempts r - 1\<rparr>)"
  have unf: "unfinished r" using r(2) head_first [OF inv r(1)] by (simp add: claimable_def first_of_key_def)
  have one: "one_row d1 ?P ?q" "matching ?P d1 \<noteq> []"
    using held_one_row [OF ob_inv_ids [OF inv1] r(3), of "cl_tenant c" "cl_id c" tok unfinished] unf r(4)
    by (auto simp: holds_lease_def lease_row_def visible_bound unfinished_def)
  have rel: "sql_release (bound (cl_tenant c)) (cl_id c) tok d1 = (length (matching ?P d1), update_rows ?P f d1)"
    by (simp add: sql_release_def exec_rows_def f_def)
  have tk: "cl_token c = tok" using r(4) by simp
  have vt: "valid_tenant (cl_tenant c)" using ob_inv_row [OF inv r(1)] r(4) by (simp add: row_ok_def)
  have run: "release c d1 = (Inr (), update_rows ?P f d1)"
    unfolding release_def transition_def tk
    by (simp add: tenant_tx_valid [OF vt] begin_tx_def held_def rel one(2) assms(3))
  have inv2: "ob_inv (update_rows ?P f d1)" by (rule release_inv [OF inv1 run])
  have "f ?q = r\<lparr>r_lease_until := None, r_lease_token := None\<rparr>" by (simp add: f_def lease_row_def)
  moreover have "f ?q \<in> set (rows (update_rows ?P f d1))"
    using r(3) unfolding rows_one_row [OF one(1)] by auto
  ultimately have "sql_get (bound (cl_tenant c)) (cl_id c) (update_rows ?P f d1) =
      Some (r\<lparr>r_lease_until := None, r_lease_token := None\<rparr>)"
    using sql_get_row [OF ob_inv_ids [OF inv2], of "f ?q" "cl_tenant c"] r(4) by simp
  then show ?thesis using run sql_get_row [OF ob_inv_ids [OF inv] r(1)] r(4) by auto
qed

theorem release_undoes_claim_witness:
  "\<exists>r d2. release ex_claim ex4 = (Inr (), d2) \<and> sql_get (bound ''acme'') ''i1'' ex3 = Some r \<and>
     sql_get (bound ''acme'') ''i1'' d2 = Some (r\<lparr>r_lease_until := None, r_lease_token := None\<rparr>)"
  using release_undoes_claim [OF ex_reach(3) ex_hash_hex _ ex4_run, of ex_claim] by (simp add: ex_claim_def)

subsection \<open>The retry ladder\<close>

lemma exec_one:
  assumes "ids_ok d" "r \<in> set (rows d)" "holds_lease (bound t) i tok r" "Q r" "tok \<noteq> []" "valid_tenant t"
    "t = cl_tenant c" "tok = cl_token c"
    "\<And>tx d. change tx d = held (exec_rows (\<lambda>r. holds_lease tx i tok r \<and> Q r) f d)"
  shows "transition c change d = (Inr (), update_rows (\<lambda>r. holds_lease (bound t) i tok r \<and> Q r) f d)"
  using held_one_row [OF assms(1-3), where Q = Q] assms(4-6,9) unfolding transition_def assms(8) [symmetric] assms(7) [symmetric]
  by (simp add: tenant_tx_valid begin_tx_def held_def exec_rows_def)

lemma updated_row:
  assumes "ob_inv d'" "d' = update_rows P f d" "r \<in> set (rows d)" "P r" "r_id (f r) = r_id r" "r_tenant (f r) = r_tenant r"
  shows "sql_get (bound (r_tenant r)) (r_id r) d' = Some (f r)"
proof -
  have "f r \<in> set (rows d')" using assms(2-4) by force
  from sql_get_row [OF ob_inv_ids [OF assms(1)] this refl] show ?thesis using assms(5,6) by simp
qed

lemma ladder_next_nth: "1 \<le> n \<Longrightarrow> n \<le> length l \<Longrightarrow> ladder_next l (int n) = Some (l ! (n - 1))"
  by (auto simp: ladder_next_def nat_diff_distrib)

text \<open>Dead-lettering a row that is held: it succeeds, and this is the row after it.\<close>

lemma mark_dead_reason_runs:
  assumes inv: "ob_inv d" and r: "r \<in> set (rows d)" "r_id r = cl_id c" "r_tenant r = cl_tenant c"
    and tok: "r_lease_token r = Some (cl_token c)" "cl_token c \<noteq> []"
  obtains d' where "mark_dead_reason now c reason cs d = (Inr (), d')"
    "sql_get (bound (cl_tenant c)) (cl_id c) d' = Some (r\<lparr>r_state := Dead, r_is_head := False, r_dead_reason := reason,
       r_last_error := clip (cause_text cs), r_finished_at := Some now, r_lease_until := None, r_lease_token := None\<rparr>)"
proof -
  note ids = ob_inv_ids [OF inv]
  have vt: "valid_tenant (cl_tenant c)" using ob_inv_row [OF inv r(1)] r(3) by (simp add: row_ok_def)
  have unf: "unfinished r" using leased_head [OF inv r(1)] tok(1) head_first [OF inv r(1)] by (simp add: first_of_key_def)
  have hl: "holds_lease (bound (cl_tenant c)) (cl_id c) (cl_token c) r"
    using r(2,3) tok(1) by (simp add: holds_lease_def visible_bound)
  define f where "f = (\<lambda>r::row. r\<lparr>r_state := Dead, r_is_head := False, r_dead_reason := reason,
            r_last_error := clip (cause_text cs), r_finished_at := Some now, r_lease_until := None, r_lease_token := None\<rparr>)"
  let ?P = "\<lambda>r. holds_lease (bound (cl_tenant c)) (cl_id c) (cl_token c) r \<and> unfinished r"
  define d' where "d' = sql_promote (bound (cl_tenant c)) (cl_tenant c) (r_ordering_key r) (update_rows ?P f d)"
  have one: "one_row d ?P r" "matching ?P d \<noteq> []"
    using held_one_row [OF ids r(1) hl, where Q = unfinished] unf by blast+
  then have m: "matching ?P d = [r]"
    using matching_cases [OF ids, of ?P "cl_id c"] by (metis (no_types, lifting) holds_lease_def one_row_def)
  have run: "mark_dead_reason now c reason cs d = (Inr (), d')"
    unfolding mark_dead_reason_def transition_def
    by (simp add: tok(2) tenant_tx_valid [OF vt] begin_tx_def finish_in_def sql_mark_dead_def finish_rows_def m
        d'_def f_def)
  have inv': "ob_inv d'" by (rule mark_dead_reason_inv [OF inv run])
  have "mark_head j (f r) \<in> set (rows d')" if "j = map_option r_id (next_of_key (bound (cl_tenant c)) (cl_tenant c) (r_ordering_key r) (update_rows ?P f d))" for j
    using r(1) unfolding d'_def promote_rows that rows_one_row [OF one(1)] by force
  then obtain j where "mark_head j (f r) \<in> set (rows d')" by blast
  moreover have "r_is_head (f r) = False" "\<not> unfinished (f r)" by (simp_all add: f_def unfinished_def)
  ultimately have mem: "f r \<in> set (rows d')"
    using head_first [OF inv', of "mark_head j (f r)"] by (auto simp: mark_head_def first_of_key_def unfinished_def split: if_splits)
  have "sql_get (bound (cl_tenant c)) (cl_id c) d' = Some (f r)"
    using sql_get_row [OF ob_inv_ids [OF inv'] mem] r(2,3) by (simp add: f_def)
  then show thesis using that run by (simp add: f_def)
qed

text \<open>C26: A failed attempt that the ladder still allows keeps the delivery where it stands in its
  queue, gives the lease back, records the cause and makes the row due after the rung of that
  attempt; the attempt that exhausts the ladder (or none counted) dead-letters the delivery with
  the cause, takes it off the front of its queue and so lets the key go on.\<close>

theorem fail_climbs_the_ladder:
  assumes "ob_reach h d" and "hex_hash h" and "r \<in> set (rows d)" and "r_id r = cl_id c"
    and "r_tenant r = cl_tenant c" and "r_lease_token r = Some (cl_token c)" and "cl_token c \<noteq> []"
  shows "\<exists>d' q. fail now c l cs d = (Inr (), d') \<and> sql_get (bound (cl_tenant c)) (cl_id c) d' = Some q \<and>
    r_last_error q = clip (cause_text cs) \<and> r_lease_token q = None \<and> r_attempts q = r_attempts r \<and>
    (if 1 \<le> cl_attempt c \<and> cl_attempt c \<le> length l
     then queue_of d' = queue_of d \<and> r_state q = r_state r \<and> r_is_head q \<and>
          due_at q = now + l ! (cl_attempt c - 1)
     else took d (cl_tenant c, r_ordering_key r) (cl_id c) d' \<and> r_state q = Dead \<and>
          r_dead_reason q = ''retries exhausted'' \<and> r_finished_at q = Some now)"
proof -
  note inv = ob_reach_inv [OF assms(1,2)]
  note ids = ob_inv_ids [OF inv]
  have vt: "valid_tenant (cl_tenant c)" using ob_inv_row [OF inv assms(3)] assms(5) by (simp add: row_ok_def)
  have hd: "r_is_head r" using leased_head [OF inv assms(3)] assms(6) by simp
  then have unf: "unfinished r" using head_first [OF inv assms(3)] by (simp add: first_of_key_def)
  have hl: "holds_lease (bound (cl_tenant c)) (cl_id c) (cl_token c) r"
    using assms(4-6) by (simp add: holds_lease_def visible_bound)
  show ?thesis
  proof (cases "1 \<le> cl_attempt c \<and> cl_attempt c \<le> length l")
    case True
    let ?dl = "l ! (cl_attempt c - 1)"
    have lad: "ladder_next l (int (cl_attempt c)) = Some ?dl" using True by (simp add: ladder_next_nth)
    define f where "f = (\<lambda>r::row. r\<lparr>r_next_attempt_at := now + ?dl, r_last_error := clip (cause_text cs),
              r_lease_until := None, r_lease_token := None\<rparr>)"
    define d' where "d' = update_rows (\<lambda>r. holds_lease (bound (cl_tenant c)) (cl_id c) (cl_token c) r \<and> unfinished r) f d"
    have run: "fail now c l cs d = (Inr (), d')"
      unfolding fail_def lad option.case d'_def
      by (rule exec_one [OF ids assms(3) hl, where Q = unfinished])
        (use unf assms(7) vt in \<open>simp_all add: sql_retry_def f_def\<close>)
    have "sql_get (bound (cl_tenant c)) (cl_id c) d' = Some (f r)"
      using updated_row [OF fail_inv [OF inv run] d'_def assms(3)] hl unf assms(4,5) by (simp add: f_def)
    then show ?thesis using run retry_quiet [OF ids run lad] True hd
      by (intro exI [of _ d'] exI [of _ "f r"]) (simp add: f_def due_at_def)
  next
    case False
    then have lad: "ladder_next l (int (cl_attempt c)) = None" by (auto simp: ladder_next_None)
    obtain d' where runr: "mark_dead_reason now c reason_retries_exhausted cs d = (Inr (), d')"
      and get: "sql_get (bound (cl_tenant c)) (cl_id c) d' = Some (r\<lparr>r_state := Dead, r_is_head := False,
        r_dead_reason := reason_retries_exhausted, r_last_error := clip (cause_text cs), r_finished_at := Some now,
        r_lease_until := None, r_lease_token := None\<rparr>)"
      by (rule mark_dead_reason_runs [OF inv assms(3-7)])
    then have run: "fail now c l cs d = (Inr (), d')" by (simp add: fail_def lad)
    show ?thesis using run mark_dead_reason_took [OF inv runr assms(3,4)] False assms(5)
      by (intro exI [of _ d'] exI [of _ "r\<lparr>r_state := Dead, r_is_head := False, r_dead_reason := reason_retries_exhausted,
        r_last_error := clip (cause_text cs), r_finished_at := Some now, r_lease_until := None, r_lease_token := None\<rparr>"])
        (simp add: get)
  qed
qed

theorem fail_climbs_the_ladder_witness:
  "\<exists>d' q. fail 2 ex_claim [30, 60] (new_cause ClassSinkUnavailable) ex4 = (Inr (), d') \<and>
     sql_get (bound ''acme'') ''i1'' d' = Some q \<and> due_at q = 32 \<and> queue_of d' = queue_of ex4"
  using fail_climbs_the_ladder [OF ex_reach(4) ex_hash_hex, of "lease_row 1 60 ''tok'' (ex_row ''i1'' 1 ''k'' ''a'' True)" ex_claim 2 "[30, 60]" "new_cause ClassSinkUnavailable"]
  by (auto simp: ex4_val ex_claim_def lease_row_def ex_row_def)

subsection \<open>The records of a finished delivery\<close>

text \<open>What finishing does to one waiting record: dead when the caller names it, delivered otherwise.\<close>

definition dead_orec :: "int \<Rightarrow> dead_record \<Rightarrow> orec \<Rightarrow> orec" where
  "dead_orec now r x = x\<lparr>x_state := RDead, x_dead_reason := reason_not_retryable,
     x_last_error := clip (cause_text (dr_cause r)), x_finished_at := Some now\<rparr>"

definition settle :: "int \<Rightarrow> bytes \<Rightarrow> dead_record list \<Rightarrow> orec \<Rightarrow> orec" where
  "settle now i dead x =
     (if x_outbox_id x = i \<and> x_state x = RPrepared
      then (case find (\<lambda>r. dr_record_id r = x_record_id x) dead of
              Some r \<Rightarrow> dead_orec now r x
            | None \<Rightarrow> x\<lparr>x_state := RDelivered, x_finished_at := Some now\<rparr>)
      else x)"

definition kill_listed :: "int \<Rightarrow> bytes \<Rightarrow> dead_record list \<Rightarrow> orec \<Rightarrow> orec" where
  "kill_listed now i dead x =
     (if x_outbox_id x = i \<and> x_state x = RPrepared
      then (case find (\<lambda>r. dr_record_id r = x_record_id x) dead of
              Some r \<Rightarrow> dead_orec now r x | None \<Rightarrow> x)
      else x)"

lemma kill_listed_Cons:
  "kill_listed now i dead (if x_outbox_id x = i \<and> x_record_id x = dr_record_id a \<and> x_state x = RPrepared
      then dead_orec now a x else x) = kill_listed now i (a # dead) x"
  by (simp add: kill_listed_def dead_orec_def)

lemma mark_dead_records_settle:
  assumes "mark_dead_records (bound t) now i dead d = Inr d'"
    and "r \<in> set (rows d)" "r_id r = i" "r_tenant r = t"
  shows "recs d' = map (kill_listed now i dead) (recs d) \<and> distinct (map dr_record_id dead) \<and>
    (\<forall>a \<in> set dead. \<exists>x \<in> set (recs d). x_outbox_id x = i \<and> x_state x = RPrepared \<and> x_record_id x = dr_record_id a)"
  using assms
proof (induction dead arbitrary: d)
  case Nil
  then show ?case by (simp add: kill_listed_def map_idI)
next
  case (Cons a dead)
  define d1 where "d1 = snd (sql_mark_record_dead (bound t) now i (dr_record_id a) reason_not_retryable (clip (cause_text (dr_cause a))) d)"
  have n: "fst (sql_mark_record_dead (bound t) now i (dr_record_id a) reason_not_retryable (clip (cause_text (dr_cause a))) d) \<noteq> 0"
    and step: "mark_dead_records (bound t) now i dead d1 = Inr d'"
    using Cons.prems(1) unfolding d1_def by (auto simp: split_beta Let_def split: if_splits)
  have vis: "visible_rec (bound t) d x \<longleftrightarrow> (\<exists>q \<in> set (rows d). r_id q = x_outbox_id x \<and> r_tenant q = t)" for x
    by (auto simp: visible_rec_def list_ex_iff)
  have rows1: "rows d1 = rows d" by (simp add: d1_def sql_mark_record_dead_def Let_def)
  have recs1: "recs d1 = map (\<lambda>x. if x_outbox_id x = i \<and> x_record_id x = dr_record_id a \<and> x_state x = RPrepared
      then dead_orec now a x else x) (recs d)"
    unfolding d1_def sql_mark_record_dead_def Let_def snd_conv recs_update_recs
    by (rule map_cong [OF refl]) (use Cons.prems(2-4) vis in \<open>auto simp: dead_orec_def\<close>)
  obtain x0 where x0: "x0 \<in> set (recs d)" "x_outbox_id x0 = i" "x_record_id x0 = dr_record_id a" "x_state x0 = RPrepared"
    using n by (auto simp: sql_mark_record_dead_def Let_def filter_empty_conv)
  note k = Cons.IH [OF step, unfolded rows1, OF Cons.prems(2-4)]
  note ih = k [THEN conjunct1] k [THEN conjunct2, THEN conjunct1] k [THEN conjunct2, THEN conjunct2]
  have prior: "\<exists>x \<in> set (recs d). x_outbox_id x = i \<and> x_state x = RPrepared \<and> x_record_id x = dr_record_id b \<and>
      dr_record_id b \<noteq> dr_record_id a" if b: "b \<in> set dead" for b
  proof -
    obtain y where y: "y \<in> set (recs d1)" "x_outbox_id y = i" "x_state y = RPrepared" "x_record_id y = dr_record_id b"
      using bspec [OF ih(3) b] by (elim bexE conjE)
    then obtain x where "x \<in> set (recs d)" "y = (if x_outbox_id x = i \<and> x_record_id x = dr_record_id a \<and>
        x_state x = RPrepared then dead_orec now a x else x)" unfolding recs1 by auto
    then show ?thesis using y by (intro bexI [of _ x]) (auto simp: dead_orec_def split: if_splits)
  qed
  then have "dr_record_id a \<notin> set (map dr_record_id dead)" by force
  moreover have "recs d' = map (kill_listed now i (a # dead)) (recs d)"
    unfolding ih(1) recs1 map_map comp_def kill_listed_Cons ..
  ultimately show ?case using ih(2) prior x0 by auto
qed

text \<open>C27: Finishing a delivery settles every record that was still waiting: the ones the caller
  names as dead are dead-lettered with their cause (each must be a waiting record, named once),
  every other one is delivered, and records that had been settled before, and those of other
  deliveries, keep what they had.\<close>

theorem mark_delivered_settles_records:
  assumes "ob_reach h d" and "hex_hash h" and "mark_delivered now c dead d = (Inr (), d')"
  shows "recs d' = map (settle now (cl_id c) dead) (recs d) \<and> distinct (map dr_record_id dead) \<and>
    (\<forall>a \<in> set dead. \<exists>x \<in> set (recs d). x_outbox_id x = cl_id c \<and> x_state x = RPrepared \<and>
       x_record_id x = dr_record_id a)"
proof -
  note inv = ob_reach_inv [OF assms(1,2)]
  let ?t = "cl_tenant c"
  obtain r where r: "r \<in> set (rows d)" "r_id r = cl_id c" "r_tenant r = ?t"
    using mark_delivered_row [OF inv assms(3)] by blast
  have *: "mark_delivered_in now c dead (bound ?t) d = Inr ((), d')"
    using assms(3) by (auto simp: mark_delivered_def transition_def tenant_tx_commit split: if_splits)
  then obtain d0 where d0: "mark_dead_records (bound ?t) now (cl_id c) dead d = Inr d0"
    unfolding mark_delivered_in_def finish_in_def by (auto split: sum.splits)
  have recs': "recs d' = recs (sql_mark_records_delivered (bound ?t) now (cl_id c) d0)"
    using * unfolding mark_delivered_in_def finish_in_def d0
    by (auto simp: sql_mark_delivered_def finish_rows_def promote_rows split: option.splits list.splits)
  note k = mark_dead_records_settle [OF d0 r]
  have "visible_rec (bound ?t) d0 x" if "x_outbox_id x = cl_id c" for x
    using r that mark_dead_records_rows [OF d0] by (auto simp: visible_rec_def list_ex_iff)
  then have "recs d' = map (\<lambda>x. if x_outbox_id x = cl_id c \<and> x_state x = RPrepared
      then x\<lparr>x_state := RDelivered, x_finished_at := Some now\<rparr> else x) (recs d0)"
    unfolding recs' sql_mark_records_delivered_def by auto
  also have "\<dots> = map (settle now (cl_id c) dead) (recs d)"
    using k by (auto simp: settle_def kill_listed_def dead_orec_def split: option.split)
  finally show ?thesis using k by blast
qed

text \<open>The delivery of \<open>ex_claim\<close> prepared into two records, of which the second is dead.\<close>

definition ex_prep :: "bytes \<Rightarrow> prepared_record" where
  "ex_prep i = \<lparr>p_record_id = i, p_document = ''{}'', p_op = ''upsert'', p_kind = ''message''\<rparr>"

definition ex5 :: odb where
  "ex5 = snd (tenant_tx ErrTenancy (cl_tenant ex_claim)
     (\<lambda>tx. prepare_in tx 2 ex_claim [ex_prep ''a'', ex_prep ''b'']) ex4)"

lemma ex5_reach: "ob_reach ex_hash ex5"
  unfolding ex5_def
  by (rule ReachStep [OF ex_reach(4)], rule StepPrepare, rule prod.collapse [symmetric])

lemma ex5_val: "ex5 = \<lparr>rows = [(lease_row 1 60 ''tok'' (ex_row ''i1'' 1 ''k'' ''a'' True))
       \<lparr>r_state := Prepared, r_prepared_at := Some 2\<rparr>,
    ex_row ''i2'' 2 ''k'' ''bb'' False, lease_row 1 60 ''tok'' (ex_row ''i3'' 3 ''m'' ''ccc'' True)],
    recs = [new_orec 2 ''i1'' 0 (ex_prep ''a''), new_orec 2 ''i1'' 1 (ex_prep ''b'')], next_seq = 4\<rparr>"
  unfolding ex5_def
  by (simp add: ex4_val ex_claim_def tenant_tx_valid valid_acme begin_tx_def prepare_in_def held_def
      sql_mark_prepared_def exec_rows_def matching_def holds_lease_def visible_bound lease_row_def ex_row_def
      ex_prep_def bad_prepared_def storable_eval ord_of_def sql_store_prepared_def update_rows_def
      visible_rec_def new_orec_def Let_def)

definition ex_dead :: dead_record where
  "ex_dead = \<lparr>dr_record_id = ''b'', dr_cause = new_cause ClassSinkRejected\<rparr>"

lemma ex6_ok: "fst (mark_delivered 3 ex_claim [ex_dead] ex5) = Inr ()"
  by (simp add: ex5_val ex_claim_def mark_delivered_def transition_def tenant_tx_valid valid_acme begin_tx_def
      mark_delivered_in_def finish_in_def sql_mark_record_dead_def ex_dead_def new_orec_def ex_prep_def
      visible_rec_def lease_row_def ex_row_def Let_def sql_mark_delivered_def finish_rows_def matching_def
      holds_lease_def visible_bound unfinished_def sql_mark_records_delivered_def)

theorem mark_delivered_settles_records_witness:
  "map x_state (recs (snd (mark_delivered 3 ex_claim [ex_dead] ex5))) = [RDelivered, RDead]"
proof -
  have "mark_delivered 3 ex_claim [ex_dead] ex5 = (Inr (), snd (mark_delivered 3 ex_claim [ex_dead] ex5))"
    using ex6_ok by (metis prod.collapse)
  from mark_delivered_settles_records [OF ex5_reach ex_hash_hex this] show ?thesis
    by (simp add: ex5_val settle_def new_orec_def ex_prep_def ex_claim_def ex_dead_def dead_orec_def)
qed

subsection \<open>Replay and parking\<close>

text \<open>Replaying a delivery that was dead-lettered, or delivered with a dead record, puts it at the
  back of its key's queue with a fresh attempt count, due now, at the state its preparation
  reached, and brings its dead records (and only those) back; nothing else moves.\<close>

theorem replay_requeues:
  assumes "ob_reach h d" and "hex_hash h" and "replay now t i d = (Inr (), d')"
  shows "\<exists>r. sql_get (bound t) i d = Some r \<and> \<not> unfinished r \<and> put_back d (t, r_ordering_key r) i d' \<and>
    sql_get (bound t) i d' = Some (replay_row d now r) \<and>
    recs d' = map (\<lambda>x. if x_outbox_id x = i \<and> x_state x = RDead
      then x\<lparr>x_state := RPrepared, x_dead_reason := [], x_last_error := [], x_finished_at := None\<rparr> else x) (recs d)"
proof -
  note inv = ob_reach_inv [OF assms(1,2)]
  note ids = ob_inv_ids [OF inv]
  have inv': "ob_inv d'" by (rule replay_inv [OF inv assms(3)])
  obtain n where n: "replay_in now i (bound t) d = Inr (n, d')" "n \<noteq> 0"
    using assms(3) by (auto simp: replay_def tenant_tx_commit split: if_splits prod.splits sum.splits)
  let ?d1 = "snd (sql_replay (bound t) now i d)"
  have d': "d' = sql_revive_dead_records (bound t) i ?d1"
    using n by (auto simp: replay_in_def split_beta Let_def split: if_splits)
  obtain r where r: "r \<in> set (rows d)" "replayable (bound t) i d r" using replay_row_exists [OF assms(3)] by blast
  then have ri: "r_id r = i" "r_tenant r = t" "\<not> unfinished r"
    by (auto simp: replayable_def visible_bound unfinished_def)
  have one: "one_row d (replayable (bound t) i d) r"
    by (rule one_rowI [OF ids r(1)]) (use r(2) ri in \<open>auto simp: replayable_def\<close>)
  have rows': "rows d' = map (\<lambda>q. if q = r then replay_row d now r else q) (rows d)"
    using rows_one_row [OF one] by (simp add: d' sql_revive_dead_records_def sql_replay_def Let_def)
  have "replay_row d now r \<in> set (rows d')" using r(1) unfolding rows' by auto
  from sql_get_row [OF ob_inv_ids [OF inv'] this refl] have "sql_get (bound t) i d' = Some (replay_row d now r)"
    using ri by (simp add: replay_row_def)
  moreover have "visible_rec (bound t) ?d1 x" if "x_outbox_id x = i" for x
  proof -
    have "rows ?d1 = rows d'" by (simp add: d' sql_revive_dead_records_def)
    moreover have "r_id (replay_row d now r) = i \<and> r_tenant (replay_row d now r) = t"
      using ri by (simp add: replay_row_def)
    ultimately show ?thesis using \<open>replay_row d now r \<in> set (rows d')\<close> that
      unfolding visible_rec_def list_ex_iff by (intro bexI [of _ "replay_row d now r"]) simp_all
  qed
  then have "recs d' = map (\<lambda>x. if x_outbox_id x = i \<and> x_state x = RDead
      then x\<lparr>x_state := RPrepared, x_dead_reason := [], x_last_error := [], x_finished_at := None\<rparr> else x) (recs d)"
    unfolding d' sql_revive_dead_records_def by (auto simp: sql_replay_def Let_def)
  ultimately show ?thesis
    using sql_get_row [OF ids r(1) ri(2)] ri replay_put [OF inv assms(3) r(1) ri(1)] by auto
qed

definition ex7 :: odb where
  "ex7 = snd (mark_dead 3 ex_claim (new_cause ClassNormalizer) ex4)"

lemma ex7_reach: "ob_reach ex_hash ex7"
  unfolding ex7_def by (rule ReachStep [OF ex_reach(4)], rule StepDead, rule prod.collapse [symmetric])

lemma ex7_replay_ok: "fst (replay 4 ''acme'' ''i1'' ex7) = Inr ()"
  unfolding ex7_def
  by (simp add: ex4_val ex_claim_def mark_dead_def mark_dead_reason_def transition_def tenant_tx_valid valid_acme
      begin_tx_def finish_in_def sql_mark_dead_def finish_rows_def matching_def holds_lease_def visible_bound
      lease_row_def ex_row_def unfinished_def update_rows_def replay_def replay_in_def sql_replay_def
      replayable_def storable_eval ord_of_def sql_promote_def next_of_key_def of_key_def Let_def)

theorem replay_requeues_witness:
  "\<exists>r. sql_get (bound ''acme'') ''i1'' ex7 = Some r \<and> \<not> unfinished r \<and>
     put_back ex7 (''acme'', r_ordering_key r) ''i1'' (snd (replay 4 ''acme'' ''i1'' ex7))"
proof -
  have "replay 4 ''acme'' ''i1'' ex7 = (Inr (), snd (replay 4 ''acme'' ''i1'' ex7))"
    using ex7_replay_ok by (metis prod.collapse)
  from replay_requeues [OF ex7_reach ex_hash_hex this] show ?thesis by blast
qed

text \<open>A delivery nobody owns is parked: stored under the sentinel tenant, finished from the start
  and so never the head of a key, with a fixed reason, and with its body only when the reason says
  the body may be kept. No later claim on the resulting table can return it.\<close>

theorem park_is_never_work:
  assumes "ob_reach h d" and "hex_hash h" and "park h now i p body reason d = (Inr (j, True), d')"
    and "claim now' tok locked n lease d' = (Inr cs, d'')"
  shows "\<exists>q why. rows d' = rows d @ [q] \<and> j = i \<and> r_id q = i \<and> park_reason_text reason = Some why \<and>
    r_tenant q = sentinel \<and> r_state q = Dead \<and> r_dead_reason q = why \<and> \<not> r_is_head q \<and>
    (r_raw_body q = body) = (keeps_body reason \<or>
       body = body_not_kept (h (delivery_input p body)) (length body)) \<and> i \<notin> cl_id ` set cs"
proof -
  have inv': "ob_inv d'" by (rule park_inv [OF ob_reach_inv [OF assms(1,2)] assms(2,3)])
  obtain why bid where pr: "park_reason_text reason = Some why" "delivery_id h p body = Inr bid"
    and run: "\<exists>did. park_in now i p did (if keeps_body reason then body else body_not_kept bid (length body)) why
        (bound sentinel) d = Inr ((j, True), d')"
    using assms(3) unfolding park_def Let_def
    by (auto split: option.splits sum.splits if_splits simp: tenant_tx_commit)
  then obtain q where q: "rows d' = rows d @ [q]" "j = i" "r_id q = i" "r_tenant q = sentinel" "r_state q = Dead"
    "r_dead_reason q = why" "\<not> r_is_head q"
    "r_raw_body q = (if keeps_body reason then body else body_not_kept bid (length body))"
    unfolding park_in_def sql_park_def
    by (auto simp: insert_row_def Let_def split: if_splits sum.splits option.splits)
  have "i \<notin> cl_id ` set cs"
  proof
    assume "i \<in> cl_id ` set cs"
    then obtain c where c: "c \<in> set cs" "cl_id c = i" by blast
    obtain r where r: "r \<in> set (rows d')" "claimable now' locked r" "r_id r = i"
      by (rule claimed_row [OF assms(4) c(1)]) (use c(2) in auto)
    then have "r = q" using ids_inj [OF ob_inv_ids [OF inv'] r(1), of q] q by auto
    then show False using r(2) q by (simp add: claimable_def)
  qed
  moreover have "bid = h (delivery_input p body)" using delivery_id_part [OF pr(2)] by simp
  ultimately show ?thesis using q pr by auto
qed

theorem park_is_never_work_witness:
  "\<exists>q. rows (snd (park ex_hash 5 ''i9'' ''clickup'' ''zzzz'' ParkNoOwner ex3)) = rows ex3 @ [q] \<and> r_state q = Dead"
proof -
  let ?d = "snd (park ex_hash 5 ''i9'' ''clickup'' ''zzzz'' ParkNoOwner ex3)"
  have p: "park ex_hash 5 ''i9'' ''clickup'' ''zzzz'' ParkNoOwner ex3 = (Inr (''i9'', True), ?d)"
    by (simp add: ex3_val park_def park_in_def sql_park_def insert_row_def delivery_id_def check_part_def
        storable_eval ord_of_def keeps_body_def tenant_tx_valid begin_tx_def ex_row_def sentinel_def
        valid_sentinel [unfolded sentinel_def] Let_def)
  have "claim 6 ''tok'' [] 1 1 ?d = (Inr (case claim 6 ''tok'' [] 1 1 ?d of (Inr cs, _) \<Rightarrow> cs), snd (claim 6 ''tok'' [] 1 1 ?d))"
    by (simp add: ex3_val park_def park_in_def sql_park_def insert_row_def delivery_id_def check_part_def
        storable_eval ord_of_def keeps_body_def tenant_tx_valid ex_row_def sentinel_def
        valid_sentinel [unfolded sentinel_def] claim_eval)
  from park_is_never_work [OF ex_reach(3) ex_hash_hex p this] show ?thesis by blast
qed

end
