(* ===== verification/Record_Chars.thy ===== *)
theory Record_Chars
  imports Utf8
begin

text \<open>
  The character rules of internal/record/validate.go (\<open>charRule\<close>, \<open>checkString\<close>) and the cleaners
  of clean.go, which remove or replace exactly what the matching rule refuses. Strings are byte
  strings and a character is a decoded rune, as in Go.
\<close>

datatype char_rule = IdentifierChars | DisplayChars | OneLineChars | ContentChars

text \<open>An error names the field and the rule it breaks.\<close>

datatype rec_error = Invalid bytes bytes

abbreviation max_external_id :: nat where "max_external_id \<equiv> 1024"

abbreviation max_version :: nat where "max_version \<equiv> 256"

abbreviation max_title :: nat where "max_title \<equiv> 1024"

abbreviation max_text :: nat where "max_text \<equiv> 1048576"

abbreviation max_author :: nat where "max_author \<equiv> 256"

abbreviation max_container_id :: nat where "max_container_id \<equiv> 512"

abbreviation max_delivery :: nat where "max_delivery \<equiv> 128"

definition invisible :: "nat \<Rightarrow> bool" where
  "invisible c \<longleftrightarrow> c = 0x00AD \<or> c = 0x061C \<or> 0x200B \<le> c \<and> c \<le> 0x200F \<or> 0x202A \<le> c \<and> c \<le> 0x202E
     \<or> 0x2060 \<le> c \<and> c \<le> 0x206F \<or> c = 0xFEFF"

definition refuses :: "char_rule \<Rightarrow> nat \<Rightarrow> bool" where
  "refuses rule c =
     (if rule = ContentChars then c = 0
      else if c < 0x20 \<or> 0x7F \<le> c \<and> c \<le> 0x9F \<or> c = 0x2028 \<or> c = 0x2029 then True
      else if rule = OneLineChars then False
      else if rule = DisplayChars \<and> (c = 0x200C \<or> c = 0x200D) then False
      else invisible c)"

definition check_string :: "bytes \<Rightarrow> bytes \<Rightarrow> nat \<Rightarrow> nat \<Rightarrow> char_rule \<Rightarrow> rec_error option" where
  "check_string field s min_chars max_chars rule =
     (if length s < min_chars then Some (Invalid field ''is empty'')
      else if length s > max_chars \<and> rune_count s > max_chars
      then Some (Invalid field (''is longer than '' @ show_nat max_chars @ '' characters''))
      else if rule = ContentChars \<and> index_byte s nul \<noteq> None then Some (Invalid field ''contains a NUL'')
      else if rule \<noteq> ContentChars \<and> list_ex (refuses rule) (runes s)
      then Some (Invalid field ''contains a character this field does not allow'')
      else if \<not> valid_string s then Some (Invalid field ''is not valid UTF-8'')
      else None)"

text \<open>\<open>permits\<close>, with the count so far.\<close>

function permits_from :: "char_rule \<Rightarrow> nat \<Rightarrow> bytes \<Rightarrow> bool \<times> nat" where
  "permits_from rule n [] = (True, n)"
| "permits_from rule n (b # s) =
     (let (c, w) = decode_rune (b # s) in
      if c = rune_error \<and> w = 1 \<or> refuses rule c then (False, 0)
      else permits_from rule (Suc n) (drop w (b # s)))"
  by pat_completeness auto
termination
  by (relation "measure (\<lambda>(_, _, s). length s)") (auto dest!: decode_rune_Cons)

abbreviation permits :: "char_rule \<Rightarrow> bytes \<Rightarrow> bool \<times> nat" where
  "permits rule \<equiv> permits_from rule 0"

text \<open>The loop of \<open>clean\<close>: \<open>n\<close> characters written so far; a negative replacement is \<open>None\<close>.\<close>

function clean_loop :: "char_rule \<Rightarrow> nat \<Rightarrow> nat option \<Rightarrow> nat \<Rightarrow> bytes \<Rightarrow> bytes" where
  "clean_loop rule max_chars repl n [] = []"
| "clean_loop rule max_chars repl n (b # s) =
     (let (c, w) = decode_rune (b # s); rest = drop w (b # s) in
      if refuses rule c \<and> repl = None then clean_loop rule max_chars repl n rest
      else
        let c' = (if refuses rule c then the repl else c) in
        if n = max_chars then []
        else encode_rune c' @ clean_loop rule max_chars repl (Suc n) rest)"
  by pat_completeness auto
termination
  by (relation "measure (\<lambda>(_, _, _, _, s). length s)") (auto dest!: decode_rune_Cons)

definition clean :: "bytes \<Rightarrow> char_rule \<Rightarrow> nat \<Rightarrow> nat option \<Rightarrow> bytes" where
  "clean s rule max_chars repl =
     (let (ok, short) = permits rule s in
      if ok \<and> short \<le> max_chars then s else clean_loop rule max_chars repl 0 s)"

definition clean_display :: "bytes \<Rightarrow> bytes" where
  "clean_display s = clean s DisplayChars max_author None"

definition clean_title :: "bytes \<Rightarrow> bytes" where
  "clean_title s =
     trim_right (CHR '' '') (trim_left (CHR '' '') (clean s OneLineChars max_title (Some 32)))"

definition clean_text :: "bytes \<Rightarrow> bytes" where
  "clean_text s = clean s ContentChars max_text None"

subsection \<open>What the loops compute\<close>

definition kept :: "char_rule \<Rightarrow> nat option \<Rightarrow> nat list \<Rightarrow> nat list" where
  "kept rule repl rs = concat (map (\<lambda>c. if refuses rule c then (case repl of None \<Rightarrow> [] | Some r \<Rightarrow> [r]) else [c]) rs)"

lemma permits_iff:
  "permits_from rule n s = (if valid_string s \<and> \<not> list_ex (refuses rule) (runes s) then (True, n + length (runes s)) else (False, 0))"
proof (induction rule n s rule: permits_from.induct)
  case (1 rule n)
  then show ?case by simp
next
  case (2 rule n b s)
  obtain c w where d: "decode_rune (b # s) = (c, w)" by fastforce
  show ?case
    using 2 [OF d [symmetric] refl] valid_string_step [OF _ d] runes_step [OF _ d]
    by (simp add: d del: valid_string.simps runes.simps)
qed

lemma clean_loop_kept:
  "n \<le> m \<Longrightarrow> clean_loop rule m repl n s = encode_runes (take (m - n) (kept rule repl (runes s)))"
proof (induction rule m repl n s rule: clean_loop.induct)
  case (1 rule m repl n)
  then show ?case by (simp add: kept_def)
next
  case (2 rule m repl n b s)
  obtain c w where d: "decode_rune (b # s) = (c, w)" by fastforce
  have rs: "runes (b # s) = c # runes (drop w (b # s))" by (rule runes_step [OF _ d]) simp
  show ?case
  proof (cases "refuses rule c \<and> repl = None")
    case True
    then show ?thesis using 2(1) [OF d [symmetric] refl refl True 2(3)] True unfolding rs
      by (simp add: d kept_def del: runes.simps)
  next
    case False
    then show ?thesis
    proof (cases "n = m")
      case True
      then show ?thesis using False by (auto simp: d Let_def)
    next
      case nm: False
      then obtain k where k: "m - n = Suc k" "m - Suc n = k" using 2(3) by (cases "m - n") auto
      have "clean_loop rule m repl (Suc n) (drop w (b # s)) =
          encode_runes (take (m - Suc n) (kept rule repl (runes (drop w (b # s)))))"
        by (rule 2(2) [OF d [symmetric] refl refl False refl nm]) (use 2(3) nm in simp)
      then show ?thesis using False nm k unfolding rs by (auto simp: d kept_def simp del: runes.simps)
    qed
  qed
qed

lemma kept_ok:
  assumes "list_all scalar rs" and "\<forall>r. repl = Some r \<longrightarrow> scalar r \<and> \<not> refuses rule r"
  shows "list_all (\<lambda>c. scalar c \<and> \<not> refuses rule c) (kept rule repl rs)"
  using assms by (auto simp: kept_def list_all_iff split: option.splits)

lemma scalar_runes: "list_all scalar (runes s)"
  by (auto simp: list_all_iff runes_scalar)

text \<open>Cleaning yields the encoding of permitted characters, at most \<open>m\<close> of them.\<close>

lemma clean_runes:
  assumes "\<forall>r. repl = Some r \<longrightarrow> scalar r \<and> \<not> refuses rule r"
  shows "\<exists>rs. clean s rule m repl = encode_runes rs \<and> list_all (\<lambda>c. scalar c \<and> \<not> refuses rule c) rs \<and> length rs \<le> m"
proof (cases "fst (permits rule s) \<and> snd (permits rule s) \<le> m")
  case True
  then have "valid_string s" "\<not> list_ex (refuses rule) (runes s)" "length (runes s) \<le> m"
    by (simp_all add: permits_iff split: if_splits)
  then show ?thesis using True scalar_runes [of s]
    by (intro exI [of _ "runes s"]) (auto simp: clean_def encode_runes_runes list_all_iff list_ex_iff split_beta)
next
  case False
  have "list_all (\<lambda>c. scalar c \<and> \<not> refuses rule c) (take m (kept rule repl (runes s)))"
    using kept_ok [OF scalar_runes assms] by (auto simp: list_all_iff dest: in_set_takeD)
  moreover have "clean s rule m repl = encode_runes (take m (kept rule repl (runes s)))"
    using False clean_loop_kept [of 0 m rule repl s] by (auto simp: clean_def split_beta)
  ultimately show ?thesis by (intro exI [of _ "take m (kept rule repl (runes s))"]) simp
qed

lemma clean_id: "valid_string s \<Longrightarrow> \<not> list_ex (refuses rule) (runes s) \<Longrightarrow> rune_count s \<le> m \<Longrightarrow> clean s rule m repl = s"
  by (simp add: clean_def permits_iff rune_count_def)

lemma nul_in_runes:
  assumes "list_all scalar rs" shows "nul \<in> set (encode_runes rs) \<longleftrightarrow> 0 \<in> set rs"
proof
  assume "nul \<in> set (encode_runes rs)"
  then obtain r where r: "r \<in> set rs" "nul \<in> set (encode_rune r)" by (auto simp: encode_runes_def)
  then have "r = 0" using encode_rune_bytes [OF r(2)] by (auto simp: ord_of_def)
  then show "0 \<in> set rs" using r(1) by simp
next
  assume "0 \<in> set rs"
  moreover have "char_of (0::nat) = nul" by (rule ord_of_inj) (simp add: ord_of_def)
  then have "encode_rune 0 = [nul]" by (simp add: encode_rune_def scalar_def)
  ultimately show "nul \<in> set (encode_runes rs)" by (force simp: encode_runes_def)
qed

lemma check_string_None:
  "check_string f s 0 m rule = None \<longleftrightarrow>
     valid_string s \<and> \<not> list_ex (refuses rule) (runes s) \<and> rune_count s \<le> m"
proof -
  have "(nul \<in> set s) = list_ex (refuses ContentChars) (runes s)" if "valid_string s"
    using nul_in_runes [OF scalar_runes, of s] encode_runes_runes [OF that]
    by (auto simp: list_ex_iff refuses_def)
  moreover have "rune_count s \<le> length s" by (rule rune_count_le)
  ultimately show ?thesis by (cases "rule = ContentChars") (auto simp: check_string_def)
qed

lemma encoded_ok:
  assumes "list_all (\<lambda>c. scalar c \<and> \<not> refuses rule c) rs" "length rs \<le> m"
  shows "check_string f (encode_runes rs) 0 m rule = None"
proof -
  have sc: "list_all scalar rs" using assms(1) by (auto simp: list_all_iff)
  show ?thesis using assms valid_encode_runes [OF sc] runes_encode_runes [OF sc]
    by (auto simp: check_string_None rune_count_def list_all_iff list_ex_iff)
qed

subsection \<open>Trimming\<close>

lemma trim_left_dropWhile: "trim_left c s = dropWhile (\<lambda>x. x = c) s"
  by (induction s) auto

lemma space_rune: "CHR '' '' \<in> set (encode_rune r) \<Longrightarrow> r = 32"
  using encode_rune_bytes [of "CHR '' ''" r] by (auto simp: ord_of_def)

lemma encode_space: "encode_rune 32 = [CHR '' '']"
proof -
  have "char_of (32::nat) = CHR '' ''" by (rule ord_of_inj) (simp add: ord_of_def)
  then show ?thesis by (simp add: encode_rune_def scalar_def)
qed

lemma trim_left_runes: "trim_left (CHR '' '') (encode_runes rs) = encode_runes (dropWhile (\<lambda>r. r = 32) rs)"
proof (induction rs)
  case (Cons r rs)
  show ?case
  proof (cases "r = 32")
    case True
    then show ?thesis using Cons by (simp add: encode_space)
  next
    case False
    then have "hd (encode_rune r) \<noteq> CHR '' ''" using space_rune [of r] encode_rune_nonempty [of r]
      by (metis hd_in_set)
    then show ?thesis using False encode_rune_nonempty [of r]
      by (cases "encode_rune r") (simp_all add: trim_left_dropWhile)
  qed
qed simp

lemma trim_right_runes:
  "trim_right (CHR '' '') (encode_runes rs) = encode_runes (rev (dropWhile (\<lambda>r. r = 32) (rev rs)))"
proof (induction rs rule: rev_induct)
  case (snoc r rs)
  show ?case
  proof (cases "r = 32")
    case True
    then show ?thesis using snoc by (simp add: encode_space trim_right_def)
  next
    case False
    then have "last (encode_rune r) \<noteq> CHR '' ''" using space_rune [of r] encode_rune_nonempty [of r]
      by (metis last_in_set)
    then obtain p c where "encode_rune r = p @ [c]" "c \<noteq> CHR '' ''"
      using encode_rune_nonempty [of r] by (metis append_butlast_last_id)
    then show ?thesis using False by (simp add: trim_right_def)
  qed
qed (simp add: trim_right_def)

text \<open>The trimmed characters of a list, as a sublist of it.\<close>

definition trimmed :: "nat list \<Rightarrow> nat list" where
  "trimmed rs = rev (dropWhile (\<lambda>r. r = 32) (rev (dropWhile (\<lambda>r. r = 32) rs)))"

lemma trimmed_set: "set (trimmed rs) \<subseteq> set rs" "length (trimmed rs) \<le> length rs"
proof -
  show "set (trimmed rs) \<subseteq> set rs" by (auto simp: trimmed_def dest!: set_dropWhileD)
  show "length (trimmed rs) \<le> length rs"
    unfolding trimmed_def length_rev using length_dropWhile_le le_trans length_rev by metis
qed

lemma dropWhile_no_hd: "xs = [] \<or> \<not> P (hd xs) \<Longrightarrow> dropWhile P xs = xs"
  by (cases xs) auto

lemma trimmed_idem: "trimmed (trimmed rs) = trimmed rs"
proof -
  let ?P = "\<lambda>r::nat. r = 32"
  let ?a = "dropWhile ?P rs" let ?b = "dropWhile ?P (rev ?a)"
  have "dropWhile ?P (rev ?b) = rev ?b"
  proof (rule dropWhile_no_hd, rule disjCI)
    assume h: "\<not> \<not> ?P (hd (rev ?b))"
    show "rev ?b = []"
    proof (rule ccontr)
      assume ne: "rev ?b \<noteq> []"
      obtain p where p: "rev ?a = p @ ?b" by (metis takeWhile_dropWhile_id)
      then have "?a = rev ?b @ rev p" by (metis rev_append rev_rev_ident)
      then have "hd ?a = hd (rev ?b)" "?a \<noteq> []" using ne by (metis hd_append2, metis append_is_Nil_conv)
      then show False using hd_dropWhile [of ?P rs] h by metis
    qed
  qed
  then show ?thesis by (simp add: trimmed_def)
qed

lemma clean_title_runes:
  "\<exists>rs. clean_title s = encode_runes (trimmed rs) \<and>
     list_all (\<lambda>c. scalar c \<and> \<not> refuses OneLineChars c) (trimmed rs) \<and> length (trimmed rs) \<le> max_title"
proof -
  have "\<forall>r. Some (32::nat) = Some r \<longrightarrow> scalar r \<and> \<not> refuses OneLineChars r"
    by (simp add: scalar_def refuses_def)
  from clean_runes [OF this, of s max_title] obtain rs where
    rs: "clean s OneLineChars max_title (Some 32) = encode_runes rs"
      "list_all (\<lambda>c. scalar c \<and> \<not> refuses OneLineChars c) rs" "length rs \<le> max_title" by blast
  have "clean_title s = encode_runes (trimmed rs)"
    by (simp add: clean_title_def rs(1) trim_left_runes trim_right_runes trimmed_def)
  then show ?thesis using rs trimmed_set [of rs] by (intro exI [of _ rs]) (auto simp: list_all_iff)
qed

text \<open>A cleaned value passes the check of its field.\<close>

lemma cleaned_ok: "check_string f (clean s rule m None) 0 m rule = None"
  using clean_runes [of None rule s m] encoded_ok by (metis option.distinct(1))

lemma cleaned_fields:
  "check_string f (clean_display s) 0 max_author DisplayChars = None"
  "check_string f (clean_title s) 0 max_title OneLineChars = None"
  "check_string f (clean_text s) 0 max_text ContentChars = None"
proof -
  obtain rs where t: "clean_title s = encode_runes (trimmed rs)"
    "list_all (\<lambda>c. scalar c \<and> \<not> refuses OneLineChars c) (trimmed rs)" "length (trimmed rs) \<le> max_title"
    using clean_title_runes by blast
  show "check_string f (clean_title s) 0 max_title OneLineChars = None" unfolding t(1) by (rule encoded_ok [OF t(2,3)])
qed (simp_all add: clean_display_def clean_text_def cleaned_ok)

text \<open>A cleaner and its rule agree. Whatever the provider sent, the cleaned value passes the
  check of its field and cleaning it again changes nothing; and for a display name and a text a
  value passes the check exactly when the cleaner leaves it alone, so nothing valid is altered.\<close>

theorem cleaning_agrees_with_the_rule:
  "check_string f (clean_display s) 0 max_author DisplayChars = None \<and>
   check_string f (clean_title s) 0 max_title OneLineChars = None \<and>
   check_string f (clean_text s) 0 max_text ContentChars = None \<and>
   clean_title (clean_title s) = clean_title s \<and>
   (check_string f s 0 max_author DisplayChars = None) = (clean_display s = s) \<and>
   (check_string f s 0 max_text ContentChars = None) = (clean_text s = s)"
proof -
  have i: "(check_string f s 0 m rule = None) = (clean s rule m None = s)" for rule m
    using cleaned_ok [of f s rule m] clean_id by (metis check_string_None)
  obtain rs where t: "clean_title s = encode_runes (trimmed rs)"
    "list_all (\<lambda>c. scalar c \<and> \<not> refuses OneLineChars c) (trimmed rs)" "length (trimmed rs) \<le> max_title"
    using clean_title_runes by blast
  have "clean (clean_title s) OneLineChars max_title (Some 32) = encode_runes (trimmed rs)"
    using clean_id cleaned_fields(2) [of f s] by (simp add: check_string_None t(1))
  then have "clean_title (clean_title s) = encode_runes (trimmed (trimmed rs))"
    unfolding clean_title_def [of "clean_title s"] by (simp add: trim_left_runes trim_right_runes trimmed_def)
  then have "clean_title (clean_title s) = clean_title s" by (simp add: trimmed_idem t(1))
  then show ?thesis using i cleaned_fields [of f s] by (simp add: clean_display_def clean_text_def)
qed

end
