(* ===== verification/Scope_Id.thy ===== *)
theory Scope_Id
  imports Prelude
begin

text \<open>
  internal/record/scope.go and the name grammar of validate.go: the scope id
  \<open>provider:container_kind:container_id\<close>, which access is decided on, built by \<open>ScopeID\<close>, taken
  apart by \<open>ParseScopeID\<close> and checked by \<open>checkScopeID\<close>. The two directions are inverse to each
  other, so a scope has one spelling.
\<close>

abbreviation max_scope_id :: nat where "max_scope_id \<equiv> 512"

abbreviation max_kind :: nat where "max_kind \<equiv> 32"

abbreviation max_source :: nat where "max_source \<equiv> 64"

definition valid_name :: "bytes \<Rightarrow> nat \<Rightarrow> bool \<Rightarrow> bool" where
  "valid_name s max_len hyphen \<longleftrightarrow>
     (case s of [] \<Rightarrow> False
      | c # cs \<Rightarrow> length s \<le> max_len \<and> is_lower c \<and>
          list_all (\<lambda>x. is_lower x \<or> is_digit x \<or> x = CHR ''_'' \<or> hyphen \<and> x = CHR ''-'') cs)"

definition valid_provider_key :: "bytes \<Rightarrow> bool" where
  "valid_provider_key s = valid_name s max_kind False"

definition valid_source :: "bytes \<Rightarrow> bool" where
  "valid_source s = valid_name s max_source True"

definition unreserved :: "char \<Rightarrow> bool" where
  "unreserved c \<longleftrightarrow> is_upper c \<or> is_lower c \<or> is_digit c \<or>
     c = CHR ''.'' \<or> c = CHR ''_'' \<or> c = CHR ''~'' \<or> c = CHR ''-''"

definition control :: "char \<Rightarrow> bool" where
  "control c \<longleftrightarrow> ord_of c < 32 \<or> ord_of c = 127"

definition is_upper_hex :: "char \<Rightarrow> bool" where
  "is_upper_hex c \<longleftrightarrow> is_digit c \<or> CHR ''A'' \<le> c \<and> c \<le> CHR ''F''"

definition unhex :: "char \<Rightarrow> nat" where
  "unhex c = (if CHR ''A'' \<le> c then ord_of c - 65 + 10 else ord_of c - 48)"

text \<open>\<open>upperHex[n]\<close>.\<close>

definition upper_hex :: "nat \<Rightarrow> char" where
  "upper_hex n = ''0123456789ABCDEF'' ! n"

datatype scope_error =
    ScopeProvider | ScopeKind | ScopeEmptyId | ScopeControl | ScopeTooLong
  | ScopeNotEscaped | ScopeBadEscape

record scope_parts =
  sc_provider :: bytes
  sc_kind :: bytes
  sc_id :: bytes

text \<open>The loop of \<open>ScopeID\<close> over the container id, with what the builder holds.\<close>

fun escape_bytes :: "bytes \<Rightarrow> bytes \<Rightarrow> scope_error + bytes" where
  "escape_bytes b [] = Inr b"
| "escape_bytes b (c # cs) =
     (if \<not> unreserved c \<and> control c then Inl ScopeControl
      else
        let b' = b @ (if unreserved c then [c]
                      else [CHR ''%'', upper_hex (ord_of c div 16), upper_hex (ord_of c mod 16)]) in
        if length b' > max_scope_id then Inl ScopeTooLong else escape_bytes b' cs)"

definition scope_id :: "bytes \<Rightarrow> bytes \<Rightarrow> bytes \<Rightarrow> scope_error + bytes" where
  "scope_id provider kind cid =
     (if \<not> valid_provider_key provider then Inl ScopeProvider
      else if \<not> valid_name kind max_kind False then Inl ScopeKind
      else if cid = [] then Inl ScopeEmptyId
      else escape_bytes (provider @ CHR '':'' # kind @ [CHR '':'']) cid)"

fun check_escaped :: "bytes \<Rightarrow> scope_error option" where
  "check_escaped [] = None"
| "check_escaped (c # cs) =
     (if unreserved c then check_escaped cs
      else case cs of
        a # b # rest \<Rightarrow>
          if c \<noteq> CHR ''%'' \<or> \<not> is_upper_hex a \<or> \<not> is_upper_hex b then Some ScopeNotEscaped
          else
            let decoded = char_of (unhex a * 16 + unhex b) in
            if unreserved decoded \<or> control decoded then Some ScopeBadEscape else check_escaped rest
      | _ \<Rightarrow> Some ScopeNotEscaped)"

definition check_scope_id :: "bytes \<Rightarrow> scope_error option" where
  "check_scope_id s =
     (if length s > max_scope_id then Some ScopeTooLong
      else case index_byte s (CHR '':'') of
        None \<Rightarrow> Some ScopeProvider
      | Some first \<Rightarrow>
          if \<not> valid_provider_key (take first s) then Some ScopeProvider
          else
            let rest = drop (Suc first) s in
            (case index_byte rest (CHR '':'') of
               None \<Rightarrow> Some ScopeKind
             | Some second \<Rightarrow>
                 if \<not> valid_name (take second rest) max_kind False then Some ScopeKind
                 else
                   let enc = drop (Suc second) rest in
                   if enc = [] then Some ScopeEmptyId else check_escaped enc))"

text \<open>The decoding loop of \<open>ParseScopeID\<close>. It runs on a checked string, where two digits follow
  every percent sign.\<close>

fun decode_escaped :: "bytes \<Rightarrow> bytes" where
  "decode_escaped [] = []"
| "decode_escaped (c # cs) =
     (if c = CHR ''%''
      then (case cs of a # b # rest \<Rightarrow> char_of (unhex a * 16 + unhex b) # decode_escaped rest | _ \<Rightarrow> [])
      else c # decode_escaped cs)"

definition parse_scope_id :: "bytes \<Rightarrow> scope_error + scope_parts" where
  "parse_scope_id s =
     (case check_scope_id s of
        Some e \<Rightarrow> Inl e
      | None \<Rightarrow>
          let first = the (index_byte s (CHR '':''));
              second = the (index_byte (drop (Suc first) s) (CHR '':'')) in
          Inr \<lparr>sc_provider = take first s, sc_kind = take second (drop (Suc first) s),
               sc_id = decode_escaped (drop (Suc second) (drop (Suc first) s))\<rparr>)"

subsection \<open>Hex digits and escapes\<close>

lemmas byte_class_defs = unreserved_def is_upper_def is_lower_def is_digit_def is_upper_hex_def char_le_ord

lemma upper_hex_cases: "n < 16 \<Longrightarrow> n \<in> {0,1,2,3,4,5,6,7,8,9,10,11,12,13,14,15}" for n :: nat
  by simp presburger

lemma upper_hex_ok: "n < 16 \<Longrightarrow> is_upper_hex (upper_hex n) \<and> unhex (upper_hex n) = n"
  by (drule upper_hex_cases) (auto simp: upper_hex_def unhex_def byte_class_defs ord_of_def)

lemma upper_hex_ord: "n < 16 \<Longrightarrow> upper_hex n = char_of (if n < 10 then 48 + n else 55 + n)"
  by (drule upper_hex_cases, rule ord_of_inj) (auto simp: upper_hex_def ord_of_def of_char_of)

lemma unhex_ok: "is_upper_hex c \<Longrightarrow> unhex c < 16 \<and> upper_hex (unhex c) = c"
proof -
  assume "is_upper_hex c"
  then have o: "48 \<le> ord_of c \<and> ord_of c \<le> 57 \<or> 65 \<le> ord_of c \<and> ord_of c \<le> 70"
    by (auto simp: byte_class_defs ord_of_def)
  then have u: "unhex c = (if 65 \<le> ord_of c then ord_of c - 55 else ord_of c - 48)" "unhex c < 16"
    by (auto simp: unhex_def char_le_ord) (auto simp: ord_of_def)
  show ?thesis using u o upper_hex_ord [OF u(2)] by (auto simp: char_of_ord_of)
qed

definition esc :: "char \<Rightarrow> bytes" where
  "esc c = (if unreserved c then [c]
            else [CHR ''%'', upper_hex (ord_of c div 16), upper_hex (ord_of c mod 16)])"

lemma unreserved_no_control: "unreserved c \<Longrightarrow> \<not> control c"
  by (auto simp: byte_class_defs control_def ord_of_def)

lemma unreserved_percent: "\<not> unreserved (CHR ''%'')"
  by (simp add: byte_class_defs ord_of_def)

lemma unreserved_colon: "\<not> unreserved (CHR '':'')"
  by (simp add: byte_class_defs ord_of_def)

lemma join_nibbles: "char_of (unhex (upper_hex (ord_of c div 16)) * 16 + unhex (upper_hex (ord_of c mod 16))) = c"
proof -
  have "ord_of c div 16 < 16" using ord_of_less [of c] by linarith
  then show ?thesis by (simp add: upper_hex_ok)
qed

lemma check_escaped_esc: "\<not> control c \<Longrightarrow> check_escaped (esc c @ rest) = check_escaped rest"
proof -
  have "ord_of c div 16 < 16" using ord_of_less [of c] by linarith
  then show "\<not> control c \<Longrightarrow> ?thesis"
    using join_nibbles [of c] by (simp add: esc_def unreserved_percent upper_hex_ok Let_def)
qed

lemma check_escaped_map: "list_all (\<lambda>c. \<not> control c) cs \<Longrightarrow> check_escaped (concat (map esc cs)) = None"
  by (induction cs) (simp_all add: check_escaped_esc)

lemma decode_escaped_esc: "decode_escaped (esc c @ rest) = c # decode_escaped rest"
  using join_nibbles [of c] unreserved_percent by (auto simp: esc_def)

lemma decode_escaped_map: "decode_escaped (concat (map esc cs)) = cs"
  by (induction cs) (simp_all add: decode_escaped_esc)

lemma esc_joined:
  assumes "is_upper_hex a" "is_upper_hex b" "d = char_of (unhex a * 16 + unhex b)" "\<not> unreserved d"
  shows "esc d = [CHR ''%'', a, b]"
proof -
  have u: "unhex a < 16" "unhex b < 16" using assms(1,2) unhex_ok by blast+
  then have "ord_of d = unhex a * 16 + unhex b" unfolding assms(3) by (simp add: ord_of_char_of)
  then have "ord_of d div 16 = unhex a" "ord_of d mod 16 = unhex b" using u(2) by simp_all
  then show ?thesis using assms(4) unhex_ok [OF assms(1)] unhex_ok [OF assms(2)] by (simp add: esc_def)
qed

lemma check_escaped_canonical:
  "check_escaped e = None \<Longrightarrow> e = concat (map esc (decode_escaped e)) \<and> list_all (\<lambda>c. \<not> control c) (decode_escaped e)"
proof (induction e rule: check_escaped.induct)
  case 1
  then show ?case by simp
next
  case (2 c cs)
  show ?case
  proof (cases "unreserved c")
    case True
    then show ?thesis using 2 unreserved_percent unreserved_no_control [OF True] by (auto simp: esc_def)
  next
    case False
    then obtain a b rest where cs: "cs = a # b # rest" using 2(3) by (auto split: list.splits)
    let ?d = "char_of (unhex a * 16 + unhex b) :: char"
    have ok: "c = CHR ''%''" "is_upper_hex a" "is_upper_hex b" "\<not> unreserved ?d" "\<not> control ?d"
      "check_escaped rest = None"
      using 2(3) False unfolding cs by (auto simp: Let_def split: if_splits)
    then have ih: "rest = concat (map esc (decode_escaped rest)) \<and> list_all (\<lambda>c. \<not> control c) (decode_escaped rest)"
      using 2(2) [OF False cs refl] by (auto simp: Let_def)
    have "decode_escaped (c # cs) = ?d # decode_escaped rest" unfolding cs ok(1) by simp
    then show ?thesis using ih ok esc_joined [OF ok(2,3) refl ok(4)] unfolding cs by simp
  qed
qed

subsection \<open>The two directions\<close>

lemma escape_bytes_Inr:
  "length b \<le> max_scope_id \<Longrightarrow> escape_bytes b cs = Inr s \<longleftrightarrow>
     list_all (\<lambda>c. \<not> control c) cs \<and> s = b @ concat (map esc cs) \<and> length s \<le> max_scope_id"
proof (induction cs arbitrary: b)
  case Nil
  then show ?case by auto
next
  case (Cons c cs)
  have "escape_bytes b (c # cs) = Inr s \<longleftrightarrow>
     \<not> control c \<and> length (b @ esc c) \<le> max_scope_id \<and> escape_bytes (b @ esc c) cs = Inr s"
    using unreserved_no_control [of c] by (auto simp: esc_def Let_def)
  then show ?case using Cons.IH [of "b @ esc c"] by auto
qed

lemma name_no_colon: "valid_name s m h \<Longrightarrow> CHR '':'' \<notin> set s"
  by (auto simp: valid_name_def list_all_iff byte_class_defs ord_of_def split: list.splits)

lemma name_length: "valid_name s m h \<Longrightarrow> length s \<le> m"
  by (auto simp: valid_name_def split: list.splits)

lemma scope_id_Inr:
  "scope_id p k c = Inr s \<longleftrightarrow> valid_provider_key p \<and> valid_name k max_kind False \<and> c \<noteq> [] \<and>
     list_all (\<lambda>x. \<not> control x) c \<and> s = p @ CHR '':'' # k @ CHR '':'' # concat (map esc c) \<and>
     length s \<le> max_scope_id"
proof (cases "valid_provider_key p \<and> valid_name k max_kind False \<and> c \<noteq> []")
  case True
  then have "length (p @ CHR '':'' # k @ [CHR '':'']) \<le> max_scope_id"
    using name_length [of p max_kind False] name_length [of k max_kind False]
    by (simp add: valid_provider_key_def)
  from escape_bytes_Inr [OF this] show ?thesis using True by (auto simp: scope_id_def)
next
  case False
  then show ?thesis by (auto simp: scope_id_def)
qed

lemma esc_nonempty: "esc c \<noteq> []"
  by (simp add: esc_def)

lemma split_scope:
  assumes "CHR '':'' \<notin> set p" "CHR '':'' \<notin> set k"
  shows "index_byte (p @ CHR '':'' # k @ CHR '':'' # e) (CHR '':'') = Some (length p)"
    and "index_byte (k @ CHR '':'' # e) (CHR '':'') = Some (length k)"
  using assms by (simp_all add: index_byte_append_notin)

lemma check_scope_id_built:
  assumes "scope_id p k c = Inr s"
  shows "check_scope_id s = None \<and> parse_scope_id s = Inr \<lparr>sc_provider = p, sc_kind = k, sc_id = c\<rparr>"
proof -
  have ok: "valid_provider_key p" "valid_name k max_kind False" "c \<noteq> []" "list_all (\<lambda>x. \<not> control x) c"
    "s = p @ CHR '':'' # k @ CHR '':'' # concat (map esc c)" "length s \<le> max_scope_id"
    using assms by (auto simp: scope_id_Inr)
  note nc = name_no_colon [OF ok(1) [unfolded valid_provider_key_def]] name_no_colon [OF ok(2)]
  have "concat (map esc c) \<noteq> []" using ok(3) esc_nonempty by (cases c) auto
  then have "check_scope_id s = None"
    using ok split_scope [OF nc, of "concat (map esc c)"] check_escaped_map [OF ok(4)]
    by (simp add: check_scope_id_def Let_def)
  then show ?thesis using ok(5) split_scope [OF nc, of "concat (map esc c)"]
    by (simp add: parse_scope_id_def Let_def decode_escaped_map)
qed

lemma scope_id_parsed:
  assumes "parse_scope_id s = Inr sc"
  shows "scope_id (sc_provider sc) (sc_kind sc) (sc_id sc) = Inr s"
proof -
  have chk: "check_scope_id s = None" using assms by (auto simp: parse_scope_id_def split: option.splits)
  then obtain first where f: "index_byte s (CHR '':'') = Some first" "length s \<le> max_scope_id"
    "valid_provider_key (take first s)" by (auto simp: check_scope_id_def Let_def split: if_splits option.splits)
  let ?rest = "drop (Suc first) s"
  obtain second where g: "index_byte ?rest (CHR '':'') = Some second" "valid_name (take second ?rest) max_kind False"
    using chk f by (auto simp: check_scope_id_def Let_def split: if_splits option.splits)
  let ?enc = "drop (Suc second) ?rest"
  have e: "?enc \<noteq> []" "check_escaped ?enc = None"
    using chk f g by (auto simp: check_scope_id_def Let_def split: if_splits)
  have sc: "sc = \<lparr>sc_provider = take first s, sc_kind = take second ?rest, sc_id = decode_escaped ?enc\<rparr>"
    using assms chk f(1) g(1) by (simp add: parse_scope_id_def Let_def)
  note ce = check_escaped_canonical [OF e(2)]
  have "s = take first s @ CHR '':'' # ?rest" "?rest = take second ?rest @ CHR '':'' # ?enc"
    using index_byte_split [OF f(1)] index_byte_split [OF g(1)] by blast+
  then have "s = take first s @ CHR '':'' # take second ?rest @ CHR '':'' # concat (map esc (decode_escaped ?enc))"
    using ce by metis
  moreover have "decode_escaped ?enc \<noteq> []" using e(1) ce by force
  ultimately show ?thesis unfolding scope_id_Inr sc using f g ce by simp
qed

text \<open>C32: \<open>ScopeID\<close> and \<open>ParseScopeID\<close> are inverse to each other in both directions: a string is the
  scope id of three parts exactly when it parses to them. So no two strings name one scope, no
  string names two, and every container id without control bytes survives byte for byte.\<close>

theorem scope_id_roundtrip:
  "parse_scope_id s = Inr sc \<longleftrightarrow> scope_id (sc_provider sc) (sc_kind sc) (sc_id sc) = Inr s"
  using scope_id_parsed check_scope_id_built [of "sc_provider sc" "sc_kind sc" "sc_id sc" s] by auto

end
