(* ===== verification/Record_Format.thy ===== *)
theory Record_Format
  imports Record_Chars Scope_Id Tenancy Ids
begin

text \<open>
  The record envelope of internal/record: the types of record.go, \<open>Validate\<close> of validate.go, and
  the seal: \<open>Seal\<close>, \<open>SealedFor\<close> and the guard of \<open>MarshalJSON\<close>. A time is what the program reads of
  one: whether its location is \<open>time.UTC\<close>, its year, and its text in RFC 3339. The hash is an
  argument.
\<close>

abbreviation format_v1 :: bytes where "format_v1 \<equiv> ''lawang.record/v1''"

abbreviation op_upsert :: bytes where "op_upsert \<equiv> ''upsert''"

abbreviation op_delete :: bytes where "op_delete \<equiv> ''delete''"

abbreviation record_kinds :: "bytes list" where
  "record_kinds \<equiv> [''task'', ''message'', ''ticket'', ''document'', ''page'']"

record go_time =
  t_utc :: bool
  t_year :: int
  t_text :: bytes

record author =
  au_id :: bytes
  au_display :: bytes

record container =
  co_kind :: bytes
  co_id :: bytes

record visibility =
  vi_scope :: bytes
  vi_audience :: bytes

record origin =
  or_automation :: bool
  or_untrusted :: bool

record seal =
  sl_id :: bytes
  sl_external_id :: bytes
  sl_version :: bytes
  sl_scope :: bytes
  sl_op :: bytes
  sl_kind :: bytes

record rec =
  rc_format :: bytes
  rc_id :: bytes
  rc_op :: bytes
  rc_source :: bytes
  rc_kind :: bytes
  rc_external_id :: bytes
  rc_version :: bytes
  rc_supersedes :: bytes
  rc_occurred_at :: go_time
  rc_title :: bytes
  rc_text :: bytes
  rc_author :: author
  rc_container :: container
  rc_visibility :: visibility
  rc_origin :: origin
  rc_reply_parent :: bytes
  rc_delivery :: bytes
  rc_sealed :: seal
  rc_sealed_for :: bytes

definition zero_seal :: seal where
  "zero_seal = \<lparr>sl_id = [], sl_external_id = [], sl_version = [], sl_scope = [], sl_op = [], sl_kind = []\<rparr>"

subsection \<open>\<open>Validate\<close>\<close>

abbreviation record_id_len :: nat where "record_id_len \<equiv> length record_prefix + 32"

definition valid_record_id :: "bytes \<Rightarrow> bool" where
  "valid_record_id s \<longleftrightarrow> length s = record_id_len \<and> take (length record_prefix) s = record_prefix \<and>
     list_all (\<lambda>c. is_digit c \<or> CHR ''a'' \<le> c \<and> c \<le> CHR ''f'') (drop (length record_prefix) s)"

definition check_external_id :: "bytes \<Rightarrow> bytes \<Rightarrow> rec_error option" where
  "check_external_id field s =
     (case check_string field s 1 max_external_id IdentifierChars of
        Some e \<Rightarrow> Some e
      | None \<Rightarrow>
          (case index_byte s (CHR '':'') of
             Some colon \<Rightarrow>
               if colon = length s - 1 \<or> \<not> valid_provider_key (take colon s)
               then Some (Invalid field ''does not begin with a provider key and a colon'') else None
           | None \<Rightarrow> Some (Invalid field ''does not begin with a provider key and a colon'')))"

definition check_time :: "go_time \<Rightarrow> rec_error option" where
  "check_time t =
     (if \<not> t_utc t then Some (Invalid ''occurred_at'' ''is not in UTC'')
      else if t_year t < 1000 \<or> t_year t > 9999
      then Some (Invalid ''occurred_at'' ''is not set, or its year is outside 1000 to 9999'')
      else None)"

definition refuse :: "bool \<Rightarrow> bytes \<Rightarrow> bytes \<Rightarrow> rec_error option" where
  "refuse bad field why = (if bad then Some (Invalid field why) else None)"

text \<open>The checks run in order and the first refusal is the result.\<close>

fun first_error :: "'e option list \<Rightarrow> 'e option" where
  "first_error [] = None"
| "first_error (Some e # es) = Some e"
| "first_error (None # es) = first_error es"

definition validate :: "rec \<Rightarrow> rec_error option" where
  "validate r = first_error
     [refuse (rc_format r \<noteq> format_v1) ''format'' (''is not '' @ format_v1),
      refuse (\<not> valid_record_id (rc_id r)) ''id'' ''is not a record id'',
      refuse (rc_op r \<noteq> op_upsert \<and> rc_op r \<noteq> op_delete) ''op'' ''is not one of upsert, delete'',
      refuse (\<not> valid_name (rc_source r) max_source True) ''source'' ''is not a source name'',
      refuse (rc_kind r \<notin> set record_kinds) ''kind'' ''is not one of task, message, ticket, document, page'',
      check_external_id ''external_id'' (rc_external_id r),
      check_string ''version'' (rc_version r) 1 max_version IdentifierChars,
      refuse (rc_supersedes r \<noteq> [] \<and> \<not> valid_record_id (rc_supersedes r)) ''supersedes'' ''is not a record id'',
      refuse (rc_supersedes r \<noteq> [] \<and> rc_supersedes r = rc_id r) ''supersedes'' ''names the record itself'',
      check_time (rc_occurred_at r),
      check_string ''title'' (rc_title r) 0 max_title OneLineChars,
      check_string ''text'' (rc_text r) 0 max_text ContentChars,
      refuse (rc_op r = op_delete \<and> (rc_title r \<noteq> [] \<or> rc_text r \<noteq> [])) ''title and text'' ''are empty on a delete'',
      check_string ''author.id'' (au_id (rc_author r)) 0 max_author IdentifierChars,
      check_string ''author.display'' (au_display (rc_author r)) 0 max_author DisplayChars,
      refuse (\<not> valid_name (co_kind (rc_container r)) max_kind False) ''container.kind'' ''is not a container kind'',
      check_string ''container.id'' (co_id (rc_container r)) 1 max_container_id IdentifierChars,
      refuse (check_scope_id (vi_scope (rc_visibility r)) \<noteq> None) ''visibility.scope'' ''is not a scope id'',
      refuse (vi_audience (rc_visibility r) \<noteq> ''direct'' \<and> vi_audience (rc_visibility r) \<noteq> ''group'')
        ''visibility.audience'' ''is not one of direct, group'',
      (if rc_reply_parent r \<noteq> [] then check_external_id ''edges.reply_parent'' (rc_reply_parent r) else None),
      check_string ''meta.delivery'' (rc_delivery r) 0 max_delivery IdentifierChars]"

lemma first_error_None: "first_error xs = None \<longleftrightarrow> (\<forall>x \<in> set xs. x = None)"
  by (induction xs rule: first_error.induct) auto

lemma refuse_None [simp]: "refuse b f w = None \<longleftrightarrow> \<not> b"
  by (simp add: refuse_def)

subsection \<open>The seal\<close>

definition current_seal :: "rec \<Rightarrow> seal" where
  "current_seal r = \<lparr>sl_id = rc_id r, sl_external_id = rc_external_id r, sl_version = rc_version r,
     sl_scope = vi_scope (rc_visibility r), sl_op = rc_op r, sl_kind = rc_kind r\<rparr>"

definition sealed_for :: "rec \<Rightarrow> bytes \<Rightarrow> bool" where
  "sealed_for r tenant \<longleftrightarrow> tenant \<noteq> [] \<and> rc_sealed_for r = tenant \<and> rc_sealed r = current_seal r"

text \<open>\<open>wire\<close> is the encoding of the fields, \<open>json.Marshal(wire(r))\<close>.\<close>

definition marshal_json :: "(rec \<Rightarrow> bytes) \<Rightarrow> rec \<Rightarrow> rec_error + bytes" where
  "marshal_json wire r =
     (case validate r of
        Some e \<Rightarrow> Inl e
      | None \<Rightarrow>
          if rc_sealed r \<noteq> current_seal r
          then Inl (Invalid ''id'' ''was not sealed for the external_id, version, visibility.scope, op and kind the record carries'')
          else Inr (wire r))"

definition seal_record :: "(bytes \<Rightarrow> bytes) \<Rightarrow> rec \<Rightarrow> bytes \<Rightarrow> bytes \<Rightarrow> rec_error + rec" where
  "seal_record h r provider tenant =
     (let scope = vi_scope (rc_visibility r); ns = provider @ '':'' in
      if \<not> valid_provider_key provider then Inl (Invalid ''provider'' ''is not a provider key'')
      else if rc_source r \<noteq> [] \<and> rc_source r \<noteq> provider
      then Inl (Invalid ''source'' ''is set by Seal, a wire name is the sink's to set'')
      else if check_scope_id scope \<noteq> None then Inl (Invalid ''visibility.scope'' ''is not a scope id'')
      else if \<not> has_prefix scope ns then Inl (Invalid ''visibility.scope'' ''belongs to another provider'')
      else if \<not> has_prefix (rc_external_id r) ns
      then Inl (Invalid ''external_id'' ''does not begin with the provider key and a colon'')
      else if rc_reply_parent r \<noteq> [] \<and> \<not> has_prefix (rc_reply_parent r) ns
      then Inl (Invalid ''edges.reply_parent'' ''does not begin with the provider key and a colon'')
      else if \<not> is_ok (parse_tenant tenant) then Inl (Invalid ''tenant'' ''is not a tenant id'')
      else
        (case record_id h provider (rc_external_id r) (rc_version r) scope tenant of
           Inl e \<Rightarrow> Inl (Invalid ''id'' (''cannot be minted: '' @ id_error_text e))
         | Inr i \<Rightarrow>
             let r1 = r\<lparr>rc_format := format_v1, rc_source := provider, rc_id := i\<rparr>;
                 r2 = r1\<lparr>rc_sealed := current_seal r1, rc_sealed_for := tenant\<rparr> in
             (case validate r2 of Some e \<Rightarrow> Inl e | None \<Rightarrow> Inr r2)))"

lemma current_seal_sealed [simp]: "current_seal (r\<lparr>rc_sealed := s, rc_sealed_for := t\<rparr>) = current_seal r"
  by (simp add: current_seal_def)

lemma validate_sealed [simp]: "validate (r\<lparr>rc_sealed := s, rc_sealed_for := t\<rparr>) = validate r"
  by (simp add: validate_def)

lemma resealed [simp]:
  "validate (r\<lparr>rc_sealed := s\<rparr>) = validate r" "current_seal (r\<lparr>rc_sealed := s\<rparr>) = current_seal r"
  by (simp_all add: validate_def current_seal_def)

text \<open>What a successful seal says.\<close>

lemma seal_record_Inr:
  assumes "seal_record h r p t = Inr q"
  shows "valid_provider_key p \<and> valid_tenant t \<and>
    record_id h p (rc_external_id r) (rc_version r) (vi_scope (rc_visibility r)) t = Inr (rc_id q) \<and>
    q = r\<lparr>rc_format := format_v1, rc_source := p, rc_id := rc_id q, rc_sealed := current_seal q, rc_sealed_for := t\<rparr> \<and>
    validate q = None \<and> rc_sealed q = current_seal q \<and>
    has_prefix (vi_scope (rc_visibility r)) (p @ '':'') \<and> has_prefix (rc_external_id r) (p @ '':'')"
  using assms
  by (auto simp: seal_record_def Let_def is_ok_iff current_seal_def split: if_splits sum.splits option.splits)

lemma seal_fields:
  assumes "seal_record h r p t = Inr q"
  obtains i s where "q = r\<lparr>rc_format := format_v1, rc_source := p, rc_id := i, rc_sealed := s, rc_sealed_for := t\<rparr>"
    "record_id h p (rc_external_id r) (rc_version r) (vi_scope (rc_visibility r)) t = Inr i"
    "valid_provider_key p" "valid_tenant t" "validate q = None" "rc_sealed q = current_seal q"
    "has_prefix (vi_scope (rc_visibility r)) (p @ '':'')"
proof -
  have q: "q = r\<lparr>rc_format := format_v1, rc_source := p, rc_id := rc_id q, rc_sealed := current_seal q, rc_sealed_for := t\<rparr>"
    using seal_record_Inr [OF assms] by blast
  show ?thesis by (rule that [OF q]) (use seal_record_Inr [OF assms] in blast)+
qed

end
