(* ===== verification/Record_Decode.thy ===== *)
theory Record_Decode
  imports Record_Format
begin

text \<open>
  Reading records back: \<open>UnmarshalJSON\<close> of internal/record/decode.go, which is stricter than
  encoding/json, and \<open>Reopen\<close> of record.go. The two halves of encoding/json the code stands on
  are arguments: \<open>parse\<close> takes a document to its tree (a repeated name stays repeated, \<open>None\<close> is
  not JSON) and \<open>rfc3339\<close> is \<open>time.Time.UnmarshalJSON\<close>. Where several fields of one object are
  wrong, Go reports the one its map or the document comes to first, the model the first of the
  struct.
\<close>

unbundle bit_operations_syntax

datatype json = JNull | JBool bool | JNum bytes | JStr bytes | JArr "json list" | JObj "(bytes \<times> json) list"

record object_rule =
  ru_required :: "bytes list"
  ru_optional :: "bytes list"
  ru_nullable :: "bytes list"
  ru_closed :: bool

definition record_rule :: object_rule where
  "record_rule = \<lparr>ru_required = [''format'', ''id'', ''op'', ''source'', ''kind'', ''external_id'',
       ''version'', ''supersedes'', ''occurred_at'', ''title'', ''text'', ''author'', ''container'',
       ''visibility'', ''origin'', ''edges''],
     ru_optional = [''meta''], ru_nullable = [''supersedes''], ru_closed = False\<rparr>"

definition nested_rules :: "(bytes \<times> object_rule) list" where
  "nested_rules =
     [(''author'', \<lparr>ru_required = [''id'', ''display''], ru_optional = [], ru_nullable = [], ru_closed = False\<rparr>),
      (''container'', \<lparr>ru_required = [''kind'', ''id''], ru_optional = [], ru_nullable = [], ru_closed = False\<rparr>),
      (''visibility'', \<lparr>ru_required = [''scope'', ''audience''], ru_optional = [], ru_nullable = [], ru_closed = True\<rparr>),
      (''origin'', \<lparr>ru_required = [''automation'', ''untrusted''], ru_optional = [], ru_nullable = [], ru_closed = False\<rparr>),
      (''edges'', \<lparr>ru_required = [''reply_parent''], ru_optional = [], ru_nullable = [''reply_parent''], ru_closed = False\<rparr>),
      (''meta'', \<lparr>ru_required = [], ru_optional = [''delivery''], ru_nullable = [], ru_closed = False\<rparr>)]"

text \<open>\<open>checkObject\<close>: the fields of an object that obeys its rule.\<close>

definition field_error :: "bytes \<Rightarrow> object_rule \<Rightarrow> bytes \<times> json \<Rightarrow> rec_error option" where
  "field_error name rule fv =
     (let field = fst fv; known = field \<in> set (ru_required rule) \<or> field \<in> set (ru_optional rule) in
      if \<not> valid_name field (length field) False
      then Some (Invalid name ''has a field name that is not lowercase a-z, 0-9 and underscore'')
      else if \<not> known \<and> ru_closed rule then Some (Invalid name ''has a field this format does not know'')
      else if known \<and> snd fv = JNull \<and> field \<notin> set (ru_nullable rule)
      then Some (Invalid (name @ ''.'' @ field) ''is null'')
      else None)"

definition check_object :: "bytes \<Rightarrow> json \<Rightarrow> object_rule \<Rightarrow> rec_error + (bytes \<times> json) list" where
  "check_object name v rule =
     (case v of
        JObj fs \<Rightarrow>
          (case first_error (map (field_error name rule) fs) of
             Some e \<Rightarrow> Inl e
           | None \<Rightarrow>
               (case find (\<lambda>f. f \<notin> set (map fst fs)) (ru_required rule) of
                  Some f \<Rightarrow> Inl (Invalid (name @ ''.'' @ f) ''is missing'')
                | None \<Rightarrow> Inr fs))
      | _ \<Rightarrow> Inl (Invalid name ''is not a JSON object''))"

text \<open>\<open>checkNoDuplicateNames\<close>, at any depth.\<close>

fun dup_names :: "json \<Rightarrow> bool" and dup_fields :: "(bytes \<times> json) list \<Rightarrow> bool" and dup_items :: "json list \<Rightarrow> bool" where
  "dup_names (JObj fs) = (\<not> distinct (map fst fs) \<or> dup_fields fs)"
| "dup_names (JArr vs) = dup_items vs"
| "dup_names _ = False"
| "dup_fields [] = False"
| "dup_fields ((n, v) # fs) = (dup_names v \<or> dup_fields fs)"
| "dup_items [] = False"
| "dup_items (v # vs) = (dup_names v \<or> dup_items vs)"

text \<open>\<open>hasUnpairedSurrogate\<close>: which half of a pair an escape at the front of the text names.\<close>

datatype half = HighHalf | LowHalf

definition lower_bit :: "char \<Rightarrow> nat" where
  "lower_bit c = ord_of c OR 32"

definition surrogate :: "bytes \<Rightarrow> half option" where
  "surrogate s =
     (if length s < 6 \<or> s ! 0 \<noteq> CHR 0x5C \<or> s ! 1 \<noteq> CHR ''u'' \<or> lower_bit (s ! 2) \<noteq> 100 then None
      else
        let c = lower_bit (s ! 3) in
        if c \<in> {56, 57, 97, 98} then Some HighHalf
        else if 99 \<le> c \<and> c \<le> 102 then Some LowHalf else None)"

function unpaired_surrogate :: "bytes \<Rightarrow> bool" where
  "unpaired_surrogate [] = False"
| "unpaired_surrogate (c # s) =
     (if c \<noteq> CHR 0x5C then unpaired_surrogate s
      else case surrogate (c # s) of
        Some LowHalf \<Rightarrow> True
      | Some HighHalf \<Rightarrow>
          surrogate (drop 6 (c # s)) \<noteq> Some LowHalf \<or> unpaired_surrogate (drop 12 (c # s))
      | None \<Rightarrow> unpaired_surrogate (drop 2 (c # s)))"
  by pat_completeness auto
termination
  by (relation "measure length") auto

text \<open>\<open>validTimestamp\<close>.\<close>

definition two_digits :: "bytes \<Rightarrow> nat \<Rightarrow> nat" where
  "two_digits s i = (ord_of (s ! i) - 48) * 10 + (ord_of (s ! Suc i) - 48)"

definition stamp_char :: "bytes \<Rightarrow> nat \<Rightarrow> bool" where
  "stamp_char s i =
     (if i = 4 \<or> i = 7 then s ! i = CHR ''-''
      else if i = 10 then s ! i = CHR ''T''
      else if i = 13 \<or> i = 16 then s ! i = CHR '':''
      else is_digit (s ! i))"

definition valid_timestamp :: "bytes \<Rightarrow> bool" where
  "valid_timestamp s =
     (if length s < 20 \<or> length s > 30 \<or> s ! (length s - 1) \<noteq> CHR ''Z'' then False
      else if \<not> list_all (stamp_char s) [0..<19] then False
      else if s ! 0 = CHR ''0'' \<or> two_digits s 5 < 1 \<or> two_digits s 5 > 12 \<or> two_digits s 8 < 1 \<or>
         two_digits s 8 > 31 \<or> two_digits s 11 > 23 \<or> two_digits s 14 > 59 \<or> two_digits s 17 > 59 then False
      else
        let frac = butlast (drop 19 s) in
        if frac = [] then True
        else if hd frac \<noteq> CHR ''.'' \<or> length frac < 2 then False
        else list_all is_digit (tl frac))"

subsection \<open>Decoding the fields\<close>

definition wrong_type :: "bytes \<Rightarrow> rec_error" where
  "wrong_type field = Invalid field ''has the wrong JSON type''"

text \<open>A field that is absent, or null, keeps its zero value.\<close>

definition get_str :: "bytes \<Rightarrow> (bytes \<times> json) list \<Rightarrow> bytes \<Rightarrow> rec_error + bytes" where
  "get_str path fs field =
     (case map_of fs field of
        None \<Rightarrow> Inr [] | Some JNull \<Rightarrow> Inr [] | Some (JStr s) \<Rightarrow> Inr s | _ \<Rightarrow> Inl (wrong_type (path @ field)))"

definition get_bool :: "bytes \<Rightarrow> (bytes \<times> json) list \<Rightarrow> bytes \<Rightarrow> rec_error + bool" where
  "get_bool path fs field =
     (case map_of fs field of
        None \<Rightarrow> Inr False | Some JNull \<Rightarrow> Inr False | Some (JBool b) \<Rightarrow> Inr b | _ \<Rightarrow> Inl (wrong_type (path @ field)))"

text \<open>\<open>Ref.UnmarshalJSON\<close>.\<close>

definition get_ref :: "(bytes \<times> json) list \<Rightarrow> bytes \<Rightarrow> rec_error + bytes" where
  "get_ref fs field =
     (case map_of fs field of
        None \<Rightarrow> Inr [] | Some JNull \<Rightarrow> Inr []
      | Some (JStr s) \<Rightarrow> if s = [] then Inl (Invalid [] ''a reference is null, never an empty string'') else Inr s
      | _ \<Rightarrow> Inl (Invalid [] ''a reference is a string or null''))"

definition obj_fields :: "(bytes \<times> json) list \<Rightarrow> bytes \<Rightarrow> (bytes \<times> json) list" where
  "obj_fields fs field = (case map_of fs field of Some (JObj gs) \<Rightarrow> gs | _ \<Rightarrow> [])"

definition decode_wire :: "(bytes \<Rightarrow> go_time option) \<Rightarrow> (bytes \<times> json) list \<Rightarrow> rec_error + rec" where
  "decode_wire rfc3339 fs =
     bind_res (get_str [] fs ''format'') (\<lambda>fmt.
     bind_res (get_str [] fs ''id'') (\<lambda>i.
     bind_res (get_str [] fs ''op'') (\<lambda>op'.
     bind_res (get_str [] fs ''source'') (\<lambda>src.
     bind_res (get_str [] fs ''kind'') (\<lambda>knd.
     bind_res (get_str [] fs ''external_id'') (\<lambda>ext.
     bind_res (get_str [] fs ''version'') (\<lambda>ver.
     bind_res (get_ref fs ''supersedes'') (\<lambda>sup.
     bind_res (get_str [] fs ''occurred_at'') (\<lambda>occ.
     bind_res (case rfc3339 occ of None \<Rightarrow> Inl (Invalid ''the record'' ''has a value that cannot be decoded'')
               | Some t \<Rightarrow> Inr t) (\<lambda>t.
     bind_res (get_str [] fs ''title'') (\<lambda>tit.
     bind_res (get_str [] fs ''text'') (\<lambda>txt'.
     bind_res (get_str ''author.'' (obj_fields fs ''author'') ''id'') (\<lambda>aid.
     bind_res (get_str ''author.'' (obj_fields fs ''author'') ''display'') (\<lambda>adi.
     bind_res (get_str ''container.'' (obj_fields fs ''container'') ''kind'') (\<lambda>cki.
     bind_res (get_str ''container.'' (obj_fields fs ''container'') ''id'') (\<lambda>cid.
     bind_res (get_str ''visibility.'' (obj_fields fs ''visibility'') ''scope'') (\<lambda>sco.
     bind_res (get_str ''visibility.'' (obj_fields fs ''visibility'') ''audience'') (\<lambda>aud.
     bind_res (get_bool ''origin.'' (obj_fields fs ''origin'') ''automation'') (\<lambda>aut.
     bind_res (get_bool ''origin.'' (obj_fields fs ''origin'') ''untrusted'') (\<lambda>unt.
     bind_res (get_ref (obj_fields fs ''edges'') ''reply_parent'') (\<lambda>par.
     bind_res (get_str ''meta.'' (obj_fields fs ''meta'') ''delivery'') (\<lambda>del.
       Inr \<lparr>rc_format = fmt, rc_id = i, rc_op = op', rc_source = src, rc_kind = knd, rc_external_id = ext,
            rc_version = ver, rc_supersedes = sup, rc_occurred_at = t, rc_title = tit, rc_text = txt',
            rc_author = \<lparr>au_id = aid, au_display = adi\<rparr>, rc_container = \<lparr>co_kind = cki, co_id = cid\<rparr>,
            rc_visibility = \<lparr>vi_scope = sco, vi_audience = aud\<rparr>,
            rc_origin = \<lparr>or_automation = aut, or_untrusted = unt\<rparr>, rc_reply_parent = par,
            rc_delivery = del, rc_sealed = zero_seal, rc_sealed_for = []\<rparr>))))))))))))))))))))))"

fun check_nested :: "(bytes \<times> json) list \<Rightarrow> (bytes \<times> object_rule) list \<Rightarrow> rec_error option" where
  "check_nested tops [] = None"
| "check_nested tops ((name, rule) # rs) =
     (case map_of tops name of
        None \<Rightarrow> check_nested tops rs
      | Some v \<Rightarrow> (case check_object name v rule of Inl e \<Rightarrow> Some e | Inr _ \<Rightarrow> check_nested tops rs))"

definition stamp_ok :: "(bytes \<times> json) list \<Rightarrow> bool" where
  "stamp_ok tops \<longleftrightarrow> (case map_of tops ''occurred_at'' of Some (JStr s) \<Rightarrow> valid_timestamp s | _ \<Rightarrow> False)"

text \<open>\<open>UnmarshalJSON\<close>.\<close>

definition unmarshal_json ::
  "(bytes \<Rightarrow> json option) \<Rightarrow> (bytes \<Rightarrow> go_time option) \<Rightarrow> bytes \<Rightarrow> rec_error + rec" where
  "unmarshal_json parse rfc3339 doc =
     (if \<not> valid_string doc then Inl (Invalid ''the record'' ''is not valid UTF-8'')
      else case parse doc of
        None \<Rightarrow> Inl (Invalid ''the record'' ''is not valid JSON'')
      | Some v \<Rightarrow>
          if dup_names v then Inl (Invalid ''the record'' ''uses a field name twice in one object'')
          else if unpaired_surrogate doc
          then Inl (Invalid ''the record'' ''has an escape for half of a surrogate pair'')
          else (case check_object ''the record'' v record_rule of
            Inl e \<Rightarrow> Inl e
          | Inr tops \<Rightarrow>
              (case check_nested tops nested_rules of
                 Some e \<Rightarrow> Inl e
               | None \<Rightarrow>
                   if \<not> stamp_ok tops
                   then Inl (Invalid ''occurred_at'' ''is not an RFC 3339 time in UTC with the Z suffix'')
                   else (case decode_wire rfc3339 tops of
                     Inl e \<Rightarrow> Inl e
                   | Inr r \<Rightarrow>
                       (case validate r of
                          Some e \<Rightarrow> Inl e
                        | None \<Rightarrow> Inr (r\<lparr>rc_sealed := current_seal r\<rparr>))))))"

subsection \<open>Encoding\<close>

definition ref_json :: "bytes \<Rightarrow> json" where
  "ref_json r = (if r = [] then JNull else JStr r)"

text \<open>The tree \<open>json.Marshal(wire(r))\<close> writes.\<close>

definition record_tree :: "rec \<Rightarrow> json" where
  "record_tree r = JObj
     [(''format'', JStr (rc_format r)), (''id'', JStr (rc_id r)), (''op'', JStr (rc_op r)),
      (''source'', JStr (rc_source r)), (''kind'', JStr (rc_kind r)),
      (''external_id'', JStr (rc_external_id r)), (''version'', JStr (rc_version r)),
      (''supersedes'', ref_json (rc_supersedes r)), (''occurred_at'', JStr (t_text (rc_occurred_at r))),
      (''title'', JStr (rc_title r)), (''text'', JStr (rc_text r)),
      (''author'', JObj [(''id'', JStr (au_id (rc_author r))), (''display'', JStr (au_display (rc_author r)))]),
      (''container'', JObj [(''kind'', JStr (co_kind (rc_container r))), (''id'', JStr (co_id (rc_container r)))]),
      (''visibility'', JObj [(''scope'', JStr (vi_scope (rc_visibility r))),
                             (''audience'', JStr (vi_audience (rc_visibility r)))]),
      (''origin'', JObj [(''automation'', JBool (or_automation (rc_origin r))),
                         (''untrusted'', JBool (or_untrusted (rc_origin r)))]),
      (''edges'', JObj [(''reply_parent'', ref_json (rc_reply_parent r))]),
      (''meta'', JObj (if rc_delivery r = [] then [] else [(''delivery'', JStr (rc_delivery r))]))]"

subsection \<open>\<open>Reopen\<close>\<close>

record stored =
  st_id :: bytes
  st_op :: bytes
  st_kind :: bytes
  st_document :: bytes

datatype reopen_error = ReopenInvalid rec_error | ErrNotThisTenantsRecord | ErrNotTheRecordStored

definition reopen ::
  "(bytes \<Rightarrow> bytes) \<Rightarrow> (bytes \<Rightarrow> rec_error + rec) \<Rightarrow> stored \<Rightarrow> bytes \<Rightarrow> bytes \<Rightarrow> reopen_error + rec" where
  "reopen h unmarshal s provider tenant =
     (case unmarshal (st_document s) of
        Inl e \<Rightarrow> Inl (ReopenInvalid e)
      | Inr sd \<Rightarrow>
          (case seal_record h sd provider tenant of
             Inl e \<Rightarrow> Inl (ReopenInvalid e)
           | Inr sealed \<Rightarrow>
               if rc_id sealed \<noteq> rc_id sd then Inl ErrNotThisTenantsRecord
               else if st_id s \<noteq> rc_id sd \<or> st_op s \<noteq> rc_op sd \<or> st_kind s \<noteq> rc_kind sd
               then Inl ErrNotTheRecordStored
               else Inr sealed))"

subsection \<open>What a decoded record is\<close>

lemma decoded_valid:
  assumes "unmarshal_json parse rfc doc = Inr r"
  shows "validate r = None \<and> rc_sealed r = current_seal r \<and> rc_sealed_for r = [] \<and> valid_string doc \<and>
    \<not> unpaired_surrogate doc \<and> (\<exists>fs. parse doc = Some (JObj fs) \<and> \<not> dup_names (JObj fs) \<and>
       (\<forall>f \<in> set (ru_required record_rule). f \<in> fst ` set fs))"
proof -
  obtain v tops q where v: "parse doc = Some v" "\<not> dup_names v" "valid_string doc" "\<not> unpaired_surrogate doc"
    and o: "check_object ''the record'' v record_rule = Inr tops"
    and q: "decode_wire rfc tops = Inr q" "validate q = None" "r = q\<lparr>rc_sealed := current_seal q\<rparr>"
    using assms unfolding unmarshal_json_def
    by (auto split: if_splits option.splits sum.splits)
  have z: "rc_sealed_for q = []" using q(1) unfolding decode_wire_def by (auto simp: bind_res_Inr)
  have "\<exists>fs. v = JObj fs \<and> (\<forall>f \<in> set (ru_required record_rule). f \<in> fst ` set fs)"
    using o unfolding check_object_def
    by (auto simp: find_None_iff split: json.splits option.splits)
  moreover have "validate r = None" "rc_sealed r = current_seal r" using q(2) unfolding q(3) by simp_all
  ultimately show ?thesis using v z q(3) by auto
qed

lemma record_tree_no_dup: "\<not> dup_names (record_tree r)"
  by (simp add: record_tree_def ref_json_def)

lemma record_tree_object: "\<exists>fs. record_tree r = JObj fs \<and> check_object ''the record'' (record_tree r) record_rule = Inr fs \<and>
    check_nested fs nested_rules = None \<and> stamp_ok fs = valid_timestamp (t_text (rc_occurred_at r))"
  by (simp add: record_tree_def check_object_def record_rule_def field_error_def Let_def valid_name_def
      is_lower_def is_digit_def ref_json_def nested_rules_def stamp_ok_def)

lemma record_tree_wire:
  assumes "record_tree r = JObj fs" and "rfc (t_text (rc_occurred_at r)) = Some (rc_occurred_at r)"
  shows "decode_wire rfc fs = Inr (r\<lparr>rc_sealed := zero_seal, rc_sealed_for := []\<rparr>)"
proof -
  have "fs = (case record_tree r of JObj fs \<Rightarrow> fs | _ \<Rightarrow> [])" using assms(1) by simp
  then show ?thesis using assms(2) unfolding record_tree_def decode_wire_def
    by (simp add: get_str_def get_ref_def get_bool_def obj_fields_def ref_json_def)
qed

lemma unmarshal_marshalled:
  assumes "validate r = None" and "valid_string doc" and "\<not> unpaired_surrogate doc"
    and "parse doc = Some (record_tree r)"
    and "rfc (t_text (rc_occurred_at r)) = Some (rc_occurred_at r)" and "valid_timestamp (t_text (rc_occurred_at r))"
  shows "unmarshal_json parse rfc doc = Inr (r\<lparr>rc_sealed := current_seal r, rc_sealed_for := []\<rparr>)"
proof -
  obtain fs where fs: "record_tree r = JObj fs" "check_object ''the record'' (record_tree r) record_rule = Inr fs"
    "check_nested fs nested_rules = None" "stamp_ok fs"
    using record_tree_object [of r] assms(6) by auto
  have "unmarshal_json parse rfc doc = Inr ((r\<lparr>rc_sealed := zero_seal, rc_sealed_for := []\<rparr>)
      \<lparr>rc_sealed := current_seal (r\<lparr>rc_sealed := zero_seal, rc_sealed_for := []\<rparr>)\<rparr>)"
    using assms(1-4) fs record_tree_no_dup [of r] record_tree_wire [OF fs(1), of rfc] assms(5)
    by (simp add: unmarshal_json_def)
  then show ?thesis by simp
qed

subsection \<open>A concrete record\<close>

definition ex_time :: go_time where
  "ex_time = \<lparr>t_utc = True, t_year = 2026, t_text = ''2026-07-01T10:00:00Z''\<rparr>"

definition ex_rec :: rec where
  "ex_rec = \<lparr>rc_format = [], rc_id = [], rc_op = ''upsert'', rc_source = [], rc_kind = ''message'',
     rc_external_id = ''fake:m1'', rc_version = ''7'', rc_supersedes = [], rc_occurred_at = ex_time,
     rc_title = [], rc_text = ''hi'', rc_author = \<lparr>au_id = ''u1'', au_display = []\<rparr>,
     rc_container = \<lparr>co_kind = ''channel'', co_id = ''c1''\<rparr>,
     rc_visibility = \<lparr>vi_scope = ''fake:channel:c1'', vi_audience = ''group''\<rparr>,
     rc_origin = \<lparr>or_automation = False, or_untrusted = False\<rparr>, rc_reply_parent = [], rc_delivery = ''i1'',
     rc_sealed = zero_seal, rc_sealed_for = []\<rparr>"

definition ex_sealed :: rec where
  "ex_sealed = (case seal_record toy_hash ex_rec ''fake'' ''acme'' of Inr q \<Rightarrow> q | Inl _ \<Rightarrow> ex_rec)"

lemma ascii_runes_eval: "list_all (\<lambda>b. ord_of b < 128) s \<Longrightarrow> runes s = map ord_of s \<and> valid_string s"
  using runes_all_ascii valid_all_ascii by (simp add: list_all_iff)

lemma check_string_ascii:
  "list_all (\<lambda>b. 32 \<le> ord_of b \<and> ord_of b < 127) s \<Longrightarrow> mn \<le> length s \<Longrightarrow> length s \<le> m \<Longrightarrow>
   check_string f s mn m rule = None"
proof -
  assume a: "list_all (\<lambda>b. 32 \<le> ord_of b \<and> ord_of b < 127) s" "mn \<le> length s" "length s \<le> m"
  then have "\<forall>b \<in> set s. ord_of b < 128" by (auto simp: list_all_iff)
  moreover have "\<not> refuses rule (ord_of b)" if "b \<in> set s" for b
  proof -
    have "32 \<le> ord_of b" "ord_of b < 127" using a(1) that by (auto simp: list_all_iff)
    then show ?thesis by (auto simp: refuses_def invisible_def)
  qed
  moreover have "nul \<notin> set s" using a(1) by (auto simp: list_all_iff ord_of_def)
  ultimately show ?thesis
    using a runes_all_ascii [of s] valid_all_ascii [of s] by (auto simp: check_string_def list_ex_iff)
qed

lemma list_all_replicate: "list_all P (replicate n x) = (n = 0 \<or> P x)"
  by (auto simp: list_all_iff)

lemma ex_seal: "seal_record toy_hash ex_rec ''fake'' ''acme'' = Inr ex_sealed \<and>
    rc_id ex_sealed = ''rec_'' @ replicate 32 (CHR ''7'')"
  unfolding ex_sealed_def
  by (simp add: seal_record_def ex_rec_def ex_time_def valid_provider_key_def valid_name_def is_lower_def is_digit_def
      check_scope_id_def unreserved_def is_upper_def Let_def has_prefix_def parse_tenant_def tenant_char_def
      record_id_def record_parts_def check_part_def toy_hash_def validate_def check_external_id_def
      check_string_ascii ord_of_def valid_record_id_def check_time_def refuse_def current_seal_def list_all_replicate)

subsection \<open>The seal\<close>



subsection \<open>The two commits\<close>

text \<open>What is relied on of encoding/json and time for one record: its document is valid UTF-8 with
  no half of a surrogate pair, and reads back as the tree that was written; its time has a text in
  the format's spelling, and reads back as itself.\<close>

definition codec_ok :: "(bytes \<Rightarrow> json option) \<Rightarrow> (bytes \<Rightarrow> go_time option) \<Rightarrow> (rec \<Rightarrow> bytes) \<Rightarrow> rec \<Rightarrow> bool" where
  "codec_ok parse rfc wire r \<longleftrightarrow> valid_string (wire r) \<and> \<not> unpaired_surrogate (wire r) \<and>
     parse (wire r) = Some (record_tree r) \<and>
     rfc (t_text (rc_occurred_at r)) = Some (rc_occurred_at r) \<and> valid_timestamp (t_text (rc_occurred_at r))"

lemma reseal:
  assumes "seal_record h r p t = Inr q"
  shows "seal_record h (q\<lparr>rc_sealed := s, rc_sealed_for := []\<rparr>) p t = Inr q"
proof -
  obtain i sl where q: "q = r\<lparr>rc_format := format_v1, rc_source := p, rc_id := i, rc_sealed := sl, rc_sealed_for := t\<rparr>"
    and i: "record_id h p (rc_external_id r) (rc_version r) (vi_scope (rc_visibility r)) t = Inr i"
    and v: "validate q = None" "rc_sealed q = current_seal q"
    by (rule seal_fields [OF assms])
  let ?q = "q\<lparr>rc_sealed := s, rc_sealed_for := []\<rparr>"
  have "rc_source ?q = p" "rc_id ?q = i" "rc_format ?q = format_v1" by (simp_all add: q)
  then have r1: "?q\<lparr>rc_format := format_v1, rc_source := p, rc_id := i\<rparr> = ?q" by simp
  have r2: "?q\<lparr>rc_sealed := current_seal ?q, rc_sealed_for := t\<rparr> = q"
    using v(2) by (simp add: q)
  have "rc_external_id ?q = rc_external_id r" "rc_version ?q = rc_version r" "rc_visibility ?q = rc_visibility r"
    "rc_reply_parent ?q = rc_reply_parent r" "rc_source ?q = p" by (simp_all add: q)
  then show ?thesis
    using assms i r1 r2 v(1) unfolding seal_record_def Let_def
    by (auto split: if_splits sum.splits option.splits)
qed

lemma reopen_sealed:
  assumes "seal_record h r p t = Inr q" and "codec_ok parse rfc wire q"
  shows "marshal_json wire q = Inr (wire q) \<and>
    reopen h (unmarshal_json parse rfc)
      \<lparr>st_id = rc_id q, st_op = rc_op q, st_kind = rc_kind q, st_document = wire q\<rparr> p t = Inr q"
proof -
  obtain i sl where v: "validate q = None" "rc_sealed q = current_seal q"
    by (rule seal_fields [OF assms(1)])
  have "unmarshal_json parse rfc (wire q) = Inr (q\<lparr>rc_sealed := current_seal q, rc_sealed_for := []\<rparr>)"
    by (rule unmarshal_marshalled) (use v assms(2) in \<open>simp_all add: codec_ok_def\<close>)
  then show ?thesis using v reseal [OF assms(1)] by (simp add: reopen_def marshal_json_def)
qed

text \<open>C30: The worker's second commit gets back exactly what its first commit stored: a record that
  was sealed and marshalled is reopened from its document, in another process, as the same record,
  sealed for the same tenant.\<close>

theorem reopen_returns_the_record:
  assumes "seal_record h r p t = Inr q" and "codec_ok parse rfc wire q"
  shows "marshal_json wire q = Inr (wire q) \<and>
    reopen h (unmarshal_json parse rfc)
      \<lparr>st_id = rc_id q, st_op = rc_op q, st_kind = rc_kind q, st_document = wire q\<rparr> p t = Inr q"
  by (rule reopen_sealed [OF assms])

definition ex_parse :: "bytes \<Rightarrow> json option" where
  "ex_parse doc = (if doc = ''{}'' then Some (record_tree ex_sealed) else None)"

lemma ex_sealed_ok: "seal_record toy_hash ex_rec ''fake'' ''acme'' = Inr ex_sealed"
  using ex_seal by blast

lemma ex_sealed_fields: "rc_op ex_sealed = ''upsert''" "rc_kind ex_sealed = ''message''" "rc_occurred_at ex_sealed = ex_time"
  by (rule seal_fields [OF ex_sealed_ok], drule arg_cong [where f = rc_op], simp add: ex_rec_def,
      rule seal_fields [OF ex_sealed_ok], drule arg_cong [where f = rc_kind], simp add: ex_rec_def,
      rule seal_fields [OF ex_sealed_ok], drule arg_cong [where f = rc_occurred_at], simp add: ex_rec_def)

lemma ex_codec: "codec_ok ex_parse (\<lambda>_. Some ex_time) (\<lambda>_. ''{}'') ex_sealed"
proof -
  have "upt 0 19 = [0::nat,1,2,3,4,5,6,7,8,9,10,11,12,13,14,15,16,17,18]" by (simp add: upt_rec)
  then have "valid_timestamp ''2026-07-01T10:00:00Z''"
    by (simp add: valid_timestamp_def two_digits_def stamp_char_def is_digit_def ord_of_def)
  then show ?thesis
    using ex_sealed_fields by (simp add: codec_ok_def ex_parse_def ascii_runes_eval ord_of_def ex_time_def del: valid_string.simps)
qed

theorem reopen_returns_the_record_witness:
  "reopen toy_hash (unmarshal_json ex_parse (\<lambda>_. Some ex_time))
     \<lparr>st_id = rc_id ex_sealed, st_op = ''upsert'', st_kind = ''message'', st_document = ''{}''\<rparr> ''fake'' ''acme'' = Inr ex_sealed"
  using reopen_returns_the_record [OF ex_sealed_ok ex_codec] by (simp add: ex_sealed_fields)

text \<open>C31: Whatever \<open>Reopen\<close> lets through is the record the row says: it validates, it is sealed for
  the tenant it was asked for, its id is the one this tenant's recipe mints for the fields the
  document carries, and its id, op and kind are the row's. Anything else is refused.\<close>

theorem reopen_fails_closed:
  assumes "reopen h (unmarshal_json parse rfc) s p t = Inr q"
  shows "validate q = None \<and> sealed_for q t \<and> rc_id q = st_id s \<and> rc_op q = st_op s \<and> rc_kind q = st_kind s \<and>
    record_id h p (rc_external_id q) (rc_version q) (vi_scope (rc_visibility q)) t = Inr (st_id s) \<and>
    (\<exists>v. parse (st_document s) = Some v \<and> \<not> dup_names v)"
proof -
  obtain sd where sd: "unmarshal_json parse rfc (st_document s) = Inr sd" "seal_record h sd p t = Inr q"
    "rc_id q = rc_id sd" "st_id s = rc_id sd" "st_op s = rc_op sd" "st_kind s = rc_kind sd"
    using assms by (auto simp: reopen_def split: sum.splits if_splits)
  obtain i sl where q: "q = sd\<lparr>rc_format := format_v1, rc_source := p, rc_id := i, rc_sealed := sl, rc_sealed_for := t\<rparr>"
    and i: "record_id h p (rc_external_id sd) (rc_version sd) (vi_scope (rc_visibility sd)) t = Inr i"
    and v: "validate q = None" "rc_sealed q = current_seal q" "valid_tenant t"
    by (rule seal_fields [OF sd(2)])
  have "rc_op q = rc_op sd" "rc_kind q = rc_kind sd" "rc_external_id q = rc_external_id sd" "rc_version q = rc_version sd"
    "rc_visibility q = rc_visibility sd" "rc_id q = i" "rc_sealed_for q = t" by (simp_all add: q)
  moreover have "t \<noteq> []" using v(3) by (simp add: valid_tenant_def)
  ultimately show ?thesis using v i sd decoded_valid [OF sd(1)] by (auto simp: sealed_for_def)
qed

theorem reopen_fails_closed_witness: "sealed_for ex_sealed ''acme'' \<and> validate ex_sealed = None"
  using reopen_fails_closed [OF reopen_sealed [OF ex_sealed_ok ex_codec, THEN conjunct2]] by simp

end
