(* ===== verification/Versions.thy ===== *)
theory Versions
  imports Prelude
begin

text \<open>
  How a provider spells a version (\<open>VersionOrder\<close> of internal/provider/provider.go) and how the
  pipeline compares two versions under the declared spelling (\<open>compareVersions\<close> of
  internal/pipeline/ledger.go), with Go's base64 decoder as \<open>decodeBase64\<close> uses it. Every accepted
  comparison is a comparison of two numbers, so the order is total and never contradicts itself.
\<close>

datatype version_order = OrderUnset | OrderDecimal | OrderLexical | OrderBase64 | OrderValue nat

definition order_valid :: "version_order \<Rightarrow> bool" where
  "order_valid o' \<longleftrightarrow> o' = OrderDecimal \<or> o' = OrderLexical \<or> o' = OrderBase64"

text \<open>\<open>strings.Compare\<close> and \<open>bytes.Compare\<close>.\<close>

fun compare_bytes :: "bytes \<Rightarrow> bytes \<Rightarrow> int" where
  "compare_bytes [] [] = 0"
| "compare_bytes [] (y # ys) = -1"
| "compare_bytes (x # xs) [] = 1"
| "compare_bytes (x # xs) (y # ys) =
     (if ord_of x < ord_of y then -1 else if ord_of y < ord_of x then 1 else compare_bytes xs ys)"

definition is_decimal :: "bytes \<Rightarrow> bool" where
  "is_decimal s \<longleftrightarrow> s \<noteq> [] \<and> list_all is_digit s"

definition compare_decimal :: "bytes \<Rightarrow> bytes \<Rightarrow> int" where
  "compare_decimal a b =
     (let a' = trim_left (CHR ''0'') a; b' = trim_left (CHR ''0'') b in
      if length a' \<noteq> length b' then (if length a' < length b' then -1 else 1)
      else compare_bytes a' b')"

text \<open>The value of one character of the standard alphabet, and \<open>DecodeString\<close> of
  \<open>base64.StdEncoding\<close> and \<open>base64.RawStdEncoding\<close> (not strict, line breaks skipped), on the text
  without its line breaks.\<close>

definition b64_val :: "char \<Rightarrow> nat option" where
  "b64_val c =
     (if is_upper c then Some (ord_of c - 65)
      else if is_lower c then Some (ord_of c - 71)
      else if is_digit c then Some (ord_of c + 4)
      else if c = CHR ''+'' then Some 62
      else if c = CHR ''/'' then Some 63 else None)"

definition b64_two :: "nat \<Rightarrow> nat \<Rightarrow> bytes" where
  "b64_two a b = [char_of (a * 4 + b div 16)]"

definition b64_three :: "nat \<Rightarrow> nat \<Rightarrow> nat \<Rightarrow> bytes" where
  "b64_three a b c = [char_of (a * 4 + b div 16), char_of (b mod 16 * 16 + c div 4)]"

definition b64_four :: "nat \<Rightarrow> nat \<Rightarrow> nat \<Rightarrow> nat \<Rightarrow> bytes" where
  "b64_four a b c d =
     [char_of (a * 4 + b div 16), char_of (b mod 16 * 16 + c div 4), char_of (c mod 4 * 64 + d)]"

fun b64_decode :: "bool \<Rightarrow> bytes \<Rightarrow> bytes option" where
  "b64_decode padded [] = Some []"
| "b64_decode padded [a] = None"
| "b64_decode padded [a, b] =
     (case (b64_val a, b64_val b) of
        (Some va, Some vb) \<Rightarrow> if padded then None else Some (b64_two va vb) | _ \<Rightarrow> None)"
| "b64_decode padded [a, b, c] =
     (case (b64_val a, b64_val b, b64_val c) of
        (Some va, Some vb, Some vc) \<Rightarrow> if padded then None else Some (b64_three va vb vc) | _ \<Rightarrow> None)"
| "b64_decode padded (a # b # c # d # rest) =
     (case (b64_val a, b64_val b) of
        (Some va, Some vb) \<Rightarrow>
          if padded \<and> c = CHR ''='' \<and> d = CHR ''='' \<and> rest = [] then Some (b64_two va vb)
          else (case b64_val c of
            None \<Rightarrow> None
          | Some vc \<Rightarrow>
              if padded \<and> d = CHR ''='' \<and> rest = [] then Some (b64_three va vb vc)
              else (case b64_val d of
                None \<Rightarrow> None
              | Some vd \<Rightarrow> map_option (\<lambda>t. b64_four va vb vc vd @ t) (b64_decode padded rest)))
      | _ \<Rightarrow> None)"

definition url_to_std :: "bytes \<Rightarrow> bytes" where
  "url_to_std s = map (\<lambda>c. if c = CHR ''-'' then CHR ''+'' else if c = CHR ''_'' then CHR ''/'' else c) s"

definition decode_base64 :: "bytes \<Rightarrow> bytes option" where
  "decode_base64 s =
     (if s = [] then None
      else
        let url_safe = list_ex (\<lambda>c. c = CHR ''-'' \<or> c = CHR ''_'') s;
            standard = list_ex (\<lambda>c. c = CHR ''+'' \<or> c = CHR ''/'') s in
        if url_safe \<and> standard then None
        else
          let s' = (if url_safe then url_to_std s else s) in
          b64_decode (s' \<noteq> [] \<and> last s' = CHR ''='')
            (filter (\<lambda>c. c \<noteq> CHR 0x0A \<and> c \<noteq> CHR 0x0D) s'))"

fun compare_versions :: "version_order \<Rightarrow> bytes \<Rightarrow> bytes \<Rightarrow> int option" where
  "compare_versions OrderDecimal v head =
     (if is_decimal v \<and> is_decimal head then Some (compare_decimal v head) else None)"
| "compare_versions OrderLexical v head =
     (if v \<noteq> [] \<and> length v = length head then Some (compare_bytes v head) else None)"
| "compare_versions OrderBase64 v head =
     (case (decode_base64 v, decode_base64 head) of
        (Some a, Some b) \<Rightarrow> if length a = length b then Some (compare_bytes a b) else None
      | _ \<Rightarrow> None)"
| "compare_versions _ v head = None"

subsection \<open>The comparisons as comparisons of numbers\<close>

definition number_of :: "nat \<Rightarrow> (char \<Rightarrow> nat) \<Rightarrow> bytes \<Rightarrow> nat" where
  "number_of base val s = foldl (\<lambda>n c. n * base + val c) 0 s"

lemma foldl_number: "foldl (\<lambda>n c. n * base + val c) m s = m * base ^ length s + number_of base val s"
proof (induction s arbitrary: m)
  case Nil
  then show ?case by (simp add: number_of_def)
next
  case (Cons c s)
  have "number_of base val (c # s) = val c * base ^ length s + number_of base val s"
    using Cons [of "val c"] by (simp add: number_of_def)
  then show ?case using Cons [of "m * base + val c"] by (simp add: algebra_simps)
qed

lemma number_of_Cons: "number_of base val (c # s) = val c * base ^ length s + number_of base val s"
  using foldl_number [of base val "val c" s] by (simp add: number_of_def)

lemma number_of_less:
  assumes "\<And>c. c \<in> set s \<Longrightarrow> val c < base"
  shows "number_of base val s < base ^ length s"
  using assms
proof (induction s)
  case Nil
  then show ?case by (simp add: number_of_def)
next
  case (Cons c s)
  have "val c < base" "number_of base val s < base ^ length s" using Cons by auto
  then have "(val c + 1) * base ^ length s \<le> base * base ^ length s"
    by (intro mult_right_mono) auto
  then show ?case using \<open>number_of base val s < base ^ length s\<close> by (simp add: number_of_Cons)
qed

lemma compare_bytes_number:
  assumes "length a = length b" and "\<And>c. c \<in> set a \<union> set b \<Longrightarrow> val c < base"
    and "\<And>c d. c \<in> set a \<union> set b \<Longrightarrow> d \<in> set a \<union> set b \<Longrightarrow> (val c < val d) = (ord_of c < ord_of d)"
  shows "compare_bytes a b = sgn (int (number_of base val a) - int (number_of base val b))"
  using assms
proof (induction a b rule: list_induct2)
  case Nil
  then show ?case by (simp add: number_of_def)
next
  case (Cons x xs y ys)
  have ih: "compare_bytes xs ys = sgn (int (number_of base val xs) - int (number_of base val ys))"
    by (rule Cons.IH) (use Cons.prems in auto)
  have l: "number_of base val xs < base ^ length xs" "number_of base val ys < base ^ length ys"
    by (rule number_of_less, use Cons.prems(1) in auto)+
  have step: "number_of base val us < number_of base val vs"
    if "val u < val v" "number_of base val us' < base ^ n" "us = u # us'" "vs = v # vs'" "length us' = n" "length vs' = n"
    for u v us vs us' vs' n
  proof -
    have "(val u + 1) * base ^ n \<le> val v * base ^ n" using that(1) by (intro mult_right_mono) auto
    then show ?thesis using that by (simp add: number_of_Cons)
  qed
  consider "ord_of x < ord_of y" | "ord_of y < ord_of x" | "ord_of x = ord_of y" by linarith
  then show ?case
  proof cases
    case 1
    then have "val x < val y" using Cons.prems(2) [of x y] by simp
    then have "number_of base val (x # xs) < number_of base val (y # ys)"
      by (rule step [OF _ l(1) refl refl]) (simp_all add: Cons.hyps)
    then show ?thesis using 1 by simp
  next
    case 2
    then have "val y < val x" using Cons.prems(2) [of y x] by simp
    then have "number_of base val (y # ys) < number_of base val (x # xs)"
      by (rule step [OF _ l(2) refl refl]) (simp_all add: Cons.hyps)
    then show ?thesis using 2 by simp
  next
    case 3
    then have xy: "x = y" by (rule ord_of_inj)
    have "int (number_of base val (x # xs)) - int (number_of base val (y # ys)) =
        int (number_of base val xs) - int (number_of base val ys)"
      unfolding number_of_Cons xy Cons.hyps by linarith
    moreover have "compare_bytes (x # xs) (y # ys) = compare_bytes xs ys" unfolding xy by simp
    ultimately show ?thesis using ih by simp
  qed
qed

definition digit_val :: "char \<Rightarrow> nat" where
  "digit_val c = ord_of c - 48"

lemma digit_val_ok: "is_digit c \<Longrightarrow> digit_val c < 10 \<and> ord_of c = digit_val c + 48"
  by (auto simp: is_digit_def digit_val_def char_le_ord ord_of_def)

lemma trim_left_number: "list_all is_digit s \<Longrightarrow> number_of 10 digit_val (trim_left (CHR ''0'') s) = number_of 10 digit_val s"
  by (induction s) (auto simp: number_of_Cons digit_val_def ord_of_def)

text \<open>\<open>compareDecimal\<close> is the order of the numbers the two runs spell.\<close>

lemma compare_decimal_number:
  assumes "list_all is_digit a" "list_all is_digit b"
  shows "compare_decimal a b = sgn (int (number_of 10 digit_val a) - int (number_of 10 digit_val b))"
proof -
  let ?a = "trim_left (CHR ''0'') a" and ?b = "trim_left (CHR ''0'') b"
  have d: "\<forall>c \<in> set ?a \<union> set ?b. is_digit c"
    using assms trim_left_set [of "CHR ''0''"] by (auto simp: list_all_iff)
  have na: "number_of 10 digit_val ?a = number_of 10 digit_val a" "number_of 10 digit_val ?b = number_of 10 digit_val b"
    using trim_left_number assms by auto
  have longer: "number_of 10 digit_val us < number_of 10 digit_val vs"
    if shorter: "length us < length vs" and du: "\<forall>c \<in> set us. is_digit c"
      and dv: "\<forall>c \<in> set vs. is_digit c" and ne: "vs \<noteq> []" and hd0: "hd vs \<noteq> CHR ''0''" for us vs
  proof -
    obtain v ws where vs: "vs = v # ws" using ne by (cases vs) auto
    have "v \<noteq> CHR ''0''" "is_digit v" using hd0 dv vs by auto
    then have "digit_val v \<noteq> 0" using digit_val_ok [of v] ord_of_inj [of v "CHR ''0''"] by (auto simp: ord_of_def)
    then have "10 ^ length ws \<le> number_of 10 digit_val vs" unfolding vs number_of_Cons by (cases "digit_val v") auto
    moreover have "number_of 10 digit_val us < 10 ^ length us"
      by (rule number_of_less) (use du digit_val_ok in auto)
    moreover have "(10::nat) ^ length us \<le> 10 ^ length ws" using shorter vs by (intro power_increasing) auto
    ultimately show ?thesis by linarith
  qed
  consider "length ?a < length ?b" | "length ?b < length ?a" | "length ?a = length ?b" by linarith
  then show ?thesis
  proof cases
    case 1
    then have "?b \<noteq> []" by auto
    then have "number_of 10 digit_val a < number_of 10 digit_val b"
      using longer [OF 1] d trim_left_hd [of "CHR ''0''" b] na by auto
    then show ?thesis using 1 by (simp add: compare_decimal_def Let_def)
  next
    case 2
    then have "?a \<noteq> []" by auto
    then have "number_of 10 digit_val b < number_of 10 digit_val a"
      using longer [OF 2] d trim_left_hd [of "CHR ''0''" a] na by auto
    then show ?thesis using 2 by (simp add: compare_decimal_def Let_def)
  next
    case 3
    have "compare_bytes ?a ?b = sgn (int (number_of 10 digit_val ?a) - int (number_of 10 digit_val ?b))"
      by (rule compare_bytes_number [OF 3]) (use d digit_val_ok in force)+
    then show ?thesis using 3 na by (simp add: compare_decimal_def Let_def)
  qed
qed

text \<open>What an accepted version is compared by: its width, where the order has one, and a number.\<close>

fun version_key :: "version_order \<Rightarrow> bytes \<Rightarrow> (nat \<times> nat) option" where
  "version_key OrderDecimal v = (if is_decimal v then Some (0, number_of 10 digit_val v) else None)"
| "version_key OrderLexical v = (if v \<noteq> [] then Some (length v, number_of 256 ord_of v) else None)"
| "version_key OrderBase64 v = map_option (\<lambda>b. (length b, number_of 256 ord_of b)) (decode_base64 v)"
| "version_key _ v = None"

lemma compare_versions_key:
  "compare_versions o' v w =
     (case (version_key o' v, version_key o' w) of
        (Some (m, a), Some (n, b)) \<Rightarrow> if m = n then Some (sgn (int a - int b)) else None
      | _ \<Rightarrow> None)"
proof -
  have cb: "length a = length b \<Longrightarrow> compare_bytes a b = sgn (int (number_of 256 ord_of a) - int (number_of 256 ord_of b))" for a b
    by (rule compare_bytes_number) auto
  show ?thesis
    by (cases o') (auto simp: cb compare_decimal_number is_decimal_def split: option.splits prod.splits)
qed

text \<open>
  What the ledger relies on in a comparison: both ways round it answers or refuses, with opposite
  answers, and "not older" composes.
\<close>

locale comparison =
  fixes cmp :: "'v \<Rightarrow> 'v \<Rightarrow> int option"
  assumes flip: "cmp v w = Some c \<Longrightarrow> cmp w v = Some (- c)"
    and trans: "cmp v u = Some a \<Longrightarrow> cmp w v = Some b \<Longrightarrow> 0 \<le> a \<Longrightarrow> 0 \<le> b \<Longrightarrow>
      \<exists>c \<ge> 0. cmp w u = Some c \<and> (c = 0 \<longleftrightarrow> a = 0 \<and> b = 0)"
begin

definition not_older :: "'v \<Rightarrow> 'v \<Rightarrow> bool" where
  "not_older w v \<longleftrightarrow> (\<exists>c \<ge> 0. cmp w v = Some c)"

definition older :: "'v \<Rightarrow> 'v \<Rightarrow> bool" where
  "older v w \<longleftrightarrow> (\<exists>c < 0. cmp v w = Some c)"

lemma older_before:
  assumes "older v w" "not_older x w"
  shows "older v x"
proof -
  obtain c where c: "cmp v w = Some c" "c < 0" using assms(1) by (auto simp: older_def)
  obtain d where d: "cmp x w = Some d" "0 \<le> d" using assms(2) by (auto simp: not_older_def)
  obtain k where "cmp x v = Some k" "0 \<le> k" "k = 0 \<longleftrightarrow> - c = 0 \<and> d = 0"
    using trans [OF flip [OF c(1)] d(1)] c(2) d(2) by auto
  then have "cmp v x = Some (- k)" "- k < 0" using flip [of x v k] c(2) by auto
  then show ?thesis by (auto simp: older_def)
qed

lemma not_older_trans: "not_older w v \<Longrightarrow> not_older v u \<Longrightarrow> not_older w u"
  using trans by (meson not_older_def)

end

lemma compare_versions_flip: "compare_versions o' v w = Some c \<Longrightarrow> compare_versions o' w v = Some (- c)"
  unfolding compare_versions_key [of o'] by (auto split: option.splits simp: sgn_if split: if_splits)

lemma compare_versions_trans:
  "compare_versions o' v u = Some a \<Longrightarrow> compare_versions o' w v = Some b \<Longrightarrow> 0 \<le> a \<Longrightarrow> 0 \<le> b \<Longrightarrow>
   \<exists>c \<ge> 0. compare_versions o' w u = Some c \<and> (c = 0 \<longleftrightarrow> a = 0 \<and> b = 0)"
  unfolding compare_versions_key [of o'] by (auto split: option.splits if_splits simp: sgn_if)

interpretation ver: comparison "compare_versions o'" for o'
  by unfold_locales (rule compare_versions_flip compare_versions_trans, assumption+)+

text \<open>Comparing versions never contradicts itself. Under every declared order two versions are
  ordered both ways round or neither, the second answer is the opposite of the first, and "not
  newer" is transitive; and decimal versions are ordered by the numbers they spell, whatever their
  lengths and leading zeros.\<close>

theorem compare_versions_consistent:
  "(compare_versions o' v w = Some c \<longleftrightarrow> compare_versions o' w v = Some (- c)) \<and>
   (compare_versions o' u v = Some a \<and> compare_versions o' v w = Some b \<and> a \<le> 0 \<and> b \<le> 0 \<longrightarrow>
      (\<exists>c \<le> 0. compare_versions o' u w = Some c \<and> (c = 0 \<longleftrightarrow> a = 0 \<and> b = 0))) \<and>
   (is_decimal v \<and> is_decimal w \<longrightarrow> compare_versions OrderDecimal v w =
      Some (sgn (int (number_of 10 digit_val v) - int (number_of 10 digit_val w))))"
proof (intro conjI impI)
  show "compare_versions o' v w = Some c \<longleftrightarrow> compare_versions o' w v = Some (- c)"
    using compare_versions_flip [of o'] by force
  show "\<exists>c \<le> 0. compare_versions o' u w = Some c \<and> (c = 0 \<longleftrightarrow> a = 0 \<and> b = 0)"
    if "compare_versions o' u v = Some a \<and> compare_versions o' v w = Some b \<and> a \<le> 0 \<and> b \<le> 0"
    using that unfolding compare_versions_key [of o'] by (auto split: option.splits if_splits simp: sgn_if)
  show "compare_versions OrderDecimal v w = Some (sgn (int (number_of 10 digit_val v) - int (number_of 10 digit_val w)))"
    if "is_decimal v \<and> is_decimal w"
    using that by (simp add: compare_decimal_number is_decimal_def)
qed

theorem compare_versions_consistent_witness:
  "compare_versions OrderDecimal ''9'' ''0010'' = Some (-1) \<and> compare_versions OrderBase64 ''AAAz'' ''AAA0'' = Some (-1)"
proof -
  have "is_decimal ''9'' \<and> is_decimal ''0010''" by (simp add: is_decimal_def is_digit_def)
  then have "compare_versions OrderDecimal ''9'' ''0010'' = Some (-1)"
    using compare_versions_consistent [of OrderDecimal "''9''" "''0010''"]
    by (simp add: number_of_def digit_val_def ord_of_def)
  moreover have "compare_versions OrderBase64 ''AAAz'' ''AAA0'' = Some (-1)"
    by (simp add: decode_base64_def b64_val_def is_upper_def is_lower_def is_digit_def b64_four_def ord_of_def Let_def of_char_of)
  ultimately show ?thesis by simp
qed

end
