(* ===== verification/Registry.thy ===== *)
theory Registry
  imports Record_Format Versions "HOL-Library.List_Lexorder"
begin

text \<open>
  internal/provider: what a provider is to the rest of the program (provider.go), and the registry
  that is built from the providers once at start (registry.go). A provider's methods are its own
  code, so a provider is the record of its answers: \<open>'h\<close> is the object it hydrates. \<open>Verify\<close> may, against
  its contract, panic or not return, which the hub observes.
\<close>

record request =
  rq_method :: bytes
  rq_url :: bytes
  rq_header :: "bytes \<Rightarrow> bytes list"
  rq_body :: bytes

record reply =
  rp_status :: int
  rp_content_type :: bytes
  rp_body :: bytes

record delivery_keys =
  dk_workspace :: bytes
  dk_subscription :: bytes

record change =
  ch_external_id :: bytes
  ch_op :: bytes
  ch_payload :: bytes

datatype verify_answer = Verified | NotVerified | VerifyPanicked | VerifyStuck

record webhook_source =
  ws_handshake :: "request \<Rightarrow> bytes \<Rightarrow> reply option"
  ws_delivery_keys :: "bytes \<Rightarrow> (bytes \<Rightarrow> bytes list) \<Rightarrow> bytes + delivery_keys"
  ws_verify :: "request \<Rightarrow> bytes \<Rightarrow> verify_answer"
  ws_parse :: "bytes \<Rightarrow> bytes + change list"
  ws_signs_url :: bool

datatype degrade_answer = Degraded "rec list" | CannotDegrade bytes | DegradeFailed bytes

record 'h provider =
  pv_key :: bytes
  pv_versions :: version_order
  pv_hydrate :: "bytes \<Rightarrow> change \<Rightarrow> bytes + 'h"
  pv_normalize :: "'h \<Rightarrow> change \<Rightarrow> bytes + rec list"
  pv_degrade :: "(change \<Rightarrow> degrade_answer) option"
  pv_source :: "webhook_source option"

record 'h reg_entry =
  en_key :: bytes
  en_versions :: version_order
  en_provider :: "'h provider"

type_synonym 'h registry = "(bytes \<times> 'h reg_entry) list"

datatype reg_error = ErrNilProvider | ErrBadKey bytes | ErrDuplicateKey bytes | ErrNoVersionOrder bytes

definition reg_lookup :: "'h registry \<Rightarrow> bytes \<Rightarrow> 'h reg_entry option" where
  "reg_lookup reg k = map_of reg k"

fun register_all :: "'h provider option list \<Rightarrow> 'h registry \<Rightarrow> reg_error + 'h registry" where
  "register_all [] reg = Inr reg"
| "register_all (None # ps) reg = Inl ErrNilProvider"
| "register_all (Some p # ps) reg =
     (let key = pv_key p in
      if \<not> valid_provider_key key then Inl (ErrBadKey key)
      else if reg_lookup reg key \<noteq> None then Inl (ErrDuplicateKey key)
      else if \<not> order_valid (pv_versions p) then Inl (ErrNoVersionOrder key)
      else register_all ps (reg @ [(key, \<lparr>en_key = key, en_versions = pv_versions p, en_provider = p\<rparr>)]))"

definition new_registry :: "'h provider option list \<Rightarrow> reg_error + 'h registry" where
  "new_registry ps = register_all ps []"

definition reg_entries :: "'h registry \<Rightarrow> 'h reg_entry list" where
  "reg_entries reg = map snd (sort_key fst reg)"

definition en_source :: "'h reg_entry \<Rightarrow> webhook_source option" where
  "en_source e = pv_source (en_provider e)"

definition entry_ok :: "bytes \<times> 'h reg_entry \<Rightarrow> bool" where
  "entry_ok x \<longleftrightarrow> en_key (snd x) = fst x \<and> pv_key (en_provider (snd x)) = fst x \<and>
     pv_versions (en_provider (snd x)) = en_versions (snd x) \<and> valid_provider_key (fst x) \<and> order_valid (en_versions (snd x))"

definition reg_ok :: "'h registry \<Rightarrow> bool" where
  "reg_ok reg \<longleftrightarrow> distinct (map fst reg) \<and> list_all entry_ok reg"

lemma register_all_ok:
  "register_all ps reg = Inr reg' \<Longrightarrow> reg_ok reg \<Longrightarrow>
     reg_ok reg' \<and> map (\<lambda>x. Some (en_provider (snd x))) reg' = map (\<lambda>x. Some (en_provider (snd x))) reg @ ps"
proof (induction ps reg rule: register_all.induct)
  case (3 p ps reg)
  let ?e = "(pv_key p, \<lparr>en_key = pv_key p, en_versions = pv_versions p, en_provider = p\<rparr>)"
  have ok: "valid_provider_key (pv_key p)" "reg_lookup reg (pv_key p) = None" "order_valid (pv_versions p)"
    "register_all ps (reg @ [?e]) = Inr reg'"
    using 3(2) by (auto simp: Let_def split: if_splits)
  have "entry_ok ?e" "pv_key p \<notin> fst ` set reg"
    using ok by (simp_all add: entry_ok_def reg_lookup_def map_of_eq_None_iff)
  then have "reg_ok (reg @ [?e])" using 3(3) by (simp add: reg_ok_def)
  then show ?case using 3(1) [OF refl _ _ _ ok(4)] ok(1-3) by simp
qed auto

lemma new_registry_ok: "new_registry ps = Inr reg \<Longrightarrow> reg_ok reg \<and> map (\<lambda>x. Some (en_provider (snd x))) reg = ps"
  using register_all_ok [of ps "[]" reg] by (simp add: new_registry_def reg_ok_def)

lemma reg_lookup_ok:
  assumes "reg_ok reg" "reg_lookup reg k = Some e"
  shows "entry_ok (k, e)" "(k, e) \<in> set reg"
proof -
  show "(k, e) \<in> set reg" using assms(2) map_of_SomeD by (simp add: reg_lookup_def)
  then show "entry_ok (k, e)" using assms(1) by (simp add: reg_ok_def list_all_iff)
qed

lemma entries_sorted:
  assumes "reg_ok reg"
  shows "sorted_wrt (<) (map en_key (reg_entries reg)) \<and> length (reg_entries reg) = length reg"
proof -
  have "list_all entry_ok (sort_key fst reg)" using assms by (simp add: reg_ok_def list_all_iff)
  then have "map en_key (map snd (sort_key fst reg)) = map fst (sort_key fst reg)"
    by (simp add: list_all_iff entry_ok_def)
  moreover have "distinct (map fst (sort_key fst reg))"
    using assms by (simp add: reg_ok_def distinct_map)
  ultimately show ?thesis unfolding reg_entries_def strict_sorted_iff by (metis length_map length_sort sorted_sort_key)
qed

text \<open>A registry serves exactly the providers it was built from. Looking a string up gives an entry
  exactly if it is byte for byte the key of one of them, and the entry then is that provider's, with
  the registry's copy of the key, a valid one, and a version order that can order something; and the
  entries are listed once each in the order of their keys.\<close>

theorem registry_serves_what_was_registered:
  assumes "new_registry ps = Inr reg"
  shows "(reg_lookup reg k = None \<longleftrightarrow> (\<forall>p. pv_key p = k \<longrightarrow> Some p \<notin> set ps)) \<and>
    (reg_lookup reg k = Some e \<longrightarrow> Some (en_provider e) \<in> set ps \<and> en_key e = k \<and> pv_key (en_provider e) = k \<and>
      valid_provider_key k \<and> order_valid (en_versions e)) \<and>
    sorted_wrt (<) (map en_key (reg_entries reg)) \<and> length (reg_entries reg) = length ps"
proof -
  note ok = new_registry_ok [OF assms]
  have keys: "pv_key (en_provider (snd x)) = fst x" if "x \<in> set reg" for x
    using ok that by (simp add: reg_ok_def list_all_iff entry_ok_def)
  have ps: "set ps = (\<lambda>x. Some (en_provider (snd x))) ` set reg" using ok by (metis list.set_map)
  have none: "reg_lookup reg k = None \<longleftrightarrow> (\<forall>p. pv_key p = k \<longrightarrow> Some p \<notin> set ps)"
    unfolding ps reg_lookup_def map_of_eq_None_iff using keys by (force simp: image_iff)
  have some: "Some (en_provider e) \<in> set ps \<and> en_key e = k \<and> pv_key (en_provider e) = k \<and>
      valid_provider_key k \<and> order_valid (en_versions e)" if l: "reg_lookup reg k = Some e"
  proof -
    note e = reg_lookup_ok [OF conjunct1 [OF ok] l]
    have "Some (en_provider e) \<in> set ps" unfolding ps by (rule image_eqI [OF _ e(2)]) simp
    then show ?thesis using e(1) unfolding entry_ok_def by auto
  qed
  have "length reg = length ps" using ok by (metis length_map)
  then show ?thesis using none some entries_sorted [OF conjunct1 [OF ok]] by simp
qed

text \<open>A provider for the witnesses: it reads every body as one change of one task.\<close>

definition ex_source :: webhook_source where
  "ex_source = \<lparr>ws_handshake = (\<lambda>_ _. None), ws_delivery_keys = (\<lambda>_ _. Inr \<lparr>dk_workspace = ''w1'', dk_subscription = []\<rparr>),
     ws_verify = (\<lambda>_ s. if s = ''k1'' then Verified else NotVerified),
     ws_parse = (\<lambda>b. Inr [\<lparr>ch_external_id = ''fake:m1'', ch_op = ''upsert'', ch_payload = b\<rparr>]), ws_signs_url = False\<rparr>"

definition ex_provider :: "rec list \<Rightarrow> unit provider" where
  "ex_provider rs = \<lparr>pv_key = ''fake'', pv_versions = OrderDecimal, pv_hydrate = (\<lambda>_ _. Inr ()),
     pv_normalize = (\<lambda>_ _. Inr rs), pv_degrade = None, pv_source = Some ex_source\<rparr>"

definition ex_entry :: "rec list \<Rightarrow> unit reg_entry" where
  "ex_entry rs = \<lparr>en_key = ''fake'', en_versions = OrderDecimal, en_provider = ex_provider rs\<rparr>"

lemma ex_registry: "new_registry [Some (ex_provider rs)] = Inr [(''fake'', ex_entry rs)]"
proof -
  have "valid_provider_key ''fake''" by (simp add: valid_provider_key_def valid_name_def is_lower_def)
  then show ?thesis
    by (simp add: new_registry_def ex_provider_def ex_entry_def reg_lookup_def order_valid_def Let_def)
qed

theorem registry_serves_what_was_registered_witness:
  "reg_lookup [(''fake'', ex_entry [])] ''fake'' = Some (ex_entry []) \<and> en_key (ex_entry []) = ''fake'' \<and>
   reg_lookup [(''fake'', ex_entry [])] ''FAKE'' = None"
  using registry_serves_what_was_registered [OF ex_registry [of "[]"], of "''fake''" "ex_entry []"]
  by (simp add: reg_lookup_def)

end
