(* ===== verification/Ledger.thy ===== *)
theory Ledger
  imports Record_Format Versions "HOL-Library.List_Lexorder"
begin

text \<open>
  internal/pipeline/ledger.go over the table \<open>record_ledger\<close> (migration 00004) and the statements of
  internal/pipeline/pipelinedb: what the ledger decides about one record, and the supersede chain
  it writes. The table is the list of its rows in insertion order; \<open>prepared_at\<close>, which no statement
  reads, is left out. The advisory locks of a delivery serialise the deliveries of one entity, so
  \<open>admit\<close> runs as one step; the order the locks are taken in is modelled on its own, with the
  deliveries that wait for each other.
\<close>

record lrow =
  l_tenant :: bytes
  l_record_id :: bytes
  l_provider :: bytes
  l_external_id :: bytes
  l_version :: bytes
  l_scope :: bytes
  l_supersedes :: "bytes option"
  l_is_head :: bool

abbreviation max_external_id_bytes :: nat where "max_external_id_bytes \<equiv> 2048"

definition of_entity :: "bytes \<Rightarrow> bytes \<Rightarrow> bytes \<Rightarrow> lrow \<Rightarrow> bool" where
  "of_entity t p e r \<longleftrightarrow> l_tenant r = t \<and> l_provider r = p \<and> l_external_id r = e"

text \<open>The policy \<open>tenant_isolation\<close>: a transaction sees its own tenant's rows.\<close>

definition sees :: "txn \<Rightarrow> bytes \<Rightarrow> bool" where
  "sees tx t \<longleftrightarrow> tx_tenant tx = Some t"

subsection \<open>The statements\<close>

definition sql_entity_head :: "txn \<Rightarrow> bytes \<Rightarrow> bytes \<Rightarrow> bytes \<Rightarrow> lrow list \<Rightarrow> lrow option" where
  "sql_entity_head tx t p e rs = find (\<lambda>r. sees tx (l_tenant r) \<and> of_entity t p e r \<and> l_is_head r) rs"

definition sql_ledger_entry :: "txn \<Rightarrow> bytes \<Rightarrow> bytes \<Rightarrow> lrow list \<Rightarrow> bool option" where
  "sql_ledger_entry tx t i rs =
     map_option l_is_head (find (\<lambda>r. sees tx (l_tenant r) \<and> l_tenant r = t \<and> l_record_id r = i) rs)"

definition sql_demote :: "txn \<Rightarrow> bytes \<Rightarrow> bytes \<Rightarrow> bytes \<Rightarrow> lrow list \<Rightarrow> lrow list" where
  "sql_demote tx t p e rs =
     map (\<lambda>r. if sees tx (l_tenant r) \<and> of_entity t p e r \<and> l_is_head r then r\<lparr>l_is_head := False\<rparr> else r) rs"

text \<open>What the column checks of the table accept, and the encoding a text column takes.\<close>

definition row_checks :: "lrow \<Rightarrow> bool" where
  "row_checks r \<longleftrightarrow> valid_tenant (l_tenant r) \<and>
     list_all (\<lambda>s. s \<noteq> [] \<and> storable s) [l_record_id r, l_provider r, l_external_id r, l_version r, l_scope r] \<and>
     length (l_external_id r) \<le> max_external_id_bytes \<and> l_supersedes r \<noteq> Some (l_record_id r)"

text \<open>\<open>None\<close> is a refusal by the server: row-level security, a column check, the primary key or the
  unique index \<open>record_ledger_one_head\<close>.\<close>

definition sql_insert_entry :: "txn \<Rightarrow> lrow \<Rightarrow> lrow list \<Rightarrow> lrow list option" where
  "sql_insert_entry tx r rs =
     (if \<not> sees tx (l_tenant r) \<or> \<not> row_checks r then None
      else if list_ex (\<lambda>q. l_tenant q = l_tenant r \<and> l_record_id q = l_record_id r) rs then None
      else if l_is_head r \<and> list_ex (\<lambda>q. of_entity (l_tenant r) (l_provider r) (l_external_id r) q \<and> l_is_head q) rs
      then None
      else Some (rs @ [r]))"

subsection \<open>Errors and decisions\<close>

datatype pipe_error =
    ErrBadTenant tenancy_error | ErrUnknownProvider bytes | ErrNotAWebhookSource bytes
  | ErrParse bytes | ErrHydrate bytes | ErrNormalize bytes | ErrDegrade bytes | ErrSeal rec_error
  | ErrNoTransaction | ErrTxNotBoundToTenant | ErrNotSealedForTenant bytes
  | ErrExternalIDTooLong nat | ErrVersionNotComparable bytes bytes | ErrOrderNotDeclared
  | ErrScopeReturned bytes bytes | ErrMaskedTooLong bytes | ErrTooManySecrets nat
  | ErrNoToken bytes | ErrMint | ErrPipeDb

text \<open>An error that wraps \<open>ErrDeadLetter\<close>, and any other.\<close>

datatype pipe_failure = DeadLetter pipe_error | Retryable pipe_error

datatype admission = AdmitNone | AdmitPrepare | AdmitSkip | AdmitStale | AdmitScopeReturned | AdmitVersionUnordered

record ledger =
  lg_tx :: txn
  lg_tenant :: bytes
  lg_provider :: bytes
  lg_versions :: version_order

definition ledger_head :: "ledger \<Rightarrow> bytes \<Rightarrow> lrow list \<Rightarrow> lrow option" where
  "ledger_head l e rs = sql_entity_head (lg_tx l) (lg_tenant l) (lg_provider l) e rs"

definition ledger_known :: "ledger \<Rightarrow> bytes \<Rightarrow> lrow list \<Rightarrow> bool \<times> bool" where
  "ledger_known l i rs =
     (case sql_ledger_entry (lg_tx l) (lg_tenant l) i rs of None \<Rightarrow> (False, False) | Some h \<Rightarrow> (True, h))"

text \<open>Writing a new record: demote the head, insert the row that supersedes it.\<close>

definition link_record :: "ledger \<Rightarrow> lrow option \<Rightarrow> rec \<Rightarrow> lrow list
    \<Rightarrow> (rec option \<times> admission \<times> pipe_failure option) \<times> lrow list" where
  "link_record l head r rs =
     (let rs1 = (case head of None \<Rightarrow> rs
                 | Some _ \<Rightarrow> sql_demote (lg_tx l) (lg_tenant l) (lg_provider l) (rc_external_id r) rs);
          r1 = (case head of None \<Rightarrow> r | Some h \<Rightarrow> r\<lparr>rc_supersedes := l_record_id h\<rparr>) in
      case sql_insert_entry (lg_tx l)
             \<lparr>l_tenant = lg_tenant l, l_record_id = rc_id r, l_provider = lg_provider l,
              l_external_id = rc_external_id r, l_version = rc_version r,
              l_scope = vi_scope (rc_visibility r), l_supersedes = map_option l_record_id head,
              l_is_head = True\<rparr> rs1 of
        None \<Rightarrow> ((None, AdmitNone, Some (Retryable ErrPipeDb)), rs1)
      | Some rs2 \<Rightarrow> ((Some r1, AdmitPrepare, None), rs2))"

definition admit :: "ledger \<Rightarrow> rec \<Rightarrow> lrow list
    \<Rightarrow> (rec option \<times> admission \<times> pipe_failure option) \<times> lrow list" where
  "admit l r rs =
     (let head = ledger_head l (rc_external_id r) rs; (known, is_head) = ledger_known l (rc_id r) rs in
      if known then
        (case head of
           Some h \<Rightarrow>
             if \<not> is_head \<and> l_scope h \<noteq> vi_scope (rc_visibility r)
             then ((None, AdmitScopeReturned, Some (DeadLetter (ErrScopeReturned (vi_scope (rc_visibility r)) (l_scope h)))), rs)
             else ((None, AdmitSkip, None), rs)
         | None \<Rightarrow> ((None, AdmitSkip, None), rs))
      else
        (case head of
           None \<Rightarrow> link_record l None r rs
         | Some h \<Rightarrow>
             (case compare_versions (lg_versions l) (rc_version r) (l_version h) of
                None \<Rightarrow> ((None, AdmitVersionUnordered,
                          Some (DeadLetter (ErrVersionNotComparable (rc_version r) (l_version h)))), rs)
              | Some c \<Rightarrow> if c < 0 then ((None, AdmitStale, None), rs) else link_record l (Some h) r rs)))"

subsection \<open>The locks of a delivery\<close>

definition entity_ids :: "rec list \<Rightarrow> bytes list" where
  "entity_ids recs = remdups_adj (sort (map rc_external_id recs))"

definition lock_order :: "int list \<Rightarrow> int list" where
  "lock_order keys = remdups_adj (sort keys)"

text \<open>\<open>EntityLockKeys\<close>: the distinct hashes of the entities, in whatever order the server returns
  them; \<open>arrange\<close> is that order. The locks are then taken one at a time.\<close>

definition lock_plan :: "(bytes \<Rightarrow> bytes \<Rightarrow> bytes \<Rightarrow> int) \<Rightarrow> (int list \<Rightarrow> int list) \<Rightarrow> ledger \<Rightarrow> rec list \<Rightarrow> int list" where
  "lock_plan key arrange l recs =
     (let is = entity_ids recs in
      if is = [] then [] else lock_order (arrange (remdups (map (key (lg_tenant l) (lg_provider l)) is))))"

text \<open>A delivery that is taking its locks: the keys it was given, and how many it holds already. It
  waits while the next one is held by another.\<close>

record locker =
  lk_keys :: "int list"
  lk_got :: nat

definition lock_next :: "locker \<Rightarrow> int option" where
  "lock_next s = (if lk_got s < length (lock_order (lk_keys s)) then Some (lock_order (lk_keys s) ! lk_got s) else None)"

definition lock_held :: "locker \<Rightarrow> int set" where
  "lock_held s = set (take (lk_got s) (lock_order (lk_keys s)))"

definition waits_for :: "locker list \<Rightarrow> (nat \<times> nat) set" where
  "waits_for ss = {(i, j). i < length ss \<and> j < length ss \<and>
     (\<exists>k. lock_next (ss ! i) = Some k \<and> k \<in> lock_held (ss ! j))}"

lemma remdups_adj_strict: "sorted xs \<Longrightarrow> sorted_wrt (<) (remdups_adj xs)" for xs :: "'a::linorder list"
  by (induction xs rule: remdups_adj.induct) (auto simp: le_less)

lemma lock_order_set: "set (lock_order ks) = set ks" "sorted_wrt (<) (lock_order ks)"
  by (simp_all add: lock_order_def remdups_adj_strict)

lemma held_before_next:
  assumes "k \<in> lock_held s" "lock_next s = Some n"
  shows "k < n"
proof -
  let ?L = "lock_order (lk_keys s)"
  have n: "lk_got s < length ?L" "n = ?L ! lk_got s" using assms(2) by (auto simp: lock_next_def split: if_splits)
  obtain i where i: "i < lk_got s" "k = ?L ! i"
    using assms(1) by (auto simp: lock_held_def in_set_conv_nth)
  show ?thesis using sorted_wrt_nth_less [OF lock_order_set(2) i(1) n(1)] i n by simp
qed

lemma waits_for_climbs:
  "(i, j) \<in> (waits_for ss)\<^sup>+ \<Longrightarrow> lock_next (ss ! j) = Some n \<Longrightarrow> \<exists>m < n. lock_next (ss ! i) = Some m"
proof (induction arbitrary: n rule: trancl_induct)
  case (base j)
  then show ?case using held_before_next by (fastforce simp: waits_for_def)
next
  case (step j k)
  obtain m where m: "lock_next (ss ! j) = Some m" "m \<in> lock_held (ss ! k)"
    using step.hyps(2) by (auto simp: waits_for_def)
  then have "m < n" using held_before_next step.prems by blast
  then show ?case using step.IH [OF m(1)] by force
qed

text \<open>C33: Deliveries cannot deadlock on the locks of their entities. Whatever locks each of any number
  of deliveries has asked for and already holds, no chain of "waits for a lock held by" leads back
  to its start, because every one of them takes the keys of all its entities once each, in
  ascending order, whatever order the database returned them in.\<close>

theorem entity_locks_never_deadlock:
  "acyclic (waits_for ss) \<and> set (lock_order ks) = set ks \<and> sorted_wrt (<) (lock_order ks)"
proof -
  have "(i, i) \<notin> (waits_for ss)\<^sup>+" for i
  proof
    assume c: "(i, i) \<in> (waits_for ss)\<^sup>+"
    then obtain j where "(i, j) \<in> waits_for ss" by (meson tranclD)
    then obtain n where n: "lock_next (ss ! i) = Some n" by (auto simp: waits_for_def)
    then show False using waits_for_climbs [OF c n] by auto
  qed
  then show ?thesis by (simp add: acyclic_def lock_order_set)
qed

end
