(* ===== verification/Ledger_Chain.thy ===== *)
theory Ledger_Chain
  imports Ledger
begin

text \<open>
  The supersede chain of an entity: its rows, in the order they were written, each superseding the
  one before it with a version that is not older, and only the newest of them a head. \<open>admit\<close> keeps
  every chain, and what it once settled stays settled.
\<close>

definition entity_rows :: "bytes \<Rightarrow> bytes \<Rightarrow> bytes \<Rightarrow> lrow list \<Rightarrow> lrow list" where
  "entity_rows t p e rs = filter (of_entity t p e) rs"

fun chain :: "version_order \<Rightarrow> lrow option \<Rightarrow> lrow list \<Rightarrow> bool" where
  "chain o' prev [] = True"
| "chain o' prev (r # rs) =
     (l_supersedes r = map_option l_record_id prev \<and> (l_is_head r \<longleftrightarrow> rs = []) \<and>
      (case prev of None \<Rightarrow> True | Some q \<Rightarrow> ver.not_older o' (l_version r) (l_version q)) \<and>
      chain o' (Some r) rs)"

definition ledger_inv :: "(bytes \<Rightarrow> version_order) \<Rightarrow> lrow list \<Rightarrow> bool" where
  "ledger_inv ord rs \<longleftrightarrow> distinct (map (\<lambda>r. (l_tenant r, l_record_id r)) rs) \<and>
     (\<forall>t p e. chain (ord p) None (entity_rows t p e rs))"

definition newest :: "lrow option \<Rightarrow> lrow list \<Rightarrow> lrow option" where
  "newest prev rs = (if rs = [] then prev else Some (last rs))"

lemma newest_Cons: "newest prev (r # rs) = newest (Some r) rs"
  by (simp add: newest_def)

lemma chain_head: "chain o' prev rs \<Longrightarrow> find l_is_head rs = newest None rs"
  by (induction rs arbitrary: prev) (auto simp: newest_def)

lemma chain_append:
  assumes "chain o' prev rs" "l_is_head n" "l_supersedes n = map_option l_record_id (newest prev rs)"
    and "\<And>h. newest prev rs = Some h \<Longrightarrow> ver.not_older o' (l_version n) (l_version h)"
  shows "chain o' prev (map (\<lambda>r. r\<lparr>l_is_head := False\<rparr>) rs @ [n])"
  using assms
proof (induction rs arbitrary: prev)
  case Nil
  then show ?case by (simp add: newest_def split: option.split)
next
  case (Cons r rs)
  let ?r = "r\<lparr>l_is_head := False\<rparr>"
  have c: "chain o' (Some ?r) (map (\<lambda>r. r\<lparr>l_is_head := False\<rparr>) rs @ [n])"
  proof (rule Cons.IH)
    show "chain o' (Some ?r) rs" using Cons.prems(1) by (cases rs) auto
    show "l_is_head n" by (rule Cons.prems(2))
    show "l_supersedes n = map_option l_record_id (newest (Some ?r) rs)"
      using Cons.prems(3) by (auto simp: newest_def)
    show "ver.not_older o' (l_version n) (l_version h)" if h: "newest (Some ?r) rs = Some h" for h
    proof (cases rs)
      case Nil
      then show ?thesis using h Cons.prems(4) [of r] by (auto simp: newest_def)
    next
      case (Cons a list)
      then show ?thesis using h Cons.prems(4) [of h] by (simp add: newest_def)
    qed
  qed
  then show ?case using Cons.prems(1) by (simp split: option.splits)
qed

lemma chain_all_older:
  "chain o' prev rs \<Longrightarrow> newest prev rs = Some h \<Longrightarrow> prev = Some q \<Longrightarrow> h \<noteq> q \<longrightarrow> ver.not_older o' (l_version h) (l_version q)"
proof (induction rs arbitrary: prev q)
  case Nil
  then show ?case by (simp add: newest_def)
next
  case (Cons r rs)
  then have rq: "ver.not_older o' (l_version r) (l_version q)" by simp
  have "h \<noteq> r \<longrightarrow> ver.not_older o' (l_version h) (l_version r)"
    by (rule Cons.IH [of "Some r"]) (use Cons.prems in \<open>auto simp: newest_Cons\<close>)
  then show ?case using rq ver.not_older_trans by blast
qed

subsection \<open>What \<open>admit\<close> does\<close>

definition ledger_bound :: "ledger \<Rightarrow> bool" where
  "ledger_bound l \<longleftrightarrow> tx_tenant (lg_tx l) = Some (lg_tenant l)"

lemma sees_bound: "ledger_bound l \<Longrightarrow> sees (lg_tx l) t \<longleftrightarrow> t = lg_tenant l"
  by (auto simp: ledger_bound_def sees_def)

lemma head_of_entity:
  assumes "ledger_bound l" "ledger_inv ord rs"
  shows "ledger_head l e rs = newest None (entity_rows (lg_tenant l) (lg_provider l) e rs)"
proof -
  let ?E = "of_entity (lg_tenant l) (lg_provider l) e"
  have "find (\<lambda>r. sees (lg_tx l) (l_tenant r) \<and> ?E r \<and> l_is_head r) rs = find l_is_head (filter ?E rs)"
    by (induction rs) (auto simp: sees_bound [OF assms(1)] of_entity_def)
  moreover have "chain (ord (lg_provider l)) None (entity_rows (lg_tenant l) (lg_provider l) e rs)"
    using assms(2) by (simp add: ledger_inv_def)
  ultimately show ?thesis using chain_head by (simp add: ledger_head_def sql_entity_head_def entity_rows_def)
qed

definition holds_id :: "bytes \<Rightarrow> bytes \<Rightarrow> lrow list \<Rightarrow> bool" where
  "holds_id t i rs \<longleftrightarrow> (\<exists>r \<in> set rs. l_tenant r = t \<and> l_record_id r = i)"

lemma known_iff: "ledger_bound l \<Longrightarrow> fst (ledger_known l i rs) \<longleftrightarrow> holds_id (lg_tenant l) i rs"
  by (auto simp: ledger_known_def sql_ledger_entry_def holds_id_def sees_bound find_None_iff
      split: option.split dest: find_Some_iff2)

definition new_row :: "ledger \<Rightarrow> rec \<Rightarrow> lrow option \<Rightarrow> lrow" where
  "new_row l r head = \<lparr>l_tenant = lg_tenant l, l_record_id = rc_id r, l_provider = lg_provider l,
     l_external_id = rc_external_id r, l_version = rc_version r, l_scope = vi_scope (rc_visibility r),
     l_supersedes = map_option l_record_id head, l_is_head = True\<rparr>"

definition demoted :: "ledger \<Rightarrow> rec \<Rightarrow> lrow list \<Rightarrow> lrow list" where
  "demoted l r rs = map (\<lambda>q. if of_entity (lg_tenant l) (lg_provider l) (rc_external_id r) q
     then q\<lparr>l_is_head := False\<rparr> else q) rs"

text \<open>A record the columns of the ledger can take.\<close>

definition linkable :: "ledger \<Rightarrow> rec \<Rightarrow> bool" where
  "linkable l r \<longleftrightarrow> row_checks (new_row l r None)"

lemma demote_is:
  assumes "ledger_bound l" "head = None \<Longrightarrow> entity_rows (lg_tenant l) (lg_provider l) (rc_external_id r) rs = []"
  shows "(case head of None \<Rightarrow> rs
     | Some _ \<Rightarrow> sql_demote (lg_tx l) (lg_tenant l) (lg_provider l) (rc_external_id r) rs) = demoted l r rs"
proof (cases head)
  case None
  then show ?thesis using assms(2) by (auto simp: demoted_def entity_rows_def filter_empty_conv intro!: map_idI [symmetric])
next
  case (Some h)
  have "(if sees (lg_tx l) (l_tenant q) \<and> of_entity (lg_tenant l) (lg_provider l) e q \<and> l_is_head q
      then q\<lparr>l_is_head := False\<rparr> else q) =
    (if of_entity (lg_tenant l) (lg_provider l) e q then q\<lparr>l_is_head := False\<rparr> else q)" for q e
    by (auto simp: sees_bound [OF assms(1)] of_entity_def)
  then show ?thesis using Some by (simp add: sql_demote_def demoted_def)
qed

lemma newest_None: "newest None rs = None \<longleftrightarrow> rs = []"
  by (simp add: newest_def)

lemma newest_in: "newest None rs = Some h \<Longrightarrow> h \<in> set rs"
  by (auto simp: newest_def split: if_splits)

lemma link_record_ok:
  assumes "ledger_bound l" "ledger_inv ord rs" "linkable l r" "\<not> holds_id (lg_tenant l) (rc_id r) rs"
    and "head = ledger_head l (rc_external_id r) rs"
  shows "link_record l head r rs =
    ((Some (r\<lparr>rc_supersedes := (case head of None \<Rightarrow> rc_supersedes r | Some h \<Rightarrow> l_record_id h)\<rparr>), AdmitPrepare, None),
     demoted l r rs @ [new_row l r head])"
proof -
  note head = assms(5) [unfolded head_of_entity [OF assms(1,2)]]
  have d: "(case head of None \<Rightarrow> rs
     | Some _ \<Rightarrow> sql_demote (lg_tx l) (lg_tenant l) (lg_provider l) (rc_external_id r) rs) = demoted l r rs"
    by (rule demote_is [OF assms(1)]) (metis head newest_None)
  have own: "l_supersedes (new_row l r head) \<noteq> Some (rc_id r)"
  proof (cases head)
    case None
    then show ?thesis by (simp add: new_row_def)
  next
    case (Some h)
    then have "h \<in> set rs" "l_tenant h = lg_tenant l"
      using newest_in [of "entity_rows (lg_tenant l) (lg_provider l) (rc_external_id r) rs" h] head
      by (auto simp: entity_rows_def of_entity_def)
    then show ?thesis using assms(4) Some by (auto simp: holds_id_def new_row_def)
  qed
  have checks: "row_checks (new_row l r head)"
    using assms(3) own by (auto simp: linkable_def row_checks_def new_row_def)
  have "\<not> list_ex (\<lambda>q. l_tenant q = lg_tenant l \<and> l_record_id q = rc_id r) (demoted l r rs)"
    using assms(4) by (auto simp: list_ex_iff demoted_def holds_id_def split: if_splits)
  moreover have "\<not> list_ex (\<lambda>q. of_entity (lg_tenant l) (lg_provider l) (rc_external_id r) q \<and> l_is_head q) (demoted l r rs)"
    by (auto simp: list_ex_iff demoted_def of_entity_def split: if_splits)
  ultimately have "sql_insert_entry (lg_tx l) (new_row l r head) (demoted l r rs) = Some (demoted l r rs @ [new_row l r head])"
    using checks by (simp add: sql_insert_entry_def sees_bound [OF assms(1)]) (simp add: new_row_def)
  then show ?thesis
    unfolding link_record_def d Let_def new_row_def by (simp split: option.split)
qed

subsection \<open>The invariant\<close>

lemma entity_rows_demoted:
  "entity_rows t p e (demoted l r rs) =
     (if t = lg_tenant l \<and> p = lg_provider l \<and> e = rc_external_id r
      then map (\<lambda>q. q\<lparr>l_is_head := False\<rparr>) (entity_rows t p e rs) else entity_rows t p e rs)"
proof (cases "t = lg_tenant l \<and> p = lg_provider l \<and> e = rc_external_id r")
  case True
  have "filter (of_entity t' p' e') (map (\<lambda>q. if of_entity t' p' e' q then q\<lparr>l_is_head := False\<rparr> else q) rs) =
      map (\<lambda>q. q\<lparr>l_is_head := False\<rparr>) (filter (of_entity t' p' e') rs)" for t' p' e'
    by (induction rs) (simp_all add: of_entity_def)
  then show ?thesis using True by (simp add: entity_rows_def demoted_def)
next
  case False
  have "filter (of_entity t p e) (map (\<lambda>q. if of_entity t' p' e' q then q\<lparr>l_is_head := False\<rparr> else q) rs) =
      filter (of_entity t p e) rs" if "\<not> (t = t' \<and> p = p' \<and> e = e')" for t' p' e'
    by (induction rs) (use that in \<open>auto simp: of_entity_def\<close>)
  from this [OF False] show ?thesis unfolding if_not_P [OF False] entity_rows_def demoted_def .
qed

lemma demoted_keys: "map (\<lambda>q. (l_tenant q, l_record_id q)) (demoted l r rs) = map (\<lambda>q. (l_tenant q, l_record_id q)) rs"
  by (induction rs) (simp_all add: demoted_def)

lemma linked_inv:
  assumes "ledger_bound l" "ledger_inv ord rs" "lg_versions l = ord (lg_provider l)"
    and "\<not> holds_id (lg_tenant l) (rc_id r) rs" "head = ledger_head l (rc_external_id r) rs"
    and "\<And>h. head = Some h \<Longrightarrow> ver.not_older (lg_versions l) (rc_version r) (l_version h)"
  shows "ledger_inv ord (demoted l r rs @ [new_row l r head])"
proof -
  note head = assms(5) [unfolded head_of_entity [OF assms(1,2)]]
  have "distinct (map (\<lambda>q. (l_tenant q, l_record_id q)) (demoted l r rs @ [new_row l r head]))"
    using assms(2,4) demoted_keys [of l r rs] by (auto simp: ledger_inv_def holds_id_def new_row_def)
  moreover have "chain (ord p) None (entity_rows t p e (demoted l r rs @ [new_row l r head]))" for t p e
  proof (cases "t = lg_tenant l \<and> p = lg_provider l \<and> e = rc_external_id r")
    case True
    have "chain (ord p) None (map (\<lambda>q. q\<lparr>l_is_head := False\<rparr>) (entity_rows t p e rs) @ [new_row l r head])"
    proof (rule chain_append)
      show "chain (ord p) None (entity_rows t p e rs)" using assms(2) by (simp add: ledger_inv_def)
      show "l_is_head (new_row l r head)" by (simp add: new_row_def)
      show "l_supersedes (new_row l r head) = map_option l_record_id (newest None (entity_rows t p e rs))"
        using head True by (simp add: new_row_def)
      show "ver.not_older (ord p) (l_version (new_row l r head)) (l_version h)" if "newest None (entity_rows t p e rs) = Some h" for h
        using assms(3,6) head True that by (simp add: new_row_def)
    qed
    moreover have "of_entity t p e (new_row l r head)" using True by (simp add: of_entity_def new_row_def)
    ultimately show ?thesis using True entity_rows_demoted [of t p e l r rs] by (simp add: entity_rows_def)
  next
    case False
    then have "entity_rows t p e (demoted l r rs @ [new_row l r head]) = entity_rows t p e rs"
      using entity_rows_demoted [of t p e l r rs] by (auto simp: entity_rows_def of_entity_def new_row_def)
    then show ?thesis using assms(2) by (simp add: ledger_inv_def)
  qed
  ultimately show ?thesis by (simp add: ledger_inv_def)
qed

text \<open>The outcomes of \<open>admit\<close>: either nothing is written, or the record is new, not older than the
  head of its entity, and linked to it.\<close>

lemma admit_outcomes:
  assumes "ledger_bound l" "ledger_inv ord rs" "linkable l r"
  obtains (unchanged) res where "admit l r rs = ((None, res), rs)" "fst res \<noteq> AdmitPrepare"
      "(fst res = AdmitSkip \<or> fst res = AdmitStale) \<and> snd res = None \<or>
         (fst res = AdmitScopeReturned \<or> fst res = AdmitVersionUnordered) \<and> (\<exists>e. snd res = Some (DeadLetter e))"
      "snd res = None \<longrightarrow> holds_id (lg_tenant l) (rc_id r) rs \<or>
         (\<exists>h. ledger_head l (rc_external_id r) rs = Some h \<and> ver.older (lg_versions l) (rc_version r) (l_version h))"
  | (linked) head where "head = ledger_head l (rc_external_id r) rs" "\<not> holds_id (lg_tenant l) (rc_id r) rs"
      "\<And>h. head = Some h \<Longrightarrow> ver.not_older (lg_versions l) (rc_version r) (l_version h)"
      "admit l r rs = ((Some (r\<lparr>rc_supersedes := (case head of None \<Rightarrow> rc_supersedes r | Some h \<Rightarrow> l_record_id h)\<rparr>),
          AdmitPrepare, None), demoted l r rs @ [new_row l r head])"
proof -
  obtain k isH where k: "ledger_known l (rc_id r) rs = (k, isH)" by fastforce
  have kh: "k \<longleftrightarrow> holds_id (lg_tenant l) (rc_id r) rs" using known_iff [OF assms(1), of "rc_id r" rs] k by simp
  define head where "head = ledger_head l (rc_external_id r) rs"
  consider (known) "k" | (older) h where "\<not> k" "head = Some h" "ver.older (lg_versions l) (rc_version r) (l_version h)"
    | (unordered) h where "\<not> k" "head = Some h" "compare_versions (lg_versions l) (rc_version r) (l_version h) = None"
    | (new) "\<not> k" "\<And>h. head = Some h \<Longrightarrow> ver.not_older (lg_versions l) (rc_version r) (l_version h)"
    unfolding ver.older_def ver.not_older_def by (metis not_less option.exhaust)
  then show ?thesis
  proof cases
    case known
    have "\<exists>res. admit l r rs = ((None, res), rs) \<and> (fst res = AdmitSkip \<and> snd res = None \<or>
        fst res = AdmitScopeReturned \<and> (\<exists>e. snd res = Some (DeadLetter e)))"
      using known by (cases head) (auto simp: admit_def Let_def k head_def)
    then show ?thesis using known kh by (elim exE conjE) (rule unchanged, auto)
  next
    case older
    then show ?thesis
      by (intro unchanged [of "(AdmitStale, None)"]) (auto simp: admit_def Let_def k head_def kh ver.older_def)
  next
    case unordered
    then show ?thesis
      by (intro unchanged [of "(AdmitVersionUnordered, Some (DeadLetter (ErrVersionNotComparable (rc_version r) (l_version h))))"])
        (auto simp: admit_def Let_def k head_def kh)
  next
    case new
    have "admit l r rs = link_record l head r rs"
      using new by (cases head) (auto simp: admit_def Let_def k head_def [symmetric] ver.not_older_def)
    then show ?thesis
      using linked [OF head_def] new kh link_record_ok [OF assms _ head_def] by auto
  qed
qed

lemma admit_inv:
  assumes "ledger_bound l" "ledger_inv ord rs" "linkable l r" "lg_versions l = ord (lg_provider l)"
  shows "ledger_inv ord (snd (admit l r rs))"
proof (rule admit_outcomes [OF assms(1-3)])
  show ?thesis if "admit l r rs = ((None, res), rs)" for res using that assms(2) by simp
  show ?thesis if "head = ledger_head l (rc_external_id r) rs" "\<not> holds_id (lg_tenant l) (rc_id r) rs"
      "\<And>h. head = Some h \<Longrightarrow> ver.not_older (lg_versions l) (rc_version r) (l_version h)"
      "admit l r rs = ((x, y), demoted l r rs @ [new_row l r head])" for head x y
    using linked_inv [OF assms(1,2,4) that(2,1,3)] that(4) by simp
qed

subsection \<open>What is settled stays settled\<close>

text \<open>A later ledger: every record id is still there, and every entity's head is the same version or one
  that is not older.\<close>

definition ledger_le :: "(bytes \<Rightarrow> version_order) \<Rightarrow> lrow list \<Rightarrow> lrow list \<Rightarrow> bool" where
  "ledger_le ord rs rs' \<longleftrightarrow> (\<forall>t i. holds_id t i rs \<longrightarrow> holds_id t i rs') \<and>
     (\<forall>t p e h. newest None (entity_rows t p e rs) = Some h \<longrightarrow>
        (\<exists>h'. newest None (entity_rows t p e rs') = Some h' \<and>
           (l_version h' = l_version h \<or> ver.not_older (ord p) (l_version h') (l_version h))))"

lemma ledger_le_refl [simp]: "ledger_le ord rs rs"
  by (auto simp: ledger_le_def)

lemma ledger_le_trans:
  assumes "ledger_le ord a b" "ledger_le ord b c"
  shows "ledger_le ord a c"
proof -
  have "\<exists>h'. newest None (entity_rows t p e c) = Some h' \<and>
      (l_version h' = l_version h \<or> ver.not_older (ord p) (l_version h') (l_version h))"
    if n: "newest None (entity_rows t p e a) = Some h" for t p e h
  proof -
    obtain h1 where h1: "newest None (entity_rows t p e b) = Some h1"
      "l_version h1 = l_version h \<or> ver.not_older (ord p) (l_version h1) (l_version h)"
      using assms(1) n unfolding ledger_le_def by blast
    obtain h2 where "newest None (entity_rows t p e c) = Some h2"
      "l_version h2 = l_version h1 \<or> ver.not_older (ord p) (l_version h2) (l_version h1)"
      using assms(2) h1(1) unfolding ledger_le_def by blast
    then show ?thesis using h1(2) by (metis ver.not_older_trans)
  qed
  then show ?thesis using assms unfolding ledger_le_def by blast
qed

lemma holds_id_key: "holds_id t i rs \<longleftrightarrow> (t, i) \<in> set (map (\<lambda>q. (l_tenant q, l_record_id q)) rs)"
  by (auto simp: holds_id_def)

lemma holds_id_linked:
  "holds_id t i (demoted l r rs @ [new_row l r head]) \<longleftrightarrow> holds_id t i rs \<or> t = lg_tenant l \<and> i = rc_id r"
  unfolding holds_id_key map_append demoted_keys by (auto simp: new_row_def)

lemma newest_linked:
  "newest None (entity_rows t p e (demoted l r rs @ [new_row l r head])) =
     (if t = lg_tenant l \<and> p = lg_provider l \<and> e = rc_external_id r then Some (new_row l r head)
      else newest None (entity_rows t p e rs))"
proof -
  have "entity_rows t p e (demoted l r rs @ [new_row l r head]) =
      entity_rows t p e (demoted l r rs) @ (if t = lg_tenant l \<and> p = lg_provider l \<and> e = rc_external_id r then [new_row l r head] else [])"
    by (auto simp: entity_rows_def of_entity_def new_row_def)
  then show ?thesis by (simp add: entity_rows_demoted newest_def)
qed

lemma linked_advances:
  assumes "ledger_bound l" "ledger_inv ord rs" "lg_versions l = ord (lg_provider l)"
    and "head = ledger_head l (rc_external_id r) rs"
    and "\<And>h. head = Some h \<Longrightarrow> ver.not_older (lg_versions l) (rc_version r) (l_version h)"
  shows "ledger_le ord rs (demoted l r rs @ [new_row l r head])"
  using assms(3-5) unfolding ledger_le_def holds_id_linked newest_linked head_of_entity [OF assms(1,2)]
  by (auto simp: new_row_def)

lemma admit_advances:
  assumes "ledger_bound l" "ledger_inv ord rs" "linkable l r" "lg_versions l = ord (lg_provider l)"
  shows "ledger_le ord rs (snd (admit l r rs))"
proof (rule admit_outcomes [OF assms(1-3)])
  show ?thesis if "admit l r rs = ((None, res), rs)" for res using that by simp
  show ?thesis if "head = ledger_head l (rc_external_id r) rs"
      "\<And>h. head = Some h \<Longrightarrow> ver.not_older (lg_versions l) (rc_version r) (l_version h)"
      "admit l r rs = ((x, y), demoted l r rs @ [new_row l r head])" for head x y
    using linked_advances [OF assms(1,2,4) that(1,2)] that(3) by simp
qed

definition settled :: "(bytes \<Rightarrow> version_order) \<Rightarrow> bytes \<Rightarrow> bytes \<Rightarrow> rec \<Rightarrow> lrow list \<Rightarrow> bool" where
  "settled ord t p r rs \<longleftrightarrow> holds_id t (rc_id r) rs \<or>
     (\<exists>h. newest None (entity_rows t p (rc_external_id r) rs) = Some h \<and> ver.older (ord p) (rc_version r) (l_version h))"

lemma settled_later:
  assumes "settled ord t p r rs" "ledger_le ord rs rs'"
  shows "settled ord t p r rs'"
proof -
  have "\<exists>h. newest None (entity_rows t p (rc_external_id r) rs') = Some h \<and> ver.older (ord p) (rc_version r) (l_version h)"
    if n: "newest None (entity_rows t p (rc_external_id r) rs) = Some h" "ver.older (ord p) (rc_version r) (l_version h)" for h
  proof -
    obtain h' where h': "newest None (entity_rows t p (rc_external_id r) rs') = Some h'"
      "l_version h' = l_version h \<or> ver.not_older (ord p) (l_version h') (l_version h)"
      using n(1) assms(2) unfolding ledger_le_def by blast
    then show ?thesis using n(2) ver.older_before by metis
  qed
  then show ?thesis using assms unfolding settled_def ledger_le_def by blast
qed

lemma admit_settles:
  assumes "ledger_bound l" "ledger_inv ord rs" "linkable l r" "lg_versions l = ord (lg_provider l)"
    and "snd (snd (fst (admit l r rs))) = None"
  shows "settled ord (lg_tenant l) (lg_provider l) r (snd (admit l r rs))"
proof (rule admit_outcomes [OF assms(1-3)])
  show ?thesis if "admit l r rs = ((None, res), rs)"
    "snd res = None \<longrightarrow> holds_id (lg_tenant l) (rc_id r) rs \<or>
         (\<exists>h. ledger_head l (rc_external_id r) rs = Some h \<and> ver.older (lg_versions l) (rc_version r) (l_version h))" for res
    using that assms(4,5) by (auto simp: settled_def head_of_entity [OF assms(1,2)])
  show ?thesis if "admit l r rs = ((x, y), demoted l r rs @ [new_row l r head])" for head x y
    using that by (simp add: settled_def holds_id_linked)
qed

lemma settled_not_prepared:
  assumes "ledger_bound l" "ledger_inv ord rs" "linkable l r" "lg_versions l = ord (lg_provider l)"
    and "settled ord (lg_tenant l) (lg_provider l) r rs"
  shows "fst (snd (fst (admit l r rs))) \<noteq> AdmitPrepare \<and> fst (fst (admit l r rs)) = None \<and> snd (admit l r rs) = rs"
proof (rule admit_outcomes [OF assms(1-3)])
  show ?thesis if "admit l r rs = ((None, res), rs)" "fst res \<noteq> AdmitPrepare" for res using that by simp
  show ?thesis if h: "head = ledger_head l (rc_external_id r) rs" "\<not> holds_id (lg_tenant l) (rc_id r) rs"
      "\<And>h. head = Some h \<Longrightarrow> ver.not_older (lg_versions l) (rc_version r) (l_version h)" for head
  proof -
    obtain h' where "head = Some h'" "ver.older (lg_versions l) (rc_version r) (l_version h')"
      using assms(4,5) h(1,2) by (auto simp: settled_def head_of_entity [OF assms(1,2)])
    then show ?thesis using h(3) [of h'] by (auto simp: ver.older_def ver.not_older_def)
  qed
qed

end
