(* ===== verification/Mask.thy ===== *)
theory Mask
  imports Utf8
begin

text \<open>
  internal/pipeline/mask.go: finding email addresses, telephone numbers and IBANs in a text, and
  replacing them. Go's \<open>regexp\<close> is the leftmost-first matcher of the three patterns: \<open>ends\<close> lists what
  is left after a match, in the order of preference of a backtracking search, and \<open>find_all\<close> is
  \<open>FindAllStringIndex\<close>. The patterns hold ASCII classes only and match no empty text, so matching
  bytes is matching runes.
\<close>

subsection \<open>The patterns\<close>

datatype re = Cls "char \<Rightarrow> bool" | Seq re re | Alt re re | Rep nat nat re | Many re

primrec times :: "nat \<Rightarrow> (bytes \<Rightarrow> bytes list) \<Rightarrow> bytes \<Rightarrow> bytes list" where
  "times 0 f s = [s]"
| "times (Suc n) f s = concat (map (times n f) (f s))"

primrec up_to :: "nat \<Rightarrow> (bytes \<Rightarrow> bytes list) \<Rightarrow> bytes \<Rightarrow> bytes list" where
  "up_to 0 f s = [s]"
| "up_to (Suc n) f s = concat (map (up_to n f) (f s)) @ [s]"

text \<open>\<open>Rep m n\<close> is the greedy \<open>{m,n}\<close> and \<open>Many\<close> the greedy star: as no body matches the empty text, it
  repeats at most as often as there are bytes.\<close>

primrec ends :: "re \<Rightarrow> bytes \<Rightarrow> bytes list" where
  "ends (Cls P) s = (case s of [] \<Rightarrow> [] | c # t \<Rightarrow> if P c then [t] else [])"
| "ends (Seq a b) s = concat (map (ends b) (ends a s))"
| "ends (Alt a b) s = ends a s @ ends b s"
| "ends (Rep m n a) s = concat (map (up_to (n - m) (ends a)) (times m (ends a) s))"
| "ends (Many a) s = up_to (length s) (ends a) s"

fun find_from :: "nat \<Rightarrow> re \<Rightarrow> nat \<Rightarrow> bytes \<Rightarrow> (nat \<times> nat) list" where
  "find_from 0 r i s = []"
| "find_from (Suc n) r i [] = []"
| "find_from (Suc n) r i (c # s) =
     (case ends r (c # s) of
        t # _ \<Rightarrow> (let j = i + (length (c # s) - length t) in (i, j) # find_from n r j t)
      | [] \<Rightarrow> find_from n r (Suc i) s)"

definition find_all :: "re \<Rightarrow> bytes \<Rightarrow> (nat \<times> nat) list" where
  "find_all r s = find_from (length s) r 0 s"

definition is_alpha :: "char \<Rightarrow> bool" where
  "is_alpha c \<longleftrightarrow> is_lower c \<or> is_upper c"

definition is_alnum :: "char \<Rightarrow> bool" where
  "is_alnum c \<longleftrightarrow> is_digit c \<or> is_lower c \<or> is_upper c"

definition one :: "char \<Rightarrow> re" where
  "one x = Cls (\<lambda>c. c = x)"

definition any_of :: "bytes \<Rightarrow> re" where
  "any_of xs = Cls (\<lambda>c. c \<in> set xs)"

definition opt :: "re \<Rightarrow> re" where
  "opt r = Rep 0 1 r"

definition plus1 :: "re \<Rightarrow> re" where
  "plus1 r = Seq r (Many r)"

definition email_re :: re where
  "email_re =
     Seq (plus1 (Cls (\<lambda>c. is_alnum c \<or> c \<in> set ''._%+-'')))
    (Seq (one (CHR ''@''))
    (Seq (plus1 (Seq (Cls is_alnum)
                (Seq (opt (Seq (Many (Cls (\<lambda>c. is_alnum c \<or> c = CHR ''-''))) (Cls is_alnum)))
                     (one (CHR ''.'')))))
         (Rep 2 24 (Cls is_alpha))))"

definition digits :: "nat \<Rightarrow> nat \<Rightarrow> re" where
  "digits m n = Rep m n (Cls is_digit)"

definition phone_re :: re where
  "phone_re = Alt
     (Seq (one (CHR ''+''))
     (Seq (Cls (\<lambda>c. is_digit c \<and> c \<noteq> CHR ''0''))
     (Seq (digits 0 3)
          (Rep 2 5 (Seq (Rep 0 2 (any_of '' .()-'')) (digits 2 4))))))
     (Seq (opt (one (CHR ''('')))
     (Seq (digits 3 4)
     (Seq (opt (one (CHR '')'')))
     (Seq (any_of '' .-'')
     (Seq (digits 3 4)
     (Seq (any_of '' .-'')
     (Seq (digits 3 4)
          (opt (Seq (any_of '' .-'') (digits 2 4))))))))))"

definition iban_char :: "char \<Rightarrow> bool" where
  "iban_char c \<longleftrightarrow> is_upper c \<or> is_digit c"

definition iban_re :: re where
  "iban_re = Alt
     (Seq (Rep 2 2 (Cls is_upper))
     (Seq (digits 2 2)
     (Seq (Rep 2 7 (Seq (one (CHR '' '')) (Rep 4 4 (Cls iban_char))))
          (opt (Seq (one (CHR '' '')) (Rep 1 3 (Cls iban_char)))))))
     (Seq (Rep 2 2 (Cls is_upper))
     (Seq (digits 2 2) (Rep 11 30 (Cls iban_char))))"

subsection \<open>The checks on a candidate\<close>

definition bounded_by :: "bytes \<Rightarrow> nat \<Rightarrow> nat \<Rightarrow> bool" where
  "bounded_by s start stop \<longleftrightarrow>
     (start > 0 \<longrightarrow> (let c = s ! (start - 1) in \<not> (is_alnum c \<or> c \<in> set ''/@_+.-''))) \<and>
     (stop < length s \<longrightarrow>
        (let c = s ! stop in
         \<not> (is_alnum c \<or> c \<in> set ''/@_'') \<and>
         \<not> ((c = CHR ''.'' \<or> c = CHR ''-'') \<and> Suc stop < length s \<and> is_digit (s ! Suc stop))))"

function digit_groups :: "bytes \<Rightarrow> bytes list" where
  "digit_groups [] = []"
| "digit_groups (c # s) =
     (if \<not> is_digit c then digit_groups s
      else takeWhile is_digit (c # s) # digit_groups (dropWhile is_digit (c # s)))"
  by pat_completeness auto
termination
  by (relation "measure length") (auto simp: le_imp_less_Suc length_dropWhile_le)

definition looks_like_a_year :: "bytes \<Rightarrow> bool" where
  "looks_like_a_year g \<longleftrightarrow> length g = 4 \<and> (has_prefix g ''19'' \<or> has_prefix g ''20'')"

definition valid_phone :: "bytes \<Rightarrow> bool" where
  "valid_phone s =
     (let groups = digit_groups s; n = sum_list (map length groups) in
      if has_prefix s ''+'' then n \<ge> 8 \<and> n \<le> 15
      else n \<ge> 9 \<and> n \<le> 15 \<and> length groups = 3 \<and> list_ex (\<lambda>g. length g = 4) groups \<and>
           \<not> looks_like_a_year (hd groups))"

text \<open>The loop of \<open>validIBAN\<close>, with the remainder so far; \<open>None\<close> where it meets another character.\<close>

fun iban_rem :: "nat \<Rightarrow> bytes \<Rightarrow> nat option" where
  "iban_rem m [] = Some m"
| "iban_rem m (c # s) =
     (if is_digit c then iban_rem ((m * 10 + (ord_of c - 48)) mod 97) s
      else if is_upper c then iban_rem ((m * 100 + (ord_of c - 65) + 10) mod 97) s
      else None)"

definition valid_iban :: "bytes \<Rightarrow> bool" where
  "valid_iban s =
     (let compact = filter (\<lambda>c. c \<noteq> CHR '' '') s in
      if length compact < 15 \<or> length compact > 34 then False
      else iban_rem 0 (drop 4 compact @ take 4 compact) = Some 1)"

subsection \<open>Finding\<close>

datatype secret_kind = Email | Phone | Iban

type_synonym secret = "secret_kind \<times> bytes"

record span =
  sp_start :: nat
  sp_end :: nat
  sp_secret :: secret

abbreviation max_secret_bytes :: nat where "max_secret_bytes \<equiv> 512"

definition slice :: "bytes \<Rightarrow> nat \<Rightarrow> nat \<Rightarrow> bytes" where
  "slice s i j = take (j - i) (drop i s)"

definition append_matches ::
  "bytes \<Rightarrow> re \<Rightarrow> secret_kind \<Rightarrow> (bytes \<Rightarrow> bool) \<Rightarrow> bool \<Rightarrow> span list" where
  "append_matches s r k ok bnd =
     map (\<lambda>(i, j). \<lparr>sp_start = i, sp_end = j, sp_secret = (k, slice s i j)\<rparr>)
       (filter (\<lambda>(i, j). length (slice s i j) \<le> max_secret_bytes \<and> (\<not> bnd \<or> bounded_by s i j) \<and> ok (slice s i j))
         (find_all r s))"

fun keep_first :: "nat \<Rightarrow> span list \<Rightarrow> span list" where
  "keep_first e [] = []"
| "keep_first e (s # ss) = (if sp_start s < e then keep_first e ss else s # keep_first (sp_end s) ss)"

definition find_secrets :: "bytes \<Rightarrow> span list" where
  "find_secrets s = keep_first 0 (sort_key sp_start
     (append_matches s email_re Email (\<lambda>_. True) False @
      append_matches s iban_re Iban valid_iban True @
      append_matches s phone_re Phone valid_phone True))"

text \<open>\<open>secrets\<close>: the distinct values, in the order they first appear.\<close>

fun first_seen :: "'a list \<Rightarrow> 'a list \<Rightarrow> 'a list" where
  "first_seen seen [] = []"
| "first_seen seen (x # xs) = (if x \<in> set seen then first_seen seen xs else x # first_seen (x # seen) xs)"

definition secrets :: "span list \<Rightarrow> secret list" where
  "secrets ss = first_seen [] (map sp_secret ss)"

subsection \<open>Replacing\<close>

datatype mask_error = MissingToken bytes | MaskedTooLong bytes

text \<open>The loop of \<open>apply\<close>; \<open>None\<close> is a value with no token.\<close>

fun replaced :: "bytes \<Rightarrow> (secret \<Rightarrow> bytes option) \<Rightarrow> nat \<Rightarrow> span list \<Rightarrow> bytes option" where
  "replaced s tokens at [] = Some (drop at s)"
| "replaced s tokens at (sp # ss) =
     (case tokens (sp_secret sp) of
        None \<Rightarrow> None
      | Some t \<Rightarrow> if t = [] then None
                  else map_option (\<lambda>rest. slice s at (sp_start sp) @ t @ rest) (replaced s tokens (sp_end sp) ss))"

definition apply_tokens :: "bytes \<Rightarrow> bytes \<Rightarrow> span list \<Rightarrow> (secret \<Rightarrow> bytes option) \<Rightarrow> nat \<Rightarrow> mask_error + bytes" where
  "apply_tokens field s ss tokens max_chars =
     (if ss = [] then Inr s
      else (case replaced s tokens 0 ss of
              None \<Rightarrow> Inl (MissingToken field)
            | Some out \<Rightarrow> if rune_count out > max_chars then Inl (MaskedTooLong field) else Inr out))"

end
