(* ===== verification/Mask_Facts.thy ===== *)
theory Mask_Facts
  imports Mask "HOL-Library.Sublist"
begin

text \<open>What the masker finds and what it leaves: the findings lie in the text in order without
  overlap, nothing else of the text changes, and the IBAN check is the standard's.\<close>

subsection \<open>The check digits of an IBAN\<close>

text \<open>The number ISO 7064 takes the remainder of: a digit stands for itself, a letter for two digits.\<close>

fun iban_number :: "nat \<Rightarrow> bytes \<Rightarrow> nat" where
  "iban_number n [] = n"
| "iban_number n (c # s) =
     iban_number (if is_digit c then n * 10 + (ord_of c - 48) else n * 100 + (10 + (ord_of c - 65))) s"

lemma iban_rem_number:
  "iban_rem (n mod 97) s = (if list_all iban_char s then Some (iban_number n s mod 97) else None)"
proof (induction s arbitrary: n)
  case Nil
  then show ?case by simp
next
  case (Cons c s)
  have cut: "(m mod 97 * b + k) mod 97 = (m * b + k) mod 97" for m b k :: nat
    by (rule mod_add_cong) (simp_all add: mod_mult_left_eq)
  have "(n mod 97 * 100 + k + 10) mod 97 = (n * 100 + (10 + k)) mod 97" for k
    using cut [of n 100 "10 + k"] by (simp only: add.assoc add.commute [of k 10])
  moreover note cut [of n 10]
  ultimately have eq: "iban_rem (n mod 97) (c # s) =
      (if is_digit c then iban_rem ((n * 10 + (ord_of c - 48)) mod 97) s
       else if is_upper c then iban_rem ((n * 100 + (10 + (ord_of c - 65))) mod 97) s else None)"
    by (simp only: iban_rem.simps)
  show ?case
    unfolding eq Cons [of "n * 10 + (ord_of c - 48)"] Cons [of "n * 100 + (10 + (ord_of c - 65))"]
    by (cases "is_digit c"; cases "is_upper c") (simp_all add: iban_char_def [of c])
qed

text \<open>The loop of \<open>validIBAN\<close>, which keeps a remainder and never the number, decides the check of
  ISO 7064 as the standard states it: between 15 and 34 capital letters and digits without the
  spaces, which, rotated by four and read as one number with a letter as two digits, leave 1 modulo
  97.\<close>

theorem iban_check_is_mod_97:
  "valid_iban s \<longleftrightarrow>
     (let c = filter (\<lambda>x. x \<noteq> CHR '' '') s in
      15 \<le> length c \<and> length c \<le> 34 \<and> list_all iban_char c \<and>
      iban_number 0 (drop 4 c @ take 4 c) mod 97 = 1)"
proof -
  have "list_all iban_char (drop 4 c @ take 4 c) \<longleftrightarrow> list_all iban_char c" for c
    by (metis append_take_drop_id list_all_append conj_commute)
  then show ?thesis
    using iban_rem_number [of 0] by (auto simp: valid_iban_def Let_def)
qed

subsection \<open>Matches eat text\<close>

lemma times_suffix: "(\<And>s t. t \<in> set (f s) \<Longrightarrow> suffix t s) \<Longrightarrow> t \<in> set (times n f s) \<Longrightarrow> suffix t s"
  by (induction n arbitrary: s) (auto intro: suffix_order.trans)

lemma up_to_suffix: "(\<And>s t. t \<in> set (f s) \<Longrightarrow> suffix t s) \<Longrightarrow> t \<in> set (up_to n f s) \<Longrightarrow> suffix t s"
  by (induction n arbitrary: s) (auto intro: suffix_order.trans)

lemma ends_suffix: "t \<in> set (ends r s) \<Longrightarrow> suffix t s"
proof (induction r arbitrary: s t)
  case (Cls P)
  then show ?case by (auto split: list.splits if_splits simp: suffix_Cons)
next
  case (Seq a b)
  then show ?case by (fastforce intro: suffix_order.trans)
next
  case (Rep m n a)
  then obtain u where u: "u \<in> set (times m (ends a) s)" "t \<in> set (up_to (n - m) (ends a) u)" by auto
  have "suffix u s" by (rule times_suffix [OF Rep.IH u(1)])
  moreover have "suffix t u" by (rule up_to_suffix [OF Rep.IH u(2)])
  ultimately show ?case by (rule suffix_order.trans [rotated])
next
  case (Many a)
  show ?case by (rule up_to_suffix [OF Many.IH]) (use Many.prems in simp_all)
qed auto

text \<open>A pattern that matches no empty text.\<close>

primrec eats :: "re \<Rightarrow> bool" where
  "eats (Cls P) = True"
| "eats (Seq a b) = (eats a \<or> eats b)"
| "eats (Alt a b) = (eats a \<and> eats b)"
| "eats (Rep m n a) = (0 < m \<and> eats a)"
| "eats (Many a) = False"

lemma ends_shorter: "eats r \<Longrightarrow> t \<in> set (ends r s) \<Longrightarrow> length t < length s"
proof (induction r arbitrary: s t)
  case (Cls P)
  then show ?case by (auto split: list.splits if_splits)
next
  case (Seq a b)
  then obtain u where u: "u \<in> set (ends a s)" "t \<in> set (ends b u)" by auto
  have "length u \<le> length s" "length t \<le> length u" using u ends_suffix suffix_length_le by blast+
  then show ?case using Seq u by fastforce
next
  case (Rep m n a)
  then obtain u where u: "u \<in> set (times m (ends a) s)" "t \<in> set (up_to (n - m) (ends a) u)" by auto
  obtain k where k: "m = Suc k" using Rep.prems(1) by (cases m) auto
  then obtain v where v: "v \<in> set (ends a s)" "u \<in> set (times k (ends a) v)" using u(1) by auto
  have "length v < length s" using Rep.IH Rep.prems(1) v(1) by simp
  moreover have "length u \<le> length v" by (rule suffix_length_le, rule times_suffix [OF ends_suffix v(2)])
  moreover have "length t \<le> length u" by (rule suffix_length_le, rule up_to_suffix [OF ends_suffix u(2)])
  ultimately show ?case by linarith
qed auto

lemma patterns_eat: "eats email_re" "eats phone_re" "eats iban_re"
  by (simp_all add: email_re_def phone_re_def iban_re_def one_def plus1_def digits_def any_of_def)

lemma find_from_spans:
  assumes "eats r"
  shows "list_all (\<lambda>(a, b). i \<le> a \<and> a < b \<and> b \<le> i + length s) (find_from n r i s)"
  using assms
proof (induction n r i s rule: find_from.induct)
  case (3 n r i c s)
  then show ?case
  proof (cases "ends r (c # s)")
    case Nil
    then show ?thesis using 3(1) [OF Nil 3(3)] by (auto simp: list_all_iff)
  next
    case (Cons t ts)
    have "t \<in> set (ends r (c # s))" unfolding Cons by simp
    then have t: "length t < length (c # s)" by (rule ends_shorter [OF 3(3)])
    have "list_all (\<lambda>(a, b). i + (length (c # s) - length t) \<le> a \<and> a < b \<and> b \<le> i + (length (c # s) - length t) + length t)
        (find_from n r (i + (length (c # s) - length t)) t)"
      using 3(2) [OF Cons refl 3(3)] by simp
    then show ?thesis using Cons t by (auto simp: list_all_iff Let_def)
  qed
qed auto

subsection \<open>The findings\<close>

definition candidates :: "bytes \<Rightarrow> span list" where
  "candidates s = sort_key sp_start
     (append_matches s email_re Email (\<lambda>_. True) False @
      append_matches s iban_re Iban valid_iban True @
      append_matches s phone_re Phone valid_phone True)"

text \<open>A finding is a stretch of the text, short enough to be stored, and passes its kind's check.\<close>

definition span_ok :: "bytes \<Rightarrow> span \<Rightarrow> bool" where
  "span_ok s sp \<longleftrightarrow> sp_start sp < sp_end sp \<and> sp_end sp \<le> length s \<and>
     snd (sp_secret sp) = slice s (sp_start sp) (sp_end sp) \<and> length (snd (sp_secret sp)) \<le> max_secret_bytes \<and>
     (fst (sp_secret sp) = Iban \<longrightarrow> valid_iban (snd (sp_secret sp))) \<and>
     (fst (sp_secret sp) = Phone \<longrightarrow> valid_phone (snd (sp_secret sp))) \<and>
     (fst (sp_secret sp) \<noteq> Email \<longrightarrow> bounded_by s (sp_start sp) (sp_end sp))"

lemma append_matches_ok:
  assumes "eats r" "k = Iban \<Longrightarrow> ok = valid_iban" "k = Phone \<Longrightarrow> ok = valid_phone" "k \<noteq> Email \<Longrightarrow> bnd"
  shows "sp \<in> set (append_matches s r k ok bnd) \<Longrightarrow> span_ok s sp"
  using find_from_spans [OF assms(1), of 0 s "length s"] assms(2-4)
  by (auto simp: append_matches_def find_all_def span_ok_def list_all_iff dest: bspec)

lemma candidates_ok: "list_all (span_ok s) (candidates s) \<and> sorted (map sp_start (candidates s))"
  by (auto simp: candidates_def list_all_iff patterns_eat dest: append_matches_ok [rotated -1])

text \<open>The kept findings lie in order from a position on, without overlap.\<close>

fun spans_from :: "nat \<Rightarrow> span list \<Rightarrow> bool" where
  "spans_from at [] = True"
| "spans_from at (sp # ss) = (at \<le> sp_start sp \<and> spans_from (sp_end sp) ss)"

lemma keep_first_spans: "spans_from e (keep_first e ss)"
  by (induction e ss rule: keep_first.induct) auto

lemma keep_first_set: "set (keep_first e ss) \<subseteq> set ss"
  by (induction e ss rule: keep_first.induct) auto

text \<open>What is dropped starts inside something that is kept.\<close>

lemma keep_first_covers:
  "sorted (map sp_start ss) \<Longrightarrow> c \<in> set ss \<Longrightarrow>
   sp_start c < e \<or> (\<exists>k \<in> set (keep_first e ss). c = k \<or> sp_start k \<le> sp_start c \<and> sp_start c < sp_end k)"
proof (induction e ss rule: keep_first.induct)
  case (2 e s ss)
  show ?case
  proof (cases "sp_start s < e")
    case True
    then show ?thesis using 2 by auto
  next
    case False
    then show ?thesis using 2 by fastforce
  qed
qed simp

text \<open>What the masker finds. The findings are stretches of the text in order, none overlapping
  another, each at most 512 bytes; a finding called an IBAN or a telephone number passes its check
  and stands on its own; and nothing the patterns recognise is passed over: every other candidate
  begins inside a finding that is replaced.\<close>

theorem findings_cover_the_candidates:
  "list_all (span_ok s) (find_secrets s) \<and> spans_from 0 (find_secrets s) \<and>
   list_all (\<lambda>c. list_ex (\<lambda>k. c = k \<or> sp_start k \<le> sp_start c \<and> sp_start c < sp_end k) (find_secrets s)) (candidates s)"
proof (intro conjI)
  have f: "find_secrets s = keep_first 0 (candidates s)" by (simp add: find_secrets_def candidates_def)
  show "list_all (span_ok s) (find_secrets s)"
    using candidates_ok [of s] keep_first_set [of 0 "candidates s"] unfolding f list_all_iff by blast
  show "spans_from 0 (find_secrets s)" unfolding f by (rule keep_first_spans)
  show "list_all (\<lambda>c. list_ex (\<lambda>k. c = k \<or> sp_start k \<le> sp_start c \<and> sp_start c < sp_end k) (find_secrets s)) (candidates s)"
    using keep_first_covers [of "candidates s" _ 0] candidates_ok [of s] unfolding f list_all_iff list_ex_iff by auto
qed

subsection \<open>The masked text\<close>

fun weave :: "bytes list \<Rightarrow> bytes list \<Rightarrow> bytes" where
  "weave (g # gs) (v # vs) = g @ v @ weave gs vs"
| "weave gs vs = concat gs @ concat vs"

fun gaps :: "bytes \<Rightarrow> nat \<Rightarrow> span list \<Rightarrow> bytes list" where
  "gaps s at [] = [drop at s]"
| "gaps s at (sp # ss) = slice s at (sp_start sp) # gaps s (sp_end sp) ss"

lemma slice_drop: "i \<le> j \<Longrightarrow> slice s i j @ drop j s = drop i s"
  by (simp add: slice_def) (metis add.commute append_take_drop_id drop_drop le_add_diff_inverse2)

lemma gaps_weave:
  "list_all (span_ok s) ss \<Longrightarrow> spans_from at ss \<Longrightarrow> weave (gaps s at ss) (map (\<lambda>sp. snd (sp_secret sp)) ss) = drop at s"
proof (induction ss arbitrary: at)
  case Nil
  then show ?case by simp
next
  case (Cons sp ss)
  then have "weave (gaps s (sp_end sp) ss) (map (\<lambda>sp. snd (sp_secret sp)) ss) = drop (sp_end sp) s" by simp
  then show ?case using Cons.prems by (simp add: span_ok_def slice_drop)
qed

lemma replaced_weave:
  "replaced s tokens at ss = Some out \<longleftrightarrow>
     list_all (\<lambda>sp. \<exists>t. tokens (sp_secret sp) = Some t \<and> t \<noteq> []) ss \<and>
     out = weave (gaps s at ss) (map (the \<circ> tokens \<circ> sp_secret) ss)"
  by (induction ss arbitrary: at out) (auto split: option.split)

lemma gaps_length: "length (gaps s at ss) = Suc (length ss)"
  by (induction ss arbitrary: at) auto

lemma find_secrets_ok: "list_all (span_ok s) (find_secrets s)" "spans_from 0 (find_secrets s)"
  using candidates_ok [of s] keep_first_set [of 0 "candidates s"] keep_first_spans [of 0 "candidates s"]
  by (auto simp: find_secrets_def candidates_def list_all_iff)

text \<open>Masking replaces exactly the findings. The text is what lies between the findings with the
  values in between, and the masked text is the same pieces with the tokens in their place, each of
  them present and not empty; it is within the limit of its field, and no value was left for want of
  a token.\<close>

theorem masking_replaces_exactly_the_findings:
  assumes "apply_tokens f s (find_secrets s) tokens m = Inr out" and "rune_count s \<le> m"
  shows "\<exists>gs. length gs = Suc (length (find_secrets s)) \<and>
    s = weave gs (map (\<lambda>sp. snd (sp_secret sp)) (find_secrets s)) \<and>
    out = weave gs (map (\<lambda>sp. the (tokens (sp_secret sp))) (find_secrets s)) \<and>
    list_all (\<lambda>sp. \<exists>t. tokens (sp_secret sp) = Some t \<and> t \<noteq> []) (find_secrets s) \<and> rune_count out \<le> m"
proof (intro exI conjI)
  let ?ss = "find_secrets s"
  show "length (gaps s 0 ?ss) = Suc (length ?ss)" by (rule gaps_length)
  show "s = weave (gaps s 0 ?ss) (map (\<lambda>sp. snd (sp_secret sp)) ?ss)"
    using gaps_weave [OF find_secrets_ok] by simp
  have r: "replaced s tokens 0 ?ss = Some out"
    using assms(1) by (auto simp: apply_tokens_def split: if_splits option.splits)
  show "out = weave (gaps s 0 ?ss) (map (\<lambda>sp. the (tokens (sp_secret sp))) ?ss)"
    "list_all (\<lambda>sp. \<exists>t. tokens (sp_secret sp) = Some t \<and> t \<noteq> []) ?ss"
    using r unfolding replaced_weave by (simp_all add: comp_def)
  show "rune_count out \<le> m"
    using assms by (auto simp: apply_tokens_def split: if_splits option.splits)
qed

lemma ex_find: "find_secrets ''a@b.co'' = [\<lparr>sp_start = 0, sp_end = 6, sp_secret = (Email, ''a@b.co'')\<rparr>]"
  by code_simp

lemma ex_apply: "apply_tokens ''title'' ''a@b.co'' (find_secrets ''a@b.co'') (\<lambda>_. Some ''[email:1]'') 500 = Inr ''[email:1]''"
  "rune_count ''a@b.co'' \<le> 500"
  by code_simp+

theorem masking_replaces_exactly_the_findings_witness:
  "\<exists>gs. length gs = 2 \<and> ''a@b.co'' = weave gs [''a@b.co''] \<and> ''[email:1]'' = weave gs [''[email:1]'']"
proof -
  obtain gs where gs: "length gs = Suc (length (find_secrets ''a@b.co''))"
    "''a@b.co'' = weave gs (map (\<lambda>sp. snd (sp_secret sp)) (find_secrets ''a@b.co''))"
    "''[email:1]'' = weave gs (map (\<lambda>sp. the (Some ''[email:1]'')) (find_secrets ''a@b.co''))"
    using masking_replaces_exactly_the_findings [OF ex_apply] by blast
  show ?thesis by (rule exI [of _ gs]) (use gs in \<open>simp add: ex_find\<close>)
qed

end
