(* ===== verification/Redact.thy ===== *)
theory Redact
  imports Mask_Facts Ledger Record_Decode
begin

text \<open>
  internal/pipeline/redact.go over the table \<open>redaction_map\<close> (migration 00004): the token that stands
  for a value within a tenant, and the masking of the records of one delivery. \<open>last_seen_at\<close>, which no
  statement reads, is left out. The entropy of a token is an argument: \<open>mint i\<close> is the i-th
  unpredictable ULID of the call, \<open>None\<close> when the source fails.
\<close>

record redaction =
  rd_tenant :: bytes
  rd_token :: bytes
  rd_secret :: secret

abbreviation max_secrets_per_delivery :: nat where "max_secrets_per_delivery \<equiv> 1024"

fun kind_text :: "secret_kind \<Rightarrow> bytes" where
  "kind_text Email = ''email''"
| "kind_text Phone = ''phone''"
| "kind_text Iban = ''iban''"

definition red_lookup :: "redaction list \<Rightarrow> bytes \<Rightarrow> secret \<Rightarrow> bytes option" where
  "red_lookup tbl t s = map_option rd_token (find (\<lambda>r. rd_tenant r = t \<and> rd_secret r = s) tbl)"

definition red_checks :: "bytes \<Rightarrow> secret \<Rightarrow> bool" where
  "red_checks tok s \<longleftrightarrow> tok \<noteq> [] \<and> storable tok \<and> snd s \<noteq> [] \<and> length (snd s) \<le> 512 \<and> storable (snd s)"

text \<open>\<open>UpsertRedactions\<close>, one proposed row after the other; \<open>None\<close> is a refusal by the server.\<close>

fun upsert_each :: "bytes \<Rightarrow> (bytes \<times> secret) list \<Rightarrow> redaction list \<Rightarrow> ((secret \<times> bytes) list \<times> redaction list) option" where
  "upsert_each t [] tbl = Some ([], tbl)"
| "upsert_each t ((tok, s) # xs) tbl =
     (if \<not> red_checks tok s then None
      else case red_lookup tbl t s of
        Some old \<Rightarrow> map_option (\<lambda>(out, tb). ((s, old) # out, tb)) (upsert_each t xs tbl)
      | None \<Rightarrow>
          if list_ex (\<lambda>r. rd_tenant r = t \<and> rd_token r = tok) tbl then None
          else map_option (\<lambda>(out, tb). ((s, tok) # out, tb))
                 (upsert_each t xs (tbl @ [\<lparr>rd_tenant = t, rd_token = tok, rd_secret = s\<rparr>])))"

definition sql_upsert_redactions ::
  "txn \<Rightarrow> bytes \<Rightarrow> (bytes \<times> secret) list \<Rightarrow> redaction list \<Rightarrow> ((secret \<times> bytes) list \<times> redaction list) option" where
  "sql_upsert_redactions tx t xs tbl =
     (if \<not> sees tx t \<or> \<not> valid_tenant t \<or> \<not> distinct (map snd xs) then None else upsert_each t xs tbl)"

definition token :: "secret_kind \<Rightarrow> bytes \<Rightarrow> bytes" where
  "token k i = ''['' @ kind_text k @ '':'' @ i @ '']''"

fun mint_tokens :: "(nat \<Rightarrow> bytes option) \<Rightarrow> nat \<Rightarrow> secret list \<Rightarrow> (bytes \<times> secret) list option" where
  "mint_tokens mint n [] = Some []"
| "mint_tokens mint n (s # ss) =
     (case mint n of
        None \<Rightarrow> None
      | Some i \<Rightarrow> map_option (\<lambda>xs. (token (fst s) i, s) # xs) (mint_tokens mint (Suc n) ss))"

definition map_secrets ::
  "(nat \<Rightarrow> bytes option) \<Rightarrow> txn \<Rightarrow> bytes \<Rightarrow> secret list \<Rightarrow> redaction list
   \<Rightarrow> pipe_error + (secret \<Rightarrow> bytes option) \<times> redaction list" where
  "map_secrets mint tx t ss tbl =
     (if ss = [] then Inr (\<lambda>_. None, tbl)
      else (case mint_tokens mint 0 ss of
              None \<Rightarrow> Inl ErrMint
            | Some xs \<Rightarrow>
                (case sql_upsert_redactions tx t xs tbl of
                   None \<Rightarrow> Inl ErrPipeDb
                 | Some (out, tbl') \<Rightarrow>
                     if length (remdups (map fst out)) \<noteq> length ss then Inl ErrPipeDb
                     else Inr (map_of out, tbl'))))"

definition record_secrets :: "rec \<Rightarrow> secret list" where
  "record_secrets r = secrets (find_secrets (rc_title r)) @ secrets (find_secrets (rc_text r))"

fun mask_failure :: "mask_error \<Rightarrow> pipe_error" where
  "mask_failure (MissingToken f) = ErrNoToken f"
| "mask_failure (MaskedTooLong f) = ErrMaskedTooLong f"

definition mask_record :: "(secret \<Rightarrow> bytes option) \<Rightarrow> rec \<Rightarrow> pipe_error + rec" where
  "mask_record tokens r =
     bind_res (map_err mask_failure (apply_tokens ''title'' (rc_title r) (find_secrets (rc_title r)) tokens max_title))
       (\<lambda>ti. bind_res (map_err mask_failure (apply_tokens ''text'' (rc_text r) (find_secrets (rc_text r)) tokens max_text))
         (\<lambda>te. Inr (r\<lparr>rc_title := ti, rc_text := te\<rparr>)))"

fun mask_each :: "(secret \<Rightarrow> bytes option) \<Rightarrow> rec list \<Rightarrow> pipe_error + rec list" where
  "mask_each tokens [] = Inr []"
| "mask_each tokens (r # rs) = bind_res (mask_record tokens r) (\<lambda>q. bind_res (mask_each tokens rs) (\<lambda>qs. Inr (q # qs)))"

definition mask_records ::
  "(nat \<Rightarrow> bytes option) \<Rightarrow> txn \<Rightarrow> bytes \<Rightarrow> rec list \<Rightarrow> redaction list \<Rightarrow> pipe_error + rec list \<times> redaction list" where
  "mask_records mint tx t recs tbl =
     (let wanted = first_seen [] (concat (map record_secrets recs)) in
      if length wanted > max_secrets_per_delivery then Inl (ErrTooManySecrets (length wanted))
      else bind_res (map_secrets mint tx t wanted tbl)
        (\<lambda>(tokens, tbl'). bind_res (mask_each tokens recs) (\<lambda>qs. Inr (qs, tbl'))))"

subsection \<open>One token for one value\<close>

definition red_inv :: "redaction list \<Rightarrow> bool" where
  "red_inv tbl \<longleftrightarrow> distinct (map (\<lambda>r. (rd_tenant r, rd_secret r)) tbl) \<and> distinct (map (\<lambda>r. (rd_tenant r, rd_token r)) tbl)"

lemma red_lookup_append:
  "red_lookup (tbl @ [r]) t s =
     (case red_lookup tbl t s of Some k \<Rightarrow> Some k
      | None \<Rightarrow> if rd_tenant r = t \<and> rd_secret r = s then Some (rd_token r) else None)"
  by (induction tbl) (auto simp: red_lookup_def)

lemma red_lookup_None: "red_lookup tbl t s = None \<longleftrightarrow> (\<forall>r \<in> set tbl. \<not> (rd_tenant r = t \<and> rd_secret r = s))"
  by (auto simp: red_lookup_def find_None_iff)

definition red_extends :: "bytes \<Rightarrow> redaction list \<Rightarrow> redaction list \<Rightarrow> bool" where
  "red_extends t tbl tbl' \<longleftrightarrow> (\<exists>new. tbl' = tbl @ new \<and> list_all (\<lambda>r. rd_tenant r = t) new) \<and>
     (\<forall>t' s k. red_lookup tbl t' s = Some k \<longrightarrow> red_lookup tbl' t' s = Some k) \<and> (red_inv tbl \<longrightarrow> red_inv tbl')"

lemma red_extends_refl [simp]: "red_extends t tbl tbl"
  by (simp add: red_extends_def)

lemma red_extends_trans: "red_extends t a b \<Longrightarrow> red_extends t b c \<Longrightarrow> red_extends t a c"
  unfolding red_extends_def by (elim conjE exE, intro conjI) (auto simp: list_all_append)

lemma red_extends_lookup: "red_extends t a b \<Longrightarrow> red_lookup a t' s = Some k \<Longrightarrow> red_lookup b t' s = Some k"
  unfolding red_extends_def by blast

lemma upsert_each_spec:
  "upsert_each t xs tbl = Some (out, tbl') \<Longrightarrow>
   map fst out = map snd xs \<and> (\<forall>(s, k) \<in> set out. red_lookup tbl' t s = Some k) \<and> red_extends t tbl tbl'"
proof (induction t xs tbl arbitrary: out rule: upsert_each.induct)
  case (1 t tbl)
  then show ?case by simp
next
  case (2 t tok s xs tbl)
  show ?case
  proof (cases "red_lookup tbl t s")
    case None
    let ?r = "\<lparr>rd_tenant = t, rd_token = tok, rd_secret = s\<rparr>"
    obtain o1 where o1: "upsert_each t xs (tbl @ [?r]) = Some (o1, tbl')" "out = (s, tok) # o1"
      "\<not> list_ex (\<lambda>r. rd_tenant r = t \<and> rd_token r = tok) tbl" "red_checks tok s"
      using 2(3) None by (auto split: if_splits)
    have ih: "map fst o1 = map snd xs" "\<forall>(s, k) \<in> set o1. red_lookup tbl' t s = Some k" "red_extends t (tbl @ [?r]) tbl'"
      using 2(1) [OF _ None o1(3,1)] o1(4) by auto
    have "red_extends t tbl (tbl @ [?r])"
      using None o1(3) unfolding red_extends_def red_lookup_append red_inv_def
      by (auto simp: red_lookup_None list_ex_iff)
    then have "red_extends t tbl tbl'" using ih(3) by (rule red_extends_trans)
    moreover have "red_lookup tbl' t s = Some tok"
      by (rule red_extends_lookup [OF ih(3)]) (use None in \<open>simp add: red_lookup_append\<close>)
    ultimately show ?thesis using ih(1,2) o1(2) by simp
  next
    case (Some old)
    obtain o1 where o1: "upsert_each t xs tbl = Some (o1, tbl')" "out = (s, old) # o1" "red_checks tok s"
      using 2(3) Some by (auto split: if_splits)
    show ?thesis using 2(2) [OF _ Some o1(1)] o1(2,3) red_extends_lookup [of t tbl tbl' t s old] Some by auto
  qed
qed

lemma first_seen_set: "set (first_seen seen xs) = set xs - set seen"
  by (induction seen xs rule: first_seen.induct) auto

lemma mint_tokens_secrets: "mint_tokens mint n ss = Some xs \<Longrightarrow> map snd xs = ss"
  by (induction ss arbitrary: n xs) (auto split: option.splits)

lemma map_secrets_spec:
  assumes "map_secrets mint tx t ss tbl = Inr (tokens, tbl')"
  shows "red_extends t tbl tbl' \<and> (\<forall>s \<in> set ss. tokens s = red_lookup tbl' t s \<and> tokens s \<noteq> None)"
proof (cases "ss = []")
  case True
  then show ?thesis using assms by (simp add: map_secrets_def)
next
  case False
  obtain xs out where x: "mint_tokens mint 0 ss = Some xs" "upsert_each t xs tbl = Some (out, tbl')" "tokens = map_of out"
    using assms False by (auto simp: map_secrets_def sql_upsert_redactions_def split: option.splits if_splits)
  note u = upsert_each_spec [OF x(2)]
  have "tokens s = red_lookup tbl' t s \<and> tokens s \<noteq> None" if s: "s \<in> set ss" for s
  proof -
    have "s \<in> fst ` set out" using u mint_tokens_secrets [OF x(1)] s by (metis list.set_map)
    then obtain k where "map_of out s = Some k" by (metis map_of_eq_None_iff not_Some_eq)
    then show ?thesis using u x(3) map_of_SomeD by fastforce
  qed
  then show ?thesis using u by blast
qed

lemma replaced_cong:
  "(\<And>sp. sp \<in> set ss \<Longrightarrow> f (sp_secret sp) = g (sp_secret sp)) \<Longrightarrow> replaced s f at ss = replaced s g at ss"
  by (induction ss arbitrary: at) (auto split: option.split)

lemma apply_tokens_cong:
  "(\<And>x. x \<in> set (secrets ss) \<Longrightarrow> f x = g x) \<Longrightarrow> apply_tokens fd s ss f m = apply_tokens fd s ss g m"
  using replaced_cong [of ss f g s 0] by (simp add: apply_tokens_def secrets_def first_seen_set)

lemma mask_record_cong:
  "(\<And>x. x \<in> set (record_secrets r) \<Longrightarrow> f x = g x) \<Longrightarrow> mask_record f r = mask_record g r"
  unfolding mask_record_def record_secrets_def
  using apply_tokens_cong [of "find_secrets (rc_title r)" f g] apply_tokens_cong [of "find_secrets (rc_text r)" f g]
  by simp

lemma mask_each_Inr: "mask_each f rs = Inr qs \<longleftrightarrow> list_all2 (\<lambda>r q. mask_record f r = Inr q) rs qs"
  by (induction rs arbitrary: qs) (auto simp: bind_res_Inr list_all2_Cons1)

text \<open>What \<open>maskRecords\<close> does, over the table it leaves behind.\<close>

lemma mask_records_spec:
  assumes "mask_records mint tx t recs tbl = Inr (qs, tbl')"
  shows "red_extends t tbl tbl' \<and> list_all2 (\<lambda>r q. mask_record (red_lookup tbl' t) r = Inr q) recs qs"
proof -
  let ?w = "first_seen [] (concat (map record_secrets recs))"
  obtain tokens where tk: "map_secrets mint tx t ?w tbl = Inr (tokens, tbl')" "mask_each tokens recs = Inr qs"
    using assms by (auto simp: mask_records_def Let_def bind_res_Inr split: if_splits)
  note m = map_secrets_spec [OF tk(1)]
  have "list_all2 (\<lambda>r q. mask_record tokens r = Inr q) recs qs" using tk(2) by (simp add: mask_each_Inr)
  then have "list_all2 (\<lambda>r q. mask_record (red_lookup tbl' t) r = Inr q) recs qs"
  proof (rule list.rel_mono_strong)
    fix r q assume "r \<in> set recs" "mask_record tokens r = Inr q"
    then show "mask_record (red_lookup tbl' t) r = Inr q"
      using mask_record_cong [of r tokens "red_lookup tbl' t"] m by (auto simp: first_seen_set)
  qed
  then show ?thesis using m by blast
qed

lemma mask_record_fields:
  assumes "mask_record f r = Inr q"
  obtains ti te where "q = r\<lparr>rc_title := ti, rc_text := te\<rparr>"
    "apply_tokens ''title'' (rc_title r) (find_secrets (rc_title r)) f max_title = Inr ti"
    "apply_tokens ''text'' (rc_text r) (find_secrets (rc_text r)) f max_text = Inr te"
proof -
  have m: "map_err g x = Inr y \<longleftrightarrow> x = Inr y" for g x and y :: bytes by (cases x) auto
  show ?thesis using assms that by (auto simp: mask_record_def bind_res_Inr m)
qed

lemma masked_seal [simp]:
  "sealed_for (r\<lparr>rc_title := ti, rc_text := te\<rparr>) t = sealed_for r t"
  "current_seal (r\<lparr>rc_title := ti, rc_text := te\<rparr>) = current_seal r"
  by (simp_all add: sealed_for_def current_seal_def)

text \<open>C36: A value is replaced by one token within a tenant, for ever. Masking the records of a delivery
  changes their titles and texts only, so each stays sealed for its tenant; every value found in them
  is replaced by the token the redaction map holds for it afterwards; the map keeps one token per
  value and one value per token, no mapping that was there changes, of this tenant or another, and
  what is added belongs to this tenant.\<close>

theorem one_token_per_value:
  assumes "mask_records mint tx t recs tbl = Inr (qs, tbl')" and "red_inv tbl"
  shows "red_inv tbl' \<and> (\<exists>new. tbl' = tbl @ new \<and> list_all (\<lambda>r. rd_tenant r = t) new) \<and>
    (\<forall>t' s k. red_lookup tbl t' s = Some k \<longrightarrow> red_lookup tbl' t' s = Some k) \<and>
    list_all2 (\<lambda>r q. \<exists>ti te. q = r\<lparr>rc_title := ti, rc_text := te\<rparr> \<and> sealed_for q = sealed_for r \<and>
      apply_tokens ''title'' (rc_title r) (find_secrets (rc_title r)) (red_lookup tbl' t) max_title = Inr ti \<and>
      apply_tokens ''text'' (rc_text r) (find_secrets (rc_text r)) (red_lookup tbl' t) max_text = Inr te) recs qs"
proof -
  note m = mask_records_spec [OF assms(1)]
  have "\<exists>ti te. q = r\<lparr>rc_title := ti, rc_text := te\<rparr> \<and> sealed_for q = sealed_for r \<and>
      apply_tokens ''title'' (rc_title r) (find_secrets (rc_title r)) (red_lookup tbl' t) max_title = Inr ti \<and>
      apply_tokens ''text'' (rc_text r) (find_secrets (rc_text r)) (red_lookup tbl' t) max_text = Inr te"
    if "mask_record (red_lookup tbl' t) r = Inr q" for r q
    by (rule mask_record_fields [OF that]) (auto simp: fun_eq_iff)
  then have "list_all2 (\<lambda>r q. \<exists>ti te. q = r\<lparr>rc_title := ti, rc_text := te\<rparr> \<and> sealed_for q = sealed_for r \<and>
      apply_tokens ''title'' (rc_title r) (find_secrets (rc_title r)) (red_lookup tbl' t) max_title = Inr ti \<and>
      apply_tokens ''text'' (rc_text r) (find_secrets (rc_text r)) (red_lookup tbl' t) max_text = Inr te) recs qs"
    using m by (auto intro: list_all2_mono)
  then show ?thesis using m assms(2) unfolding red_extends_def by blast
qed

definition ex_mail :: rec where
  "ex_mail = ex_rec\<lparr>rc_title := ''a@b.co'', rc_text := []\<rparr>"

definition ex_tx :: txn where
  "ex_tx = \<lparr>tx_cross = False, tx_tenant = Some ''acme''\<rparr>"

lemma find_nothing: "find_secrets [] = []"
  by code_simp

lemma ex_masked: "mask_records (\<lambda>_. Some ''1'') ex_tx ''acme'' [ex_mail, ex_mail] [] =
    Inr ([ex_mail\<lparr>rc_title := ''[email:1]''\<rparr>, ex_mail\<lparr>rc_title := ''[email:1]''\<rparr>],
      [\<lparr>rd_tenant = ''acme'', rd_token = ''[email:1]'', rd_secret = (Email, ''a@b.co'')\<rparr>])"
proof -
  let ?row = "\<lparr>rd_tenant = ''acme'', rd_token = ''[email:1]'', rd_secret = (Email, ''a@b.co'')\<rparr>"
  have "storable ''[email:1]''" "storable ''a@b.co''" "valid_tenant ''acme''" "sees ex_tx ''acme''"
    by (simp_all add: storable_eval valid_acme ord_of_def sees_def ex_tx_def)
  then have m: "map_secrets (\<lambda>_. Some ''1'') ex_tx ''acme'' [(Email, ''a@b.co'')] [] =
      Inr (map_of [((Email, ''a@b.co''), ''[email:1]'')], [?row])"
    by (simp add: map_secrets_def sql_upsert_redactions_def red_lookup_def red_checks_def token_def)
  have f: "find_secrets (rc_title ex_mail) = [\<lparr>sp_start = 0, sp_end = 6, sp_secret = (Email, ''a@b.co'')\<rparr>]"
    "find_secrets (rc_text ex_mail) = []" by (simp_all add: ex_mail_def ex_find find_nothing)
  have w: "first_seen [] (concat (map record_secrets [ex_mail, ex_mail])) = [(Email, ''a@b.co'')]"
    by (simp add: record_secrets_def f secrets_def)
  have "mask_record (map_of [((Email, ''a@b.co''), ''[email:1]'')]) ex_mail = Inr (ex_mail\<lparr>rc_title := ''[email:1]''\<rparr>)"
    using rune_count_le [of "''[email:1]''"]
    by (simp add: mask_record_def f apply_tokens_def slice_def) (simp add: ex_mail_def)
  then show ?thesis unfolding mask_records_def w Let_def by (simp add: m)
qed

theorem one_token_per_value_witness:
  "red_inv [\<lparr>rd_tenant = ''acme'', rd_token = ''[email:1]'', rd_secret = (Email, ''a@b.co'')\<rparr>]"
  using one_token_per_value [OF ex_masked] by (simp add: red_inv_def)

end
