(* ===== verification/Pipeline.thy ===== *)
theory Pipeline
  imports Registry Ledger_Chain Redact
begin

text \<open>
  internal/pipeline/pipeline.go: \<open>Normalize\<close>, which turns a stored delivery into sealed records, and
  \<open>Prepare\<close>, which takes them through the ledger and the masker in one transaction. What a provider
  answers is its record in the registry. \<open>Prepare\<close> returns its counters beside an error, so its result
  is both. The \<open>nil\<close> transaction is \<open>None\<close>.
\<close>

record pdb =
  pd_ledger :: "lrow list"
  pd_redactions :: "redaction list"

record pdelivery =
  dv_tenant :: bytes
  dv_provider :: bytes
  dv_id :: bytes
  dv_body :: bytes

record normalized =
  nm_provider :: bytes
  nm_versions :: version_order
  nm_records :: "rec list"
  nm_automation :: nat
  nm_degraded :: nat

record prepared =
  pp_records :: "rec list"
  pp_skipped :: nat
  pp_stale :: nat
  pp_scope_returned :: nat
  pp_version_unordered :: nat
  pp_automation :: nat
  pp_degraded :: nat

subsection \<open>\<open>Normalize\<close>\<close>

definition hydrate_and_normalize :: "'h provider \<Rightarrow> bytes \<Rightarrow> change \<Rightarrow> pipe_failure + rec list \<times> bool" where
  "hydrate_and_normalize p t c =
     (case pv_hydrate p t c of
        Inr h \<Rightarrow> (case pv_normalize p h c of
                    Inl e \<Rightarrow> Inl (DeadLetter (ErrNormalize e))
                  | Inr rs \<Rightarrow> Inr (rs, False))
      | Inl e \<Rightarrow>
          (case pv_degrade p of
             None \<Rightarrow> Inl (Retryable (ErrHydrate e))
           | Some deg \<Rightarrow>
               (case deg c of
                  Degraded rs \<Rightarrow> Inr (rs, True)
                | CannotDegrade _ \<Rightarrow> Inl (Retryable (ErrHydrate e))
                | DegradeFailed d \<Rightarrow> Inl (DeadLetter (ErrDegrade d)))))"

text \<open>The inner loop: the noise gate and the seal. \<open>keep\<close> is \<open>KeepAutomation\<close>.\<close>

fun gate_and_seal ::
  "(bytes \<Rightarrow> bytes) \<Rightarrow> bool \<Rightarrow> bytes \<Rightarrow> bytes \<Rightarrow> bytes \<Rightarrow> rec list \<Rightarrow> normalized \<Rightarrow> pipe_failure + normalized" where
  "gate_and_seal h keep key t did [] n = Inr n"
| "gate_and_seal h keep key t did (r # rs) n =
     (if or_automation (rc_origin r) \<and> \<not> keep
      then gate_and_seal h keep key t did rs (n\<lparr>nm_automation := nm_automation n + 1\<rparr>)
      else (case seal_record h (r\<lparr>rc_delivery := did\<rparr>) key t of
              Inl e \<Rightarrow> Inl (DeadLetter (ErrSeal e))
            | Inr q \<Rightarrow> gate_and_seal h keep key t did rs (n\<lparr>nm_records := nm_records n @ [q]\<rparr>)))"

fun normalize_changes ::
  "(bytes \<Rightarrow> bytes) \<Rightarrow> bool \<Rightarrow> 'h reg_entry \<Rightarrow> bytes \<Rightarrow> bytes \<Rightarrow> change list \<Rightarrow> normalized \<Rightarrow> pipe_failure + normalized" where
  "normalize_changes h keep e t did [] n = Inr n"
| "normalize_changes h keep e t did (c # cs) n =
     bind_res (hydrate_and_normalize (en_provider e) t c)
       (\<lambda>(rs, deg). bind_res
          (gate_and_seal h keep (en_key e) t did rs
             (if deg then n\<lparr>nm_degraded := nm_degraded n + length rs\<rparr> else n))
          (normalize_changes h keep e t did cs))"

definition normalize :: "(bytes \<Rightarrow> bytes) \<Rightarrow> bool \<Rightarrow> 'h registry \<Rightarrow> pdelivery \<Rightarrow> pipe_failure + normalized" where
  "normalize h keep reg d =
     (case parse_tenant (dv_tenant d) of
        Inl e \<Rightarrow> Inl (DeadLetter (ErrBadTenant e))
      | Inr _ \<Rightarrow>
     (case reg_lookup reg (dv_provider d) of
        None \<Rightarrow> Inl (DeadLetter (ErrUnknownProvider (dv_provider d)))
      | Some e \<Rightarrow>
     (case en_source e of
        None \<Rightarrow> Inl (DeadLetter (ErrNotAWebhookSource (dv_provider d)))
      | Some src \<Rightarrow>
     (case ws_parse src (dv_body d) of
        Inl x \<Rightarrow> Inl (DeadLetter (ErrParse x))
      | Inr cs \<Rightarrow>
          normalize_changes h keep e (dv_tenant d) (dv_id d) cs
            \<lparr>nm_provider = en_key e, nm_versions = en_versions e, nm_records = [], nm_automation = 0, nm_degraded = 0\<rparr>))))"

subsection \<open>\<open>Prepare\<close>\<close>

definition check_bound :: "txn \<Rightarrow> bytes \<Rightarrow> pipe_failure option" where
  "check_bound tx t =
     (case current_tenant tx of
        Inl ErrNoTenantBound \<Rightarrow> Some (DeadLetter ErrTxNotBoundToTenant)
      | Inl ErrInvalidID \<Rightarrow> Some (DeadLetter ErrTxNotBoundToTenant)
      | Inl e \<Rightarrow> Some (Retryable (ErrBadTenant e))
      | Inr b \<Rightarrow> if b \<noteq> t then Some (DeadLetter ErrTxNotBoundToTenant) else None)"

fun check_records :: "bytes \<Rightarrow> rec list \<Rightarrow> pipe_failure option" where
  "check_records t [] = None"
| "check_records t (r # rs) =
     (if \<not> sealed_for r t then Some (DeadLetter (ErrNotSealedForTenant (rc_id r)))
      else if length (rc_external_id r) > max_external_id_bytes
      then Some (DeadLetter (ErrExternalIDTooLong (length (rc_external_id r))))
      else check_records t rs)"

definition failed :: "prepared \<Rightarrow> prepared" where
  "failed out = out\<lparr>pp_records := []\<rparr>"

fun count_admission :: "admission \<Rightarrow> rec option \<Rightarrow> prepared \<Rightarrow> prepared" where
  "count_admission AdmitPrepare (Some r) out = out\<lparr>pp_records := pp_records out @ [r]\<rparr>"
| "count_admission AdmitPrepare None out = out"
| "count_admission AdmitSkip _ out = out\<lparr>pp_skipped := pp_skipped out + 1\<rparr>"
| "count_admission AdmitStale _ out = out\<lparr>pp_stale := pp_stale out + 1\<rparr>"
| "count_admission AdmitScopeReturned _ out = out\<lparr>pp_scope_returned := pp_scope_returned out + 1\<rparr>"
| "count_admission AdmitVersionUnordered _ out = out\<lparr>pp_version_unordered := pp_version_unordered out + 1\<rparr>"
| "count_admission AdmitNone _ out = out"

fun admit_all :: "ledger \<Rightarrow> rec list \<Rightarrow> prepared \<Rightarrow> lrow list \<Rightarrow> (prepared \<times> pipe_failure option) \<times> lrow list" where
  "admit_all l [] out rs = ((out, None), rs)"
| "admit_all l (r # recs) out rs =
     (case admit l r rs of
        ((linked, what, err), rs') \<Rightarrow>
          (let out' = count_admission what linked out in
           case err of
             Some e \<Rightarrow> ((failed out', Some e), rs')
           | None \<Rightarrow> admit_all l recs out' rs'))"

fun mask_verdict :: "pipe_error \<Rightarrow> pipe_failure" where
  "mask_verdict (ErrMaskedTooLong f) = DeadLetter (ErrMaskedTooLong f)"
| "mask_verdict (ErrTooManySecrets n) = DeadLetter (ErrTooManySecrets n)"
| "mask_verdict e = Retryable e"

definition prepare ::
  "(nat \<Rightarrow> bytes option) \<Rightarrow> txn option \<Rightarrow> bytes \<Rightarrow> normalized \<Rightarrow> pdb \<Rightarrow> (prepared \<times> pipe_failure option) \<times> pdb" where
  "prepare mint txo t n d =
     (let out = \<lparr>pp_records = [], pp_skipped = 0, pp_stale = 0, pp_scope_returned = 0, pp_version_unordered = 0,
                 pp_automation = nm_automation n, pp_degraded = nm_degraded n\<rparr> in
      case txo of
        None \<Rightarrow> ((failed out, Some (Retryable ErrNoTransaction)), d)
      | Some tx \<Rightarrow>
     (case parse_tenant t of
        Inl e \<Rightarrow> ((failed out, Some (DeadLetter (ErrBadTenant e))), d)
      | Inr _ \<Rightarrow>
     (case check_bound tx t of
        Some f \<Rightarrow> ((failed out, Some f), d)
      | None \<Rightarrow>
      if nm_records n \<noteq> [] \<and> \<not> order_valid (nm_versions n)
      then ((failed out, Some (DeadLetter ErrOrderNotDeclared)), d)
      else
     (case check_records t (nm_records n) of
        Some f \<Rightarrow> ((failed out, Some f), d)
      | None \<Rightarrow>
     (case admit_all \<lparr>lg_tx = tx, lg_tenant = t, lg_provider = nm_provider n, lg_versions = nm_versions n\<rparr>
             (nm_records n) out (pd_ledger d) of
        ((out', Some f), rs) \<Rightarrow> ((out', Some f), d\<lparr>pd_ledger := rs\<rparr>)
      | ((out', None), rs) \<Rightarrow>
     (case mask_records mint tx t (pp_records out') (pd_redactions d) of
        Inl e \<Rightarrow> ((failed out', Some (mask_verdict e)), d\<lparr>pd_ledger := rs\<rparr>)
      | Inr (recs, reds) \<Rightarrow> ((out'\<lparr>pp_records := recs\<rparr>, None), \<lparr>pd_ledger = rs, pd_redactions = reds\<rparr>)))))))"

end
