(* ===== verification/Record_Storable.thy ===== *)
theory Record_Storable
  imports Ledger_Chain
begin

text \<open>Every identifying field of a valid record is text a Postgres column takes, so the ledger can
  store a row for any sealed record whose external id fits its chain key.\<close>

definition plain :: "char \<Rightarrow> bool" where
  "plain c \<longleftrightarrow> 32 < ord_of c \<and> ord_of c < 127"

lemma plain_storable: "list_all plain s \<Longrightarrow> storable s"
  by (rule storable_ascii) (auto simp: list_all_iff plain_def ord_of_def)

lemma classes_plain: "is_lower c \<Longrightarrow> plain c" "is_upper c \<Longrightarrow> plain c" "is_digit c \<Longrightarrow> plain c"
  unfolding plain_def is_lower_def is_upper_def is_digit_def char_le_ord by (simp_all add: ord_of_def)

lemma marks_plain: "plain (CHR '':'')" "plain (CHR ''%'')" "plain (CHR ''_'')" "plain (CHR ''-'')" "plain (CHR ''.'')" "plain (CHR ''~'')"
  by (simp_all add: plain_def ord_of_def)

lemma name_plain: "valid_name s m hy \<Longrightarrow> list_all plain s"
  by (cases s) (auto simp: valid_name_def list_all_iff classes_plain marks_plain)

lemma hex_plain: "is_upper_hex c \<Longrightarrow> plain c"
  unfolding is_upper_hex_def is_digit_def plain_def char_le_ord by (auto simp: ord_of_def)

lemma hex_low_plain: "CHR ''a'' \<le> c \<and> c \<le> CHR ''f'' \<Longrightarrow> plain c"
  unfolding plain_def char_le_ord by (simp add: ord_of_def)

lemma escaped_plain: "check_escaped e = None \<Longrightarrow> list_all plain e"
proof (induction e rule: check_escaped.induct)
  case 1
  then show ?case by simp
next
  case (2 c cs)
  show ?case
  proof (cases "unreserved c")
    case True
    then have "plain c" by (auto simp: unreserved_def classes_plain marks_plain)
    then show ?thesis using 2 True by simp
  next
    case False
    then obtain a b rest where cs: "cs = a # b # rest" using 2(3) by (auto split: list.splits)
    have ok: "c = CHR ''%''" "is_upper_hex a" "is_upper_hex b" "check_escaped rest = None"
      using 2(3) False unfolding cs by (auto simp: Let_def split: if_splits)
    then have "list_all plain rest"
      using 2 False unfolding cs by (auto simp: Let_def split: if_splits)
    then show ?thesis using ok hex_plain marks_plain unfolding cs by simp
  qed
qed

lemma scope_storable:
  assumes "check_scope_id s = None"
  shows "storable s \<and> s \<noteq> []"
proof -
  obtain i where i: "index_byte s (CHR '':'') = Some i" "valid_provider_key (take i s)"
    using assms by (auto simp: check_scope_id_def Let_def split: if_splits option.splits)
  let ?r = "drop (Suc i) s"
  obtain j where j: "index_byte ?r (CHR '':'') = Some j" "valid_name (take j ?r) max_kind False"
    using assms i by (auto simp: check_scope_id_def Let_def split: if_splits option.splits)
  have e: "check_escaped (drop (Suc j) ?r) = None"
    using assms i j by (auto simp: check_scope_id_def Let_def split: if_splits)
  have "s = take i s @ CHR '':'' # take j ?r @ CHR '':'' # drop (Suc j) ?r"
    using index_byte_split [OF i(1)] index_byte_split [OF j(1)] by metis
  moreover have "list_all plain (take i s @ CHR '':'' # take j ?r @ CHR '':'' # drop (Suc j) ?r)"
    using name_plain [OF i(2) [unfolded valid_provider_key_def]] name_plain [OF j(2)] escaped_plain [OF e] marks_plain
    by simp
  ultimately show ?thesis using plain_storable by (metis append_is_Nil_conv list.discI)
qed

lemma identifier_storable:
  assumes "check_string f s n m IdentifierChars = None"
  shows "storable s \<and> n \<le> length s"
proof -
  have v: "valid_string s" "\<not> list_ex (refuses IdentifierChars) (runes s)" "n \<le> length s"
    using assms by (auto simp: check_string_def split: if_splits)
  have "0 \<notin> set (runes s)" using v(2) by (auto simp: list_ex_iff refuses_def)
  then have "nul \<notin> set s"
    using nul_in_runes [OF scalar_runes, of s] encode_runes_runes [OF v(1)] by simp
  then show ?thesis using v by (simp add: storable_def)
qed

lemma record_id_plain:
  assumes "valid_record_id s"
  shows "storable s \<and> s \<noteq> []"
proof -
  have "list_all plain (take (length record_prefix) s)" using assms by (simp add: valid_record_id_def plain_def ord_of_def)
  moreover have "list_all plain (drop (length record_prefix) s)"
    using assms hex_low_plain classes_plain(3) unfolding valid_record_id_def list_all_iff by blast
  ultimately have "list_all plain s" by (metis append_take_drop_id list_all_append)
  then show ?thesis using assms plain_storable by (auto simp: valid_record_id_def)
qed

lemma sealed_linkable:
  assumes "seal_record h r (lg_provider l) (lg_tenant l) = Inr q" "length (rc_external_id q) \<le> max_external_id_bytes"
  shows "linkable l q"
proof -
  have s: "valid_provider_key (lg_provider l)" "valid_tenant (lg_tenant l)" "validate q = None"
    by (rule seal_fields [OF assms(1)], assumption)+
  have f: "valid_record_id (rc_id q)" "check_external_id ''external_id'' (rc_external_id q) = None"
    "check_string ''version'' (rc_version q) 1 max_version IdentifierChars = None"
    "check_scope_id (vi_scope (rc_visibility q)) = None"
    using s(3) by (simp_all add: validate_def first_error_None)
  have e: "check_string ''external_id'' (rc_external_id q) 1 max_external_id IdentifierChars = None"
    using f(2) by (auto simp: check_external_id_def split: option.splits)
  have p: "storable (lg_provider l)" "lg_provider l \<noteq> []"
    using name_plain [OF s(1) [unfolded valid_provider_key_def]] plain_storable s(1)
    by (auto simp: valid_provider_key_def valid_name_def)
  have "storable (rc_id q) \<and> rc_id q \<noteq> []" by (rule record_id_plain [OF f(1)])
  moreover have "storable (rc_external_id q) \<and> rc_external_id q \<noteq> []" using identifier_storable [OF e] by auto
  moreover have "storable (rc_version q) \<and> rc_version q \<noteq> []" using identifier_storable [OF f(3)] by auto
  moreover have "storable (vi_scope (rc_visibility q)) \<and> vi_scope (rc_visibility q) \<noteq> []" by (rule scope_storable [OF f(4)])
  ultimately show ?thesis using p s(2) assms(2) by (simp add: linkable_def row_checks_def new_row_def)
qed

end
