(* ===== verification/Pipeline_Facts.thy ===== *)
theory Pipeline_Facts
  imports Pipeline Record_Storable
begin

text \<open>
  What \<open>Normalize\<close> hands over and what \<open>Prepare\<close> makes of it: the chains of the ledger in every state
  the pipeline reaches, no record prepared twice, and an account of every record.
\<close>

subsection \<open>\<open>Normalize\<close>\<close>

text \<open>A record as \<open>Normalize\<close> hands it over.\<close>

definition handed_over :: "(bytes \<Rightarrow> bytes) \<Rightarrow> bool \<Rightarrow> bytes \<Rightarrow> bytes \<Rightarrow> bytes \<Rightarrow> rec \<Rightarrow> bool" where
  "handed_over h keep key t did q \<longleftrightarrow>
     (\<exists>r. seal_record h r key t = Inr q) \<and> rc_delivery q = did \<and> (or_automation (rc_origin q) \<longrightarrow> keep)"

lemma seal_keeps: "seal_record h r p t = Inr q \<Longrightarrow> rc_delivery q = rc_delivery r \<and> rc_origin q = rc_origin r"
  by (erule seal_fields) simp

lemma gate_and_seal_spec:
  "gate_and_seal h keep key t did rs n = Inr n' \<Longrightarrow> list_all (handed_over h keep key t did) (nm_records n) \<Longrightarrow>
   list_all (handed_over h keep key t did) (nm_records n') \<and> nm_provider n' = nm_provider n \<and> nm_versions n' = nm_versions n"
proof (induction h keep key t did rs n rule: gate_and_seal.induct)
  case (2 h keep key t did r rs n)
  show ?case
  proof (cases "or_automation (rc_origin r) \<and> \<not> keep")
    case True
    then show ?thesis using 2(1) 2(3,4) by simp
  next
    case False
    then obtain q where q: "seal_record h (r\<lparr>rc_delivery := did\<rparr>) key t = Inr q"
      "gate_and_seal h keep key t did rs (n\<lparr>nm_records := nm_records n @ [q]\<rparr>) = Inr n'"
      using 2(3) by (auto split: sum.splits)
    have "handed_over h keep key t did q"
      using q(1) seal_keeps [OF q(1)] False by (auto simp: handed_over_def)
    then show ?thesis using 2(2) [OF False q] 2(4) by simp
  qed
qed simp

lemma normalize_changes_spec:
  "normalize_changes h keep e t did cs n = Inr n' \<Longrightarrow> list_all (handed_over h keep (en_key e) t did) (nm_records n) \<Longrightarrow>
   list_all (handed_over h keep (en_key e) t did) (nm_records n') \<and> nm_provider n' = nm_provider n \<and> nm_versions n' = nm_versions n"
proof (induction cs arbitrary: n)
  case (Cons c cs)
  then obtain rs deg n1 where n1: "gate_and_seal h keep (en_key e) t did rs
       (if deg then n\<lparr>nm_degraded := nm_degraded n + length rs\<rparr> else n) = Inr n1"
    "normalize_changes h keep e t did cs n1 = Inr n'"
    by (auto simp: bind_res_Inr)
  have "list_all (handed_over h keep (en_key e) t did) (nm_records n1) \<and> nm_provider n1 = nm_provider n \<and> nm_versions n1 = nm_versions n"
    using gate_and_seal_spec [OF n1(1)] Cons.prems(2) by (cases deg) simp_all
  then show ?case using Cons.IH [OF n1(2)] by simp
qed simp

definition declared :: "'h registry \<Rightarrow> bytes \<Rightarrow> version_order" where
  "declared reg p = (case reg_lookup reg p of None \<Rightarrow> OrderUnset | Some e \<Rightarrow> en_versions e)"

lemma normalize_spec:
  assumes "normalize h keep reg d = Inr n" "reg_ok reg"
  shows "list_all (handed_over h keep (nm_provider n) (dv_tenant d) (dv_id d)) (nm_records n) \<and> nm_provider n = dv_provider d \<and>
    valid_tenant (dv_tenant d) \<and> nm_versions n = declared reg (nm_provider n) \<and> order_valid (nm_versions n)"
proof -
  obtain e src cs where e: "valid_tenant (dv_tenant d)" "reg_lookup reg (dv_provider d) = Some e"
    "normalize_changes h keep e (dv_tenant d) (dv_id d) cs
       \<lparr>nm_provider = en_key e, nm_versions = en_versions e, nm_records = [], nm_automation = 0, nm_degraded = 0\<rparr> = Inr n"
    using assms(1) by (auto simp: normalize_def split: sum.splits option.splits)
  have k: "entry_ok (dv_provider d, e)" by (rule reg_lookup_ok(1) [OF assms(2) e(2)])
  have "list_all (handed_over h keep (en_key e) (dv_tenant d) (dv_id d)) (nm_records n) \<and> nm_provider n = en_key e \<and> nm_versions n = en_versions e"
    using normalize_changes_spec [OF e(3)] by simp
  moreover have "en_key e = dv_provider d" "order_valid (en_versions e)" using k by (simp_all add: entry_ok_def)
  ultimately show ?thesis using e(1,2) by (simp add: declared_def)
qed

lemma handed_sealed: "handed_over h keep key t did q \<Longrightarrow> sealed_for q t \<and> validate q = None"
proof -
  assume "handed_over h keep key t did q"
  then obtain r where r: "seal_record h r key t = Inr q" by (auto simp: handed_over_def)
  show ?thesis by (rule seal_fields [OF r]) (auto simp: sealed_for_def valid_tenant_def)
qed

text \<open>What \<open>Normalize\<close> hands to \<open>Prepare\<close> is fit to be prepared. Every record is valid and sealed for
  the tenant of the delivery, carries the delivery's id, and is no automation noise unless the
  deployment keeps it; the version order is the one the registry validated; and the checks \<open>Prepare\<close>
  makes before it asks the ledger can then refuse one thing only, an external id that is too long.\<close>

theorem normalized_is_fit_to_prepare:
  assumes "new_registry ps = Inr reg" and "normalize h keep reg d = Inr n"
  shows "list_all (\<lambda>q. validate q = None \<and> sealed_for q (dv_tenant d) \<and> rc_delivery q = dv_id d \<and>
      \<not> (or_automation (rc_origin q) \<and> \<not> keep)) (nm_records n) \<and> order_valid (nm_versions n) \<and>
    (check_records (dv_tenant d) (nm_records n) = None \<longleftrightarrow>
       list_all (\<lambda>q. length (rc_external_id q) \<le> max_external_id_bytes) (nm_records n))"
proof -
  have n: "list_all (handed_over h keep (nm_provider n) (dv_tenant d) (dv_id d)) (nm_records n)" "order_valid (nm_versions n)"
    using normalize_spec [OF assms(2)] new_registry_ok [OF assms(1)] by auto
  have "check_records t rs = None \<longleftrightarrow> list_all (\<lambda>q. length (rc_external_id q) \<le> max_external_id_bytes) rs"
    if "list_all (\<lambda>q. sealed_for q t) rs" for t rs
    using that by (induction rs) auto
  moreover have "list_all (\<lambda>q. sealed_for q (dv_tenant d)) (nm_records n)"
    using n(1) handed_sealed by (auto simp: list_all_iff)
  moreover have "validate q = None \<and> sealed_for q (dv_tenant d) \<and> rc_delivery q = dv_id d \<and>
      \<not> (or_automation (rc_origin q) \<and> \<not> keep)" if "q \<in> set (nm_records n)" for q
  proof -
    have "handed_over h keep (nm_provider n) (dv_tenant d) (dv_id d) q" using n(1) that by (simp add: list_all_iff)
    then show ?thesis using handed_sealed [of h keep] unfolding handed_over_def by blast
  qed
  ultimately show ?thesis using n(2) by (simp add: list_all_iff)
qed

subsection \<open>The ledger stage over a delivery\<close>

definition linked_in :: "bytes \<Rightarrow> bytes \<Rightarrow> rec \<Rightarrow> lrow list \<Rightarrow> bool" where
  "linked_in t p q rs \<longleftrightarrow> list_ex (\<lambda>row. l_tenant row = t \<and> l_record_id row = rc_id q \<and> l_provider row = p \<and>
     l_external_id row = rc_external_id q \<and> (\<forall>i. l_supersedes row = Some i \<longrightarrow> rc_supersedes q = i)) rs"

lemma linked_in_demoted: "linked_in t p q rs \<Longrightarrow> linked_in t p q (demoted l r rs @ [new_row l r head])"
  unfolding linked_in_def demoted_def list_ex_append list.map_comp
  by (induction rs) auto

definition ledger_ready :: "(bytes \<Rightarrow> version_order) \<Rightarrow> ledger \<Rightarrow> lrow list \<Rightarrow> bool" where
  "ledger_ready ord l rs \<longleftrightarrow> ledger_bound l \<and> ledger_inv ord rs \<and> lg_versions l = ord (lg_provider l)"

text \<open>One step of the loop, as the loop uses it.\<close>

lemma admit_step:
  assumes "ledger_ready ord l rs" "linkable l r" "admit l r rs = ((linked, what, err), rs')"
  shows "ledger_ready ord l rs' \<and> ledger_le ord rs rs' \<and> (\<forall>t p q. linked_in t p q rs \<longrightarrow> linked_in t p q rs') \<and>
    (err = None \<longrightarrow> settled ord (lg_tenant l) (lg_provider l) r rs') \<and> (\<forall>e. err = Some e \<longrightarrow> (\<exists>x. e = DeadLetter x)) \<and>
    (what = AdmitPrepare \<and> err = None \<and> \<not> settled ord (lg_tenant l) (lg_provider l) r rs \<and>
       (\<exists>q. linked = Some q \<and> rc_id q = rc_id r \<and> linked_in (lg_tenant l) (lg_provider l) q rs' \<and>
          (\<exists>i. q = r\<lparr>rc_supersedes := i\<rparr>)) \<or>
     (what = AdmitSkip \<or> what = AdmitStale) \<and> err = None \<and> rs' = rs \<or>
     (what = AdmitScopeReturned \<or> what = AdmitVersionUnordered) \<and> err \<noteq> None \<and> rs' = rs)"
proof -
  have a: "ledger_bound l" "ledger_inv ord rs" "lg_versions l = ord (lg_provider l)" using assms(1) by (simp_all add: ledger_ready_def)
  have k: "ledger_ready ord l rs'" "ledger_le ord rs rs'"
    "err = None \<longrightarrow> settled ord (lg_tenant l) (lg_provider l) r rs'"
    using admit_inv [OF a(1,2) assms(2) a(3)] admit_advances [OF a(1,2) assms(2) a(3)]
      admit_settles [OF a(1,2) assms(2) a(3)] a assms(3) by (simp_all add: ledger_ready_def)
  show ?thesis
  proof (rule admit_outcomes [OF a(1,2) assms(2)])
    fix res assume u: "admit l r rs = ((None, res), rs)"
      "(fst res = AdmitSkip \<or> fst res = AdmitStale) \<and> snd res = None \<or>
         (fst res = AdmitScopeReturned \<or> fst res = AdmitVersionUnordered) \<and> (\<exists>e. snd res = Some (DeadLetter e))"
    have e: "res = (what, err)" "rs' = rs" using u(1) assms(3) by simp_all
    then show ?thesis using k u(2) by auto
  next
    fix head assume l: "admit l r rs = ((Some (r\<lparr>rc_supersedes := (case head of None \<Rightarrow> rc_supersedes r | Some h \<Rightarrow> l_record_id h)\<rparr>),
          AdmitPrepare, None), demoted l r rs @ [new_row l r head])"
    let ?q = "r\<lparr>rc_supersedes := (case head of None \<Rightarrow> rc_supersedes r | Some h \<Rightarrow> l_record_id h)\<rparr>"
    have e: "linked = Some ?q" "what = AdmitPrepare" "err = None" "rs' = demoted l r rs @ [new_row l r head]"
      using l assms(3) by simp_all
    have "linked_in (lg_tenant l) (lg_provider l) ?q rs'"
      unfolding e(4) by (cases head) (auto simp: linked_in_def new_row_def)
    moreover have "\<not> settled ord (lg_tenant l) (lg_provider l) r rs"
      using settled_not_prepared [OF a(1,2) assms(2) a(3)] l by auto
    ultimately show ?thesis using k e linked_in_demoted by auto
  qed
qed

definition admissions :: "prepared \<Rightarrow> nat" where
  "admissions out = length (pp_records out) + pp_skipped out + pp_stale out"

definition no_refusals :: "prepared \<Rightarrow> bool" where
  "no_refusals out \<longleftrightarrow> pp_scope_returned out = 0 \<and> pp_version_unordered out = 0"

text \<open>What the loop leaves: the ledger in order and grown, each record settled and accounted for, and
  each prepared record new and linked.\<close>

lemma admit_all_spec:
  assumes "admit_all l recs out rs = ((out', err), rs')" "ledger_ready ord l rs" "list_all (linkable l) recs"
  shows "ledger_ready ord l rs' \<and> ledger_le ord rs rs' \<and>
    (err = None \<longrightarrow> list_all (\<lambda>r. settled ord (lg_tenant l) (lg_provider l) r rs') recs \<and>
       (\<exists>new. pp_records out' = pp_records out @ new \<and> distinct (map rc_id new) \<and>
          list_all (\<lambda>q. \<not> holds_id (lg_tenant l) (rc_id q) rs \<and> linked_in (lg_tenant l) (lg_provider l) q rs' \<and>
            list_ex (\<lambda>r. (\<exists>i. q = r\<lparr>rc_supersedes := i\<rparr>) \<and> \<not> settled ord (lg_tenant l) (lg_provider l) r rs) recs) new) \<and>
       admissions out' = admissions out + length recs \<and> (no_refusals out' = no_refusals out)) \<and>
    (err \<noteq> None \<longrightarrow> pp_records out' = [] \<and> (\<exists>x. err = Some (DeadLetter x))) \<and>
    (\<forall>t p q. linked_in t p q rs \<longrightarrow> linked_in t p q rs')"
  using assms
proof (induction recs arbitrary: out rs)
  case Nil
  then show ?case by simp
next
  case (Cons r recs)
  obtain linked what e rs1 where a: "admit l r rs = ((linked, what, e), rs1)" by (metis prod_cases3 surj_pair)
  have lk: "linkable l r" "list_all (linkable l) recs" using Cons.prems(3) by simp_all
  note st = admit_step [OF Cons.prems(2) lk(1) a]
  let ?out = "count_admission what linked out"
  show ?case
  proof (cases e)
    case (Some x)
    then have "out' = failed ?out" "err = Some x" "rs' = rs1" using Cons.prems(1) a by (simp_all add: Let_def)
    then show ?thesis using st Some by (auto simp: failed_def)
  next
    case None
    have rest: "admit_all l recs ?out rs1 = ((out', err), rs')" using Cons.prems(1) a None by (simp add: Let_def)
    note ih = Cons.IH [OF rest conjunct1 [OF st] lk(2)]
    have le: "ledger_le ord rs rs'" using st ih ledger_le_trans by blast
    have set: "settled ord (lg_tenant l) (lg_provider l) r rs'" using st ih None settled_later by blast
    show ?thesis
    proof (cases "what = AdmitPrepare")
      case True
      obtain q where q: "linked = Some q" "rc_id q = rc_id r" "linked_in (lg_tenant l) (lg_provider l) q rs1"
        "\<exists>i. q = r\<lparr>rc_supersedes := i\<rparr>" "\<not> settled ord (lg_tenant l) (lg_provider l) r rs"
        using st True by auto
      have nh: "\<not> holds_id (lg_tenant l) (rc_id q) rs" using q(2,5) by (simp add: settled_def)
      have still: "settled ord (lg_tenant l) (lg_provider l) u rs \<Longrightarrow> settled ord (lg_tenant l) (lg_provider l) u rs1" for u
        using st settled_later by blast
      have out: "?out = out\<lparr>pp_records := pp_records out @ [q]\<rparr>" using True q(1) by simp
      have h1: "holds_id (lg_tenant l) (rc_id q) rs1" using q(3) by (auto simp: linked_in_def holds_id_def list_ex_iff)
      have mono: "holds_id t i rs \<Longrightarrow> holds_id t i rs1" for t i using st by (auto simp: ledger_le_def)
      have "\<exists>new. pp_records out' = pp_records out @ new \<and> distinct (map rc_id new) \<and>
          list_all (\<lambda>q. \<not> holds_id (lg_tenant l) (rc_id q) rs \<and> linked_in (lg_tenant l) (lg_provider l) q rs' \<and>
            list_ex (\<lambda>r. (\<exists>i. q = r\<lparr>rc_supersedes := i\<rparr>) \<and> \<not> settled ord (lg_tenant l) (lg_provider l) r rs) (r # recs)) new" if err: "err = None"
      proof -
        obtain new where new: "pp_records out' = pp_records ?out @ new" "distinct (map rc_id new)"
          "list_all (\<lambda>q. \<not> holds_id (lg_tenant l) (rc_id q) rs1 \<and> linked_in (lg_tenant l) (lg_provider l) q rs' \<and>
            list_ex (\<lambda>r. (\<exists>i. q = r\<lparr>rc_supersedes := i\<rparr>) \<and> \<not> settled ord (lg_tenant l) (lg_provider l) r rs1) recs) new"
          using ih err by blast
        have "distinct (map rc_id (q # new))" using new(2,3) h1 by (auto simp: list_all_iff)
        moreover have "pp_records out' = pp_records out @ (q # new)" using new(1) out by simp
        moreover have "linked_in (lg_tenant l) (lg_provider l) q rs'" using q(3) ih by blast
        moreover have "list_all (\<lambda>q. \<not> holds_id (lg_tenant l) (rc_id q) rs \<and> linked_in (lg_tenant l) (lg_provider l) q rs' \<and>
            list_ex (\<lambda>r. (\<exists>i. q = r\<lparr>rc_supersedes := i\<rparr>) \<and> \<not> settled ord (lg_tenant l) (lg_provider l) r rs) (r # recs)) new"
          using new(3) mono still unfolding list_all_iff list_ex_iff by fastforce
        ultimately show ?thesis using q(4,5) nh by (intro exI [of _ "q # new"]) simp
      qed
      moreover have "admissions ?out = admissions out + 1" "no_refusals ?out = no_refusals out"
        by (simp_all add: out admissions_def no_refusals_def)
      ultimately show ?thesis using ih st le set by auto
    next
      case False
      then have w: "what = AdmitSkip \<or> what = AdmitStale" "rs1 = rs" using st None by auto
      have "pp_records ?out = pp_records out" "admissions ?out = admissions out + 1" "no_refusals ?out = no_refusals out"
        using w(1) by (auto simp: admissions_def no_refusals_def)
      then show ?thesis using ih le set w(2) by (auto simp: list_all_iff)
    qed
  qed
qed

subsection \<open>The pipeline as a whole\<close>

definition tenant_txn :: "bytes \<Rightarrow> txn" where
  "tenant_txn t = \<lparr>tx_cross = False, tx_tenant = Some t\<rparr>"

definition empty_pdb :: pdb where
  "empty_pdb = \<lparr>pd_ledger = [], pd_redactions = []\<rparr>"

text \<open>One delivery taken through the pipeline, in a transaction of its tenant that committed.\<close>

inductive pipe_step :: "(bytes \<Rightarrow> bytes) \<Rightarrow> 'h registry \<Rightarrow> pdb \<Rightarrow> pdb \<Rightarrow> bool" for h reg where
  "normalize h keep reg dl = Inr n \<Longrightarrow>
   prepare mint (Some (tenant_txn (dv_tenant dl))) (dv_tenant dl) n d = ((out, None), d') \<Longrightarrow> pipe_step h reg d d'"

abbreviation pipe_run :: "(bytes \<Rightarrow> bytes) \<Rightarrow> 'h registry \<Rightarrow> pdb \<Rightarrow> pdb \<Rightarrow> bool" where
  "pipe_run h reg \<equiv> (pipe_step h reg)\<^sup>*\<^sup>*"

definition pdb_inv :: "'h registry \<Rightarrow> pdb \<Rightarrow> bool" where
  "pdb_inv reg d \<longleftrightarrow> ledger_inv (declared reg) (pd_ledger d) \<and> red_inv (pd_redactions d)"

lemma handed_linkable:
  assumes "list_all (handed_over h keep p t did) recs" "check_records t recs = None"
    "lg_tenant l = t" "lg_provider l = p"
  shows "list_all (linkable l) recs"
  using assms(1,2)
proof (induction recs)
  case (Cons r recs)
  obtain u where "seal_record h u (lg_provider l) (lg_tenant l) = Inr r"
    using Cons.prems(1) assms(3,4) by (auto simp: handed_over_def)
  moreover have "length (rc_external_id r) \<le> max_external_id_bytes" "check_records t recs = None"
    using Cons.prems(2) by (auto split: if_splits)
  ultimately show ?case using sealed_linkable Cons by auto
qed simp

lemma superseded_seal [simp]: "sealed_for (r\<lparr>rc_supersedes := i\<rparr>) t = sealed_for r t"
  by (simp add: sealed_for_def current_seal_def)

lemma check_records_dead: "check_records t rs = Some f \<Longrightarrow> \<exists>x. f = DeadLetter x"
  by (induction rs) (auto split: if_splits)

text \<open>A record as \<open>Prepare\<close> returns it: one of the delivery's, linked and masked, new to the ledger.\<close>

definition prepared_from :: "(bytes \<Rightarrow> version_order) \<Rightarrow> bytes \<Rightarrow> normalized \<Rightarrow> pdb \<Rightarrow> pdb \<Rightarrow> rec \<Rightarrow> bool" where
  "prepared_from ord t n d d' q \<longleftrightarrow>
     list_ex (\<lambda>r. (\<exists>i ti te. q = r\<lparr>rc_supersedes := i, rc_title := ti, rc_text := te\<rparr>) \<and>
       \<not> settled ord t (nm_provider n) r (pd_ledger d)) (nm_records n) \<and>
     sealed_for q t \<and> \<not> holds_id t (rc_id q) (pd_ledger d) \<and> linked_in t (nm_provider n) q (pd_ledger d')"

lemma list_all2_images:
  "list_all2 P xs ys \<Longrightarrow> (\<And>x y. x \<in> set xs \<Longrightarrow> P x y \<Longrightarrow> f y = f x \<and> Q y) \<Longrightarrow> list_all Q ys \<and> map f ys = map f xs"
  by (induction xs ys rule: list_all2_induct) auto

lemma prepare_spec:
  assumes n: "normalize h keep reg dl = Inr n" "reg_ok reg" and inv: "pdb_inv reg d"
    and p: "prepare mint (Some (tenant_txn (dv_tenant dl))) (dv_tenant dl) n d = ((out, err), d')"
  shows "(err = None \<longrightarrow> pdb_inv reg d' \<and> ledger_le (declared reg) (pd_ledger d) (pd_ledger d') \<and>
       red_extends (dv_tenant dl) (pd_redactions d) (pd_redactions d') \<and>
       list_all (\<lambda>r. settled (declared reg) (dv_tenant dl) (nm_provider n) r (pd_ledger d')) (nm_records n) \<and>
       list_all (prepared_from (declared reg) (dv_tenant dl) n d d') (pp_records out) \<and> distinct (map rc_id (pp_records out)) \<and>
       length (nm_records n) = admissions out \<and> no_refusals out) \<and>
     (err \<noteq> None \<longrightarrow> pp_records out = [] \<and> ((\<exists>x. err = Some (DeadLetter x)) \<or>
        (\<exists>recs x. mask_records mint (tenant_txn (dv_tenant dl)) (dv_tenant dl) recs (pd_redactions d) = Inl x \<and> err = Some (Retryable x))))"
proof -
  let ?t = "dv_tenant dl" and ?tx = "tenant_txn (dv_tenant dl)"
  let ?l = "\<lparr>lg_tx = ?tx, lg_tenant = ?t, lg_provider = nm_provider n, lg_versions = nm_versions n\<rparr>"
  let ?out = "\<lparr>pp_records = [], pp_skipped = 0, pp_stale = 0, pp_scope_returned = 0, pp_version_unordered = 0,
                 pp_automation = nm_automation n, pp_degraded = nm_degraded n\<rparr>"
  note ns = normalize_spec [OF n]
  have pt: "parse_tenant ?t = Inr ?t" using ns by simp
  have cb: "check_bound ?tx ?t = None" using ns by (simp add: check_bound_def current_tenant_def tenant_txn_def parse_tenant_valid)
  have ov: "order_valid (nm_versions n)" using ns by blast
  show ?thesis
  proof (cases "check_records ?t (nm_records n)")
    case (Some f)
    have "\<exists>x. f = DeadLetter x" by (rule check_records_dead [OF Some])
    then show ?thesis using p Some by (auto simp: prepare_def pt cb ov failed_def)
  next
    case None
    have lk: "list_all (linkable ?l) (nm_records n)" using ns by (intro handed_linkable [OF _ None]) auto
    have rdy: "ledger_ready (declared reg) ?l (pd_ledger d)"
      using ns inv by (simp add: ledger_ready_def ledger_bound_def tenant_txn_def pdb_inv_def)
    obtain out1 e1 rs where a: "admit_all ?l (nm_records n) ?out (pd_ledger d) = ((out1, e1), rs)" by (metis surj_pair)
    note sp = admit_all_spec [OF a rdy lk]
    show ?thesis
    proof (cases e1)
      case (Some f)
      then show ?thesis using p None sp by (auto simp: prepare_def pt cb ov a)
    next
      case e1: None
      show ?thesis
      proof (cases "mask_records mint ?tx ?t (pp_records out1) (pd_redactions d)")
        case (Inl x)
        have "(\<exists>y. mask_verdict x = DeadLetter y) \<or> mask_verdict x = Retryable x" by (cases x) auto
        then show ?thesis using p None Inl e1 by (auto simp: prepare_def pt cb ov a failed_def)
      next
        case (Inr pr)
        obtain recs reds where pr: "pr = (recs, reds)" by fastforce
        have o: "out = out1\<lparr>pp_records := recs\<rparr>" "err = None" "d' = \<lparr>pd_ledger = rs, pd_redactions = reds\<rparr>"
          using p None Inr e1 pr by (simp_all add: prepare_def pt cb ov a)
        note m = mask_records_spec [OF Inr [unfolded pr]]
        obtain new where new: "pp_records out1 = new" "distinct (map rc_id new)"
          "list_all (\<lambda>q. \<not> holds_id ?t (rc_id q) (pd_ledger d) \<and> linked_in ?t (nm_provider n) q rs \<and>
            list_ex (\<lambda>r. (\<exists>i. q = r\<lparr>rc_supersedes := i\<rparr>) \<and>
              \<not> settled (declared reg) ?t (nm_provider n) r (pd_ledger d)) (nm_records n)) new"
          using sp e1 by auto
        have l2: "list_all2 (\<lambda>r q. mask_record (red_lookup reds ?t) r = Inr q) new recs" using m new(1) by simp
        have one: "rc_id q = rc_id r \<and> prepared_from (declared reg) ?t n d d' q"
          if rq: "r \<in> set new" "mask_record (red_lookup reds ?t) r = Inr q" for r q
        proof -
          obtain ti te where q: "q = r\<lparr>rc_title := ti, rc_text := te\<rparr>" by (rule mask_record_fields [OF rq(2)])
          obtain u i where u: "u \<in> set (nm_records n)" "r = u\<lparr>rc_supersedes := i\<rparr>"
            "\<not> holds_id ?t (rc_id r) (pd_ledger d)" "linked_in ?t (nm_provider n) r rs"
            "\<not> settled (declared reg) ?t (nm_provider n) u (pd_ledger d)"
            using new(3) rq(1) by (auto simp: list_all_iff list_ex_iff)
          have "sealed_for u ?t" using ns u(1) handed_sealed by (auto simp: list_all_iff)
          then show ?thesis using u unfolding prepared_from_def list_ex_iff o(3) q by (auto simp: linked_in_def)
        qed
        have "list_all (prepared_from (declared reg) ?t n d d') recs" "map rc_id recs = map rc_id new"
          using list_all2_images [OF l2, of rc_id "prepared_from (declared reg) ?t n d d'"] one by simp_all
        moreover have "length recs = length new" using l2 by (simp add: list_all2_lengthD)
        moreover have "pdb_inv reg d'"
          using sp inv m unfolding o(3) pdb_inv_def ledger_ready_def red_extends_def by simp
        moreover have "ledger_le (declared reg) (pd_ledger d) (pd_ledger d')"
          "red_extends ?t (pd_redactions d) (pd_redactions d')" using sp m unfolding o(3) by simp_all
        moreover have "list_all (\<lambda>r. settled (declared reg) ?t (nm_provider n) r (pd_ledger d')) (nm_records n)"
          "admissions out1 = length (nm_records n)" "no_refusals out1"
          using sp e1 unfolding o(3) by (simp_all add: admissions_def no_refusals_def)
        ultimately show ?thesis
          using o(1,2) new(1,2) by (simp add: admissions_def no_refusals_def)
      qed
    qed
  qed
qed

lemma pipe_step_inv:
  assumes "pipe_step h reg d d'" "reg_ok reg" "pdb_inv reg d"
  shows "pdb_inv reg d' \<and> ledger_le (declared reg) (pd_ledger d) (pd_ledger d')"
  using assms(1) by cases (use prepare_spec [OF _ assms(2,3)] in blast)

lemma pipe_run_inv:
  "pipe_run h reg d d' \<Longrightarrow> reg_ok reg \<Longrightarrow> pdb_inv reg d \<Longrightarrow> pdb_inv reg d' \<and> ledger_le (declared reg) (pd_ledger d) (pd_ledger d')"
proof (induction rule: rtranclp_induct)
  case (step d1 d2)
  then show ?case using pipe_step_inv [OF step.hyps(2)] ledger_le_trans by blast
qed simp

lemma empty_pdb_inv: "pdb_inv reg empty_pdb"
  by (simp add: pdb_inv_def empty_pdb_def ledger_inv_def entity_rows_def red_inv_def)

lemma reached_inv: "new_registry ps = Inr reg \<Longrightarrow> pipe_run h reg empty_pdb d \<Longrightarrow> reg_ok reg \<and> pdb_inv reg d"
  using new_registry_ok pipe_run_inv [OF _ _ empty_pdb_inv] by blast

subsection \<open>A delivery taken through\<close>

definition ex_reg :: "unit registry" where
  "ex_reg = [(''fake'', ex_entry [ex_rec])]"

definition ex_pdelivery :: pdelivery where
  "ex_pdelivery = \<lparr>dv_tenant = ''acme'', dv_provider = ''fake'', dv_id = ''i1'', dv_body = ''x''\<rparr>"

definition ex_normalized :: normalized where
  "ex_normalized = \<lparr>nm_provider = ''fake'', nm_versions = OrderDecimal, nm_records = [ex_sealed], nm_automation = 0, nm_degraded = 0\<rparr>"

definition ex_ledger :: ledger where
  "ex_ledger = \<lparr>lg_tx = tenant_txn ''acme'', lg_tenant = ''acme'', lg_provider = ''fake'', lg_versions = OrderDecimal\<rparr>"

definition ex_pdb :: pdb where
  "ex_pdb = \<lparr>pd_ledger = [new_row ex_ledger ex_sealed None], pd_redactions = []\<rparr>"

definition ex_prepared :: prepared where
  "ex_prepared = \<lparr>pp_records = [ex_sealed], pp_skipped = 0, pp_stale = 0, pp_scope_returned = 0, pp_version_unordered = 0,
     pp_automation = 0, pp_degraded = 0\<rparr>"

lemma ex_new_reg: "new_registry [Some (ex_provider [ex_rec])] = Inr ex_reg"
  unfolding ex_reg_def by (rule ex_registry)

lemma ex_normalizes: "normalize toy_hash False ex_reg ex_pdelivery = Inr ex_normalized"
proof -
  have r: "ex_rec\<lparr>rc_delivery := ''i1''\<rparr> = ex_rec" "or_automation (rc_origin ex_rec) = False" by (simp_all add: ex_rec_def)
  show ?thesis
    by (simp add: normalize_def ex_pdelivery_def ex_reg_def reg_lookup_def en_source_def ex_entry_def ex_provider_def ex_source_def
        hydrate_and_normalize_def ex_normalized_def parse_tenant_valid valid_acme r ex_sealed_ok)
qed

lemma ex_prepares:
  "prepare (\<lambda>_. None) (Some (tenant_txn ''acme'')) ''acme'' ex_normalized empty_pdb = ((ex_prepared, None), ex_pdb)"
proof -
  have cb: "check_bound (tenant_txn ''acme'') ''acme'' = None"
    by (simp add: check_bound_def current_tenant_def tenant_txn_def parse_tenant_valid valid_acme)
  have f: "rc_external_id ex_sealed = ''fake:m1'' \<and> rc_title ex_sealed = [] \<and> rc_text ex_sealed = ''hi''"
    by (rule seal_fields [OF ex_sealed_ok],
        drule arg_cong [where f = "\<lambda>r. (rc_external_id r, rc_title r, rc_text r)"]) (simp add: ex_rec_def)
  have s: "sealed_for ex_sealed ''acme''"
    by (rule seal_fields [OF ex_sealed_ok], drule arg_cong [where f = rc_sealed_for]) (simp add: sealed_for_def)
  have c: "check_records ''acme'' [ex_sealed] = None" using s f by simp
  have lk: "linkable ex_ledger ex_sealed" by (rule sealed_linkable [of toy_hash ex_rec]) (simp_all add: ex_ledger_def ex_sealed_ok f)
  have b: "ledger_bound ex_ledger" by (simp add: ledger_bound_def ex_ledger_def tenant_txn_def)
  have "admit ex_ledger ex_sealed [] = link_record ex_ledger None ex_sealed []"
    by (simp add: admit_def Let_def ledger_head_def sql_entity_head_def ledger_known_def sql_ledger_entry_def)
  also have "\<dots> = ((Some ex_sealed, AdmitPrepare, None), [new_row ex_ledger ex_sealed None])"
    by (subst link_record_ok [OF b _ lk, where ord = "\<lambda>_. OrderDecimal"])
      (simp_all add: ledger_inv_def entity_rows_def holds_id_def ledger_head_def sql_entity_head_def demoted_def)
  finally have a: "admit ex_ledger ex_sealed [] = ((Some ex_sealed, AdmitPrepare, None), [new_row ex_ledger ex_sealed None])" .
  have fs: "find_secrets ''hi'' = []" "find_secrets [] = []" by code_simp+
  have "mask_record f ex_sealed = Inr ex_sealed" for f
    using f by (simp add: mask_record_def apply_tokens_def fs)
  then have m: "mask_records (\<lambda>_. None) (tenant_txn ''acme'') ''acme'' [ex_sealed] [] = Inr ([ex_sealed], [])"
    using f by (simp add: mask_records_def record_secrets_def secrets_def fs map_secrets_def Let_def)
  show ?thesis
    by (simp add: prepare_def ex_normalized_def empty_pdb_def parse_tenant_valid valid_acme cb order_valid_def c
        a [unfolded ex_ledger_def] m ex_prepared_def ex_pdb_def ex_ledger_def del: check_records.simps)
qed

lemma ex_step: "pipe_step toy_hash ex_reg empty_pdb ex_pdb"
  by (rule pipe_step.intros [OF ex_normalizes, where mint = "\<lambda>_. None" and out = ex_prepared])
    (simp add: ex_pdelivery_def ex_prepares)

lemma ex_run: "pipe_run toy_hash ex_reg empty_pdb ex_pdb"
  by (rule r_into_rtranclp) (rule ex_step)

text \<open>C34: In every state the pipeline reaches, the ledger is a chain per entity: of the rows of one
  tenant, provider and external id the first supersedes nothing, each later one supersedes the one
  before it and carries a version that is not older, and only the last is the head; no tenant has one
  record id twice, and the redaction map keeps one token per value and one value per token.\<close>

theorem ledger_is_a_chain_per_entity:
  assumes "new_registry ps = Inr reg" and "pipe_run h reg empty_pdb d"
  shows "chain (declared reg p) None (entity_rows t p e (pd_ledger d)) \<and>
    distinct (map (\<lambda>r. (l_tenant r, l_record_id r)) (pd_ledger d)) \<and> red_inv (pd_redactions d)"
  using reached_inv [OF assms] by (simp add: pdb_inv_def ledger_inv_def)

theorem ledger_is_a_chain_per_entity_witness:
  "chain OrderDecimal None (entity_rows ''acme'' ''fake'' ''fake:m1'' (pd_ledger ex_pdb))"
  using ledger_is_a_chain_per_entity [OF ex_new_reg ex_run, of "''fake''" "''acme''" "''fake:m1''"]
  by (simp add: declared_def ex_reg_def reg_lookup_def ex_entry_def)

theorem normalized_is_fit_to_prepare_witness:
  "list_all (\<lambda>q. sealed_for q ''acme'') (nm_records ex_normalized) \<and> order_valid (nm_versions ex_normalized)"
  using normalized_is_fit_to_prepare [OF ex_new_reg ex_normalizes] by (simp add: list_all_iff ex_pdelivery_def)



text \<open>Every record of a delivery is accounted for. When \<open>Prepare\<close> succeeds, its records and its
  counts of skipped and stale records add up to the delivery's, nothing was refused, and each record
  it returns is one of the delivery's with another link, title and text, still sealed for the tenant,
  new to the ledger, and written there with the link it carries. When it fails it returns no record,
  and the failure is a dead letter unless the masker, not the ledger, could not go on.\<close>

theorem prepare_accounts_for_every_record:
  assumes "new_registry ps = Inr reg" and "pipe_run h reg empty_pdb d" and "normalize h keep reg dl = Inr n"
    and "prepare mint (Some (tenant_txn (dv_tenant dl))) (dv_tenant dl) n d = ((out, err), d')"
  shows "(err = None \<longrightarrow> length (nm_records n) = length (pp_records out) + pp_skipped out + pp_stale out \<and>
       pp_scope_returned out = 0 \<and> pp_version_unordered out = 0 \<and> distinct (map rc_id (pp_records out)) \<and>
       list_all (\<lambda>q. list_ex (\<lambda>r. \<exists>i ti te. q = r\<lparr>rc_supersedes := i, rc_title := ti, rc_text := te\<rparr>) (nm_records n) \<and>
         sealed_for q (dv_tenant dl) \<and> \<not> holds_id (dv_tenant dl) (rc_id q) (pd_ledger d) \<and>
         linked_in (dv_tenant dl) (nm_provider n) q (pd_ledger d')) (pp_records out)) \<and>
     (err \<noteq> None \<longrightarrow> pp_records out = [] \<and> ((\<exists>x. err = Some (DeadLetter x)) \<or>
        (\<exists>recs x. mask_records mint (tenant_txn (dv_tenant dl)) (dv_tenant dl) recs (pd_redactions d) = Inl x \<and> err = Some (Retryable x))))"
proof -
  note r = reached_inv [OF assms(1,2)]
  note s = prepare_spec [OF assms(3) conjunct1 [OF r] conjunct2 [OF r] assms(4)]
  have "list_all (\<lambda>q. list_ex (\<lambda>r. \<exists>i ti te. q = r\<lparr>rc_supersedes := i, rc_title := ti, rc_text := te\<rparr>) (nm_records n) \<and>
         sealed_for q (dv_tenant dl) \<and> \<not> holds_id (dv_tenant dl) (rc_id q) (pd_ledger d) \<and>
         linked_in (dv_tenant dl) (nm_provider n) q (pd_ledger d')) (pp_records out)" if "err = None"
  proof -
    have "list_all (prepared_from (declared reg) (dv_tenant dl) n d d') (pp_records out)" using s that by blast
    then show ?thesis by (rule list.pred_mono_strong) (auto simp: prepared_from_def list_ex_iff)
  qed
  then show ?thesis using s unfolding admissions_def no_refusals_def by blast
qed

theorem prepare_accounts_for_every_record_witness:
  "length (nm_records ex_normalized) = length (pp_records ex_prepared) \<and>
   linked_in ''acme'' ''fake'' (hd (pp_records ex_prepared)) (pd_ledger ex_pdb)"
proof -
  have t: "dv_tenant ex_pdelivery = ''acme''" by (simp add: ex_pdelivery_def)
  have "length (nm_records ex_normalized) = length (pp_records ex_prepared) + pp_skipped ex_prepared + pp_stale ex_prepared"
    "list_all (\<lambda>q. linked_in ''acme'' (nm_provider ex_normalized) q (pd_ledger ex_pdb)) (pp_records ex_prepared)"
    using prepare_accounts_for_every_record [OF ex_new_reg rtranclp.rtrancl_refl ex_normalizes ex_prepares [folded t]]
    by (auto simp: t list_all_iff)
  then show ?thesis by (simp add: ex_prepared_def ex_normalized_def)
qed

text \<open>\<open>Prepare\<close> fails closed. A transaction that is not bound to the tenant being prepared for, and a
  delivery with one record that was not sealed for that tenant, or was changed since, are dead
  letters: no record comes back and neither the ledger nor the redaction map is touched.\<close>

theorem prepare_refuses_what_is_not_this_tenants:
  assumes "tx_tenant tx \<noteq> Some t \<or> list_ex (\<lambda>r. \<not> sealed_for r t) (nm_records n)"
  shows "\<exists>out x. prepare mint (Some tx) t n d = ((out, Some (DeadLetter x)), d) \<and> pp_records out = []"
proof (cases "valid_tenant t")
  case False
  then have pt: "parse_tenant t = Inl ErrInvalidID" by simp
  show ?thesis by (simp add: prepare_def failed_def pt Let_def)
next
  case True
  then have pt: "parse_tenant t = Inr t" by simp
  show ?thesis
  proof (cases "tx_tenant tx = Some t")
    case False
    have "check_bound tx t = Some (DeadLetter ErrTxNotBoundToTenant)"
    proof (cases "tx_tenant tx")
      case (Some b)
      then show ?thesis using False by (cases "valid_tenant b") (auto simp: check_bound_def current_tenant_def parse_tenant_def valid_tenant_def)
    qed (simp add: check_bound_def current_tenant_def)
    then show ?thesis by (simp add: prepare_def pt failed_def Let_def)
  next
    case bound: True
    then have cb: "check_bound tx t = None" by (simp add: check_bound_def current_tenant_def parse_tenant_valid True)
    have "\<not> sealed_for r t \<Longrightarrow> r \<in> set rs \<Longrightarrow> \<exists>x. check_records t rs = Some (DeadLetter x)" for r rs
      by (induction rs) auto
    then obtain x where "check_records t (nm_records n) = Some (DeadLetter x)"
      using assms bound by (auto simp: list_ex_iff)
    then show ?thesis by (simp add: prepare_def pt cb failed_def Let_def)
  qed
qed

theorem prepare_refuses_what_is_not_this_tenants_witness:
  "\<exists>out x. prepare (\<lambda>_. None) (Some (tenant_txn ''other'')) ''acme'' ex_normalized empty_pdb = ((out, Some (DeadLetter x)), empty_pdb)"
  using prepare_refuses_what_is_not_this_tenants [of "tenant_txn ''other''" "''acme''" ex_normalized "\<lambda>_. None" empty_pdb]
  by (auto simp: tenant_txn_def)

end
