(* ===== verification/Subscriptions.thy ===== *)
theory Subscriptions
  imports Registry
begin

text \<open>
  The table \<open>subscriptions\<close> (migrations 00003 and 00006), internal/hub/subscriptions.go and the
  statements of internal/hub/hubdb: registering a webhook subscription, and looking up the
  candidates a delivery's keys select, across tenants, under the resolver role. The id minted for a
  new subscription is an argument.
\<close>

record sub =
  su_id :: bytes
  su_tenant :: bytes
  su_provider :: bytes
  su_resource :: bytes
  su_workspace :: bytes
  su_external :: bytes
  su_secret :: bytes

abbreviation max_resource_len :: nat where "max_resource_len \<equiv> 512"

abbreviation max_sub_id_len :: nat where "max_sub_id_len \<equiv> 64"

abbreviation max_delivery_key_len :: nat where "max_delivery_key_len \<equiv> 256"

datatype sub_error = ErrInvalidSubscription bytes | ErrSubscriptionConflict | ErrSubTenancy tenancy_error | ErrSubDb

definition bad_key :: "bytes \<Rightarrow> bool" where
  "bad_key k \<longleftrightarrow> length k > max_delivery_key_len \<or> \<not> storable k"

definition validate_sub :: "sub \<Rightarrow> sub_error option" where
  "validate_sub s =
     (if \<not> is_ok (parse_tenant (su_tenant s)) then Some (ErrInvalidSubscription ''tenant'')
      else if \<not> valid_provider_key (su_provider s) then Some (ErrInvalidSubscription ''provider'')
      else if su_resource s = [] \<or> length (su_resource s) > max_resource_len \<or> \<not> storable (su_resource s)
      then Some (ErrInvalidSubscription ''resource'')
      else if su_workspace s = [] \<and> su_external s = [] then Some (ErrInvalidSubscription ''delivery key'')
      else if bad_key (su_workspace s) then Some (ErrInvalidSubscription ''workspace'')
      else if bad_key (su_external s) then Some (ErrInvalidSubscription ''external'')
      else if su_secret s = [] then Some (ErrInvalidSubscription ''secret'')
      else if su_id s \<noteq> [] \<and> (length (su_id s) > max_sub_id_len \<or> \<not> storable (su_id s))
      then Some (ErrInvalidSubscription ''id'')
      else None)"

subsection \<open>The statements\<close>

definition same_resource :: "sub \<Rightarrow> sub \<Rightarrow> bool" where
  "same_resource s q \<longleftrightarrow> su_tenant q = su_tenant s \<and> su_provider q = su_provider s \<and> su_resource q = su_resource s"

definition same_registration :: "sub \<Rightarrow> sub \<Rightarrow> bool" where
  "same_registration s q \<longleftrightarrow> su_tenant q = su_tenant s \<and> su_provider q = su_provider s \<and>
     su_external q = su_external s \<and> su_external s \<noteq> []"

definition sub_checks :: "sub \<Rightarrow> bool" where
  "sub_checks s \<longleftrightarrow> valid_tenant (su_tenant s) \<and> su_provider s \<noteq> [] \<and> su_resource s \<noteq> [] \<and>
     length (su_workspace s) \<le> 256 \<and> length (su_external s) \<le> 256 \<and> su_secret s \<noteq> [] \<and>
     (su_workspace s \<noteq> [] \<or> su_external s \<noteq> []) \<and>
     list_all storable [su_id s, su_provider s, su_resource s, su_workspace s, su_external s]"

text \<open>\<open>UpsertSubscription\<close>: the row already registered for the resource is updated in place and keeps its
  id; the unique indexes decide whether what results may stand.\<close>

definition sql_upsert_subscription :: "txn \<Rightarrow> sub \<Rightarrow> sub list \<Rightarrow> sub_error + sub \<times> sub list" where
  "sql_upsert_subscription tx s tbl =
     (if tx_tenant tx \<noteq> Some (su_tenant s) \<or> \<not> sub_checks s then Inl ErrSubDb
      else case find (same_resource s) tbl of
        Some old \<Rightarrow>
          let new = old\<lparr>su_workspace := su_workspace s, su_external := su_external s, su_secret := su_secret s\<rparr> in
          if list_ex (\<lambda>q. \<not> same_resource s q \<and> same_registration s q) tbl then Inl ErrSubscriptionConflict
          else Inr (new, map (\<lambda>q. if same_resource s q then new else q) tbl)
      | None \<Rightarrow>
          if list_ex (\<lambda>q. su_id q = su_id s) tbl then Inl ErrSubDb
          else if list_ex (same_registration s) tbl then Inl ErrSubscriptionConflict
          else Inr (s, tbl @ [s]))"

definition register :: "bytes \<Rightarrow> sub \<Rightarrow> sub list \<Rightarrow> (sub_error + sub) \<times> sub list" where
  "register new_id s tbl =
     (case validate_sub s of
        Some e \<Rightarrow> (Inl e, tbl)
      | None \<Rightarrow>
          let s' = (if su_id s = [] then s\<lparr>su_id := new_id\<rparr> else s) in
          tenant_tx ErrSubTenancy (su_tenant s)
            (\<lambda>tx t. bind_res (sql_upsert_subscription tx s' t) (\<lambda>(q, t'). Inr (q\<lparr>su_secret := su_secret s\<rparr>, t'))) tbl)"

text \<open>The two candidate queries. A cross-tenant transaction sees every row.\<close>

definition by_workspace :: "bytes \<Rightarrow> bytes \<Rightarrow> bytes \<Rightarrow> sub \<Rightarrow> bool" where
  "by_workspace p ws ext s \<longleftrightarrow> su_provider s = p \<and> su_workspace s = ws \<and>
     (su_external s = [] \<or> ext = [] \<or> su_external s = ext)"

definition by_subscription :: "bytes \<Rightarrow> bytes \<Rightarrow> bytes \<Rightarrow> sub \<Rightarrow> bool" where
  "by_subscription p ws ext s \<longleftrightarrow> su_provider s = p \<and> su_external s = ext \<and>
     (su_workspace s = [] \<or> ws = [] \<or> su_workspace s = ws)"

definition visible_sub :: "txn \<Rightarrow> sub \<Rightarrow> bool" where
  "visible_sub tx s \<longleftrightarrow> tx_cross tx \<or> tx_tenant tx = Some (su_tenant s)"

definition sql_candidates :: "txn \<Rightarrow> (sub \<Rightarrow> bool) \<Rightarrow> nat \<Rightarrow> sub list \<Rightarrow> sub list" where
  "sql_candidates tx P limit tbl = take limit (sort_key su_id (filter (\<lambda>s. visible_sub tx s \<and> P s) tbl))"

subsection \<open>The table\<close>

definition sub_inv :: "sub list \<Rightarrow> bool" where
  "sub_inv tbl \<longleftrightarrow> distinct (map su_id tbl) \<and> list_all sub_checks tbl \<and>
     (\<forall>s \<in> set tbl. \<forall>q \<in> set tbl. same_resource s q \<or> same_registration s q \<longrightarrow> q = s)"

lemma same_resource_sym: "same_resource s q \<longleftrightarrow> same_resource q s"
  by (auto simp: same_resource_def)

lemma same_registration_sym: "same_registration s q \<longleftrightarrow> same_registration q s"
  by (auto simp: same_registration_def)

lemma sub_inv_unique:
  "sub_inv tbl \<Longrightarrow> s \<in> set tbl \<Longrightarrow> q \<in> set tbl \<Longrightarrow> same_resource s q \<or> same_registration s q \<Longrightarrow> q = s"
  unfolding sub_inv_def by blast

lemma upsert_new_inv:
  assumes "sub_inv tbl" "sub_checks s" "find (same_resource s) tbl = None"
    "\<not> list_ex (\<lambda>q. su_id q = su_id s) tbl" "\<not> list_ex (same_registration s) tbl"
  shows "sub_inv (tbl @ [s])"
proof -
  have "\<forall>q \<in> set tbl. \<not> same_resource s q \<and> \<not> same_registration s q \<and> su_id q \<noteq> su_id s"
    using assms(3-5) by (auto simp: find_None_iff list_ex_iff)
  then show ?thesis using assms(1,2) same_resource_sym same_registration_sym unfolding sub_inv_def by auto
qed

lemma upsert_old_inv:
  assumes inv: "sub_inv tbl" and ok: "sub_checks s" and old: "old \<in> set tbl" "same_resource s old"
    and free: "\<not> list_ex (\<lambda>q. \<not> same_resource s q \<and> same_registration s q) tbl"
    and new: "new = old\<lparr>su_workspace := su_workspace s, su_external := su_external s, su_secret := su_secret s\<rparr>"
  shows "sub_inv (map (\<lambda>q. if same_resource s q then new else q) tbl)"
proof -
  have only: "q = old" if "q \<in> set tbl" "same_resource s q" for q
  proof -
    have "same_resource old q" using that(2) old(2) by (simp add: same_resource_def)
    then show ?thesis using sub_inv_unique [OF inv old(1) that(1)] by blast
  qed
  have nf: "su_id new = su_id old" "su_tenant new = su_tenant s" "su_provider new = su_provider s"
    "su_resource new = su_resource s" "su_external new = su_external s"
    using old(2) by (simp_all add: new same_resource_def)
  have ids: "map su_id (map (\<lambda>q. if same_resource s q then new else q) tbl) = map su_id tbl"
    using only nf(1) by (auto simp: comp_def)
  have "sub_checks new"
  proof -
    have "sub_checks old" using inv old(1) by (simp add: sub_inv_def list_all_iff)
    then show ?thesis using ok by (simp add: sub_checks_def new)
  qed
  then have "list_all sub_checks (map (\<lambda>q. if same_resource s q then new else q) tbl)"
    using inv by (auto simp: sub_inv_def list_all_iff)
  moreover have "b = a"
    if ab: "a \<in> set (map (\<lambda>q. if same_resource s q then new else q) tbl)"
      "b \<in> set (map (\<lambda>q. if same_resource s q then new else q) tbl)" "same_resource a b \<or> same_registration a b" for a b
  proof -
    have clash: "\<not> (same_resource new q \<or> same_registration new q)" if "q \<in> set tbl" "\<not> same_resource s q" for q
      using free that nf by (auto simp: list_ex_iff same_resource_def same_registration_def)
    obtain a0 b0 where ab0: "a0 \<in> set tbl" "b0 \<in> set tbl"
      "a = (if same_resource s a0 then new else a0)" "b = (if same_resource s b0 then new else b0)"
      using ab(1,2) by auto
    show ?thesis
    proof (cases "same_resource s a0"; cases "same_resource s b0")
      assume "same_resource s a0" "\<not> same_resource s b0"
      then show ?thesis using ab(3) ab0 clash [of b0] by simp
    next
      assume "\<not> same_resource s a0" "same_resource s b0"
      then have "same_resource a0 new \<or> same_registration a0 new" "\<not> (same_resource new a0 \<or> same_registration new a0)"
        using ab(3) ab0 clash [of a0] by simp_all
      then show ?thesis using same_resource_sym same_registration_sym by blast
    next
      assume "\<not> same_resource s a0" "\<not> same_resource s b0"
      then show ?thesis using ab(3) ab0 sub_inv_unique [OF inv, of a b] by simp
    qed (use ab0 in simp)
  qed
  moreover have "distinct (map su_id (map (\<lambda>q. if same_resource s q then new else q) tbl))"
    unfolding ids using inv by (simp add: sub_inv_def)
  ultimately show ?thesis unfolding sub_inv_def by blast
qed

lemma upsert_result:
  assumes "sql_upsert_subscription tx s tbl = Inr (q, tbl')" "sub_inv tbl"
  shows "sub_inv tbl' \<and> q \<in> set tbl' \<and> same_resource s q \<and> su_workspace q = su_workspace s \<and>
    su_external q = su_external s \<and> su_secret q = su_secret s \<and>
    (\<forall>old \<in> set tbl. same_resource s old \<longrightarrow> su_id q = su_id old \<and> length tbl' = length tbl) \<and>
    (\<forall>o' \<in> set tbl. \<not> same_resource s o' \<longrightarrow> o' \<in> set tbl') \<and>
    (\<forall>o' \<in> set tbl'. o' = q \<or> o' \<in> set tbl \<and> \<not> same_resource s o')"
proof (cases "find (same_resource s) tbl")
  case None
  have n: "\<forall>q \<in> set tbl. \<not> same_resource s q" using None by (simp add: find_None_iff)
  have r: "sub_checks s" "\<not> list_ex (\<lambda>q. su_id q = su_id s) tbl" "\<not> list_ex (same_registration s) tbl" "q = s" "tbl' = tbl @ [s]"
    using assms(1) None by (auto simp: sql_upsert_subscription_def split: if_splits)
  have "same_resource s s" by (simp add: same_resource_def)
  then show ?thesis using upsert_new_inv [OF assms(2) r(1) None r(2,3)] r(4,5) n by simp
next
  case (Some old)
  have o: "old \<in> set tbl" "same_resource s old" using find_Some_iff2 [OF Some] by simp_all
  let ?new = "old\<lparr>su_workspace := su_workspace s, su_external := su_external s, su_secret := su_secret s\<rparr>"
  have r: "sub_checks s" "\<not> list_ex (\<lambda>q. \<not> same_resource s q \<and> same_registration s q) tbl" "q = ?new"
    "tbl' = map (\<lambda>q. if same_resource s q then ?new else q) tbl"
    using assms(1) Some by (auto simp: sql_upsert_subscription_def Let_def split: if_splits)
  have "su_id x = su_id old" if "x \<in> set tbl" "same_resource s x" for x
  proof -
    have "same_resource old x" using that(2) o(2) by (simp add: same_resource_def)
    then show ?thesis using sub_inv_unique [OF assms(2) o(1) that(1)] by blast
  qed
  moreover have "q \<in> set tbl'" using o unfolding r(3,4) set_map by (intro image_eqI [of _ _ old]) auto
  moreover have "\<forall>o' \<in> set tbl. \<not> same_resource s o' \<longrightarrow> o' \<in> set tbl'" unfolding r(4) by auto
  moreover have "\<forall>o' \<in> set tbl'. o' = q \<or> o' \<in> set tbl \<and> \<not> same_resource s o'" unfolding r(3,4) by auto
  ultimately show ?thesis
    using upsert_old_inv [OF assms(2) r(1) o r(2) refl] o(2) r(3,4) by (simp add: same_resource_def)
qed

lemma register_result:
  assumes "register new_id s tbl = (Inr q, tbl')" "sub_inv tbl"
  shows "sub_inv tbl' \<and> q \<in> set tbl' \<and> same_resource s q \<and> su_workspace q = su_workspace s \<and>
    su_external q = su_external s \<and> su_secret q = su_secret s \<and>
    (\<forall>old \<in> set tbl. same_resource s old \<longrightarrow> su_id q = su_id old \<and> length tbl' = length tbl) \<and>
    (\<forall>o' \<in> set tbl. \<not> same_resource s o' \<longrightarrow> o' \<in> set tbl') \<and>
    (\<forall>o' \<in> set tbl'. o' = q \<or> o' \<in> set tbl \<and> \<not> same_resource s o')"
proof -
  let ?s = "if su_id s = [] then s\<lparr>su_id := new_id\<rparr> else s"
  have sf: "same_resource ?s = same_resource s" "su_workspace ?s = su_workspace s" "su_external ?s = su_external s" "su_secret ?s = su_secret s"
    by (auto simp: fun_eq_iff same_resource_def)
  have v: "validate_sub s = None" using assms(1) by (auto simp: register_def split: option.splits)
  obtain q0 where u: "sql_upsert_subscription \<lparr>tx_cross = False, tx_tenant = Some (su_tenant s)\<rparr> ?s tbl = Inr (q0, tbl')"
    "q = q0\<lparr>su_secret := su_secret s\<rparr>"
    using assms(1) v by (auto simp: register_def Let_def tenant_tx_commit bind_res_Inr)
  note r = upsert_result [OF u(1) assms(2), unfolded sf]
  have "q = q0" using r u(2) by (metis sub.surjective sub.update_convs(7))
  then show ?thesis using r by simp
qed

text \<open>Registering keeps the subscription table fit to resolve owners. Ids stay unique, every row stays
  one the columns take, and no tenant has two rows for one resource or for one registration of a
  provider; registering a resource again updates its row, which keeps its id, and touches no other;
  and a registration that is refused changes nothing.\<close>

theorem registering_keeps_the_table:
  assumes "sub_inv tbl" and "register new_id s tbl = (res, tbl')"
  shows "sub_inv tbl' \<and> (\<not> is_ok res \<longrightarrow> tbl' = tbl) \<and>
    (\<forall>q. res = Inr q \<longrightarrow> q \<in> set tbl' \<and> same_resource s q \<and> su_workspace q = su_workspace s \<and>
       su_external q = su_external s \<and> su_secret q = su_secret s \<and>
       (\<forall>old \<in> set tbl. same_resource s old \<longrightarrow> su_id q = su_id old \<and> length tbl' = length tbl) \<and>
       (\<forall>o' \<in> set tbl. \<not> same_resource s o' \<longrightarrow> o' \<in> set tbl'))"
proof (cases res)
  case (Inl e)
  then have "tbl' = tbl" using assms(2) by (auto simp: register_def Let_def dest: tenant_tx_rollback split: option.splits)
  then show ?thesis using Inl assms(1) by simp
next
  case (Inr q)
  then show ?thesis using register_result [of new_id s tbl q tbl'] assms by simp
qed

definition ex_sub :: sub where
  "ex_sub = \<lparr>su_id = ''s1'', su_tenant = ''acme'', su_provider = ''fake'', su_resource = ''r'', su_workspace = ''w1'',
     su_external = [], su_secret = ''k1''\<rparr>"

lemma ex_key: "valid_provider_key ''fake''"
  by (simp add: valid_provider_key_def valid_name_def is_lower_def)

lemma ex_sub_checks: "sub_checks ex_sub"
  by (simp add: sub_checks_def ex_sub_def valid_acme storable_eval ord_of_def)

lemma ex_registered: "register ''s1'' (ex_sub\<lparr>su_id := []\<rparr>) [] = (Inr ex_sub, [ex_sub])"
proof -
  have "validate_sub (ex_sub\<lparr>su_id := []\<rparr>) = None"
    by (simp add: validate_sub_def ex_sub_def parse_tenant_valid valid_acme ex_key bad_key_def storable_eval ord_of_def)
  moreover have "ex_sub\<lparr>su_id := [], su_id := ''s1''\<rparr> = ex_sub" "ex_sub\<lparr>su_secret := su_secret (ex_sub\<lparr>su_id := []\<rparr>)\<rparr> = ex_sub"
    "su_tenant ex_sub = ''acme''" by (simp_all add: ex_sub_def)
  ultimately show ?thesis
    by (simp add: register_def Let_def tenant_tx_valid valid_acme begin_tx_def sql_upsert_subscription_def ex_sub_checks)
qed

theorem registering_keeps_the_table_witness: "sub_inv [ex_sub] \<and> same_resource (ex_sub\<lparr>su_id := []\<rparr>) ex_sub"
  using registering_keeps_the_table [OF _ ex_registered] by (simp add: sub_inv_def)

end
