(* ===== verification/Hub.thy ===== *)
theory Hub
  imports Subscriptions Outbox
begin

text \<open>
  internal/hub/hub.go: whose data a delivery becomes. The state is the subscription table, which
  \<open>Accept\<close> reads, and the outbox, which it writes. \<open>verify_one\<close> is one call to a provider's \<open>Verify\<close>, with
  the panic and the run-out of time the hub guards against as answers. Log lines are left out.
\<close>

abbreviation default_max_candidates :: nat where "default_max_candidates \<equiv> 32"

abbreviation max_candidates_ceiling :: nat where "max_candidates_ceiling \<equiv> 1024"

datatype verdict = Stored | Duplicate | Parked | Unverified | NoVerdict

datatype hub_error =
    ErrNotASource | ErrBadCandidate bytes | ErrVerifyTimeout | ErrHubOutbox ob_error
  | ErrBadMaxCandidates | ErrURLNotConfigured bytes

text \<open>\<open>New\<close>: the checked number of candidates.\<close>

definition new_hub :: "'h registry \<Rightarrow> bytes \<Rightarrow> int \<Rightarrow> hub_error + nat" where
  "new_hub reg base_url max_candidates =
     (if max_candidates \<noteq> 0 \<and> (max_candidates < 1 \<or> max_candidates > int max_candidates_ceiling) then Inl ErrBadMaxCandidates
      else
        let n = (if max_candidates = 0 then default_max_candidates else nat max_candidates) in
        if base_url = [] then
          (case find (\<lambda>e. case en_source e of None \<Rightarrow> False | Some src \<Rightarrow> ws_signs_url src) (reg_entries reg) of
             Some e \<Rightarrow> Inl (ErrURLNotConfigured (en_key e))
           | None \<Rightarrow> Inr n)
        else Inr n)"

record candidate =
  ca_id :: bytes
  ca_tenant :: bytes
  ca_secret :: bytes

definition new_candidate :: "sub \<Rightarrow> hub_error + candidate" where
  "new_candidate s =
     (case parse_tenant (su_tenant s) of
        Inl _ \<Rightarrow> Inl (ErrBadCandidate (su_id s))
      | Inr t \<Rightarrow> if su_secret s = [] then Inl (ErrBadCandidate (su_id s))
                 else Inr \<lparr>ca_id = su_id s, ca_tenant = t, ca_secret = su_secret s\<rparr>)"

fun candidates_from :: "sub list \<Rightarrow> hub_error + candidate list" where
  "candidates_from [] = Inr []"
| "candidates_from (s # ss) =
     bind_res (new_candidate s) (\<lambda>c. bind_res (candidates_from ss) (\<lambda>cs. Inr (c # cs)))"

text \<open>\<open>deliveryKeys\<close>; \<open>None\<close> is any refusal, the delivery is unreadable.\<close>

definition delivery_keys_of :: "webhook_source \<Rightarrow> request \<Rightarrow> delivery_keys option" where
  "delivery_keys_of src req =
     (case ws_delivery_keys src (rq_body req) (rq_header req) of
        Inl _ \<Rightarrow> None
      | Inr k \<Rightarrow>
          if dk_workspace k = [] \<and> dk_subscription k = [] then None
          else if bad_key (dk_workspace k) \<or> bad_key (dk_subscription k) then None
          else Some k)"

text \<open>The union of the two queries, each row once.\<close>

fun add_unseen :: "bytes list \<Rightarrow> candidate list \<Rightarrow> candidate list" where
  "add_unseen seen [] = []"
| "add_unseen seen (c # cs) =
     (if ca_id c \<in> set seen then add_unseen seen cs else c # add_unseen (ca_id c # seen) cs)"

definition candidates_in :: "bytes \<Rightarrow> delivery_keys \<Rightarrow> nat \<Rightarrow> sub list \<Rightarrow> txn \<Rightarrow> hub_error + candidate list" where
  "candidates_in p k limit tbl tx =
     (let ws = dk_workspace k; ext = dk_subscription k in
      bind_res (if ws \<noteq> [] then candidates_from (sql_candidates tx (by_workspace p ws ext) limit tbl) else Inr [])
        (\<lambda>a. bind_res (if ext \<noteq> [] then candidates_from (sql_candidates tx (by_subscription p ws ext) limit tbl) else Inr [])
          (\<lambda>b. Inr (sort_key ca_id (add_unseen [] (a @ b))))))"

definition candidates :: "bytes \<Rightarrow> delivery_keys \<Rightarrow> nat \<Rightarrow> sub list \<Rightarrow> hub_error + candidate list" where
  "candidates p k max_candidates tbl =
     fst (role_tx (\<lambda>tx t. bind_res (candidates_in p k (max_candidates + 1) t tx) (\<lambda>cs. Inr (cs, t))) tbl)"

definition verify_one :: "webhook_source \<Rightarrow> request \<Rightarrow> bytes \<Rightarrow> verify_answer" where
  "verify_one src req secret = ws_verify src req secret"

text \<open>\<open>typeNameForLog\<close>: what a log line may say of the type of a recovered panic value, given its name as
  \<open>%T\<close> prints it.\<close>

abbreviation max_type_name_in_log :: nat where "max_type_name_in_log \<equiv> 128"

definition refused_type_name :: bytes where
  "refused_type_name = ''(not a plain type name)''"

definition type_name_char :: "char \<Rightarrow> bool" where
  "type_name_char c \<longleftrightarrow> is_lower c \<or> is_upper c \<or> is_digit c \<or> c \<in> set ''_.*[]/''"

definition type_name_for_log :: "bytes \<Rightarrow> bytes" where
  "type_name_for_log name =
     (if length name > max_type_name_in_log then refused_type_name
      else if list_all type_name_char name then name else refused_type_name)"

lemma type_name_for_log_bounded:
  "length (type_name_for_log name) \<le> max_type_name_in_log \<and>
   (type_name_for_log name = refused_type_name \<or> list_all type_name_char (type_name_for_log name))"
  by (simp add: type_name_for_log_def refused_type_name_def)

text \<open>\<open>verifyAll\<close>: the owners, and whether a verification panicked.\<close>

fun verify_all :: "webhook_source \<Rightarrow> request \<Rightarrow> candidate list \<Rightarrow> candidate list \<Rightarrow> hub_error + candidate list \<times> bool" where
  "verify_all src req owners [] = Inr (owners, False)"
| "verify_all src req owners (c # cs) =
     (case verify_one src req (ca_secret c) of
        VerifyStuck \<Rightarrow> Inl ErrVerifyTimeout
      | VerifyPanicked \<Rightarrow> Inr ([], True)
      | NotVerified \<Rightarrow> verify_all src req owners cs
      | Verified \<Rightarrow>
          let owners' = owners @ [c] in
          if length owners' > 1 then Inr (owners', False) else verify_all src req owners' cs)"

definition ordering_key :: "bytes \<Rightarrow> bytes \<Rightarrow> bytes" where
  "ordering_key p i = p @ '':'' @ i"

definition hub_park ::
  "(bytes \<Rightarrow> bytes) \<Rightarrow> int \<Rightarrow> bytes \<Rightarrow> bytes \<Rightarrow> bytes \<Rightarrow> park_reason \<Rightarrow> odb \<Rightarrow> (hub_error + verdict) \<times> odb" where
  "hub_park h now new_id p body reason d =
     (case park h now new_id p body reason d of
        (Inl e, d') \<Rightarrow> (Inl (ErrHubOutbox e), d')
      | (Inr _, d') \<Rightarrow> (Inr Parked, d'))"

definition hub_store ::
  "(bytes \<Rightarrow> bytes) \<Rightarrow> int \<Rightarrow> bytes \<Rightarrow> bytes \<Rightarrow> request \<Rightarrow> candidate \<Rightarrow> odb \<Rightarrow> (hub_error + verdict) \<times> odb" where
  "hub_store h now new_id p req owner d =
     (case accept h now new_id (ca_tenant owner)
             \<lparr>d_provider = p, d_ordering_key = ordering_key p (ca_id owner), d_raw_body = rq_body req\<rparr> d of
        (Inl (ErrBadOrderingKey n), d') \<Rightarrow> hub_park h now new_id p (rq_body req) ParkUnstorable d'
      | (Inl e, d') \<Rightarrow> (Inl (ErrHubOutbox e), d')
      | (Inr (_, fresh), d') \<Rightarrow> (Inr (if fresh then Stored else Duplicate), d'))"

definition hub_accept ::
  "(bytes \<Rightarrow> bytes) \<Rightarrow> int \<Rightarrow> bytes \<Rightarrow> nat \<Rightarrow> 'h reg_entry \<Rightarrow> request \<Rightarrow> sub list \<Rightarrow> odb
   \<Rightarrow> (hub_error + verdict) \<times> odb" where
  "hub_accept h now new_id max_candidates e req tbl d =
     (case en_source e of
        None \<Rightarrow> (Inl ErrNotASource, d)
      | Some src \<Rightarrow>
     (case delivery_keys_of src req of
        None \<Rightarrow> hub_park h now new_id (en_key e) (rq_body req) ParkUnreadable d
      | Some k \<Rightarrow>
     (case candidates (en_key e) k max_candidates tbl of
        Inl x \<Rightarrow> (Inl x, d)
      | Inr cs \<Rightarrow>
          if cs = [] then hub_park h now new_id (en_key e) (rq_body req) ParkNoOwner d
          else if length cs > max_candidates then hub_park h now new_id (en_key e) (rq_body req) ParkAmbiguousOwner d
          else
     (case verify_all src req [] cs of
        Inl x \<Rightarrow> (Inl x, d)
      | Inr (owners, panicked) \<Rightarrow>
          if panicked then hub_park h now new_id (en_key e) (rq_body req) ParkUnverifiable d
          else (case owners of
                  [] \<Rightarrow> (Inr Unverified, d)
                | [owner] \<Rightarrow> hub_store h now new_id (en_key e) req owner d
                | _ \<Rightarrow> hub_park h now new_id (en_key e) (rq_body req) ParkAmbiguousOwner d)))))"

end
