(* ===== verification/Url.thy ===== *)
theory Url
  imports Scope_Id
begin

text \<open>
  Go's net/url and path as the program uses them on what it builds: the escaping of a path segment and
  of a query for requests it sends, and \<open>path.Clean\<close>. Reading a URL is in Url_Parse.
\<close>

subsection \<open>Escaping\<close>

definition trim_suffix :: "bytes \<Rightarrow> bytes \<Rightarrow> bytes" where
  "trim_suffix s suf =
     (if length suf \<le> length s \<and> drop (length s - length suf) s = suf then take (length s - length suf) s else s)"

definition hex_val :: "char \<Rightarrow> nat option" where
  "hex_val c =
     (if is_digit c then Some (ord_of c - 48)
      else if CHR ''a'' \<le> c \<and> c \<le> CHR ''f'' then Some (ord_of c - 87)
      else if CHR ''A'' \<le> c \<and> c \<le> CHR ''F'' then Some (ord_of c - 55)
      else None)"

text \<open>\<open>url.PathEscape\<close> and \<open>url.QueryEscape\<close>.\<close>

definition percent :: "char \<Rightarrow> bytes" where
  "percent c = [CHR ''%'', upper_hex (ord_of c div 16), upper_hex (ord_of c mod 16)]"

definition path_escape :: "bytes \<Rightarrow> bytes" where
  "path_escape s = concat (map (\<lambda>c. if unreserved c \<or> c \<in> set ''$&+=:@'' then [c] else percent c) s)"

definition query_escape :: "bytes \<Rightarrow> bytes" where
  "query_escape s = concat (map (\<lambda>c. if unreserved c then [c] else if c = CHR '' '' then ''+'' else percent c) s)"

text \<open>\<open>url.Values.Encode\<close> of pairs in the order of their keys.\<close>

fun encode_query :: "(bytes \<times> bytes) list \<Rightarrow> bytes" where
  "encode_query [] = []"
| "encode_query [(k, v)] = query_escape k @ ''='' @ query_escape v"
| "encode_query ((k, v) # q) = query_escape k @ ''='' @ query_escape v @ ''&'' @ encode_query q"

subsection \<open>Clean paths\<close>

text \<open>\<open>path.Clean\<close> on a rooted path: the segments, empty ones and \<open>.\<close> dropped, \<open>..\<close> taking the one before.\<close>

fun split_slash :: "bytes \<Rightarrow> bytes list" where
  "split_slash [] = [[]]"
| "split_slash (c # s) =
     (if c = CHR ''/'' then [] # split_slash s
      else case split_slash s of [] \<Rightarrow> [[c]] | t # ts \<Rightarrow> (c # t) # ts)"

fun clean_segments :: "bytes list \<Rightarrow> bytes list \<Rightarrow> bytes list" where
  "clean_segments acc [] = rev acc"
| "clean_segments acc (s # ss) =
     (if s = [] \<or> s = ''.'' then clean_segments acc ss
      else if s = ''..'' then clean_segments (tl acc) ss
      else clean_segments (s # acc) ss)"

definition path_clean :: "bytes \<Rightarrow> bytes" where
  "path_clean p =
     (let ss = clean_segments [] (split_slash (tl p)) in
      if ss = [] then ''/'' else concat (map (Cons (CHR ''/'')) ss))"

lemma split_slash_ne [simp]: "split_slash s \<noteq> []"
  by (induction s) (auto split: list.splits)

lemma split_slash_cons: "split_slash (c # s) =
  (if c = CHR ''/'' then [] # split_slash s else (c # hd (split_slash s)) # tl (split_slash s))"
  by (cases "split_slash s") auto

lemma split_slash_plain: "CHR ''/'' \<notin> set s \<Longrightarrow> split_slash s = [s]"
  by (induction s) auto

lemma split_slash_append: "CHR ''/'' \<notin> set s \<Longrightarrow> split_slash (s @ CHR ''/'' # t) = s # split_slash t"
  by (induction s) auto

definition slashed :: "bytes list \<Rightarrow> bytes" where
  "slashed ss = concat (map (Cons (CHR ''/'')) ss)"

lemma slashed_simps [simp]: "slashed [] = []" "slashed (s # ss) = CHR ''/'' # s @ slashed ss"
  by (simp_all add: slashed_def)

lemma slashed_append: "slashed (xs @ ys) = slashed xs @ slashed ys"
  by (simp add: slashed_def)

text \<open>Splitting and writing out are inverse.\<close>

lemma slashed_split: "slashed (split_slash s) = CHR ''/'' # s"
proof (induction s)
  case (Cons c s)
  obtain t ts where "split_slash s = t # ts" using split_slash_ne by (metis list.exhaust)
  then show ?case using Cons by auto
qed simp

lemma split_slashed: "list_all (\<lambda>s. CHR ''/'' \<notin> set s) ss \<Longrightarrow> ss \<noteq> [] \<Longrightarrow> split_slash (tl (slashed ss)) = ss"
proof (induction ss)
  case (Cons s ss)
  show ?case
  proof (cases ss)
    case Nil
    then show ?thesis using Cons(2) by (simp add: split_slash_plain)
  next
    case (Cons t ts)
    then have "slashed ss = CHR ''/'' # tl (slashed ss)" by simp
    then have "split_slash (s @ slashed ss) = s # split_slash (tl (slashed ss))"
      using Cons.prems(1) split_slash_append [of s "tl (slashed ss)"] by simp
    then show ?thesis using Cons.IH Cons.prems Cons by simp
  qed
qed simp

lemma split_no_slash: "list_all (\<lambda>s. CHR ''/'' \<notin> set s) (split_slash s)"
proof (induction s)
  case (Cons c s)
  then show ?case by (cases "split_slash s") auto
qed simp

definition plain_segment :: "bytes \<Rightarrow> bool" where
  "plain_segment s \<longleftrightarrow> s \<noteq> [] \<and> s \<noteq> ''.'' \<and> s \<noteq> ''..''"

lemma clean_segments_plain:
  "list_all (\<lambda>s. s \<noteq> ''.'' \<and> s \<noteq> ''..'') ss \<Longrightarrow> clean_segments acc ss = rev acc @ filter (\<lambda>s. s \<noteq> []) ss"
  by (induction ss arbitrary: acc) auto

lemma clean_segments_result:
  "list_all plain_segment acc \<Longrightarrow> list_all plain_segment (clean_segments acc ss)"
proof (induction acc ss rule: clean_segments.induct)
  case (2 acc s ss)
  then show ?case by (cases acc) (auto simp: plain_segment_def)
qed simp

lemma clean_segments_set: "set (clean_segments acc ss) \<subseteq> set acc \<union> set ss"
proof (induction acc ss rule: clean_segments.induct)
  case (2 acc s ss)
  have "set (tl acc) \<subseteq> set acc" by (cases acc) auto
  then show ?case using 2 by auto
qed simp

lemma path_clean_eq: "clean_segments [] (split_slash (tl p)) = ss \<Longrightarrow> path_clean p = (if ss = [] then ''/'' else slashed ss)"
  by (auto simp: path_clean_def slashed_def Let_def)

end
