(* ===== verification/Ingress.thy ===== *)
theory Ingress
  imports Hub Url
begin

text \<open>
  internal/ingress/ingress.go: the webhook edge. An HTTP request is a record of what the handler
  reads of it; \<open>hr_sent\<close> are the bytes of the body that arrive and \<open>hr_complete\<close> whether they end as
  announced. The hub, the parser of media types (\<open>mime.ParseMediaType\<close>) and the routing of
  \<open>net/http.ServeMux\<close> are arguments. \<open>late\<close> tells which errors carry an exceeded deadline and \<open>gone\<close>
  whether the sender has hung up. Log lines are left out.
\<close>

record http_request =
  hr_method :: bytes
  hr_segment :: bytes
  hr_escaped_path :: bytes
  hr_request_uri :: bytes
  hr_header :: "bytes \<Rightarrow> bytes list"
  hr_content_length :: int
  hr_sent :: bytes
  hr_complete :: bool

record response =
  rs_status :: int
  rs_content_type :: bytes
  rs_retry_after :: "nat option"
  rs_body :: bytes

abbreviation default_max_body :: nat where "default_max_body \<equiv> 1048576"

abbreviation max_reply_body :: nat where "max_reply_body \<equiv> 8192"

abbreviation max_content_type :: nat where "max_content_type \<equiv> 64"

abbreviation retry_after :: nat where "retry_after \<equiv> 5"

definition newline :: bytes where
  "newline = [char_of (10 :: nat)]"

definition content_type_text :: bytes where
  "content_type_text = ''text/plain; charset=utf-8''"

definition not_found_body :: bytes where
  "not_found_body = ''no such provider'' @ newline"

definition respond :: "int \<Rightarrow> bytes \<Rightarrow> response" where
  "respond status msg = \<lparr>rs_status = status, rs_content_type = content_type_text, rs_retry_after = None, rs_body = msg\<rparr>"

subsection \<open>Verdicts\<close>

fun verdict_string :: "verdict \<Rightarrow> bytes" where
  "verdict_string Stored = ''stored''"
| "verdict_string Duplicate = ''duplicate''"
| "verdict_string Parked = ''parked''"
| "verdict_string Unverified = ''unverified''"
| "verdict_string NoVerdict = ''invalid''"

fun verdict_status :: "verdict \<Rightarrow> int" where
  "verdict_status Stored = 202"
| "verdict_status Duplicate = 200"
| "verdict_status Parked = 200"
| "verdict_status Unverified = 401"
| "verdict_status NoVerdict = 0"

subsection \<open>Paths\<close>

definition canonical_path :: "bytes \<Rightarrow> bool" where
  "canonical_path escaped =
     (if escaped = [] \<or> hd escaped \<noteq> CHR ''/'' then False
      else
        let clean = path_clean escaped in
        (if last escaped = CHR ''/'' \<and> clean \<noteq> ''/'' then clean @ ''/'' else clean) = escaped)"

subsection \<open>Routes\<close>

record route =
  rt_method :: bytes
  rt_path :: bytes
  rt_handled :: bool

datatype edge_error =
    ErrNilHandler | ErrNoSlash | ErrPathSpace | ErrPathEscape | ErrUnderEdge | ErrRouteMethod
  | ErrTwoRoutes bytes | ErrMuxRefused bytes | ErrGuardRefused bytes | ErrNegativeOption | ErrBadBaseURL

definition route_path :: bytes where
  "route_path = ''/ingress/{provider}''"

definition edge_prefix :: bytes where
  "edge_prefix = ''/ingress/''"

definition route_pattern :: "route \<Rightarrow> bytes" where
  "route_pattern r = (if rt_method r = [] then rt_path r else rt_method r @ '' '' @ rt_path r)"

definition route_check :: "route \<Rightarrow> edge_error option" where
  "route_check r =
     (if \<not> rt_handled r then Some ErrNilHandler
      else if \<not> has_prefix (rt_path r) ''/'' then Some ErrNoSlash
      else if CHR '' '' \<in> set (rt_path r) \<or> char_of (9 :: nat) \<in> set (rt_path r) then Some ErrPathSpace
      else if CHR ''%'' \<in> set (rt_path r) then Some ErrPathEscape
      else if has_prefix (rt_path r) edge_prefix then Some ErrUnderEdge
      else if \<not> list_all is_upper (rt_method r) then Some ErrRouteMethod
      else None)"

text \<open>Everything before the last slash, when that is not the first byte.\<close>

definition redirect_root :: "bytes \<Rightarrow> bytes option" where
  "redirect_root p =
     (let q = rev (tl (dropWhile (\<lambda>c. c \<noteq> CHR ''/'') (rev p))) in if q = [] then None else Some q)"

text \<open>\<open>newMux\<close>: the patterns registered. \<open>panics\<close> is a pattern the mux panics on after those registered
  before it, and \<open>redirects\<close> what it answers when it is asked.\<close>

fun register_patterns :: "(bytes list \<Rightarrow> bytes \<Rightarrow> bool) \<Rightarrow> route list \<Rightarrow> bytes list \<Rightarrow> edge_error + bytes list" where
  "register_patterns panics [] T = Inr T"
| "register_patterns panics (r # rs) T =
     (if panics T (route_pattern r) then Inl (ErrMuxRefused (route_pattern r))
      else register_patterns panics rs (T @ [route_pattern r]))"

fun add_guards ::
  "(bytes list \<Rightarrow> bytes \<Rightarrow> bool) \<Rightarrow> (bytes list \<Rightarrow> bytes \<Rightarrow> bytes \<Rightarrow> bool) \<Rightarrow> route list \<Rightarrow> bytes list \<Rightarrow> edge_error + bytes list" where
  "add_guards panics redirects [] T = Inr T"
| "add_guards panics redirects (r # rs) T =
     (case redirect_root (rt_path r) of
        None \<Rightarrow> add_guards panics redirects rs T
      | Some root \<Rightarrow>
          if \<not> redirects T (rt_method r) root then add_guards panics redirects rs T
          else let g = route_pattern (r\<lparr>rt_path := root\<rparr>) in
            if panics T g then Inl (ErrGuardRefused g) else add_guards panics redirects rs (T @ [g]))"

definition edge_route :: route where
  "edge_route = \<lparr>rt_method = ''POST'', rt_path = route_path, rt_handled = True\<rparr>"

fun first_repeat :: "bytes list \<Rightarrow> bytes list \<Rightarrow> bytes option" where
  "first_repeat seen [] = None"
| "first_repeat seen (p # ps) = (if p \<in> set seen then Some p else first_repeat (p # seen) ps)"

definition new_mux ::
  "(bytes list \<Rightarrow> bytes \<Rightarrow> bool) \<Rightarrow> (bytes list \<Rightarrow> bytes \<Rightarrow> bytes \<Rightarrow> bool) \<Rightarrow> route list \<Rightarrow> edge_error + bytes list" where
  "new_mux panics redirects routes =
     (case find (\<lambda>r. route_check r \<noteq> None) routes of
        Some r \<Rightarrow> Inl (the (route_check r))
      | None \<Rightarrow>
          let all = edge_route # routes in
          case first_repeat [] (map route_pattern all) of
            Some p \<Rightarrow> Inl (ErrTwoRoutes p)
          | None \<Rightarrow> bind_res (register_patterns panics all []) (add_guards panics redirects all))"

subsection \<open>The handshake's answer\<close>

definition handshake_status :: "int \<Rightarrow> bool" where
  "handshake_status status =
     (if status = 401 \<or> status = 403 then False
      else if 200 \<le> status \<and> status < 300 then True
      else if 400 \<le> status \<and> status < 500 then True
      else False)"

definition ascii_lower :: "char \<Rightarrow> char" where
  "ascii_lower c = (if is_upper c then char_of (ord_of c + 32) else c)"

text \<open>\<open>strings.EqualFold\<close> against the pure ASCII name \<open>utf-8\<close>; no other letter folds to one of its letters.\<close>

definition is_utf8_name :: "bytes \<Rightarrow> bool" where
  "is_utf8_name v \<longleftrightarrow> map ascii_lower v = ''utf-8''"

type_synonym media_parser = "bytes \<Rightarrow> (bytes \<times> (bytes \<times> bytes) list) option"

definition valid_handshake_content_type :: "media_parser \<Rightarrow> bytes \<Rightarrow> bool" where
  "valid_handshake_content_type parse_media s =
     (if length s > max_content_type then False
      else case parse_media s of
        None \<Rightarrow> False
      | Some (media_type, params) \<Rightarrow>
          media_type \<in> set [''application/json'', ''text/plain''] \<and>
          list_all (\<lambda>(name, value). name = ''charset'' \<and> is_utf8_name value) params)"

definition write_reply :: "media_parser \<Rightarrow> reply \<Rightarrow> response" where
  "write_reply parse_media reply =
     (let status = (if rp_status reply = 0 then 200 else rp_status reply);
          content_type = (if rp_content_type reply = [] then content_type_text else rp_content_type reply) in
      if \<not> handshake_status status \<or> length (rp_body reply) > max_reply_body \<or>
         \<not> valid_handshake_content_type parse_media content_type
      then respond 500 (''error'' @ newline)
      else \<lparr>rs_status = status, rs_content_type = content_type, rs_retry_after = None, rs_body = rp_body reply\<rparr>)"

subsection \<open>The body\<close>

text \<open>\<open>readBody\<close>, with the number of bytes of the body it takes off the connection.\<close>

definition read_body :: "nat \<Rightarrow> http_request \<Rightarrow> (response + bytes) \<times> nat" where
  "read_body max_body r =
     (let too_large = respond 413 (''body too large'' @ newline) in
      if hr_content_length r > int max_body then (Inl too_large, 0)
      else if length (hr_sent r) > max_body then (Inl too_large, Suc max_body)
      else if hr_complete r then (Inr (hr_sent r), length (hr_sent r))
      else (Inl (respond 400 (''body could not be read'' @ newline)), length (hr_sent r)))"

subsection \<open>The accept path\<close>

record 'h edge =
  eg_reg :: "'h registry"
  eg_max_body :: nat
  eg_public_base_url :: bytes
  eg_parse_media :: media_parser

text \<open>\<open>New\<close>'s checks of its options; \<open>norm_url\<close> is \<open>config.NormalizePublicBaseURL\<close>.\<close>

definition new_edge :: "(bytes \<Rightarrow> bytes option) \<Rightarrow> media_parser \<Rightarrow> 'h registry \<Rightarrow> int \<Rightarrow> int \<Rightarrow> bytes \<Rightarrow> edge_error + 'h edge" where
  "new_edge norm_url parse_media reg max_body accept_timeout base_url =
     (if max_body < 0 \<or> accept_timeout < 0 then Inl ErrNegativeOption
      else case (if base_url = [] then Some [] else norm_url base_url) of
        None \<Rightarrow> Inl ErrBadBaseURL
      | Some b \<Rightarrow> Inr \<lparr>eg_reg = reg, eg_max_body = (if max_body = 0 then default_max_body else nat max_body),
                       eg_public_base_url = b, eg_parse_media = parse_media\<rparr>)"

definition public_url :: "'h edge \<Rightarrow> http_request \<Rightarrow> bytes" where
  "public_url h r = (if eg_public_base_url h = [] then [] else eg_public_base_url h @ hr_request_uri r)"

text \<open>What the hub's answer becomes; \<open>None\<close> is nothing written, to a sender that has gone.\<close>

definition answer :: "('e \<Rightarrow> bool) \<Rightarrow> bool \<Rightarrow> 'e + verdict \<Rightarrow> response option" where
  "answer late gone a =
     (case a of
        Inl e \<Rightarrow>
          if gone then None
          else if late e then Some ((respond 503 (''try again'' @ newline))\<lparr>rs_retry_after := Some retry_after\<rparr>)
          else Some (respond 500 (''error'' @ newline))
      | Inr v \<Rightarrow>
          let status = verdict_status v in
          if status = 0 then Some (respond 500 (''error'' @ newline))
          else Some (respond status (verdict_string v @ newline)))"

type_synonym ('h, 'e, 's) hub_accepts = "'h reg_entry \<Rightarrow> request \<Rightarrow> 's \<Rightarrow> ('e + verdict) \<times> 's"

text \<open>\<open>serveHTTP\<close>: the response, the bytes of the body that were read, and the state after.\<close>

definition serve_http ::
  "'h edge \<Rightarrow> ('h, 'e, 's) hub_accepts \<Rightarrow> ('e \<Rightarrow> bool) \<Rightarrow> bool \<Rightarrow> http_request \<Rightarrow> 's \<Rightarrow> (response option \<times> nat) \<times> 's" where
  "serve_http h hub late gone r s =
     (case reg_lookup (eg_reg h) (hr_segment r) of
        None \<Rightarrow> ((Some (respond 404 not_found_body), 0), s)
      | Some entry \<Rightarrow>
     (case en_source entry of
        None \<Rightarrow> ((Some (respond 404 not_found_body), 0), s)
      | Some source \<Rightarrow>
     (case read_body (eg_max_body h) r of
        (Inl refused, n) \<Rightarrow> ((Some refused, n), s)
      | (Inr body, n) \<Rightarrow>
     (case ws_handshake source \<lparr>rq_method = hr_method r, rq_url = hr_request_uri r, rq_header = hr_header r, rq_body = []\<rparr> body of
        Some reply \<Rightarrow> ((Some (write_reply (eg_parse_media h) reply), n), s)
      | None \<Rightarrow>
          let (a, s') = hub entry \<lparr>rq_method = hr_method r, rq_url = public_url h r, rq_header = hr_header r, rq_body = body\<rparr> s in
          ((answer late gone a, n), s')))))"

text \<open>The guard in front of every route.\<close>

definition canonical_path_only ::
  "(http_request \<Rightarrow> 's \<Rightarrow> (response option \<times> nat) \<times> 's) \<Rightarrow> http_request \<Rightarrow> 's \<Rightarrow> (response option \<times> nat) \<times> 's" where
  "canonical_path_only next_handler r s =
     (if canonical_path (hr_escaped_path r) then next_handler r s
      else ((Some (respond 404 not_found_body), 0), s))"

end
