(* ===== verification/Hub_Facts.thy ===== *)
theory Hub_Facts
  imports Hub Outbox_Facts
begin

text \<open>
  What the hub guarantees about owners: the candidate set is the whole set of rows a delivery's keys
  select or it is visibly too large, a delivery is stored only for the one row whose secret verifies
  it, and the answer that rejects a signature is given exactly when every selected row rejected it.
\<close>

subsection \<open>The candidate set\<close>

definition selected :: "bytes \<Rightarrow> delivery_keys \<Rightarrow> sub list \<Rightarrow> sub set" where
  "selected p k tbl = {s \<in> set tbl.
     dk_workspace k \<noteq> [] \<and> by_workspace p (dk_workspace k) (dk_subscription k) s \<or>
     dk_subscription k \<noteq> [] \<and> by_subscription p (dk_workspace k) (dk_subscription k) s}"

definition cand :: "sub \<Rightarrow> candidate" where
  "cand s = \<lparr>ca_id = su_id s, ca_tenant = su_tenant s, ca_secret = su_secret s\<rparr>"

lemma cand_fields [simp]: "ca_id (cand s) = su_id s" "ca_tenant (cand s) = su_tenant s" "ca_secret (cand s) = su_secret s"
  by (simp_all add: cand_def)

lemma ca_id_cand: "ca_id \<circ> cand = su_id"
  by (simp add: fun_eq_iff)

lemma candidates_from_map: "list_all sub_checks ss \<Longrightarrow> candidates_from ss = Inr (map cand ss)"
  by (induction ss) (simp_all add: new_candidate_def sub_checks_def parse_tenant_valid cand_def)

lemma add_unseen_ids: "ca_id ` set (add_unseen seen cs) = ca_id ` set cs - set seen"
  by (induction seen cs rule: add_unseen.induct) auto

lemma add_unseen_subset: "set (add_unseen seen cs) \<subseteq> set cs"
  by (induction seen cs rule: add_unseen.induct) auto

lemma add_unseen_distinct: "distinct (map ca_id (add_unseen seen cs))"
proof (induction seen cs rule: add_unseen.induct)
  case (2 seen c cs)
  then show ?case using add_unseen_ids [of "ca_id c # seen" cs] by auto
qed simp

text \<open>With ids that name rows, dropping the rows already seen keeps the set of rows.\<close>

lemma add_unseen_set:
  assumes "inj_on ca_id (set cs)"
  shows "set (add_unseen [] cs) = set cs"
proof
  show "set cs \<subseteq> set (add_unseen [] cs)"
  proof
    fix c assume c: "c \<in> set cs"
    then have "ca_id c \<in> ca_id ` set (add_unseen [] cs)" using add_unseen_ids [of "[]" cs] by auto
    then obtain c' where "c' \<in> set (add_unseen [] cs)" "ca_id c' = ca_id c" by auto
    then show "c \<in> set (add_unseen [] cs)" using assms c add_unseen_subset [of "[]" cs] by (metis inj_onD subsetD)
  qed
qed (rule add_unseen_subset)

lemma sub_ids: "sub_inv tbl \<Longrightarrow> distinct (map su_id tbl)"
  by (simp add: sub_inv_def)

lemma sub_id_inj: "sub_inv tbl \<Longrightarrow> inj_on su_id (set tbl)"
  by (simp add: sub_inv_def distinct_map)

text \<open>One query: at most the limit, and everything when there is less.\<close>

definition picked :: "(sub \<Rightarrow> bool) \<Rightarrow> nat \<Rightarrow> sub list \<Rightarrow> sub list" where
  "picked P n tbl = take n (sort_key su_id (filter P tbl))"

lemma picked_subset: "set (picked P n tbl) \<subseteq> {s \<in> set tbl. P s}"
  using set_take_subset [of n "sort_key su_id (filter P tbl)"] by (auto simp: picked_def)

lemma picked_all: "length (filter P tbl) \<le> n \<Longrightarrow> set (picked P n tbl) = {s \<in> set tbl. P s}"
  by (simp add: picked_def)

lemma picked_distinct: "sub_inv tbl \<Longrightarrow> distinct (picked P n tbl)"
  by (simp add: picked_def distinct_map sub_inv_def)

lemma picked_checks: "sub_inv tbl \<Longrightarrow> list_all sub_checks (picked P n tbl)"
  using picked_subset [of P n tbl] by (auto simp: sub_inv_def list_all_iff)

lemma role_candidates:
  "sql_candidates (fresh_txn True) P n tbl = picked P n tbl"
  by (simp add: sql_candidates_def picked_def visible_sub_def fresh_txn_def)

abbreviation probe :: "bool \<Rightarrow> (sub \<Rightarrow> bool) \<Rightarrow> nat \<Rightarrow> sub list \<Rightarrow> sub list" where
  "probe b P n tbl \<equiv> (if b then picked P n tbl else [])"

lemma candidates_form:
  assumes "sub_inv tbl"
  defines "P \<equiv> \<lambda>p k. by_workspace p (dk_workspace k) (dk_subscription k)"
    and "Q \<equiv> \<lambda>p k. by_subscription p (dk_workspace k) (dk_subscription k)"
  shows "candidates p k m tbl = Inr (sort_key ca_id (add_unseen [] (map cand
     (probe (dk_workspace k \<noteq> []) (P p k) (Suc m) tbl @ probe (dk_subscription k \<noteq> []) (Q p k) (Suc m) tbl))))"
  using assms(1) unfolding P_def Q_def
  by (simp add: candidates_def role_tx_def begin_tx_def candidates_in_def Let_def role_candidates candidates_from_map picked_checks)

lemma probe_facts:
  assumes "sub_inv tbl"
  shows "distinct (probe b P n tbl)" and "set (probe b P n tbl) \<subseteq> {s \<in> set tbl. b \<and> P s}"
    and "\<And>m. length (probe b P (Suc m) tbl) \<le> m \<Longrightarrow> set (probe b P (Suc m) tbl) = {s \<in> set tbl. b \<and> P s}"
    and "\<And>m. card {s \<in> set tbl. b \<and> P s} \<le> m \<Longrightarrow> set (probe b P (Suc m) tbl) = {s \<in> set tbl. b \<and> P s}"
proof -
  show "distinct (probe b P n tbl)" using picked_distinct [OF assms] by simp
  show "set (probe b P n tbl) \<subseteq> {s \<in> set tbl. b \<and> P s}" using picked_subset [of P n tbl] by auto
  show "set (probe b P (Suc m) tbl) = {s \<in> set tbl. b \<and> P s}" if "length (probe b P (Suc m) tbl) \<le> m" for m
    using that picked_all [of P tbl "Suc m"] by (auto simp: picked_def min_def split: if_splits)
  show "set (probe b P (Suc m) tbl) = {s \<in> set tbl. b \<and> P s}" if "card {s \<in> set tbl. b \<and> P s} \<le> m" for m
  proof (cases b)
    case True
    have "distinct (filter P tbl)" using assms by (simp add: sub_inv_def distinct_map)
    then have "card {s \<in> set tbl. P s} = length (filter P tbl)" using distinct_card [of "filter P tbl"] by simp
    then show ?thesis using that True picked_all [of P tbl "Suc m"] by simp
  qed simp
qed

lemma union_length:
  assumes "inj_on ca_id (set xs \<union> set ys)" "distinct xs" "distinct ys"
  shows "length (add_unseen [] (xs @ ys)) = card (set xs \<union> set ys)"
    and "length xs \<le> length (add_unseen [] (xs @ ys))" and "length ys \<le> length (add_unseen [] (xs @ ys))"
proof -
  have d: "distinct (add_unseen [] (xs @ ys))" using add_unseen_distinct [of "[]" "xs @ ys"] by (simp add: distinct_map)
  have s: "set (add_unseen [] (xs @ ys)) = set xs \<union> set ys" using add_unseen_set [of "xs @ ys"] assms(1) by simp
  show e: "length (add_unseen [] (xs @ ys)) = card (set xs \<union> set ys)" using distinct_card [OF d] s by simp
  show "length xs \<le> length (add_unseen [] (xs @ ys))" "length ys \<le> length (add_unseen [] (xs @ ys))"
    using distinct_card [OF assms(2)] distinct_card [OF assms(3)] card_mono [of "set xs \<union> set ys"] e
    by (metis List.finite_set finite_UnI sup_ge1, metis List.finite_set finite_UnI card_mono sup_ge2)
qed

text \<open>Either the candidates are exactly the selected rows, each once, or there are visibly too many.\<close>

lemma candidates_are_the_selected:
  assumes inv: "sub_inv tbl"
  obtains cs where "candidates p k m tbl = Inr cs" "distinct (map ca_id cs)" "set cs \<subseteq> cand ` selected p k tbl"
    "length cs \<le> m \<longleftrightarrow> card (selected p k tbl) \<le> m" "length cs \<le> m \<longrightarrow> set cs = cand ` selected p k tbl"
    "cs = [] \<longleftrightarrow> selected p k tbl = {}"
proof -
  define P where "P = by_workspace p (dk_workspace k) (dk_subscription k)"
  define Q where "Q = by_subscription p (dk_workspace k) (dk_subscription k)"
  define a where "a = probe (dk_workspace k \<noteq> []) P (Suc m) tbl"
  define b where "b = probe (dk_subscription k \<noteq> []) Q (Suc m) tbl"
  define A where "A = {s \<in> set tbl. dk_workspace k \<noteq> [] \<and> P s}"
  define B where "B = {s \<in> set tbl. dk_subscription k \<noteq> [] \<and> Q s}"
  define u where "u = add_unseen [] (map cand (a @ b))"
  note fa = probe_facts [OF inv, of "dk_workspace k \<noteq> []" P, folded A_def]
  note fb = probe_facts [OF inv, of "dk_subscription k \<noteq> []" Q, folded B_def]
  have a: "distinct a" "set a \<subseteq> A" "length a \<le> m \<Longrightarrow> set a = A" "card A \<le> m \<Longrightarrow> set a = A"
    unfolding a_def by (rule fa(1), rule fa(2), rule fa(3), assumption, rule fa(4), assumption)
  have b: "distinct b" "set b \<subseteq> B" "length b \<le> m \<Longrightarrow> set b = B" "card B \<le> m \<Longrightarrow> set b = B"
    unfolding b_def by (rule fb(1), rule fb(2), rule fb(3), assumption, rule fb(4), assumption)
  have sel: "selected p k tbl = A \<union> B" unfolding selected_def A_def B_def P_def Q_def by blast
  have fin: "finite A" "finite B" unfolding A_def B_def by simp_all
  have sub: "set a \<union> set b \<subseteq> set tbl" using a(2) b(2) unfolding A_def B_def by blast
  have injc: "inj_on cand (set tbl)" using sub_id_inj [OF inv] by (auto simp: inj_on_def cand_def)
  have inj: "inj_on ca_id (cand ` (set a \<union> set b))"
    using inj_on_subset [OF sub_id_inj [OF inv] sub] by (auto simp: inj_on_def)
  have da: "distinct (map cand a)" and db: "distinct (map cand b)"
    using a(1) b(1) inj_on_subset [OF injc] sub by (simp_all add: distinct_map)
  have su: "set u = cand ` (set a \<union> set b)"
    using add_unseen_set [of "map cand (a @ b)"] inj unfolding u_def by (simp add: image_Un)
  have len: "length u = card (set a \<union> set b)" "length a \<le> length u" "length b \<le> length u"
    using union_length [of "map cand a" "map cand b"] inj da db card_image [OF inj_on_subset [OF injc sub]]
    unfolding u_def by (simp_all add: image_Un)
  have full: "set a = A \<and> set b = B" if "length u \<le> m \<or> card (A \<union> B) \<le> m"
  proof (cases "length u \<le> m")
    case True
    then show ?thesis using a(3) b(3) len(2,3) by (meson le_trans)
  next
    case False
    then have "card (A \<union> B) \<le> m" using that by blast
    moreover have "card A \<le> card (A \<union> B)" "card B \<le> card (A \<union> B)" using fin by (auto intro: card_mono)
    ultimately show ?thesis using a(4) b(4) by (meson le_trans)
  qed
  have none: "u = [] \<longleftrightarrow> A \<union> B = {}"
  proof
    assume "u = []"
    then have "length u \<le> m" "set a \<union> set b = {}" using su by simp_all
    then show "A \<union> B = {}" using full by simp
  next
    assume e: "A \<union> B = {}"
    then have "set a \<union> set b = {}" using a(2) b(2) by auto
    then show "u = []" using su by simp
  qed
  have many: "length u \<le> m \<longleftrightarrow> card (A \<union> B) \<le> m" using full len(1) by metis
  have du: "distinct (map ca_id u)" unfolding u_def by (rule add_unseen_distinct)
  have all: "set u = cand ` (A \<union> B)" if "length u \<le> m" using full that su by blast
  have some: "set u \<subseteq> cand ` (A \<union> B)" using su a(2) b(2) by blast
  have "distinct (map ca_id (sort_key ca_id u))" using du by (simp add: distinct_map)
  moreover have "candidates p k m tbl = Inr (sort_key ca_id u)"
    using candidates_form [OF inv, of p k m] unfolding u_def a_def b_def P_def Q_def .
  moreover have "sort_key ca_id u = [] \<longleftrightarrow> A \<union> B = {}" using none by (metis length_0_conv length_sort)
  ultimately show thesis using that [of "sort_key ca_id u"] many all some unfolding sel by simp
qed

subsection \<open>Verification\<close>

definition verdict_of :: "webhook_source \<Rightarrow> request \<Rightarrow> sub \<Rightarrow> verify_answer" where
  "verdict_of src req s = verify_one src req (su_secret s)"

lemma verify_all_owner:
  "verify_all src req os cs = Inr ([w], False) \<Longrightarrow>
     (os = [w] \<and> (\<forall>c \<in> set cs. verify_one src req (ca_secret c) = NotVerified)) \<or>
     (os = [] \<and> (\<exists>xs ys. cs = xs @ w # ys \<and> verify_one src req (ca_secret w) = Verified \<and>
        (\<forall>c \<in> set xs \<union> set ys. verify_one src req (ca_secret c) = NotVerified)))"
proof (induction src req os cs rule: verify_all.induct)
  case (2 src req owners c cs)
  show ?case
  proof (cases "verify_one src req (ca_secret c)")
    case Verified
    then have e: "owners = []" and r: "verify_all src req [c] cs = Inr ([w], False)"
      using 2(3) by (cases owners; simp add: Let_def)+
    then have "[c] = [w] \<and> (\<forall>c \<in> set cs. verify_one src req (ca_secret c) = NotVerified)"
      using 2(1) [OF Verified refl] e r by simp
    then have "c # cs = [] @ w # cs" "c = w" "\<forall>c \<in> set [] \<union> set cs. verify_one src req (ca_secret c) = NotVerified" by simp_all
    then show ?thesis using e Verified by blast
  next
    case NotVerified
    then have r: "verify_all src req owners cs = Inr ([w], False)" using 2(3) by simp
    from 2(2) [OF NotVerified r] show ?thesis
    proof
      assume "owners = [] \<and> (\<exists>xs ys. cs = xs @ w # ys \<and> verify_one src req (ca_secret w) = Verified \<and>
        (\<forall>c \<in> set xs \<union> set ys. verify_one src req (ca_secret c) = NotVerified))"
      then obtain xs ys where o: "owners = []" "c # cs = (c # xs) @ w # ys" "verify_one src req (ca_secret w) = Verified"
        "\<forall>x \<in> set (c # xs) \<union> set ys. verify_one src req (ca_secret x) = NotVerified"
        using NotVerified by auto
      then show ?thesis by blast
    qed (use NotVerified in simp)
  qed (use 2(3) in simp_all)
qed simp

lemma verify_all_none:
  "verify_all src req [] cs = Inr ([], False) \<longleftrightarrow> list_all (\<lambda>c. verify_one src req (ca_secret c) = NotVerified) cs"
proof -
  have keep: "verify_all src req os cs = Inr (os', p) \<Longrightarrow> os \<noteq> [] \<Longrightarrow> p \<or> os' \<noteq> []" for src req os cs os' p
    by (induction src req os cs rule: verify_all.induct) (auto simp: Let_def split: verify_answer.splits if_splits)
  show ?thesis
  proof (induction cs)
    case (Cons c cs)
    then show ?case
      using keep [of src req "[c]" cs "[]" False] by (cases "verify_one src req (ca_secret c)") (auto simp: Let_def)
  qed simp
qed

subsection \<open>Accepting\<close>

lemma hub_park_verdict: "hub_park h now i p body reason d = (Inr v, d') \<Longrightarrow> v = Parked"
  by (auto simp: hub_park_def split: prod.splits sum.splits)

lemma hub_store_verdict: "hub_store h now i p req c d = (Inr v, d') \<Longrightarrow> v \<noteq> Unverified"
  by (auto simp: hub_store_def dest: hub_park_verdict split: prod.splits sum.splits ob_error.splits if_splits)

lemma hub_store_stored:
  assumes "hub_store h now i p req c d = (Inr Stored, d')"
  obtains j where "accept h now i (ca_tenant c)
    \<lparr>d_provider = p, d_ordering_key = ordering_key p (ca_id c), d_raw_body = rq_body req\<rparr> d = (Inr (j, True), d')"
proof -
  obtain r d1 where run: "accept h now i (ca_tenant c)
    \<lparr>d_provider = p, d_ordering_key = ordering_key p (ca_id c), d_raw_body = rq_body req\<rparr> d = (r, d1)" by fastforce
  show thesis
  proof (cases r)
    case (Inl e)
    then have False using assms run by (auto simp: hub_store_def dest: hub_park_verdict split: ob_error.splits)
    then show ?thesis ..
  next
    case (Inr jf)
    then show ?thesis using assms run that by (cases jf) (auto simp: hub_store_def split: if_splits)
  qed
qed

text \<open>The ways a delivery with readable keys ends.\<close>

lemma hub_accept_ends [consumes 3, case_names park stuck refused owned]:
  assumes "en_source e = Some src" "delivery_keys_of src req = Some k" "candidates (en_key e) k m tbl = Inr cs"
  obtains (park) reason where "hub_accept h now i m e req tbl d = hub_park h now i (en_key e) (rq_body req) reason d"
      "\<not> (cs \<noteq> [] \<and> length cs \<le> m \<and> verify_all src req [] cs = Inr ([], False))"
  | (stuck) y where "verify_all src req [] cs = Inl y" "hub_accept h now i m e req tbl d = (Inl y, d)"
  | (refused) "cs \<noteq> []" "length cs \<le> m" "verify_all src req [] cs = Inr ([], False)"
      "hub_accept h now i m e req tbl d = (Inr Unverified, d)"
  | (owned) w where "cs \<noteq> []" "length cs \<le> m" "verify_all src req [] cs = Inr ([w], False)"
      "hub_accept h now i m e req tbl d = hub_store h now i (en_key e) req w d"
proof -
  note eq = assms hub_accept_def
  show thesis
  proof (cases "cs = [] \<or> length cs > m")
    case True
    then show thesis using park [of ParkNoOwner] park [of ParkAmbiguousOwner] by (cases "cs = []") (simp_all add: eq)
  next
    case False
    show thesis
    proof (cases "verify_all src req [] cs")
      case (Inl y)
      then show thesis using stuck False by (simp add: eq)
    next
      case (Inr op)
      then obtain os p where op: "verify_all src req [] cs = Inr (os, p)" by (cases op) simp
      show thesis
      proof (cases p)
        case True
        then show thesis using park [of ParkUnverifiable] False op by (simp add: eq)
      next
        case np: False
        consider "os = []" | w where "os = [w]" | x y zs where "os = x # y # zs" by (metis list.exhaust)
        then show thesis
          by cases (use refused owned park [of ParkAmbiguousOwner] False op np in \<open>simp_all add: eq\<close>)
      qed
    qed
  qed
qed

lemma unreadable_parks:
  "en_source e = Some src \<Longrightarrow> delivery_keys_of src req = None \<Longrightarrow>
   hub_accept h now i m e req tbl d = hub_park h now i (en_key e) (rq_body req) ParkUnreadable d"
  by (simp add: hub_accept_def)

text \<open>C37: A delivery is stored for a tenant only when that tenant is shown to own it: among all the
  subscription rows, of every tenant, that the delivery's keys select, exactly one has a secret that
  verifies the request, and every other one was asked and refused. What is then stored is the body
  that was verified, under that row's tenant and that row's queue.\<close>

theorem stored_for_the_only_verifying_row:
  assumes inv: "sub_inv tbl" and src: "en_source e = Some src"
    and run: "hub_accept h now i m e req tbl d = (Inr Stored, d')"
  shows "\<exists>k s j. delivery_keys_of src req = Some k \<and> s \<in> selected (en_key e) k tbl \<and>
    verdict_of src req s = Verified \<and>
    (\<forall>q \<in> selected (en_key e) k tbl - {s}. verdict_of src req q = NotVerified) \<and>
    accept h now i (su_tenant s) \<lparr>d_provider = en_key e, d_ordering_key = ordering_key (en_key e) (su_id s),
      d_raw_body = rq_body req\<rparr> d = (Inr (j, True), d')"
proof -
  have parks: "hub_park h now i p body reason d \<noteq> (Inr Stored, d')" for p body reason using hub_park_verdict by blast
  obtain k where k: "delivery_keys_of src req = Some k"
    using run unreadable_parks [OF src] parks by (cases "delivery_keys_of src req") auto
  obtain cs where cs: "candidates (en_key e) k m tbl = Inr cs" "distinct (map ca_id cs)"
    "set cs \<subseteq> cand ` selected (en_key e) k tbl" "length cs \<le> m \<longleftrightarrow> card (selected (en_key e) k tbl) \<le> m"
    "length cs \<le> m \<longrightarrow> set cs = cand ` selected (en_key e) k tbl" "cs = [] \<longleftrightarrow> selected (en_key e) k tbl = {}"
    by (rule candidates_are_the_selected [OF inv, of "en_key e" k m])
  have "length cs \<le> m \<and> (\<exists>w. verify_all src req [] cs = Inr ([w], False) \<and>
    hub_store h now i (en_key e) req w d = (Inr Stored, d'))"
  using src k cs(1) proof (cases rule: hub_accept_ends [where h = h and now = now and i = i and d = d])
    case park
    then show ?thesis using run parks by metis
  next
    case (owned w)
    then show ?thesis using run by simp
  qed (use run in simp_all)
  then obtain w where le: "length cs \<le> m" and w: "verify_all src req [] cs = Inr ([w], False)"
    "hub_store h now i (en_key e) req w d = (Inr Stored, d')" by blast
  note all = cs(5) [rule_format, OF le]
  obtain xs ys where xy: "cs = xs @ w # ys" "verify_one src req (ca_secret w) = Verified"
    "\<forall>c \<in> set xs \<union> set ys. verify_one src req (ca_secret c) = NotVerified"
    using verify_all_owner [OF w(1)] by auto
  then obtain s where s: "s \<in> selected (en_key e) k tbl" "w = cand s" using all by auto
  have "verdict_of src req q = NotVerified" if q: "q \<in> selected (en_key e) k tbl - {s}" for q
  proof -
    have "su_id q \<noteq> su_id s" using sub_id_inj [OF inv] q s(1) unfolding selected_def inj_on_def by blast
    then have "cand q \<in> set cs" "cand q \<noteq> w" using q all s(2) by (auto simp: cand_def)
    then show ?thesis using xy(1,3) by (force simp: verdict_of_def)
  qed
  moreover obtain j where "accept h now i (su_tenant s) \<lparr>d_provider = en_key e,
      d_ordering_key = ordering_key (en_key e) (su_id s), d_raw_body = rq_body req\<rparr> d = (Inr (j, True), d')"
    using hub_store_stored [OF w(2)] s(2) by auto
  ultimately show ?thesis using k s xy(2) by (auto simp: verdict_of_def)
qed

text \<open>C38: A signature is called forged exactly when it was refused by everything that could have vouched for
  it. The hub answers Unverified, and stores nothing, if and only if the delivery's keys are readable,
  they select at least one row and no more than the hub will verify, and the secret of every selected
  row refuses the request. A provider that panics, a timeout, an unknown workspace or too many
  candidates never look like a forgery.\<close>

theorem unverified_exactly_when_every_owner_refuses:
  assumes inv: "sub_inv tbl" and src: "en_source e = Some src"
  shows "hub_accept h now i m e req tbl d = (Inr Unverified, d') \<longleftrightarrow> d' = d \<and>
    (\<exists>k. delivery_keys_of src req = Some k \<and> selected (en_key e) k tbl \<noteq> {} \<and> card (selected (en_key e) k tbl) \<le> m \<and>
       (\<forall>s \<in> selected (en_key e) k tbl. verdict_of src req s = NotVerified))"
proof (cases "delivery_keys_of src req")
  case None
  then show ?thesis using unreadable_parks [OF src None] by (auto dest: hub_park_verdict)
next
  case (Some k)
  let ?S = "selected (en_key e) k tbl"
  have parks: "hub_park h now i p body reason d \<noteq> (Inr Unverified, d')" for p body reason using hub_park_verdict by blast
  have stores: "hub_store h now i p req c d \<noteq> (Inr Unverified, d')" for p c using hub_store_verdict by blast
  obtain cs where cs: "candidates (en_key e) k m tbl = Inr cs" "distinct (map ca_id cs)"
    "set cs \<subseteq> cand ` selected (en_key e) k tbl" "length cs \<le> m \<longleftrightarrow> card (selected (en_key e) k tbl) \<le> m"
    "length cs \<le> m \<longrightarrow> set cs = cand ` selected (en_key e) k tbl" "cs = [] \<longleftrightarrow> selected (en_key e) k tbl = {}"
    by (rule candidates_are_the_selected [OF inv, of "en_key e" k m])
  have "hub_accept h now i m e req tbl d = (Inr Unverified, d') \<longleftrightarrow>
    cs \<noteq> [] \<and> length cs \<le> m \<and> verify_all src req [] cs = Inr ([], False) \<and> d' = d"
  using src Some cs(1) proof (cases rule: hub_accept_ends [where h = h and now = now and i = i and d = d])
    case park
    then show ?thesis using parks by auto
  next
    case (owned w)
    then show ?thesis using stores by simp
  next
    case refused
    then show ?thesis by auto
  qed simp
  also have "\<dots> \<longleftrightarrow> d' = d \<and> ?S \<noteq> {} \<and> card ?S \<le> m \<and> (\<forall>s \<in> ?S. verdict_of src req s = NotVerified)"
    using cs(4-6) unfolding verify_all_none by (auto simp: list_all_iff verdict_of_def)
  finally show ?thesis using Some by simp
qed

text \<open>Nothing a sender does is an error. On a well-formed subscription table an error out of the hub is
  the outbox refusing to write or a verification that never returned, so every body, header and
  forged signature gets a verdict.\<close>

theorem a_sender_gets_a_verdict:
  assumes inv: "sub_inv tbl" and src: "en_source e = Some src"
    and run: "hub_accept h now i m e req tbl d = (Inl x, d')"
  shows "(\<exists>o'. x = ErrHubOutbox o') \<or>
    x = ErrVerifyTimeout \<and> d' = d \<and> (\<exists>s \<in> set tbl. verdict_of src req s = VerifyStuck)"
proof -
  have parks: "hub_park h now i p body reason d = (Inl x, d') \<Longrightarrow> \<exists>o'. x = ErrHubOutbox o'" for p body reason
    by (auto simp: hub_park_def split: prod.splits sum.splits)
  have stores: "hub_store h now i p req c d = (Inl x, d') \<Longrightarrow> \<exists>o'. x = ErrHubOutbox o'" for p c
    by (auto simp: hub_store_def hub_park_def split: prod.splits sum.splits ob_error.splits)
  have stuck: "verify_all src req os cs = Inl y \<Longrightarrow> y = ErrVerifyTimeout \<and> (\<exists>c \<in> set cs. verify_one src req (ca_secret c) = VerifyStuck)"
    for os cs y
    by (induction src req os cs rule: verify_all.induct) (auto simp: Let_def split: verify_answer.splits if_splits)
  show ?thesis
  proof (cases "delivery_keys_of src req")
    case None
    then show ?thesis using unreadable_parks [OF src None] run parks by simp
  next
    case (Some k)
    obtain cs where cs: "candidates (en_key e) k m tbl = Inr cs" "distinct (map ca_id cs)"
    "set cs \<subseteq> cand ` selected (en_key e) k tbl" "length cs \<le> m \<longleftrightarrow> card (selected (en_key e) k tbl) \<le> m"
    "length cs \<le> m \<longrightarrow> set cs = cand ` selected (en_key e) k tbl" "cs = [] \<longleftrightarrow> selected (en_key e) k tbl = {}"
    by (rule candidates_are_the_selected [OF inv, of "en_key e" k m])
    have sub: "\<forall>c \<in> set cs. \<exists>s \<in> set tbl. ca_secret c = su_secret s" using cs(3) by (force simp: selected_def)
    consider (park) reason where "hub_park h now i (en_key e) (rq_body req) reason d = (Inl x, d')"
      | (store) c where "hub_store h now i (en_key e) req c d = (Inl x, d')"
      | (verify) "verify_all src req [] cs = Inl x" "d' = d"
    using src Some cs(1) proof (cases rule: hub_accept_ends [where h = h and now = now and i = i and d = d])
      case (park reason)
      then show ?thesis using that(1) run by simp
    next
      case (stuck y)
      then show ?thesis using that(3) run by simp
    next
      case (owned w)
      then show ?thesis using that(2) run by simp
    qed (use run in simp)
    then show ?thesis
    proof cases
      case verify
      then show ?thesis using stuck [OF verify(1)] sub unfolding verdict_of_def by metis
    qed (use parks stores in blast)+
  qed
qed

subsection \<open>The theorems at work\<close>

definition ex_req :: request where
  "ex_req = \<lparr>rq_method = ''POST'', rq_url = [], rq_header = (\<lambda>_. []), rq_body = ''body''\<rparr>"

definition stuck_entry :: "unit reg_entry" where
  "stuck_entry = \<lparr>en_key = ''fake'', en_versions = OrderDecimal,
     en_provider = (ex_provider [])\<lparr>pv_source := Some (ex_source\<lparr>ws_verify := (\<lambda>_ _. VerifyStuck)\<rparr>)\<rparr>\<rparr>"

lemma ex_keys: "ws_delivery_keys src = ws_delivery_keys ex_source \<Longrightarrow>
  delivery_keys_of src ex_req = Some \<lparr>dk_workspace = ''w1'', dk_subscription = []\<rparr>"
  by (simp add: delivery_keys_of_def ex_source_def bad_key_def storable_eval ord_of_def)

lemma ex_table: "sub_inv [ex_sub\<lparr>su_secret := c # s\<rparr>]"
  using ex_sub_checks by (simp add: sub_inv_def sub_checks_def)

lemma ex_found: "candidates ''fake'' \<lparr>dk_workspace = ''w1'', dk_subscription = []\<rparr> 32 [ex_sub\<lparr>su_secret := c # s\<rparr>] =
  Inr [\<lparr>ca_id = ''s1'', ca_tenant = ''acme'', ca_secret = c # s\<rparr>]"
  unfolding candidates_form [OF ex_table]
  by (simp add: picked_def by_workspace_def ex_sub_def cand_def)

lemma ex_selected: "selected ''fake'' \<lparr>dk_workspace = ''w1'', dk_subscription = []\<rparr> [ex_sub\<lparr>su_secret := s\<rparr>] =
  {ex_sub\<lparr>su_secret := s\<rparr>}"
  by (auto simp: selected_def by_workspace_def ex_sub_def)

lemma ex_en_source: "en_source (ex_entry []) = Some ex_source" "en_key (ex_entry []) = ''fake''"
  by (simp_all add: en_source_def ex_entry_def ex_provider_def)

lemma ex_verify: "verify_one ex_source req s = (if s = ''k1'' then Verified else NotVerified)"
  by (simp add: verify_one_def ex_source_def)

lemma ex_stored: "\<exists>d'. hub_accept ex_hash 0 ''i1'' 32 (ex_entry []) ex_req [ex_sub\<lparr>su_secret := ''k1''\<rparr>] empty_odb = (Inr Stored, d')"
proof -
  have "\<exists>d'. accept ex_hash 0 ''i1'' ''acme'' \<lparr>d_provider = ''fake'', d_ordering_key = ''fake:s1'', d_raw_body = rq_body ex_req\<rparr> empty_odb =
    (Inr (''i1'', True), d')"
    by (simp add: accept_eval valid_acme empty_odb_def ex_req_def)
  then show ?thesis
    by (auto simp: hub_accept_def ex_en_source ex_keys ex_found ex_verify hub_store_def ordering_key_def)
qed

theorem stored_for_the_only_verifying_row_witness:
  "\<exists>d' j. accept ex_hash 0 ''i1'' ''acme'' \<lparr>d_provider = ''fake'', d_ordering_key = ''fake:s1'', d_raw_body = rq_body ex_req\<rparr>
    empty_odb = (Inr (j, True), d')"
proof -
  obtain d' where run: "hub_accept ex_hash 0 ''i1'' 32 (ex_entry []) ex_req [ex_sub\<lparr>su_secret := ''k1''\<rparr>] empty_odb = (Inr Stored, d')"
    using ex_stored by blast
  have "su_tenant (ex_sub\<lparr>su_secret := ''k1''\<rparr>) = ''acme''" "su_id (ex_sub\<lparr>su_secret := ''k1''\<rparr>) = ''s1''"
    by (simp_all add: ex_sub_def)
  with stored_for_the_only_verifying_row [OF ex_table ex_en_source(1) run]
  show ?thesis by (auto simp: ex_keys ex_en_source ex_selected ordering_key_def)
qed

theorem unverified_exactly_when_every_owner_refuses_witness:
  "hub_accept ex_hash 0 ''i1'' 32 (ex_entry []) ex_req [ex_sub\<lparr>su_secret := ''k2''\<rparr>] empty_odb = (Inr Unverified, empty_odb)"
  unfolding unverified_exactly_when_every_owner_refuses [OF ex_table ex_en_source(1)]
  by (simp add: ex_keys ex_en_source ex_selected verdict_of_def verify_one_def ex_source_def)

theorem a_sender_gets_a_verdict_witness:
  "\<exists>s \<in> set [ex_sub\<lparr>su_secret := ''k1''\<rparr>]. verdict_of (ex_source\<lparr>ws_verify := (\<lambda>_ _. VerifyStuck)\<rparr>) ex_req s = VerifyStuck"
proof -
  let ?src = "ex_source\<lparr>ws_verify := (\<lambda>_ _. VerifyStuck)\<rparr>"
  have src: "en_source stuck_entry = Some ?src" "en_key stuck_entry = ''fake''"
    by (simp_all add: en_source_def stuck_entry_def)
  have "hub_accept ex_hash 0 ''i1'' 32 stuck_entry ex_req [ex_sub\<lparr>su_secret := ''k1''\<rparr>] empty_odb = (Inl ErrVerifyTimeout, empty_odb)"
    by (simp add: hub_accept_def src ex_keys ex_found verify_one_def)
  from a_sender_gets_a_verdict [OF ex_table src(1) this] show ?thesis by simp
qed

end
