(* ===== verification/Ingress_Facts.thy ===== *)
theory Ingress_Facts
  imports Ingress Hub_Facts
begin

text \<open>
  The response codes as a contract, proved once for any hub that keeps its side of the interface and
  then for the hub of this program, and which paths reach a handler.
\<close>

subsection \<open>Canonical paths\<close>

text \<open>The paths that are served: rooted, with no dot segment and no empty segment but the last.\<close>

definition good_path :: "bytes \<Rightarrow> bool" where
  "good_path e \<longleftrightarrow> e \<noteq> [] \<and> hd e = CHR ''/'' \<and>
     list_all (\<lambda>s. s \<noteq> ''.'' \<and> s \<noteq> ''..'') (split_slash (tl e)) \<and> [] \<notin> set (butlast (split_slash (tl e)))"

lemma slashed_last:
  assumes "ss \<noteq> []" "last ss \<noteq> []" "CHR ''/'' \<notin> set (last ss)"
  shows "last (slashed ss) \<noteq> CHR ''/''"
proof -
  have "slashed ss = slashed (butlast ss) @ CHR ''/'' # last ss"
    using slashed_append [of "butlast ss" "[last ss]"] assms(1) by simp
  then have "last (slashed ss) \<in> set (last ss)" using assms(2) by simp
  then show ?thesis using assms(3) by metis
qed

lemma canonical_path_via:
  assumes "e \<noteq> []" "hd e = CHR ''/''" "path_clean e = p"
  shows "canonical_path e \<longleftrightarrow> (if last e = CHR ''/'' \<and> p \<noteq> ''/'' then p @ ''/'' else p) = e"
  unfolding canonical_path_def assms(3) using assms(1,2) by (simp add: Let_def)

lemma good_path_canonical:
  assumes "good_path e"
  shows "canonical_path e"
proof -
  define ss where "ss = split_slash (tl e)"
  have e: "e = CHR ''/'' # tl e" "e \<noteq> []" "hd e = CHR ''/''" using assms by (cases e; simp add: good_path_def)+
  have ne: "ss \<noteq> []" by (simp add: ss_def)
  have dots: "list_all (\<lambda>s. s \<noteq> ''.'' \<and> s \<noteq> ''..'') ss" and empt: "[] \<notin> set (butlast ss)"
    using assms by (simp_all add: good_path_def ss_def)
  have es: "slashed ss = e" using slashed_split [of "tl e"] e(1) unfolding ss_def by simp
  have nos: "CHR ''/'' \<notin> set (last ss)" using split_no_slash [of "tl e"] ne unfolding ss_def by (simp add: list_all_iff)
  have split: "ss = butlast ss @ [last ss]" using ne by simp
  have bl: "filter (\<lambda>s. s \<noteq> []) (butlast ss) = butlast ss" using empt by (auto simp: filter_id_conv)
  have fl: "filter (\<lambda>s. s \<noteq> []) ss = butlast ss @ (if last ss = [] then [] else [last ss])"
    by (subst split, simp only: filter_append bl) simp
  have cl: "clean_segments [] (split_slash (tl e)) = butlast ss @ (if last ss = [] then [] else [last ss])"
    using clean_segments_plain [OF dots, of "[]"] fl by (simp add: ss_def)
  show ?thesis
  proof (cases "last ss = []")
    case True
    have eb: "e = slashed (butlast ss) @ ''/''"
      using es split True by (metis slashed_append slashed_simps append_Nil append_Nil2)
    have "slashed (butlast ss) \<noteq> ''/''"
    proof (cases "butlast ss")
      case (Cons t ts)
      then show ?thesis using empt by (cases t) auto
    qed simp
    then show ?thesis
      unfolding canonical_path_via [OF e(2,3) path_clean_eq [OF cl]] using True eb by (cases "butlast ss = []") simp_all
  next
    case False
    then have "last e \<noteq> CHR ''/''" using slashed_last [OF ne False nos] es by simp
    then show ?thesis
      unfolding canonical_path_via [OF e(2,3) path_clean_eq [OF cl]] using False es split ne by simp
  qed
qed

lemma canonical_path_good:
  assumes "canonical_path e"
  shows "good_path e"
proof -
  define ts where "ts = clean_segments [] (split_slash (tl e))"
  have hd: "e \<noteq> []" "hd e = CHR ''/''" using assms by (auto simp: canonical_path_def split: if_splits)
  have plain: "list_all plain_segment ts" unfolding ts_def by (rule clean_segments_result) simp
  have nos: "list_all (\<lambda>s. CHR ''/'' \<notin> set s) ts"
    using clean_segments_set [of "[]" "split_slash (tl e)"] split_no_slash [of "tl e"] unfolding ts_def list_all_iff by fastforce
  have ends: "ts = [] \<and> e = ''/'' \<or> ts \<noteq> [] \<and> (e = slashed ts \<or> e = slashed ts @ ''/'')"
    using assms unfolding canonical_path_via [OF hd path_clean_eq [OF ts_def [symmetric]]]
    by (cases "ts = []") (auto split: if_splits)
  have "split_slash (tl e) = ts \<or> split_slash (tl e) = ts @ [[]]"
  proof (cases "ts = []")
    case True
    then show ?thesis using ends by auto
  next
    case False
    then have "tl (slashed (ts @ [[]])) = tl (slashed ts @ ''/'')" by (simp add: slashed_append)
    moreover have "split_slash (tl (slashed ts)) = ts" "split_slash (tl (slashed (ts @ [[]]))) = ts @ [[]]"
      using split_slashed [of ts] split_slashed [of "ts @ [[]]"] nos False by simp_all
    ultimately show ?thesis using ends False by auto
  qed
  moreover have "\<forall>t \<in> set ts. t \<noteq> [] \<and> t \<noteq> ''.'' \<and> t \<noteq> ''..''" using plain by (simp add: plain_segment_def list_all_iff)
  moreover have "[] \<in> set (butlast ts) \<Longrightarrow> [] \<in> set ts" by (rule in_set_butlastD)
  ultimately have "list_all (\<lambda>s. s \<noteq> ''.'' \<and> s \<noteq> ''..'') (split_slash (tl e)) \<and> [] \<notin> set (butlast (split_slash (tl e)))"
    unfolding list_all_iff by (elim disjE) (simp, blast, auto)
  then show ?thesis using hd by (simp add: good_path_def)
qed

text \<open>The paths the guard lets through are exactly the ones that need no cleaning: they start with a
  slash, no segment is a dot or a double dot, and no segment but the last is empty. What it compares
  is the standard library's cleaning of the path with the path as it arrived.\<close>

theorem canonical_path_exactly: "canonical_path e \<longleftrightarrow> good_path e"
  using good_path_canonical canonical_path_good by blast

subsection \<open>The accept path\<close>

lemma reply_not_401: "rs_status (write_reply parse reply) \<noteq> 401"
  by (auto simp: write_reply_def respond_def handshake_status_def Let_def)

lemma refused_not_401: "read_body m r = (Inl x, n) \<Longrightarrow> rs_status x \<in> {400, 413}"
  by (auto simp: read_body_def respond_def Let_def split: if_splits)

text \<open>The ways a request ends.\<close>

lemma serve_cases [consumes 1, case_names unknown unread handshake accepted]:
  assumes "serve_http h hub late gone r s = ((res, n), s')"
  obtains "\<And>e. reg_lookup (eg_reg h) (hr_segment r) = Some e \<Longrightarrow> en_source e = None"
      "res = Some (respond 404 not_found_body)" "n = 0" "s' = s"
  | e src x where "reg_lookup (eg_reg h) (hr_segment r) = Some e" "en_source e = Some src"
      "read_body (eg_max_body h) r = (Inl x, n)" "res = Some x" "s' = s"
  | e src body reply where "reg_lookup (eg_reg h) (hr_segment r) = Some e" "en_source e = Some src"
      "read_body (eg_max_body h) r = (Inr body, n)" "res = Some (write_reply (eg_parse_media h) reply)" "s' = s"
  | e src body a where "reg_lookup (eg_reg h) (hr_segment r) = Some e" "en_source e = Some src"
      "read_body (eg_max_body h) r = (Inr body, n)"
      "ws_handshake src \<lparr>rq_method = hr_method r, rq_url = hr_request_uri r, rq_header = hr_header r, rq_body = []\<rparr> body = None"
      "hub e \<lparr>rq_method = hr_method r, rq_url = public_url h r, rq_header = hr_header r, rq_body = body\<rparr> s = (a, s')"
      "res = answer late gone a"
proof -
  consider (none) "reg_lookup (eg_reg h) (hr_segment r) = None"
    | (nosrc) e where "reg_lookup (eg_reg h) (hr_segment r) = Some e" "en_source e = None"
    | (src) e src where "reg_lookup (eg_reg h) (hr_segment r) = Some e" "en_source e = Some src"
    by (metis not_None_eq)
  then show thesis
  proof cases
    case none
    then show ?thesis using that(1) assms by (simp add: serve_http_def)
  next
    case nosrc
    then show ?thesis using that(1) assms by (simp add: serve_http_def)
  next
    case src
    obtain b m where b: "read_body (eg_max_body h) r = (b, m)" by fastforce
    show ?thesis
    proof (cases b)
      case (Inl x)
      then show ?thesis using that(2) [OF src] assms b by (simp add: serve_http_def src)
    next
      case (Inr body)
      let ?hs = "ws_handshake src \<lparr>rq_method = hr_method r, rq_url = hr_request_uri r, rq_header = hr_header r, rq_body = []\<rparr> body"
      show ?thesis
      proof (cases ?hs)
        case None
        then show ?thesis using that(4) [OF src] assms b Inr by (simp add: serve_http_def src split: prod.splits)
      next
        case (Some reply)
        then have "m = n" "res = Some (write_reply (eg_parse_media h) reply)" "s' = s"
          using assms b Inr by (auto simp: serve_http_def src)
        then show ?thesis using that(3) [OF src] b Inr by blast
      qed
    qed
  qed
qed

subsection \<open>The hub's side of the interface\<close>

text \<open>What the edge relies on: a hub that rejects a signature has written nothing, and one that gives no
  error gives a verdict.\<close>

locale edge_hub =
  fixes hub :: "('h, 'e, 's) hub_accepts"
  assumes unverified_silent: "hub e req s = (Inr Unverified, s') \<Longrightarrow> s' = s"
    and a_verdict: "hub e req s \<noteq> (Inr NoVerdict, s')"
begin

lemma answer_401:
  assumes "hub e req s = (a, s')" "answer late gone a = Some r" "rs_status r = 401"
  shows "a = Inr Unverified \<and> s' = s"
proof (cases a)
  case (Inl x)
  then show ?thesis using assms(2,3) by (auto simp: answer_def respond_def split: if_splits)
next
  case (Inr v)
  then have "v = Unverified" using assms(2,3) by (cases v) (auto simp: answer_def respond_def Let_def)
  then show ?thesis using Inr assms(1) unverified_silent by simp
qed

lemma serve_401:
  assumes run: "serve_http h hub late gone r s = ((Some res, n), s')" and res: "rs_status res = 401"
  shows "\<exists>e src. reg_lookup (eg_reg h) (hr_segment r) = Some e \<and> en_source e = Some src \<and> n = length (hr_sent r) \<and>
    hub e \<lparr>rq_method = hr_method r, rq_url = public_url h r, rq_header = hr_header r, rq_body = hr_sent r\<rparr> s = (Inr Unverified, s) \<and> s' = s"
  using run
proof (cases rule: serve_cases)
  case unknown
  then show ?thesis using res by (simp add: respond_def)
next
  case (unread e src x)
  then show ?thesis using res refused_not_401 [of "eg_max_body h" r x n] by auto
next
  case (handshake e src body reply)
  then show ?thesis using res reply_not_401 by simp
next
  case (accepted e src body a)
  then have a: "a = Inr Unverified" "s' = s" using answer_401 [OF accepted(5), of late gone res] res by simp_all
  have body: "body = hr_sent r" "n = length (hr_sent r)"
    using accepted(3) by (auto simp: read_body_def Let_def split: if_splits)
  show ?thesis using accepted(1,2) accepted(5) [unfolded a body] a(2) body(2) by blast
qed

lemma serve_5xx:
  assumes run: "serve_http h hub late gone r s = ((Some res, n), s')" and res: "rs_status res = 503"
  shows "rs_retry_after res = Some retry_after \<and>
    (\<exists>e req x. hub e req s = (Inl x, s') \<and> late x)"
  using run
proof (cases rule: serve_cases)
  case unknown
  then show ?thesis using res by (simp add: respond_def)
next
  case (unread e src x)
  then show ?thesis using res refused_not_401 [of "eg_max_body h" r x n] by auto
next
  case (handshake e src body reply)
  then show ?thesis using res by (auto simp: write_reply_def respond_def handshake_status_def Let_def split: if_splits)
next
  case (accepted e src body a)
  show ?thesis
  proof (cases a)
    case (Inl x)
    then show ?thesis using accepted(5,6) res by (auto simp: answer_def respond_def split: if_splits)
  next
    case (Inr v)
    then show ?thesis using accepted(6) res by (cases v) (auto simp: answer_def respond_def Let_def)
  qed
qed

end

text \<open>This program's hub keeps its side.\<close>

lemma hub_accept_unverified: "hub_accept h now i m e req tbl d = (Inr Unverified, d') \<Longrightarrow> d' = d"
proof -
  assume run: "hub_accept h now i m e req tbl d = (Inr Unverified, d')"
  have parks: "hub_park h now i p body reason d \<noteq> (Inr Unverified, d')" for p body reason using hub_park_verdict by blast
  obtain src where src: "en_source e = Some src" using run by (cases "en_source e") (simp_all add: hub_accept_def)
  obtain k where k: "delivery_keys_of src req = Some k"
    using run unreadable_parks [OF src] parks by (cases "delivery_keys_of src req") auto
  obtain cs where cs: "candidates (en_key e) k m tbl = Inr cs"
    using run src k by (cases "candidates (en_key e) k m tbl") (simp_all add: hub_accept_def)
  show "d' = d" using src k cs
  proof (cases rule: hub_accept_ends [where h = h and now = now and i = i and d = d])
    case (park reason)
    then show ?thesis using run parks by metis
  next
    case (owned w)
    then show ?thesis using run hub_store_verdict by metis
  qed (use run in simp_all)
qed

lemma hub_accept_no_verdict: "hub_accept h now i m e req tbl d \<noteq> (Inr NoVerdict, d')"
proof
  assume run: "hub_accept h now i m e req tbl d = (Inr NoVerdict, d')"
  have parks: "hub_park h now i p body reason d \<noteq> (Inr NoVerdict, d')" for p body reason using hub_park_verdict by blast
  have stores: "hub_store h now i p req c d \<noteq> (Inr NoVerdict, d')" for p c
    by (auto simp: hub_store_def dest: hub_park_verdict split: prod.splits sum.splits ob_error.splits if_splits)
  obtain src where src: "en_source e = Some src" using run by (cases "en_source e") (simp_all add: hub_accept_def)
  obtain k where k: "delivery_keys_of src req = Some k"
    using run unreadable_parks [OF src] parks by (cases "delivery_keys_of src req") auto
  obtain cs where cs: "candidates (en_key e) k m tbl = Inr cs"
    using run src k by (cases "candidates (en_key e) k m tbl") (simp_all add: hub_accept_def)
  show False using src k cs
  proof (cases rule: hub_accept_ends [where h = h and now = now and i = i and d = d])
    case (park reason)
    then show ?thesis using run parks by metis
  next
    case (owned w)
    then show ?thesis using run stores by metis
  qed (use run in simp_all)
qed

interpretation eh: edge_hub "\<lambda>e req d. hub_accept hs now i m e req tbl d" for hs now i m tbl
  by unfold_locales (rule hub_accept_unverified hub_accept_no_verdict, assumption?)+

subsection \<open>The contract\<close>

text \<open>C39: The status 401 means one thing. When the edge of this program answers it, the provider is
  registered, the whole body was read, its handshake did not take the request, the delivery's keys
  select subscription rows, and the secret of every one of them, of whatever tenant, refused exactly
  these bytes under exactly this public URL; and nothing was stored.\<close>

theorem status_401_is_a_refused_signature:
  assumes inv: "sub_inv tbl"
    and run: "serve_http h (\<lambda>e req d. hub_accept hs now i m e req tbl d) late gone r d = ((Some res, n), d')"
    and res: "rs_status res = 401"
  shows "d' = d \<and> n = length (hr_sent r) \<and> (\<exists>e src k req. reg_lookup (eg_reg h) (hr_segment r) = Some e \<and> en_source e = Some src \<and>
    req = \<lparr>rq_method = hr_method r, rq_url = public_url h r, rq_header = hr_header r, rq_body = hr_sent r\<rparr> \<and>
    delivery_keys_of src req = Some k \<and> selected (en_key e) k tbl \<noteq> {} \<and>
    (\<forall>s \<in> selected (en_key e) k tbl. verdict_of src req s = NotVerified))"
proof -
  let ?req = "\<lparr>rq_method = hr_method r, rq_url = public_url h r, rq_header = hr_header r, rq_body = hr_sent r\<rparr>"
  obtain e src where e: "reg_lookup (eg_reg h) (hr_segment r) = Some e" "en_source e = Some src" "n = length (hr_sent r)"
    "hub_accept hs now i m e ?req tbl d = (Inr Unverified, d)" "d' = d"
    using eh.serve_401 [OF run res] by blast
  obtain cs k where k: "delivery_keys_of src ?req = Some k"
    using e(4) unreadable_parks [OF e(2)] hub_park_verdict by (cases "delivery_keys_of src ?req") fastforce+
  have parks: "hub_park hs now i p body reason d \<noteq> (Inr Unverified, d)" for p body reason using hub_park_verdict by blast
  obtain cs where cs: "candidates (en_key e) k m tbl = Inr cs" "distinct (map ca_id cs)"
    "set cs \<subseteq> cand ` selected (en_key e) k tbl" "length cs \<le> m \<longleftrightarrow> card (selected (en_key e) k tbl) \<le> m"
    "length cs \<le> m \<longrightarrow> set cs = cand ` selected (en_key e) k tbl" "cs = [] \<longleftrightarrow> selected (en_key e) k tbl = {}"
    by (rule candidates_are_the_selected [OF inv, of "en_key e" k m])
  have "cs \<noteq> [] \<and> length cs \<le> m \<and> verify_all src ?req [] cs = Inr ([], False)"
    using e(2) k cs(1)
  proof (cases rule: hub_accept_ends [where h = hs and now = now and i = i and d = d])
    case (park reason)
    then show ?thesis using e(4) parks by metis
  next
    case (owned w)
    then show ?thesis using e(4) hub_store_verdict by metis
  qed (use e(4) in simp_all)
  then have "selected (en_key e) k tbl \<noteq> {}" "\<forall>s \<in> selected (en_key e) k tbl. verdict_of src ?req s = NotVerified"
    using cs(5,6) unfolding verify_all_none by (auto simp: list_all_iff verdict_of_def)
  then show ?thesis using e k by blast
qed

text \<open>C40: What a stranger can make the edge do is bounded. No more than one byte over the cap is ever taken
  off the connection, none at all when the path names no registered webhook source, and nothing is
  written unless the whole body arrived, within the cap.\<close>

theorem reading_is_bounded:
  assumes "serve_http h hub late gone r s = ((res, n), s')"
  shows "n \<le> Suc (eg_max_body h) \<and>
    (n \<noteq> 0 \<longrightarrow> (\<exists>e src. reg_lookup (eg_reg h) (hr_segment r) = Some e \<and> en_source e = Some src)) \<and>
    (s' \<noteq> s \<longrightarrow> hr_complete r \<and> n = length (hr_sent r) \<and> n \<le> eg_max_body h)"
proof -
  have all: "read_body (eg_max_body h) r = (Inr body, n) \<Longrightarrow> hr_complete r \<and> n = length (hr_sent r) \<and> n \<le> eg_max_body h" for body
    by (auto simp: read_body_def Let_def split: if_splits)
  have some: "read_body (eg_max_body h) r = (Inl x, n) \<Longrightarrow> n \<le> Suc (eg_max_body h)" for x
    by (auto simp: read_body_def Let_def split: if_splits)
  show ?thesis using assms
  proof (cases rule: serve_cases)
    case (unread e src x)
    then show ?thesis using some by blast
  next
    case (handshake e src body reply)
    then show ?thesis using all by fastforce
  next
    case (accepted e src body a)
    then show ?thesis using all by fastforce
  qed simp
qed

subsection \<open>At work\<close>

definition ex_http :: "bytes \<Rightarrow> http_request" where
  "ex_http seg = \<lparr>hr_method = ''POST'', hr_segment = seg, hr_escaped_path = ''/ingress/'' @ seg,
     hr_request_uri = ''/ingress/'' @ seg, hr_header = (\<lambda>_. []), hr_content_length = 4, hr_sent = ''body'', hr_complete = True\<rparr>"

definition ex_edge :: "unit edge" where
  "ex_edge = \<lparr>eg_reg = [(''fake'', ex_entry [])], eg_max_body = 10, eg_public_base_url = [], eg_parse_media = (\<lambda>_. None)\<rparr>"

lemma ex_refused:
  "serve_http ex_edge (\<lambda>e req d. hub_accept ex_hash 0 ''i1'' 32 e req [ex_sub\<lparr>su_secret := ''k2''\<rparr>] d) late gone (ex_http ''fake'') empty_odb =
   ((Some (respond 401 (''unverified'' @ newline)), 4), empty_odb)"
proof -
  have "ws_handshake ex_source req b = None" for req b by (simp add: ex_source_def)
  moreover have "reg_lookup [(''fake'', ex_entry [])] ''fake'' = Some (ex_entry [])" by (simp add: reg_lookup_def)
  moreover have "hub_accept ex_hash 0 ''i1'' 32 (ex_entry []) ex_req [ex_sub\<lparr>su_secret := ''k2''\<rparr>] empty_odb = (Inr Unverified, empty_odb)"
    by (simp add: hub_accept_def ex_en_source ex_keys ex_found ex_verify)
  ultimately show ?thesis
    by (simp add: serve_http_def ex_edge_def ex_http_def ex_en_source read_body_def public_url_def answer_def Let_def ex_req_def)
qed

theorem status_401_is_a_refused_signature_witness:
  "\<exists>e. reg_lookup (eg_reg ex_edge) ''fake'' = Some e \<and> hr_segment (ex_http ''fake'') = ''fake''"
proof -
  have "rs_status (respond 401 (''unverified'' @ newline)) = 401" by (simp add: respond_def)
  from status_401_is_a_refused_signature [OF ex_table ex_refused this]
  show ?thesis by (auto simp: ex_http_def)
qed

theorem reading_is_bounded_witness: "(4 :: nat) \<le> Suc (eg_max_body ex_edge)"
  using reading_is_bounded [OF ex_refused] by blast

end
