(* ===== verification/Trim.thy ===== *)
theory Trim
  imports Utf8
begin

text \<open>
  White space as package unicode knows it, and the text without what of it stands at the ends: the
  sinks trim a receiver's answer with it, the vault refuses a secret that trimming would change.
\<close>

text \<open>\<open>unicode.IsSpace\<close>, and \<open>bytes.TrimSpace\<close>.\<close>

definition space_rune :: "nat \<Rightarrow> bool" where
  "space_rune r \<longleftrightarrow> 9 \<le> r \<and> r \<le> 13 \<or> r = 32 \<or> r = 0x85 \<or> r = 0xA0 \<or> r = 0x1680 \<or> 0x2000 \<le> r \<and> r \<le> 0x200A \<or>
     r = 0x2028 \<or> r = 0x2029 \<or> r = 0x202F \<or> r = 0x205F \<or> r = 0x3000"

function trim_space_left :: "bytes \<Rightarrow> bytes" where
  "trim_space_left [] = []"
| "trim_space_left (b # s) =
     (let (r, w) = decode_rune (b # s) in if space_rune r then trim_space_left (drop w (b # s)) else b # s)"
  by pat_completeness auto
termination
  by (relation "measure length") (auto dest!: decode_rune_Cons)

function trim_space_right :: "bytes \<Rightarrow> bytes" where
  "trim_space_right [] = []"
| "trim_space_right (b # s) =
     (if list_all space_rune (runes (b # s)) then []
      else let (r, w) = decode_rune (b # s) in take w (b # s) @ trim_space_right (drop w (b # s)))"
  by pat_completeness auto
termination
  by (relation "measure length") (auto dest!: decode_rune_Cons)

definition trim_space :: "bytes \<Rightarrow> bytes" where
  "trim_space s = trim_space_right (trim_space_left s)"

end
