(* ===== verification/Sink.thy ===== *)
theory Sink
  imports Record_Decode Cause Trim
begin

text \<open>
  internal/sink/sink.go and http.go: how records leave. A delivery answers with the list of records
  refused, or with a fault. The receiver is an argument: \<open>post token body\<close> answers and changes its own
  state \<open>'w\<close>; what \<open>encoding/json\<close> reads in an answer is the tree a parser gives. Building the
  client and its transport is left out.
\<close>

subsection \<open>The interface\<close>

datatype action = ActionUnset | ActionRetry | ActionHalt | ActionValue nat

fun action_text :: "action \<Rightarrow> bytes" where
  "action_text ActionUnset = ''unclassified''"
| "action_text ActionRetry = ''retry''"
| "action_text ActionHalt = ''halt''"
| "action_text (ActionValue n) = ''unknown action '' @ show_nat n"

record fault =
  fa_action :: action
  fa_cause :: cause
  fa_detail :: bytes

definition fault_text :: "fault \<Rightarrow> bytes" where
  "fault_text f =
     (let text = ''sink: '' @ action_text (fa_action f) @ '': '' @ cause_text (fa_cause f) in
      if fa_detail f \<noteq> [] then text @ '': '' @ fa_detail f else text)"

record rejection =
  rj_id :: bytes
  rj_cause :: cause
  rj_detail :: bytes

datatype sink_error = SinkFault fault | SinkTenancy tenancy_error | SinkOther bytes

type_synonym 'w delivers = "bytes \<Rightarrow> rec list \<Rightarrow> 'w \<Rightarrow> (sink_error + rejection list) \<times> 'w"

type_synonym sink_names = "(bytes \<times> bytes) list"

definition names_validate :: "sink_names \<Rightarrow> bool" where
  "names_validate n \<longleftrightarrow> list_all (\<lambda>(key, wire). valid_provider_key key \<and> valid_source wire) n"

definition rename :: "sink_names \<Rightarrow> rec \<Rightarrow> rec" where
  "rename n r = (case map_of n (rc_source r) of None \<Rightarrow> r | Some wire \<Rightarrow> r\<lparr>rc_source := wire\<rparr>)"

definition check_tenant :: "bytes \<Rightarrow> sink_error option" where
  "check_tenant t = (case parse_tenant t of Inl e \<Rightarrow> Some (SinkTenancy e) | Inr _ \<Rightarrow> None)"

definition detail_wrong_tenant :: bytes where
  "detail_wrong_tenant = ''the record was not sealed for this tenant''"

definition detail_invalid_record :: bytes where
  "detail_invalid_record = ''the record does not pass the format''"

definition detail_record_too_large :: bytes where
  "detail_record_too_large = ''the record is larger than one request of this sink''"

definition fault_details :: "bytes list" where
  "fault_details =
     [''the request timed out'', ''the host name does not resolve'', ''the connection was refused'',
      ''TLS negotiation failed'', ''the connection failed'', ''the delivery was cancelled'',
      ''this tenant has no sink credential'', ''the sink's answer could not be read'', detail_record_too_large,
      ''the request could not be built'', detail_invalid_record, ''the file could not be written'', detail_wrong_tenant]"

definition known_detail :: "bytes \<Rightarrow> bool" where
  "known_detail detail \<longleftrightarrow> detail = [] \<or> detail \<in> set fault_details"

definition reject_unsealed :: "rec \<Rightarrow> bytes \<Rightarrow> rejection option" where
  "reject_unsealed r t =
     (if sealed_for r t then None
      else Some \<lparr>rj_id = rc_id r, rj_cause = with_code ''wrong_tenant'' (new_cause ClassInternal), rj_detail = detail_wrong_tenant\<rparr>)"

definition invalid_rejection :: "rec \<Rightarrow> rejection" where
  "invalid_rejection r =
     \<lparr>rj_id = rc_id r, rj_cause = with_code ''invalid_record'' (new_cause ClassInternal), rj_detail = detail_invalid_record\<rparr>"

subsection \<open>The HTTP sink\<close>

record http_sink =
  hs_names :: sink_names
  hs_max_bytes :: nat

abbreviation default_max_request_bytes :: nat where "default_max_request_bytes \<equiv> 8388608"

abbreviation min_request_bytes :: nat where "min_request_bytes \<equiv> 128"

abbreviation max_response_bytes :: nat where "max_response_bytes \<equiv> 65536"

definition body_prefix :: bytes where
  \<open>body_prefix = ''{"v":1,"records":[''\<close>

definition body_suffix :: bytes where
  "body_suffix = '']}''"

definition body_framing :: nat where
  "body_framing = length body_prefix + length body_suffix"

datatype sink_config_error = ErrBadNames | ErrBadEndpoint | ErrNoTokenFunction | ErrRequestTooSmall | ErrNoDir | ErrDirMode | ErrDocumentSize

text \<open>\<open>NewHTTP\<close>; \<open>endpoint_ok\<close> is what \<open>url.Parse\<close> makes of the endpoint.\<close>

definition new_http :: "sink_names \<Rightarrow> bool \<Rightarrow> bool \<Rightarrow> int \<Rightarrow> sink_config_error + http_sink" where
  "new_http names endpoint_ok has_token max_request =
     (if \<not> names_validate names then Inl ErrBadNames
      else if \<not> endpoint_ok then Inl ErrBadEndpoint
      else if \<not> has_token then Inl ErrNoTokenFunction
      else
        let max_bytes = (if max_request = 0 then int default_max_request_bytes else max_request) in
        if max_bytes < int min_request_bytes then Inl ErrRequestTooSmall
        else Inr \<lparr>hs_names = names, hs_max_bytes = nat max_bytes\<rparr>)"

text \<open>What came back from one request. A transport error is what the program asks of it.\<close>

record transport_error =
  te_dns_not_found :: "bool option"
  te_timeout :: bool
  te_refused :: bool
  te_tls :: bool

datatype ctx_state = CtxLive | CtxCancelled | CtxDeadline

datatype http_answer = NoAnswer ctx_state transport_error | Answer int bytes bool

definition transport_detail :: "transport_error \<Rightarrow> bytes" where
  "transport_detail e =
     (case te_dns_not_found e of
        Some nf \<Rightarrow> if nf then ''the host name does not resolve'' else ''the connection failed''
      | None \<Rightarrow>
          if te_timeout e then ''the request timed out''
          else if te_refused e then ''the connection was refused''
          else if te_tls e then ''TLS negotiation failed''
          else ''the connection failed'')"

definition transport_fault :: "ctx_state \<Rightarrow> transport_error option \<Rightarrow> fault" where
  "transport_fault ctx err =
     \<lparr>fa_action = ActionRetry, fa_cause = new_cause ClassSinkUnavailable,
      fa_detail = (case ctx of
          CtxDeadline \<Rightarrow> ''the request timed out''
        | CtxCancelled \<Rightarrow> ''the delivery was cancelled''
        | CtxLive \<Rightarrow> (case err of None \<Rightarrow> ''the connection failed'' | Some e \<Rightarrow> transport_detail e))\<rparr>"

definition unreadable_fault :: "int \<Rightarrow> fault" where
  "unreadable_fault status =
     \<lparr>fa_action = ActionRetry, fa_cause = with_status status (new_cause ClassSinkUnreadable),
      fa_detail = ''the sink's answer could not be read''\<rparr>"

datatype status_verdict = VFault fault | VRefused cause

definition status_of :: "int \<Rightarrow> bytes \<Rightarrow> status_verdict" where
  "status_of status code =
     (let retry = VFault \<lparr>fa_action = ActionRetry, fa_cause = with_code code (with_status status (new_cause ClassSinkUnavailable)), fa_detail = []\<rparr> in
      if status = 401 \<or> status = 403
      then VFault \<lparr>fa_action = ActionHalt, fa_cause = with_code code (with_status status (new_cause ClassSinkUnauthorized)), fa_detail = []\<rparr>
      else if status = 408 \<or> status = 429 then retry
      else if status = 422 then VRefused (with_code code (with_status status (new_cause ClassSinkRejected)))
      else if 400 \<le> status \<and> status \<le> 499
      then VFault \<lparr>fa_action = ActionHalt, fa_cause = with_code code (with_status status (new_cause ClassSinkRefused)), fa_detail = []\<rparr>
      else retry)"

definition refusals :: "bytes list \<Rightarrow> cause \<Rightarrow> rejection list" where
  "refusals ids c = map (\<lambda>i. \<lparr>rj_id = i, rj_cause = c, rj_detail = []\<rparr>) ids"

subsection \<open>Reading an answer\<close>

text \<open>How \<open>encoding/json\<close> fills a string field of a struct from the members of an object: the members
  whose name is the field's, in whatever case, in order; \<open>null\<close> leaves the field alone. Outside, no
  object is an error, but \<open>null\<close>, which leaves the zero struct.\<close>

definition lower_ascii :: "char \<Rightarrow> char" where
  "lower_ascii c = (if is_upper c then char_of (ord_of c + 32) else c)"

fun string_field :: "bytes \<Rightarrow> (bytes \<times> json) list \<Rightarrow> bytes \<Rightarrow> bytes option" where
  "string_field name [] v = Some v"
| "string_field name ((k, j) # ms) v =
     (if map lower_ascii k = name
      then (case j of JStr s \<Rightarrow> string_field name ms s | JNull \<Rightarrow> string_field name ms v | _ \<Rightarrow> None)
      else string_field name ms v)"

definition struct_members :: "json \<Rightarrow> (bytes \<times> json) list option" where
  "struct_members j = (case j of JObj ms \<Rightarrow> Some ms | JNull \<Rightarrow> Some [] | _ \<Rightarrow> None)"

fun entries_of :: "json list \<Rightarrow> (bytes \<times> bytes) list option" where
  "entries_of [] = Some []"
| "entries_of (j # js) =
     (case struct_members j of
        None \<Rightarrow> None
      | Some ms \<Rightarrow>
     (case (string_field ''id'' ms [], string_field ''code'' ms [], entries_of js) of
        (Some i, Some c, Some es) \<Rightarrow> Some ((i, c) # es)
      | _ \<Rightarrow> None))"

definition code_from :: "(bytes \<Rightarrow> json option) \<Rightarrow> bytes \<Rightarrow> bool \<Rightarrow> bytes" where
  "code_from parse answer read_ok =
     (if \<not> read_ok \<or> trim_space answer = [] then []
      else case parse answer of
        None \<Rightarrow> []
      | Some j \<Rightarrow> (case struct_members j of
                    None \<Rightarrow> []
                  | Some ms \<Rightarrow> (case string_field ''code'' ms [] of None \<Rightarrow> [] | Some c \<Rightarrow> c)))"

fun read_entries :: "bytes list \<Rightarrow> int \<Rightarrow> bytes list \<Rightarrow> (bytes \<times> bytes) list \<Rightarrow> fault + rejection list" where
  "read_entries ids status seen [] = Inr []"
| "read_entries ids status seen ((i, code) # es) =
     (if i \<notin> set ids \<or> i \<in> set seen then Inl (unreadable_fault status)
      else bind_res (read_entries ids status (i # seen) es)
        (\<lambda>rs. Inr (\<lparr>rj_id = i, rj_cause = with_code code (with_status status (new_cause ClassSinkRejected)), rj_detail = []\<rparr> # rs)))"

definition rejections_from :: "(bytes \<Rightarrow> json option) \<Rightarrow> bytes \<Rightarrow> bytes list \<Rightarrow> int \<Rightarrow> fault + rejection list" where
  "rejections_from parse answer ids status =
     (let trimmed = trim_space answer; unreadable = Inl (unreadable_fault status) in
      if trimmed = [] then Inr []
      else case parse trimmed of
        Some (JObj members) \<Rightarrow>
          (case map_of (rev members) ''rejected'' of
             None \<Rightarrow> if members = [] then Inr [] else unreadable
           | Some (JArr js) \<Rightarrow>
               (case entries_of js of None \<Rightarrow> unreadable | Some es \<Rightarrow> read_entries ids status [] es)
           | Some _ \<Rightarrow> unreadable)
      | _ \<Rightarrow> unreadable)"

subsection \<open>Delivering\<close>

fun join_docs :: "bytes list \<Rightarrow> bytes" where
  "join_docs [] = []"
| "join_docs [d] = d"
| "join_docs (d # ds) = d @ '','' @ join_docs ds"

definition request_body :: "bytes list \<Rightarrow> bytes" where
  "request_body chunk = body_prefix @ join_docs chunk @ body_suffix"

type_synonym 'w receiver = "bytes \<Rightarrow> bytes \<Rightarrow> 'w \<Rightarrow> http_answer \<times> 'w"

definition send ::
  "(bytes \<Rightarrow> json option) \<Rightarrow> 'w receiver \<Rightarrow> bytes \<Rightarrow> bytes list \<Rightarrow> bytes list \<Rightarrow> 'w \<Rightarrow> (fault + rejection list) \<times> 'w" where
  "send parse post token chunk ids w =
     (case post token (request_body chunk) w of
        (NoAnswer ctx e, w') \<Rightarrow> (Inl (transport_fault ctx (Some e)), w')
      | (Answer status body read_ok, w') \<Rightarrow>
          (let answer = take (Suc max_response_bytes) body in
           if status < 200 \<or> status > 299
           then (case status_of status (code_from parse answer read_ok) of
                   VFault f \<Rightarrow> (Inl f, w')
                 | VRefused c \<Rightarrow> (Inr (refusals ids c), w'))
           else if \<not> read_ok \<or> length answer > max_response_bytes then (Inl (unreadable_fault status), w')
           else (rejections_from parse answer ids status, w')))"

definition marshal_one :: "(rec \<Rightarrow> bytes) \<Rightarrow> http_sink \<Rightarrow> bytes \<Rightarrow> rec \<Rightarrow> rejection + bytes" where
  "marshal_one wire h t r =
     (case reject_unsealed r t of
        Some rj \<Rightarrow> Inl rj
      | None \<Rightarrow>
     (case marshal_json wire (rename (hs_names h) r) of
        Inl _ \<Rightarrow> Inl (invalid_rejection r)
      | Inr doc \<Rightarrow>
          if body_framing + length doc > hs_max_bytes h
          then Inl \<lparr>rj_id = rc_id r, rj_cause = with_code ''record_too_large'' (new_cause ClassInternal), rj_detail = detail_record_too_large\<rparr>
          else Inr doc))"

text \<open>\<open>marshalAll\<close>: the documents that can be sent with their ids, and the rejections.\<close>

fun marshal_all :: "(rec \<Rightarrow> bytes) \<Rightarrow> http_sink \<Rightarrow> bytes \<Rightarrow> rec list \<Rightarrow> (bytes \<times> bytes) list \<times> rejection list" where
  "marshal_all wire h t [] = ([], [])"
| "marshal_all wire h t (r # rs) =
     (let (docs, rejected) = marshal_all wire h t rs in
      case marshal_one wire h t r of
        Inl rj \<Rightarrow> (docs, rj # rejected)
      | Inr doc \<Rightarrow> ((doc, rc_id r) # docs, rejected))"

definition flush ::
  "(bytes \<Rightarrow> json option) \<Rightarrow> 'w receiver \<Rightarrow> bytes \<Rightarrow> (bytes \<times> bytes) list \<Rightarrow> rejection list \<Rightarrow> 'w \<Rightarrow> (fault + rejection list) \<times> 'w" where
  "flush parse post token chunk result w =
     (if chunk = [] then (Inr result, w)
      else case send parse post token (map fst chunk) (map snd chunk) w of
        (Inl f, w') \<Rightarrow> (Inl f, w')
      | (Inr rejected, w') \<Rightarrow> (Inr (result @ rejected), w'))"

fun send_all ::
  "(bytes \<Rightarrow> json option) \<Rightarrow> 'w receiver \<Rightarrow> nat \<Rightarrow> bytes \<Rightarrow> (bytes \<times> bytes) list \<Rightarrow> (bytes \<times> bytes) list \<Rightarrow> nat \<Rightarrow> rejection list \<Rightarrow> 'w
   \<Rightarrow> (fault + rejection list) \<times> 'w" where
  "send_all parse post max_bytes token [] chunk sz result w = flush parse post token chunk result w"
| "send_all parse post max_bytes token ((doc, i) # docs) chunk sz result w =
     (let cost = length doc + (if chunk = [] then 0 else 1) in
      if sz + cost > max_bytes
      then (case flush parse post token chunk result w of
              (Inl f, w') \<Rightarrow> (Inl f, w')
            | (Inr result', w') \<Rightarrow>
                (if chunk = [] then send_all parse post max_bytes token docs [(doc, i)] (sz + length doc) result' w'
                 else send_all parse post max_bytes token docs [(doc, i)] (body_framing + length doc) result' w'))
      else send_all parse post max_bytes token docs (chunk @ [(doc, i)]) (sz + cost) result w)"

definition http_deliver ::
  "(rec \<Rightarrow> bytes) \<Rightarrow> (bytes \<Rightarrow> json option) \<Rightarrow> (bytes \<Rightarrow> bytes option) \<Rightarrow> 'w receiver \<Rightarrow> http_sink \<Rightarrow> 'w delivers" where
  "http_deliver wire parse token post h t recs w =
     (case check_tenant t of
        Some e \<Rightarrow> (Inl e, w)
      | None \<Rightarrow>
      if recs = [] then (Inr [], w)
      else case token t of
        None \<Rightarrow> (Inl (SinkFault \<lparr>fa_action = ActionRetry, fa_cause = new_cause ClassVaultUnavailable,
                                 fa_detail = ''this tenant has no sink credential''\<rparr>), w)
      | Some tok \<Rightarrow>
          if tok = [] then (Inl (SinkFault \<lparr>fa_action = ActionRetry, fa_cause = new_cause ClassVaultUnavailable,
                                 fa_detail = ''this tenant has no sink credential''\<rparr>), w)
          else
            let (docs, rejected) = marshal_all wire h t recs in
            (case send_all parse post (hs_max_bytes h) tok docs [] body_framing rejected w of
               (Inl f, w') \<Rightarrow> (Inl (SinkFault f), w')
             | (Inr rs, w') \<Rightarrow> (Inr rs, w')))"

end
