(* ===== verification/Sink_Local.thy ===== *)
theory Sink_Local
  imports Sink "HOL-Library.List_Lexorder"
begin

text \<open>
  internal/sink/jsonl.go, the sink that appends to one file per tenant, and stub.go, the strict
  receiver the tests hold the pipeline to. The files are a map from the tenant to its bytes;
  \<open>short\<close> is after how many bytes a write fails, if it does. A document's content is its tree
  without \<open>meta\<close>, with the members of every object in sorted order, as \<open>encoding/json\<close> writes a map;
  the mutexes make each call one step.
\<close>

subsection \<open>JSONL\<close>

record jsonl =
  jl_names :: sink_names

type_synonym files = "bytes \<Rightarrow> bytes"

text \<open>\<open>NewJSONL\<close>; \<open>mode\<close> are the nine permission bits of the directory once it exists.\<close>

definition new_jsonl :: "sink_names \<Rightarrow> bytes \<Rightarrow> nat option \<Rightarrow> sink_config_error + jsonl" where
  "new_jsonl names dir mode =
     (if \<not> names_validate names then Inl ErrBadNames
      else if dir = [] then Inl ErrNoDir
      else case mode of
        None \<Rightarrow> Inl ErrNoDir
      | Some m \<Rightarrow> if m mod 64 \<noteq> 0 then Inl ErrDirMode else Inr \<lparr>jl_names = names\<rparr>)"

definition line_feed :: char where
  "line_feed = char_of (10 :: nat)"

definition append_line :: "bytes \<Rightarrow> bytes \<Rightarrow> bytes option" where
  "append_line lines doc = (if line_feed \<in> set doc then None else Some (lines @ doc @ [line_feed]))"

definition write_fault :: fault where
  "write_fault = \<lparr>fa_action = ActionRetry, fa_cause = new_cause ClassInternal, fa_detail = ''the file could not be written''\<rparr>"

fun jsonl_lines :: "(rec \<Rightarrow> bytes) \<Rightarrow> jsonl \<Rightarrow> bytes \<Rightarrow> rec list \<Rightarrow> bytes \<Rightarrow> rejection list \<Rightarrow> bytes \<times> rejection list" where
  "jsonl_lines wire j t [] lines rejected = (lines, rejected)"
| "jsonl_lines wire j t (r # rs) lines rejected =
     (case reject_unsealed r t of
        Some rj \<Rightarrow> jsonl_lines wire j t rs lines (rejected @ [rj])
      | None \<Rightarrow>
     (case marshal_json wire (rename (jl_names j) r) of
        Inl _ \<Rightarrow> jsonl_lines wire j t rs lines (rejected @ [invalid_rejection r])
      | Inr doc \<Rightarrow>
     (case append_line lines doc of
        None \<Rightarrow> jsonl_lines wire j t rs lines (rejected @ [invalid_rejection r])
      | Some lines' \<Rightarrow> jsonl_lines wire j t rs lines' rejected)))"

definition jsonl_deliver :: "(rec \<Rightarrow> bytes) \<Rightarrow> ctx_state \<Rightarrow> nat option \<Rightarrow> jsonl \<Rightarrow> files delivers" where
  "jsonl_deliver wire ctx short j t recs fs =
     (case check_tenant t of
        Some e \<Rightarrow> (Inl e, fs)
      | None \<Rightarrow>
      if ctx \<noteq> CtxLive then (Inl (SinkFault (transport_fault ctx None)), fs)
      else
        let (lines, rejected) = jsonl_lines wire j t recs [] [] in
        if lines = [] then (Inr rejected, fs)
        else case short of
          None \<Rightarrow> (Inr rejected, fs(t := fs t @ lines))
        | Some k \<Rightarrow> (Inl (SinkFault write_fault), fs(t := fs t @ take k lines)))"

subsection \<open>The strict stub\<close>

datatype stub_error = StubTenancy sink_error | ErrTooLarge | ErrRepeatDiffers | ErrSupersedeCycle | StubInvalid rec_error

record stub_doc =
  sd_id :: bytes
  sd_doc :: bytes
  sd_content :: json
  sd_supersedes :: bytes

record stub =
  sb_names :: sink_names
  sb_max_bytes :: nat

type_synonym stub_state = "bytes \<Rightarrow> stub_doc list"

abbreviation default_max_document_bytes :: nat where "default_max_document_bytes \<equiv> 8388608"

definition new_stub :: "sink_names \<Rightarrow> int \<Rightarrow> sink_config_error + stub" where
  "new_stub names max_document =
     (if \<not> names_validate names then Inl ErrBadNames
      else
        let max_bytes = (if max_document = 0 then int default_max_document_bytes else max_document) in
        if max_bytes < 1 then Inl ErrDocumentSize
        else Inr \<lparr>sb_names = names, sb_max_bytes = nat max_bytes\<rparr>)"

fun canon :: "json \<Rightarrow> json" and canon_fields :: "(bytes \<times> json) list \<Rightarrow> (bytes \<times> json) list" and canon_items :: "json list \<Rightarrow> json list" where
  "canon (JObj fs) = JObj (sort_key fst (canon_fields fs))"
| "canon (JArr vs) = JArr (canon_items vs)"
| "canon JNull = JNull"
| "canon (JBool b) = JBool b"
| "canon (JNum n) = JNum n"
| "canon (JStr s) = JStr s"
| "canon_fields [] = []"
| "canon_fields ((n, v) # fs) = (n, canon v) # canon_fields fs"
| "canon_items [] = []"
| "canon_items (v # vs) = canon v # canon_items vs"

definition content_of :: "json \<Rightarrow> json" where
  "content_of tree =
     (case tree of JObj fs \<Rightarrow> canon (JObj (filter (\<lambda>(n, v). n \<noteq> ''meta'') fs)) | _ \<Rightarrow> canon tree)"

definition superseded_by :: "stub_doc list \<Rightarrow> bytes \<Rightarrow> bytes" where
  "superseded_by held i = (case find (\<lambda>d. sd_id d = i) held of None \<Rightarrow> [] | Some d \<Rightarrow> sd_supersedes d)"

lemma superseded_by_unknown: "i \<notin> sd_id ` set held \<Longrightarrow> superseded_by held i = []"
  by (auto simp: superseded_by_def find_None_iff split: option.splits dest!: find_Some_iff2)

function leads_back :: "stub_doc list \<Rightarrow> bytes list \<Rightarrow> bytes \<Rightarrow> bool" where
  "leads_back held visited next_id =
     (if next_id = [] then False
      else if next_id \<in> set visited then True
      else leads_back held (next_id # visited) (superseded_by held next_id))"
  by pat_completeness auto
termination
proof (relation "measure (\<lambda>(held, visited, i). 2 * card (sd_id ` set held - set visited) + (if i = [] then 0 else 1))")
  fix held :: "stub_doc list" and visited :: "bytes list" and i :: bytes
  assume n: "i \<noteq> []" "i \<notin> set visited"
  show "((held, i # visited, superseded_by held i), held, visited, i)
    \<in> measure (\<lambda>(held, visited, i). 2 * card (sd_id ` set held - set visited) + (if i = [] then 0 else 1))"
  proof (cases "i \<in> sd_id ` set held")
    case True
    then have "sd_id ` set held - set (i # visited) \<subset> sd_id ` set held - set visited" using n by auto
    then have "card (sd_id ` set held - set (i # visited)) < card (sd_id ` set held - set visited)"
      by (intro psubset_card_mono) auto
    then show ?thesis using n by auto
  next
    case False
    then have "sd_id ` set held - set (i # visited) = sd_id ` set held - set visited" by auto
    then show ?thesis using n superseded_by_unknown [OF False] by simp
  qed
qed simp

declare leads_back.simps [simp del]

definition stub_accept ::
  "(bytes \<Rightarrow> json option) \<Rightarrow> (bytes \<Rightarrow> rec_error + rec) \<Rightarrow> stub \<Rightarrow> bytes \<Rightarrow> bytes \<Rightarrow> stub_state \<Rightarrow> stub_error option \<times> stub_state" where
  "stub_accept parse unmarshal sb t doc st =
     (case check_tenant t of
        Some e \<Rightarrow> (Some (StubTenancy e), st)
      | None \<Rightarrow>
      if length doc > sb_max_bytes sb then (Some ErrTooLarge, st)
      else case unmarshal doc of
        Inl e \<Rightarrow> (Some (StubInvalid e), st)
      | Inr r \<Rightarrow>
     (case parse doc of
        None \<Rightarrow> (Some (StubInvalid (Invalid ''the record'' ''is not valid JSON'')), st)
      | Some tree \<Rightarrow>
          let content = content_of tree; held = st t in
          (case find (\<lambda>d. sd_id d = rc_id r) held of
             Some before \<Rightarrow> (if sd_content before \<noteq> content then (Some ErrRepeatDiffers, st) else (None, st))
           | None \<Rightarrow>
               if leads_back held [rc_id r] (rc_supersedes r) then (Some ErrSupersedeCycle, st)
               else (None, st(t := held @ [\<lparr>sd_id = rc_id r, sd_doc = doc, sd_content = content, sd_supersedes = rc_supersedes r\<rparr>])))))"

fun stub_code :: "stub_error \<Rightarrow> bytes" where
  "stub_code ErrTooLarge = ''too_large''"
| "stub_code ErrRepeatDiffers = ''repeat_differs''"
| "stub_code ErrSupersedeCycle = ''supersede_cycle''"
| "stub_code (StubInvalid _) = ''invalid_record''"
| "stub_code (StubTenancy _) = ''refused''"

fun stub_all ::
  "(rec \<Rightarrow> bytes) \<Rightarrow> (bytes \<Rightarrow> json option) \<Rightarrow> (bytes \<Rightarrow> rec_error + rec) \<Rightarrow> stub \<Rightarrow> bytes \<Rightarrow> rec list \<Rightarrow> rejection list \<Rightarrow> stub_state
   \<Rightarrow> rejection list \<times> stub_state" where
  "stub_all wire parse unmarshal sb t [] rejected st = (rejected, st)"
| "stub_all wire parse unmarshal sb t (r # rs) rejected st =
     (case reject_unsealed r t of
        Some rj \<Rightarrow> stub_all wire parse unmarshal sb t rs (rejected @ [rj]) st
      | None \<Rightarrow>
     (case marshal_json wire (rename (sb_names sb) r) of
        Inl _ \<Rightarrow> stub_all wire parse unmarshal sb t rs (rejected @ [invalid_rejection r]) st
      | Inr doc \<Rightarrow>
     (case stub_accept parse unmarshal sb t doc st of
        (Some e, st') \<Rightarrow> stub_all wire parse unmarshal sb t rs
           (rejected @ [\<lparr>rj_id = rc_id r, rj_cause = with_code (stub_code e) (new_cause ClassSinkRejected), rj_detail = []\<rparr>]) st'
      | (None, st') \<Rightarrow> stub_all wire parse unmarshal sb t rs rejected st')))"

definition stub_deliver :: "(rec \<Rightarrow> bytes) \<Rightarrow> (bytes \<Rightarrow> json option) \<Rightarrow> (bytes \<Rightarrow> rec_error + rec) \<Rightarrow> stub \<Rightarrow> stub_state delivers" where
  "stub_deliver wire parse unmarshal sb t recs st =
     (case check_tenant t of
        Some e \<Rightarrow> (Inl e, st)
      | None \<Rightarrow> (case stub_all wire parse unmarshal sb t recs [] st of (rejected, st') \<Rightarrow> (Inr rejected, st')))"

definition documents :: "bytes \<Rightarrow> stub_state \<Rightarrow> bytes list" where
  "documents t st = map sd_doc (st t)"

subsection \<open>What the stub holds\<close>

definition edges :: "stub_doc list \<Rightarrow> (bytes \<times> bytes) set" where
  "edges held = {(sd_id d, sd_supersedes d) |d. d \<in> set held \<and> sd_supersedes d \<noteq> []}"

definition stub_inv :: "stub \<Rightarrow> stub_doc list \<Rightarrow> bool" where
  "stub_inv sb held \<longleftrightarrow> distinct (map sd_id held) \<and> [] \<notin> sd_id ` set held \<and> acyclic (edges held) \<and> (\<forall>d \<in> set held. length (sd_doc d) \<le> sb_max_bytes sb)"

lemma superseded_by_edge:
  assumes "distinct (map sd_id held)"
  shows "(i, s) \<in> edges held \<longleftrightarrow> superseded_by held i = s \<and> s \<noteq> []"
proof
  assume "(i, s) \<in> edges held"
  then obtain d where d: "d \<in> set held" "sd_id d = i" "sd_supersedes d = s" "s \<noteq> []" by (auto simp: edges_def)
  have "find (\<lambda>d. sd_id d = i) held \<noteq> None" using d(1,2) by (auto simp: find_None_iff)
  then obtain d' where f: "find (\<lambda>d. sd_id d = i) held = Some d'" by blast
  then have "sd_id d' = i" "d' \<in> set held" using find_Some_iff2 [OF f] by simp_all
  then have "d' = d" using distinct_map_inj [OF assms, of d' d] d(1,2) by simp
  then show "superseded_by held i = s \<and> s \<noteq> []" using f d by (simp only: superseded_by_def option.case) simp
next
  assume s: "superseded_by held i = s \<and> s \<noteq> []"
  then obtain d where f: "find (\<lambda>d. sd_id d = i) held = Some d" "sd_supersedes d = s"
    by (auto simp: superseded_by_def split: option.splits)
  then show "(i, s) \<in> edges held" using find_Some_iff2 [OF f(1)] s by (auto simp: edges_def)
qed

text \<open>A walk that ends has met nothing it was told to look out for.\<close>

lemma no_way_back:
  "distinct (map sd_id held) \<Longrightarrow> [] \<notin> sd_id ` set held \<Longrightarrow> \<not> leads_back held visited i \<Longrightarrow> x \<in> set visited \<Longrightarrow> x \<noteq> [] \<Longrightarrow> (i, x) \<notin> (edges held)\<^sup>*"
proof (induction held visited i rule: leads_back.induct)
  case (1 held visited i)
  show ?case
  proof (cases "i = []")
    case True
    show ?thesis
    proof
      assume "(i, x) \<in> (edges held)\<^sup>*"
      then obtain s where "([], s) \<in> edges held" using True 1(6) by (metis converse_rtranclE)
      then show False using 1(3) by (auto simp: edges_def)
    qed
  next
    case ne: False
    then have nv: "i \<notin> set visited" and go: "\<not> leads_back held (i # visited) (superseded_by held i)"
      using 1(4) leads_back.simps [of held visited i] by (auto split: if_splits)
    show ?thesis
    proof
      assume path: "(i, x) \<in> (edges held)\<^sup>*"
      have "i \<noteq> x" using nv 1(5) by blast
      then obtain s where s: "(i, s) \<in> edges held" "(s, x) \<in> (edges held)\<^sup>*"
        using path by (meson converse_rtranclE)
      then have "superseded_by held i = s" using superseded_by_edge [OF 1(2)] by blast
      then show False using 1(1) [OF ne nv 1(2,3) go _ 1(6)] 1(5) s(2) by simp
    qed
  qed
qed

lemma edges_append:
  "edges (held @ [d]) = (if sd_supersedes d = [] then edges held else insert (sd_id d, sd_supersedes d) (edges held))"
proof -
  have "edges (held @ [d]) = edges held \<union> {(sd_id e, sd_supersedes e) |e. e \<in> {d} \<and> sd_supersedes e \<noteq> []}"
    unfolding edges_def by auto
  then show ?thesis by auto
qed

lemma stub_accept_inv:
  assumes inv: "stub_inv sb (st t)" and run: "stub_accept parse unmarshal sb t doc st = (res, st')"
    and ids: "\<And>r. unmarshal doc = Inr r \<Longrightarrow> rc_id r \<noteq> []"
  shows "stub_inv sb (st' t) \<and> (\<forall>u. u \<noteq> t \<longrightarrow> st' u = st u) \<and> (res \<noteq> None \<longrightarrow> st' = st) \<and>
    (\<exists>new. st' t = st t @ new) \<and>
    (res = None \<longrightarrow> (\<exists>r tree d. unmarshal doc = Inr r \<and> parse doc = Some tree \<and> d \<in> set (st' t) \<and> sd_id d = rc_id r \<and> sd_content d = content_of tree))"
proof (cases "st' = st")
  case True
  have "\<exists>r tree d. unmarshal doc = Inr r \<and> parse doc = Some tree \<and> d \<in> set (st t) \<and> sd_id d = rc_id r \<and> sd_content d = content_of tree"
    if none: "res = None"
  proof -
    obtain r tree where rt: "unmarshal doc = Inr r" "parse doc = Some tree" "length doc \<le> sb_max_bytes sb" "check_tenant t = None"
      using run none by (auto simp: stub_accept_def split: option.splits if_splits sum.splits)
    show ?thesis
    proof (cases "find (\<lambda>d. sd_id d = rc_id r) (st t)")
      case None
      then have "st' \<noteq> st" using run none rt
        by (auto simp: stub_accept_def Let_def fun_upd_idem_iff split: if_splits)
      then show ?thesis using True by simp
    next
      case (Some d)
      then show ?thesis using run none rt find_Some_iff2 [OF Some] by (auto simp: stub_accept_def Let_def split: if_splits)
    qed
  qed
  then show ?thesis using True inv by auto
next
  case False
  then obtain r tree where rt: "unmarshal doc = Inr r" "parse doc = Some tree" "length doc \<le> sb_max_bytes sb"
    "find (\<lambda>d. sd_id d = rc_id r) (st t) = None" "\<not> leads_back (st t) [rc_id r] (rc_supersedes r)" "res = None"
    "st' = st(t := st t @ [\<lparr>sd_id = rc_id r, sd_doc = doc, sd_content = content_of tree, sd_supersedes = rc_supersedes r\<rparr>])"
    using run by (auto simp: stub_accept_def Let_def split: option.splits if_splits sum.splits)
  have new: "rc_id r \<notin> sd_id ` set (st t)" using rt(4) by (auto simp: find_None_iff)
  have d: "distinct (map sd_id (st t))" "[] \<notin> sd_id ` set (st t)" "acyclic (edges (st t))" using inv by (simp_all add: stub_inv_def)
  have "acyclic (edges (st' t))"
  proof (cases "rc_supersedes r = []")
    case True
    then have "edges (st' t) = edges (st t)" using rt(7) by (simp add: edges_append)
    then show ?thesis using d(3) by simp
  next
    case False
    then have "edges (st' t) = insert (rc_id r, rc_supersedes r) (edges (st t))" using rt(7) by (simp add: edges_append)
    moreover have "(rc_supersedes r, rc_id r) \<notin> (edges (st t))\<^sup>*"
      using no_way_back [OF d(1,2) rt(5)] ids [OF rt(1)] by simp
    ultimately show ?thesis using d(3) by (simp add: acyclic_insert)
  qed
  then have "stub_inv sb (st' t)" using inv new rt(3,7) ids [OF rt(1)] by (auto simp: stub_inv_def)
  then show ?thesis using rt by auto
qed

end
