(* ===== verification/Sink_Facts.thy ===== *)
theory Sink_Facts
  imports Sink_Local "HOL-Library.Multiset"
begin

text \<open>
  The contract between the drain and a sink, as a locale, and that the three sinks keep it; how a
  batch is cut into requests; and what the strict stub holds.
\<close>

subsection \<open>The contract\<close>

definition honest_fault :: "fault \<Rightarrow> bool" where
  "honest_fault f \<longleftrightarrow> (fa_action f = ActionRetry \<or> fa_action f = ActionHalt) \<and> known_detail (fa_detail f)"

locale sink_contract =
  fixes deliver :: "'w delivers"
  assumes answers_the_batch: "deliver t recs w = (Inr rs, w') \<Longrightarrow> distinct (map rc_id recs) \<Longrightarrow>
      distinct (map rj_id rs) \<and> rj_id ` set rs \<subseteq> rc_id ` set recs"
    and refuses_foreign: "deliver t recs w = (Inr rs, w') \<Longrightarrow> r \<in> set recs \<Longrightarrow> \<not> sealed_for r t \<Longrightarrow> rc_id r \<in> rj_id ` set rs"
    and known_rejections: "deliver t recs w = (Inr rs, w') \<Longrightarrow> q \<in> set rs \<Longrightarrow> known_detail (rj_detail q)"
    and faults_honestly: "valid_tenant t \<Longrightarrow> deliver t recs w = (Inl e, w') \<Longrightarrow> \<exists>f. e = SinkFault f \<and> honest_fault f"

subsection \<open>The phrases and the faults of this package\<close>

lemma details_known [simp]:
  "known_detail detail_wrong_tenant" "known_detail detail_invalid_record" "known_detail detail_record_too_large" "known_detail []"
  by (simp_all add: known_detail_def fault_details_def)

lemma transport_honest: "honest_fault (transport_fault ctx e)"
  by (auto simp: honest_fault_def transport_fault_def transport_detail_def known_detail_def fault_details_def
      split: ctx_state.splits option.splits)

lemma unreadable_honest: "honest_fault (unreadable_fault st)"
  by (simp add: honest_fault_def unreadable_fault_def known_detail_def fault_details_def)

lemma write_honest: "honest_fault write_fault"
  by (simp add: honest_fault_def write_fault_def known_detail_def fault_details_def)

lemma status_honest: "status_of st code = VFault f \<Longrightarrow> honest_fault f"
  by (auto simp: status_of_def honest_fault_def known_detail_def Let_def split: if_splits)

lemma check_tenant_valid: "check_tenant t = None \<longleftrightarrow> valid_tenant t"
  by (cases "valid_tenant t") (auto simp: check_tenant_def parse_tenant_valid split: sum.splits)

lemma reject_unsealed_id: "reject_unsealed r t = Some q \<Longrightarrow> rj_id q = rc_id r \<and> known_detail (rj_detail q)"
  by (auto simp: reject_unsealed_def split: if_splits)

lemma reject_unsealed_none: "reject_unsealed r t = None \<longleftrightarrow> sealed_for r t"
  by (simp add: reject_unsealed_def)

lemma invalid_rejection_fields [simp]: "rj_id (invalid_rejection r) = rc_id r" "known_detail (rj_detail (invalid_rejection r))"
  by (simp_all add: invalid_rejection_def)

subsection \<open>The HTTP sink\<close>

lemma read_entries_ids:
  "read_entries ids st seen es = Inr rs \<Longrightarrow>
     distinct (map rj_id rs) \<and> rj_id ` set rs \<subseteq> set ids \<and> rj_id ` set rs \<inter> set seen = {} \<and> (\<forall>q \<in> set rs. rj_detail q = [])"
  by (induction ids st seen es arbitrary: rs rule: read_entries.induct) (fastforce simp: bind_res_Inr split: if_splits)+

lemma read_entries_fault: "read_entries ids st seen es = Inl f \<Longrightarrow> f = unreadable_fault st"
  by (induction ids st seen es rule: read_entries.induct) (auto simp: bind_res_Inl split: if_splits)

lemma rejections_ids:
  "rejections_from parse a ids st = Inr rs \<Longrightarrow> distinct (map rj_id rs) \<and> rj_id ` set rs \<subseteq> set ids \<and> (\<forall>q \<in> set rs. rj_detail q = [])"
  by (auto simp: rejections_from_def Let_def dest!: read_entries_ids split: if_splits option.splits json.splits)

lemma rejections_fault: "rejections_from parse a ids st = Inl f \<Longrightarrow> f = unreadable_fault st"
  by (auto simp: rejections_from_def Let_def dest!: read_entries_fault split: if_splits option.splits json.splits)

lemma send_ids:
  assumes "send parse post tok chunk ids w = (Inr rs, w')" "distinct ids"
  shows "distinct (map rj_id rs) \<and> rj_id ` set rs \<subseteq> set ids \<and> (\<forall>q \<in> set rs. rj_detail q = [])"
proof -
  have ref: "distinct (map rj_id (refusals ids c)) \<and> rj_id ` set (refusals ids c) \<subseteq> set ids \<and> (\<forall>q \<in> set (refusals ids c). rj_detail q = [])" for c
    using assms(2) by (auto simp: refusals_def comp_def)
  show ?thesis using assms(1) ref
    by (auto simp: send_def Let_def dest!: rejections_ids split: prod.splits http_answer.splits if_splits status_verdict.splits)
qed

lemma send_fault: "send parse post tok chunk ids w = (Inl f, w') \<Longrightarrow> honest_fault f"
  by (auto simp: send_def Let_def transport_honest unreadable_honest dest!: rejections_fault status_honest
      split: prod.splits http_answer.splits if_splits status_verdict.splits)

text \<open>The requests of a batch: what the loop of \<open>Deliver\<close> cuts the documents into.\<close>

fun requests :: "nat \<Rightarrow> (bytes \<times> bytes) list \<Rightarrow> (bytes \<times> bytes) list \<Rightarrow> nat \<Rightarrow> (bytes \<times> bytes) list list" where
  "requests max_bytes [] chunk sz = (if chunk = [] then [] else [chunk])"
| "requests max_bytes ((doc, i) # docs) chunk sz =
     (let cost = length doc + (if chunk = [] then 0 else 1) in
      if sz + cost > max_bytes
      then (if chunk = [] then requests max_bytes docs [(doc, i)] (sz + length doc)
            else chunk # requests max_bytes docs [(doc, i)] (body_framing + length doc))
      else requests max_bytes docs (chunk @ [(doc, i)]) (sz + cost))"

text \<open>Sending them one after the other, up to the first fault.\<close>

fun send_each ::
  "(bytes \<Rightarrow> json option) \<Rightarrow> 'w receiver \<Rightarrow> bytes \<Rightarrow> (bytes \<times> bytes) list list \<Rightarrow> rejection list \<Rightarrow> 'w \<Rightarrow> (fault + rejection list) \<times> 'w" where
  "send_each parse post token [] result w = (Inr result, w)"
| "send_each parse post token (c # cs) result w =
     (case send parse post token (map fst c) (map snd c) w of
        (Inl f, w') \<Rightarrow> (Inl f, w')
      | (Inr rejected, w') \<Rightarrow> send_each parse post token cs (result @ rejected) w')"

lemma send_all_each: "send_all parse post m tok docs chunk sz res w = send_each parse post tok (requests m docs chunk sz) res w"
proof (induction parse post m tok docs chunk sz res w rule: send_all.induct)
  case (1 parse post m tok chunk sz res w)
  then show ?case by (simp add: flush_def split: prod.splits sum.splits)
next
  case (2 parse post m tok doc i docs chunk sz res w)
  show ?case
  proof (cases "sz + (length doc + (if chunk = [] then 0 else 1)) > m")
    case True
    show ?thesis
    proof (cases "chunk = []")
      case ce: True
      then show ?thesis using 2 True by (simp add: Let_def flush_def)
    next
      case cn: False
      obtain a w' where sd: "send parse post tok (map fst chunk) (map snd chunk) w = (a, w')" by fastforce
      then show ?thesis
      proof (cases a)
        case (Inl f)
        then show ?thesis using sd True cn by (simp add: Let_def flush_def)
      next
        case (Inr rj)
        then have fl: "flush parse post tok chunk res w = (Inr (res @ rj), w')" using sd cn by (simp add: flush_def)
        show ?thesis using 2 True cn sd Inr fl by (simp add: Let_def)
      qed
    qed
  next
    case False
    then show ?thesis using 2 by (simp add: Let_def)
  qed
qed

lemma join_docs_length: "length (join_docs ds) + (if ds = [] then 0 else 1) = sum_list (map length ds) + length ds"
  by (induction ds rule: join_docs.induct) auto

lemma join_docs_append: "length (join_docs (ds @ [d])) = length (join_docs ds) + length d + (if ds = [] then 0 else 1)"
  using join_docs_length [of ds] join_docs_length [of "ds @ [d]"] by (simp split: if_splits)

lemma request_length: "length (request_body ds) = body_framing + length (join_docs ds)"
  by (simp add: request_body_def body_framing_def)

lemma requests_fit:
  assumes "list_all (\<lambda>(doc, i). body_framing + length doc \<le> m) docs"
    and "sz = body_framing + length (join_docs (map fst chunk))" and "sz \<le> m \<or> chunk = []"
  shows "concat (requests m docs chunk sz) = chunk @ docs \<and>
    list_all (\<lambda>c. c \<noteq> [] \<and> length (request_body (map fst c)) \<le> m) (requests m docs chunk sz)"
  using assms
proof (induction m docs chunk sz rule: requests.induct)
  case (1 m chunk sz)
  then show ?case by (auto simp: request_length)
next
  case (2 m doc i docs chunk sz)
  let ?cost = "length doc + (if chunk = [] then 0 else 1)"
  have doc: "body_framing + length doc \<le> m" "list_all (\<lambda>(doc, i). body_framing + length doc \<le> m) docs"
    using 2(4) by simp_all
  show ?case
  proof (cases "sz + ?cost > m")
    case True
    then have cn: "chunk \<noteq> []" using doc(1) 2(5) by (auto split: if_splits)
    have "length (request_body (map fst chunk)) \<le> m" using 2(5,6) cn by (simp add: request_length)
    then show ?thesis using 2(2) [OF refl True cn doc(2)] doc(1) True cn by (simp add: Let_def)
  next
    case False
    have "sz + ?cost = body_framing + length (join_docs (map fst (chunk @ [(doc, i)])))"
      using 2(5) join_docs_append [of "map fst chunk" doc] by simp
    then show ?thesis using 2(3) [OF refl False doc(2)] False by (simp add: Let_def)
  qed
qed

lemma send_each_ids:
  assumes "send_each parse post tok cs res w = (Inr rs, w')" "distinct (map snd (concat cs))"
  shows "\<exists>new. rs = res @ new \<and> distinct (map rj_id new) \<and> rj_id ` set new \<subseteq> snd ` set (concat cs) \<and> (\<forall>q \<in> set new. rj_detail q = [])"
  using assms
proof (induction cs arbitrary: res w)
  case (Cons c cs)
  obtain rj w1 where s: "send parse post tok (map fst c) (map snd c) w = (Inr rj, w1)"
    and rest: "send_each parse post tok cs (res @ rj) w1 = (Inr rs, w')"
    using Cons(2) by (auto split: prod.splits sum.splits)
  have d: "distinct (map snd c)" "distinct (map snd (concat cs))" "snd ` set c \<inter> snd ` set (concat cs) = {}"
    using Cons(3) by auto
  have r: "distinct (map rj_id rj)" "rj_id ` set rj \<subseteq> snd ` set c" "\<forall>q \<in> set rj. rj_detail q = []"
    using send_ids [OF s d(1)] by auto
  obtain new where new: "rs = (res @ rj) @ new" "distinct (map rj_id new)" "rj_id ` set new \<subseteq> snd ` set (concat cs)"
    "\<forall>q \<in> set new. rj_detail q = []"
    using Cons(1) [OF rest d(2)] by blast
  have "rj_id ` set rj \<inter> rj_id ` set new = {}" using r(2) new(3) d(3) by blast
  then have "distinct (map rj_id (rj @ new))" using r new by auto
  moreover have "rj_id ` set (rj @ new) \<subseteq> snd ` set (concat (c # cs))"
    unfolding set_append image_Un concat.simps using r(2) new(3) by (intro Un_mono)
  ultimately have "distinct (map rj_id (rj @ new))" "rj_id ` set (rj @ new) \<subseteq> snd ` set (concat (c # cs))" by blast+
  then show ?case using new(1,4) r(3) by (intro exI [of _ "rj @ new"]) auto
qed simp

lemma send_each_prefix: "send_each parse post tok cs res w = (Inr rs, w') \<Longrightarrow> \<exists>new. rs = res @ new"
  by (induction cs arbitrary: res w) (fastforce split: prod.splits sum.splits)+

lemma send_details: "send parse post tok chunk ids w = (Inr rs, w') \<Longrightarrow> \<forall>q \<in> set rs. rj_detail q = []"
  by (auto simp: send_def Let_def refusals_def dest!: rejections_ids split: prod.splits http_answer.splits if_splits status_verdict.splits)

lemma send_each_details:
  "send_each parse post tok cs res w = (Inr rs, w') \<Longrightarrow> q \<in> set rs \<Longrightarrow> q \<in> set res \<or> rj_detail q = []"
  by (induction cs arbitrary: res w) (fastforce dest: send_details split: prod.splits sum.splits)+

lemma send_each_fault: "send_each parse post tok cs res w = (Inl f, w') \<Longrightarrow> honest_fault f"
  by (induction cs arbitrary: res w) (auto dest: send_fault split: prod.splits sum.splits)

lemma marshal_one_rejection: "marshal_one wire h t r = Inl q \<Longrightarrow> rj_id q = rc_id r \<and> known_detail (rj_detail q)"
  by (auto simp: marshal_one_def dest: reject_unsealed_id split: option.splits sum.splits if_splits)

lemma marshal_one_fits: "marshal_one wire h t r = Inr doc \<Longrightarrow> body_framing + length doc \<le> hs_max_bytes h \<and> sealed_for r t"
  by (auto simp: marshal_one_def reject_unsealed_none split: option.splits sum.splits if_splits)

text \<open>Every record of a batch is either a document to send or a rejection.\<close>

lemma marshal_all_split:
  "marshal_all wire h t recs = (docs, rejected) \<Longrightarrow>
     mset (map rc_id recs) = mset (map snd docs) + mset (map rj_id rejected) \<and>
     list_all (\<lambda>(doc, i). body_framing + length doc \<le> hs_max_bytes h) docs \<and>
     (\<forall>r \<in> set recs. \<not> sealed_for r t \<longrightarrow> rc_id r \<in> rj_id ` set rejected) \<and>
     (\<forall>q \<in> set rejected. known_detail (rj_detail q))"
proof (induction recs arbitrary: docs rejected)
  case (Cons r recs)
  obtain ds rj where rest: "marshal_all wire h t recs = (ds, rj)" by fastforce
  show ?case
  proof (cases "marshal_one wire h t r")
    case (Inl q)
    then have "docs = ds" "rejected = q # rj" using Cons(2) rest by auto
    then show ?thesis using Cons(1) [OF rest] marshal_one_rejection [OF Inl] by auto
  next
    case (Inr doc)
    then have "docs = (doc, rc_id r) # ds" "rejected = rj" using Cons(2) rest by auto
    then show ?thesis using Cons(1) [OF rest] marshal_one_fits [OF Inr] by auto
  qed
qed simp

text \<open>A batch leaves in order, whole, and within the size of a request. The requests posted are the
  documents that can be sent cut into consecutive runs, none of them empty and none with a body over
  the configured limit; they go out one after the other until one comes back as a fault, and the
  rejections of those answered are what is returned.\<close>

theorem batch_is_cut_into_fitting_requests:
  assumes "marshal_all wire h t recs = (docs, rejected)"
  shows "concat (requests (hs_max_bytes h) docs [] body_framing) = docs \<and>
    list_all (\<lambda>c. c \<noteq> [] \<and> length (request_body (map fst c)) \<le> hs_max_bytes h) (requests (hs_max_bytes h) docs [] body_framing) \<and>
    send_all parse post (hs_max_bytes h) tok docs [] body_framing rejected w =
      send_each parse post tok (requests (hs_max_bytes h) docs [] body_framing) rejected w"
  using requests_fit [of "hs_max_bytes h" docs body_framing "[]"] marshal_all_split [OF assms]
  unfolding send_all_each by simp

definition ex_http_sink :: http_sink where
  "ex_http_sink = \<lparr>hs_names = [], hs_max_bytes = 200\<rparr>"

theorem batch_is_cut_into_fitting_requests_witness:
  "concat (requests (hs_max_bytes ex_http_sink) (fst (marshal_all (\<lambda>_. ''{}'') ex_http_sink ''acme'' [ex_sealed, ex_rec])) [] body_framing) =
     fst (marshal_all (\<lambda>_. ''{}'') ex_http_sink ''acme'' [ex_sealed, ex_rec])"
  by (rule batch_is_cut_into_fitting_requests [OF prod.collapse [symmetric], THEN conjunct1])

lemma http_contract: "sink_contract (http_deliver wire parse token post h)"
proof
  fix t recs w rs w'
  assume run: "http_deliver wire parse token post h t recs w = (Inr rs, w')"
  have cases: "recs = [] \<and> rs = [] \<or> (\<exists>tok docs rejected. marshal_all wire h t recs = (docs, rejected) \<and>
      send_each parse post tok (requests (hs_max_bytes h) docs [] body_framing) rejected w = (Inr rs, w'))"
    using run unfolding send_all_each [symmetric]
    by (auto simp: http_deliver_def Let_def split: option.splits if_splits prod.splits sum.splits)
  {
    assume d: "distinct (map rc_id recs)"
    show "distinct (map rj_id rs) \<and> rj_id ` set rs \<subseteq> rc_id ` set recs"
    proof (cases "recs = [] \<and> rs = []")
      case False
      then obtain tok docs rejected where m: "marshal_all wire h t recs = (docs, rejected)"
        "send_each parse post tok (requests (hs_max_bytes h) docs [] body_framing) rejected w = (Inr rs, w')"
        using cases by blast
      have cc: "concat (requests (hs_max_bytes h) docs [] body_framing) = docs"
        using requests_fit [of "hs_max_bytes h" docs body_framing "[]"] marshal_all_split [OF m(1)] by simp
      have ms: "mset (map rc_id recs) = mset (map snd docs @ map rj_id rejected)" using marshal_all_split [OF m(1)] by simp
      then have dd: "distinct (map snd docs @ map rj_id rejected)" using d mset_eq_imp_distinct_iff by blast
      have st: "rc_id ` set recs = snd ` set docs \<union> rj_id ` set rejected"
        using mset_eq_setD [OF ms] by simp
      obtain new where new: "rs = rejected @ new" "distinct (map rj_id new)" "rj_id ` set new \<subseteq> snd ` set docs"
        using send_each_ids [OF m(2)] dd unfolding cc by auto
      then show ?thesis using dd st by auto
    qed simp
  }
  {
    fix r assume r: "r \<in> set recs" "\<not> sealed_for r t"
    then obtain tok docs rejected where m: "marshal_all wire h t recs = (docs, rejected)"
      "send_each parse post tok (requests (hs_max_bytes h) docs [] body_framing) rejected w = (Inr rs, w')"
      using cases by auto
    then show "rc_id r \<in> rj_id ` set rs" using marshal_all_split [OF m(1)] r send_each_prefix [OF m(2)] by auto
  }
  {
    fix q assume "q \<in> set rs"
    then show "known_detail (rj_detail q)" using cases marshal_all_split send_each_details by fastforce
  }
next
  fix t recs w e w'
  assume "valid_tenant t" "http_deliver wire parse token post h t recs w = (Inl e, w')"
  then show "\<exists>f. e = SinkFault f \<and> honest_fault f"
    unfolding send_all_each
    by (auto simp: http_deliver_def send_all_each Let_def check_tenant_valid [THEN iffD2] honest_fault_def
        known_detail_def fault_details_def dest!: send_each_fault
        split: option.splits if_splits prod.splits sum.splits)
qed

interpretation http: sink_contract "http_deliver wire parse token post h" for wire parse token post h
  by (rule http_contract)

subsection \<open>The file and the stub\<close>

text \<open>Both go through the batch record by record and collect rejections of its own records, in order.\<close>

definition rejects_of :: "bytes \<Rightarrow> rec list \<Rightarrow> rejection list \<Rightarrow> bool" where
  "rejects_of t recs new \<longleftrightarrow> subseq (map rj_id new) (map rc_id recs) \<and>
     (\<forall>r \<in> set recs. \<not> sealed_for r t \<longrightarrow> rc_id r \<in> rj_id ` set new) \<and> (\<forall>q \<in> set new. known_detail (rj_detail q))"

lemma rejects_of_Nil [simp]: "rejects_of t [] []"
  by (simp add: rejects_of_def)

lemma rejects_of_skip: "rejects_of t recs new \<Longrightarrow> sealed_for r t \<Longrightarrow> rejects_of t (r # recs) new"
  by (auto simp: rejects_of_def intro: list_emb_Cons)

lemma rejects_of_add:
  "rejects_of t recs new \<Longrightarrow> rj_id q = rc_id r \<Longrightarrow> known_detail (rj_detail q) \<Longrightarrow> rejects_of t (r # recs) (q # new)"
  by (auto simp: rejects_of_def)

lemma rejects_of_batch:
  assumes "rejects_of t recs rs" "distinct (map rc_id recs)"
  shows "distinct (map rj_id rs) \<and> rj_id ` set rs \<subseteq> rc_id ` set recs"
proof -
  obtain N where n: "map rj_id rs = nths (map rc_id recs) N"
    using assms(1) by (auto simp: rejects_of_def subseq_conv_nths)
  have "set (map rj_id rs) \<subseteq> set (map rc_id recs)" unfolding n by (rule set_nths_subset)
  moreover have "distinct (map rj_id rs)" unfolding n using assms(2) by (rule distinct_nthsI)
  ultimately show ?thesis by (simp only: set_map)
qed

lemma rejects_of_contract:
  assumes "\<And>t recs w rs w'. deliver t recs w = (Inr rs, w') \<Longrightarrow> rejects_of t recs rs"
    and "\<And>t recs w e w'. valid_tenant t \<Longrightarrow> deliver t recs w = (Inl e, w') \<Longrightarrow> \<exists>f. e = SinkFault f \<and> honest_fault f"
  shows "sink_contract deliver"
proof
  fix t recs w rs w'
  assume "deliver t recs w = (Inr rs, w')"
  then have r: "rejects_of t recs rs" by (rule assms(1))
  show "distinct (map rj_id rs) \<and> rj_id ` set rs \<subseteq> rc_id ` set recs" if "distinct (map rc_id recs)"
    using r that by (rule rejects_of_batch)
  show "rc_id r \<in> rj_id ` set rs" if "r \<in> set recs" "\<not> sealed_for r t" for r using r that by (simp add: rejects_of_def)
  show "known_detail (rj_detail q)" if "q \<in> set rs" for q using r that by (simp add: rejects_of_def)
qed (rule assms(2))

lemma jsonl_lines_rejects:
  "jsonl_lines wire j t recs lines rejected = (lines', rs) \<Longrightarrow> \<exists>new. rs = rejected @ new \<and> rejects_of t recs new"
proof (induction recs arbitrary: lines rejected)
  case (Cons r recs)
  have add: ?case if "rj_id q = rc_id r" "known_detail (rj_detail q)"
    "jsonl_lines wire j t recs ls (rejected @ [q]) = (lines', rs)" for q ls
    using Cons(1) [OF that(3)] rejects_of_add [OF _ that(1,2)] by fastforce
  show ?case
  proof (cases "reject_unsealed r t")
    case (Some q)
    then show ?thesis using add [of q lines] reject_unsealed_id [OF Some] Cons(2) by simp
  next
    case None
    then have skip: ?thesis if "jsonl_lines wire j t recs ls rejected = (lines', rs)" for ls
      using Cons(1) [OF that] rejects_of_skip by (auto simp: reject_unsealed_none)
    show ?thesis
    proof (cases "marshal_json wire (rename (jl_names j) r)")
      case (Inl e)
      then show ?thesis using add [of "invalid_rejection r" lines] Cons(2) None by simp
    next
      case (Inr doc)
      then show ?thesis
        using add [of "invalid_rejection r" lines] skip Cons(2) None by (cases "append_line lines doc") simp_all
    qed
  qed
qed simp

lemma jsonl_contract: "sink_contract (jsonl_deliver wire ctx short j)"
proof (rule rejects_of_contract)
  fix t recs fs rs fs'
  assume "jsonl_deliver wire ctx short j t recs fs = (Inr rs, fs')"
  then obtain lines where "jsonl_lines wire j t recs [] [] = (lines, rs)"
    by (auto simp: jsonl_deliver_def Let_def split: option.splits if_splits prod.splits)
  from jsonl_lines_rejects [OF this] show "rejects_of t recs rs" by simp
next
  fix t recs fs e fs'
  assume "valid_tenant t" "jsonl_deliver wire ctx short j t recs fs = (Inl e, fs')"
  then show "\<exists>f. e = SinkFault f \<and> honest_fault f"
    by (auto simp: jsonl_deliver_def Let_def check_tenant_valid [THEN iffD2] transport_honest write_honest
        split: option.splits if_splits prod.splits)
qed

interpretation jsonl: sink_contract "jsonl_deliver wire ctx short j" for wire ctx short j
  by (rule jsonl_contract)

lemma stub_all_rejects:
  "stub_all wire parse unmarshal sb t recs rejected st = (rs, st') \<Longrightarrow> \<exists>new. rs = rejected @ new \<and> rejects_of t recs new"
proof (induction recs arbitrary: rejected st)
  case (Cons r recs)
  have add: ?case if "rj_id q = rc_id r" "known_detail (rj_detail q)"
    "stub_all wire parse unmarshal sb t recs (rejected @ [q]) s = (rs, st')" for q s
    using Cons(1) [OF that(3)] rejects_of_add [OF _ that(1,2)] by fastforce
  show ?case
  proof (cases "reject_unsealed r t")
    case (Some q)
    then show ?thesis using add [of q st] reject_unsealed_id [OF Some] Cons(2) by simp
  next
    case None
    then have skip: ?thesis if "stub_all wire parse unmarshal sb t recs rejected s = (rs, st')" for s
      using Cons(1) [OF that] rejects_of_skip by (auto simp: reject_unsealed_none)
    show ?thesis
    proof (cases "marshal_json wire (rename (sb_names sb) r)")
      case (Inl e)
      then show ?thesis using add [of "invalid_rejection r" st] Cons(2) None by simp
    next
      case (Inr doc)
      obtain a s where acc: "stub_accept parse unmarshal sb t doc st = (a, s)" by fastforce
      then show ?thesis
        using add [of "\<lparr>rj_id = rc_id r, rj_cause = with_code (stub_code (the a)) (new_cause ClassSinkRejected), rj_detail = []\<rparr>" s]
          skip Cons(2) None Inr by (cases a) simp_all
    qed
  qed
qed simp

lemma stub_contract: "sink_contract (stub_deliver wire parse unmarshal sb)"
proof (rule rejects_of_contract)
  fix t recs st rs st'
  assume "stub_deliver wire parse unmarshal sb t recs st = (Inr rs, st')"
  then have "stub_all wire parse unmarshal sb t recs [] st = (rs, st')"
    by (auto simp: stub_deliver_def split: option.splits prod.splits)
  from stub_all_rejects [OF this] show "rejects_of t recs rs" by simp
next
  fix t recs st e st'
  assume "valid_tenant t" "stub_deliver wire parse unmarshal sb t recs st = (Inl e, st')"
  then show "\<exists>f. e = SinkFault f \<and> honest_fault f"
    by (auto simp: stub_deliver_def check_tenant_valid [THEN iffD2] split: prod.splits)
qed

interpretation stub: sink_contract "stub_deliver wire parse unmarshal sb" for wire parse unmarshal sb
  by (rule stub_contract)

subsection \<open>What a strict receiver is left with\<close>

lemma unmarshalled_id:
  assumes "unmarshal_json parse rfc doc = Inr r"
  shows "rc_id r \<noteq> []"
proof -
  have "validate r = None" using decoded_valid [OF assms] by blast
  then have "valid_record_id (rc_id r)" by (simp add: validate_def first_error_None)
  then show ?thesis by (auto simp: valid_record_id_def)
qed

text \<open>C19: Whatever is delivered to it, the strict stub holds each record id of a tenant once, never a document
  over its size, and a history that can be followed: the supersedes links never run in a circle, in
  whatever order the records arrive. What it held stays, in the order it came, and a delivery for one
  tenant touches no other.\<close>

theorem stub_history_has_no_circle:
  assumes "stub_deliver wire parse (unmarshal_json parse rfc) sb t recs st = (res, st')" and "stub_inv sb (st t)"
  shows "stub_inv sb (st' t) \<and> (\<exists>new. st' t = st t @ new) \<and> (\<forall>u. u \<noteq> t \<longrightarrow> st' u = st u)"
proof -
  have run: "stub_inv sb (st1 t) \<and> (\<exists>new. st1 t = st0 t @ new) \<and> (\<forall>u. u \<noteq> t \<longrightarrow> st1 u = st0 u)"
    if "stub_all wire parse (unmarshal_json parse rfc) sb t recs rj st0 = (rs, st1)" "stub_inv sb (st0 t)" for rj rs st0 st1
    using that
  proof (induction recs arbitrary: rj st0)
    case (Cons r recs)
    have step: ?case if s: "stub_inv sb (s t)" "\<exists>new. s t = st0 t @ new" "\<forall>u. u \<noteq> t \<longrightarrow> s u = st0 u"
      and rest: "stub_all wire parse (unmarshal_json parse rfc) sb t recs q s = (rs, st1)" for s q
      using Cons(1) [OF rest s(1)] s(2,3) by auto
    show ?case
    proof (cases "reject_unsealed r t")
      case (Some q)
      then show ?thesis using step [of st0] Cons(2,3) by simp
    next
      case None
      show ?thesis
      proof (cases "marshal_json wire (rename (sb_names sb) r)")
        case (Inl e)
        then show ?thesis using step [of st0] Cons(2,3) None by simp
      next
        case (Inr doc)
        obtain a s where acc: "stub_accept parse (unmarshal_json parse rfc) sb t doc st0 = (a, s)" by fastforce
        have "stub_inv sb (s t)" "\<exists>new. s t = st0 t @ new" "\<forall>u. u \<noteq> t \<longrightarrow> s u = st0 u"
          using stub_accept_inv [OF Cons(3) acc unmarshalled_id] by auto
        then show ?thesis using step Cons(2) None Inr acc by (cases a) auto
      qed
    qed
  qed simp
  show ?thesis
  proof (cases "check_tenant t")
    case (Some e)
    then show ?thesis using assms by (auto simp: stub_deliver_def)
  next
    case None
    then obtain rs where "stub_all wire parse (unmarshal_json parse rfc) sb t recs [] st = (rs, st')"
      using assms(1) by (auto simp: stub_deliver_def split: prod.splits)
    from run [OF this assms(2)] show ?thesis by blast
  qed
qed

definition ex_stub :: stub where
  "ex_stub = \<lparr>sb_names = [], sb_max_bytes = 10\<rparr>"

theorem stub_history_has_no_circle_witness:
  "stub_inv ex_stub (snd (stub_deliver (\<lambda>_. ''{}'') ex_parse (unmarshal_json ex_parse (\<lambda>_. Some ex_time)) ex_stub ''acme''
     [ex_sealed, ex_sealed] (\<lambda>_. [])) ''acme'')"
proof -
  have "stub_inv ex_stub []" by (simp add: stub_inv_def edges_def acyclic_def)
  from stub_history_has_no_circle [OF prod.collapse [symmetric], where st = "\<lambda>_. []", OF this]
  show ?thesis by blast
qed

end
