(* ===== verification/Worker.thy ===== *)
theory Worker
  imports Pipeline Outbox Sink
begin

text \<open>
  internal/worker/worker.go: the drain. Its state is the outbox, the pipeline's tables and, beyond a
  sink, the receivers \<open>'w\<close>. One record holds what a drain is built with: the pipeline's parameters,
  the codec of a record and the sink of each tenant. The clock is read once for the preparation and
  once for the outcome of a row. Log lines and the recovery of a panic, after which the row keeps its
  lease, are left out.
\<close>

subsection \<open>Options\<close>

record drain_options =
  op_pool :: int
  op_batch :: int
  op_lease :: int
  op_row_timeout :: int
  op_poll :: int
  op_halt_pause :: int
  op_ladder :: "ladder option"

datatype drain_error = ErrNegativePool | ErrPoolTooLarge | ErrRowOutlivesLease

definition or_default :: "int \<Rightarrow> int \<Rightarrow> int" where
  "or_default v fallback = (if v = 0 then fallback else v)"

text \<open>\<open>NewDrain\<close>, for a database pool of \<open>conns\<close> connections.\<close>

definition new_drain :: "int \<Rightarrow> drain_options \<Rightarrow> drain_error + drain_options" where
  "new_drain conns op =
     (let pool = (if op_pool op = 0 then min 4 (max 1 (conns - 1)) else op_pool op) in
      if pool < 0 then Inl ErrNegativePool
      else if pool \<ge> conns then Inl ErrPoolTooLarge
      else
        let op' = op\<lparr>op_pool := pool,
                     op_batch := or_default (op_batch op) 5,
                     op_lease := or_default (op_lease op) (120 * second_ns),
                     op_row_timeout := or_default (op_row_timeout op) (90 * second_ns),
                     op_poll := or_default (op_poll op) second_ns,
                     op_halt_pause := or_default (op_halt_pause op) (60 * second_ns),
                     op_ladder := (case op_ladder op of None \<Rightarrow> Some default_ladder | Some l \<Rightarrow> Some l)\<rparr> in
        if op_row_timeout op' \<ge> op_lease op' then Inl ErrRowOutlivesLease else Inr op')"

subsection \<open>The state of a worker process\<close>

record ('h, 'w) drain =
  dn_hash :: "bytes \<Rightarrow> bytes"
  dn_keep :: bool
  dn_registry :: "'h registry"
  dn_mint :: "nat \<Rightarrow> bytes option"
  dn_wire :: "rec \<Rightarrow> bytes"
  dn_unmarshal :: "bytes \<Rightarrow> rec_error + rec"
  dn_sinks :: "bytes \<Rightarrow> 'w delivers option"
  dn_ladder :: ladder
  dn_halt_pause :: int

record 'w wstate =
  ws_ob :: odb
  ws_pd :: pdb
  ws_rcv :: 'w

datatype worker_error = WePipe pipe_failure | WeUnwritable rec_error | WeOutbox ob_error | WeTenancy tenancy_error

text \<open>\<open>errors.Is(err, pipeline.ErrDeadLetter)\<close>.\<close>

fun is_dead_letter :: "worker_error \<Rightarrow> bool" where
  "is_dead_letter (WePipe (DeadLetter _)) = True"
| "is_dead_letter (WePipe (Retryable _)) = False"
| "is_dead_letter (WeUnwritable _) = True"
| "is_dead_letter (WeOutbox _) = False"
| "is_dead_letter (WeTenancy _) = False"

subsection \<open>Outcomes\<close>

definition finish :: "int \<Rightarrow> claimed \<Rightarrow> dead_record list \<Rightarrow> 'w wstate \<Rightarrow> 'w wstate" where
  "finish now c dead s = s\<lparr>ws_ob := snd (mark_delivered now c dead (ws_ob s))\<rparr>"

definition fail_row :: "('h, 'w) drain \<Rightarrow> int \<Rightarrow> claimed \<Rightarrow> cause \<Rightarrow> 'w wstate \<Rightarrow> 'w wstate" where
  "fail_row dn now c cs s = s\<lparr>ws_ob := snd (fail now c (dn_ladder dn) cs (ws_ob s))\<rparr>"

definition dead_row :: "int \<Rightarrow> claimed \<Rightarrow> cause \<Rightarrow> 'w wstate \<Rightarrow> 'w wstate" where
  "dead_row now c cs s = s\<lparr>ws_ob := snd (mark_dead now c cs (ws_ob s))\<rparr>"

definition halt_row :: "('h, 'w) drain \<Rightarrow> int \<Rightarrow> claimed \<Rightarrow> cause \<Rightarrow> 'w wstate \<Rightarrow> 'w wstate" where
  "halt_row dn now c cs s = s\<lparr>ws_ob := snd (halt now c (dn_halt_pause dn) cs (ws_ob s))\<rparr>"

definition fail_pipeline :: "('h, 'w) drain \<Rightarrow> int \<Rightarrow> claimed \<Rightarrow> fail_class \<Rightarrow> worker_error \<Rightarrow> 'w wstate \<Rightarrow> 'w wstate" where
  "fail_pipeline dn now c cl err s =
     (if is_dead_letter err then dead_row now c (new_cause ClassNormalizer) s
      else fail_row dn now c (new_cause cl) s)"

subsection \<open>The records to deliver\<close>

fun documents_of :: "(rec \<Rightarrow> bytes) \<Rightarrow> rec list \<Rightarrow> worker_error + prepared_record list" where
  "documents_of wire [] = Inr []"
| "documents_of wire (r # rs) =
     (case marshal_json wire r of
        Inl e \<Rightarrow> Inl (WeUnwritable e)
      | Inr doc \<Rightarrow> bind_res (documents_of wire rs)
          (\<lambda>ps. Inr (\<lparr>p_record_id = rc_id r, p_document = doc, p_op = rc_op r, p_kind = rc_kind r\<rparr> # ps)))"

fun reopen_all ::
  "(bytes \<Rightarrow> bytes) \<Rightarrow> (bytes \<Rightarrow> rec_error + rec) \<Rightarrow> bytes \<Rightarrow> bytes \<Rightarrow> prepared_record list \<Rightarrow> reopen_error + rec list" where
  "reopen_all h unmarshal p t [] = Inr []"
| "reopen_all h unmarshal p t (s # ss) =
     bind_res (reopen h unmarshal \<lparr>st_id = p_record_id s, st_op = p_op s, st_kind = p_kind s, st_document = p_document s\<rparr> p t)
       (\<lambda>r. bind_res (reopen_all h unmarshal p t ss) (\<lambda>rs. Inr (r # rs)))"

text \<open>The one transaction of the first commit: the ledger, the redaction map and the outbox.\<close>

definition prepare_and_store ::
  "('h, 'w) drain \<Rightarrow> int \<Rightarrow> claimed \<Rightarrow> normalized \<Rightarrow> pdb \<times> odb \<Rightarrow> (worker_error + rec list) \<times> pdb \<times> odb" where
  "prepare_and_store dn now c n =
     tenant_tx WeTenancy (cl_tenant c) (\<lambda>tx (pd, ob).
       case prepare (dn_mint dn) (Some tx) (cl_tenant c) n pd of
         ((out, Some e), pd') \<Rightarrow> Inl (WePipe e)
       | ((out, None), pd') \<Rightarrow>
           bind_res (documents_of (dn_wire dn) (pp_records out)) (\<lambda>docs.
           bind_res (map_err WeOutbox (prepare_in tx now c docs ob)) (\<lambda>(_, ob').
             Inr (pp_records out, (pd', ob')))))"

text \<open>\<open>readyRecords\<close>: \<open>None\<close> when the row has been dealt with.\<close>

definition ready_records :: "('h, 'w) drain \<Rightarrow> int \<Rightarrow> int \<Rightarrow> claimed \<Rightarrow> work \<Rightarrow> 'w wstate \<Rightarrow> rec list option \<times> 'w wstate" where
  "ready_records dn now now' c wk s =
     (if w_state wk \<noteq> Pending
      then (case prepared_records c (ws_ob s) of
              Inl _ \<Rightarrow> (None, fail_row dn now' c (new_cause ClassInternal) s)
            | Inr ps \<Rightarrow>
                (case reopen_all (dn_hash dn) (dn_unmarshal dn) (w_provider wk) (cl_tenant c) ps of
                   Inl _ \<Rightarrow> (None, dead_row now' c (with_code ''stored_record'' (new_cause ClassInternal)) s)
                 | Inr rs \<Rightarrow> (Some rs, s)))
      else (case normalize (dn_hash dn) (dn_keep dn) (dn_registry dn)
                   \<lparr>dv_tenant = cl_tenant c, dv_provider = w_provider wk, dv_id = cl_id c,
                    dv_body = (case w_body wk of None \<Rightarrow> [] | Some b \<Rightarrow> b)\<rparr> of
              Inl e \<Rightarrow> (None, fail_pipeline dn now' c ClassProviderUnavailable (WePipe e) s)
            | Inr n \<Rightarrow>
                (case prepare_and_store dn now c n (ws_pd s, ws_ob s) of
                   (Inl e, pd, ob) \<Rightarrow>
                     (None, if e = WeOutbox ErrLeaseLost then s\<lparr>ws_pd := pd, ws_ob := ob\<rparr>
                            else fail_pipeline dn now' c ClassInternal e (s\<lparr>ws_pd := pd, ws_ob := ob\<rparr>))
                 | (Inr rs, pd, ob) \<Rightarrow> (Some rs, s\<lparr>ws_pd := pd, ws_ob := ob\<rparr>))))"

subsection \<open>Delivering\<close>

fun dead_from :: "rec list \<Rightarrow> bytes list \<Rightarrow> rejection list \<Rightarrow> dead_record list option" where
  "dead_from offered seen [] = Some []"
| "dead_from offered seen (q # qs) =
     (if rj_id q \<notin> rc_id ` set offered then None
      else if rj_id q \<in> set seen then None
      else map_option (Cons \<lparr>dr_record_id = rj_id q, dr_cause = rj_cause q\<rparr>) (dead_from offered (rj_id q # seen) qs))"

definition dead_records :: "rejection list \<Rightarrow> rec list \<Rightarrow> dead_record list option" where
  "dead_records rejected offered = dead_from offered [] rejected"

definition deliver_records :: "('h, 'w) drain \<Rightarrow> int \<Rightarrow> claimed \<Rightarrow> rec list \<Rightarrow> 'w wstate \<Rightarrow> 'w wstate" where
  "deliver_records dn now c rs s =
     (if rs = [] then finish now c [] s
      else case dn_sinks dn (cl_tenant c) of
        None \<Rightarrow> halt_row dn now c (with_code ''no_sink'' (new_cause ClassInternal)) s
      | Some deliver \<Rightarrow>
     (case deliver (cl_tenant c) rs (ws_rcv s) of
        (Inl (SinkFault f), w) \<Rightarrow>
          (case fa_action f of
             ActionRetry \<Rightarrow> fail_row dn now c (fa_cause f) (s\<lparr>ws_rcv := w\<rparr>)
           | ActionHalt \<Rightarrow> halt_row dn now c (fa_cause f) (s\<lparr>ws_rcv := w\<rparr>)
           | _ \<Rightarrow> halt_row dn now c (with_code ''sink_contract'' (new_cause ClassInternal)) (s\<lparr>ws_rcv := w\<rparr>))
      | (Inl _, w) \<Rightarrow> halt_row dn now c (with_code ''sink_contract'' (new_cause ClassInternal)) (s\<lparr>ws_rcv := w\<rparr>)
      | (Inr rejected, w) \<Rightarrow>
          (case dead_records rejected rs of
             None \<Rightarrow> fail_row dn now c (new_cause ClassSinkUnreadable) (s\<lparr>ws_rcv := w\<rparr>)
           | Some dead \<Rightarrow> finish now c dead (s\<lparr>ws_rcv := w\<rparr>))))"

subsection \<open>One row, one batch\<close>

definition work_row :: "('h, 'w) drain \<Rightarrow> int \<Rightarrow> int \<Rightarrow> claimed \<Rightarrow> 'w wstate \<Rightarrow> 'w wstate" where
  "work_row dn now now' c s =
     (if ladder_exhausted (dn_ladder dn) (int (cl_attempt c))
      then s\<lparr>ws_ob := snd (mark_abandoned now c (ws_ob s))\<rparr>
      else case work_of c (ws_ob s) of
        Inl _ \<Rightarrow> fail_row dn now' c (new_cause ClassInternal) s
      | Inr wk \<Rightarrow>
          (case ready_records dn now now' c wk s of
             (None, s') \<Rightarrow> s'
           | (Some rs, s') \<Rightarrow> deliver_records dn now' c rs s'))"

text \<open>\<open>once\<close>: the rows of a claim in order; when the shutdown comes after \<open>k\<close> of them were started, the
  rest is given back. \<open>clock\<close> gives the two times of a row.\<close>

definition give_back :: "claimed list \<Rightarrow> 'w wstate \<Rightarrow> 'w wstate" where
  "give_back cs s = s\<lparr>ws_ob := fold (\<lambda>c ob. snd (release c ob)) cs (ws_ob s)\<rparr>"

fun work_batch :: "('h, 'w) drain \<Rightarrow> (claimed \<Rightarrow> int \<times> int) \<Rightarrow> nat \<Rightarrow> claimed list \<Rightarrow> 'w wstate \<Rightarrow> 'w wstate" where
  "work_batch dn clock k [] s = s"
| "work_batch dn clock 0 (c # cs) s = give_back (c # cs) s"
| "work_batch dn clock (Suc k) (c # cs) s = work_batch dn clock k cs (work_row dn (fst (clock c)) (snd (clock c)) c s)"

definition once ::
  "('h, 'w) drain \<Rightarrow> drain_options \<Rightarrow> int \<Rightarrow> bytes \<Rightarrow> bytes list \<Rightarrow> (claimed \<Rightarrow> int \<times> int) \<Rightarrow> nat \<Rightarrow> 'w wstate
   \<Rightarrow> (ob_error + nat) \<times> 'w wstate" where
  "once dn op now tok locked clock k s =
     (case claim now tok locked (op_batch op) (op_lease op) (ws_ob s) of
        (Inl e, ob) \<Rightarrow> (Inl e, s\<lparr>ws_ob := ob\<rparr>)
      | (Inr cs, ob) \<Rightarrow> (Inr (length cs), work_batch dn clock k cs (s\<lparr>ws_ob := ob\<rparr>)))"

end
