(* ===== verification/Worker_Facts.thy ===== *)
theory Worker_Facts
  imports Worker Outbox_Facts Pipeline_Facts Sink_Facts
begin

text \<open>
  What the drain guarantees: every row it works ends with an outcome that lets go of the lease, what a
  sink is offered is what was committed, and the answers of the program's sinks can always be
  recorded.
\<close>

subsection \<open>A row that is held\<close>

definition held_row :: "claimed \<Rightarrow> row \<Rightarrow> odb \<Rightarrow> bool" where
  "held_row c r d \<longleftrightarrow> r \<in> set (rows d) \<and> r_id r = cl_id c \<and> r_tenant r = cl_tenant c \<and>
     r_lease_token r = Some (cl_token c) \<and> cl_token c \<noteq> []"

lemma held_row_facts:
  assumes "ob_inv d" "held_row c r d"
  shows "valid_tenant (cl_tenant c)" "unfinished r" "holds_lease (bound (cl_tenant c)) (cl_id c) (cl_token c) r"
    "sql_get (bound (cl_tenant c)) (cl_id c) d = Some r"
proof -
  have r: "r \<in> set (rows d)" "r_id r = cl_id c" "r_tenant r = cl_tenant c" "r_lease_token r = Some (cl_token c)"
    using assms(2) by (simp_all add: held_row_def)
  show "valid_tenant (cl_tenant c)" using ob_inv_row [OF assms(1) r(1)] r(3) by (simp add: row_ok_def)
  show "unfinished r" using leased_head [OF assms(1) r(1)] r(4) head_first [OF assms(1) r(1)] by (simp add: first_of_key_def)
  show "holds_lease (bound (cl_tenant c)) (cl_id c) (cl_token c) r" using r by (simp add: holds_lease_def visible_bound)
  show "sql_get (bound (cl_tenant c)) (cl_id c) d = Some r"
    using sql_get_row [OF ob_inv_ids [OF assms(1)] r(1,3)] r(2) by simp
qed

text \<open>A row with no lease is held by nobody.\<close>

lemma lost_get:
  assumes "ids_ok d" "sql_get (bound (cl_tenant c)) (cl_id c) d = Some q" "r_lease_token q = None"
  shows "lost c d"
proof -
  have q: "q \<in> set (rows d)" "r_id q = cl_id c" using assms(2) find_Some_iff2 [of _ "rows d" q] by (auto simp: sql_get_def)
  have "r_lease_token r \<noteq> Some (cl_token c)" if "r \<in> set (rows d)" "r_id r = cl_id c" for r
    using ids_inj [OF assms(1) that(1) q(1)] that(2) q(2) assms(3) by auto
  then show ?thesis by (auto simp: lost_def)
qed

lemma exec_lets_go:
  assumes inv: "ob_inv d" and r: "held_row c r d"
    and ch: "\<And>tx d. change tx d = held (exec_rows (\<lambda>r. holds_lease tx (cl_id c) (cl_token c) r \<and> unfinished r) f d)"
    and f: "r_id (f r) = r_id r" "r_tenant (f r) = r_tenant r" "r_lease_token (f r) = None"
    and inv': "\<And>d'. transition c change d = (Inr (), d') \<Longrightarrow> ob_inv d'"
  shows "lost c (snd (transition c change d))"
proof -
  note h = held_row_facts [OF inv r]
  have rr: "r \<in> set (rows d)" "r_id r = cl_id c" "r_tenant r = cl_tenant c" "cl_token c \<noteq> []"
    using r by (simp_all add: held_row_def)
  define d' where "d' = update_rows (\<lambda>r. holds_lease (bound (cl_tenant c)) (cl_id c) (cl_token c) r \<and> unfinished r) f d"
  have run: "transition c change d = (Inr (), d')"
    unfolding d'_def
    by (rule exec_one [OF ob_inv_ids [OF inv] rr(1) h(3), where Q = unfinished]) (use h rr ch in simp_all)
  have "sql_get (bound (cl_tenant c)) (cl_id c) d' = Some (f r)"
    using updated_row [OF inv' [OF run] d'_def rr(1)] h(2,3) rr(2,3) f(1,2) by simp
  then show ?thesis using lost_get [OF ob_inv_ids [OF inv' [OF run]] _ f(3)] run by simp
qed

lemma dead_reason_lets_go:
  assumes inv: "ob_inv d" and r: "held_row c r d"
  shows "lost c (snd (mark_dead_reason now c reason cs d))"
proof -
  have rr: "r \<in> set (rows d)" "r_id r = cl_id c" "r_tenant r = cl_tenant c" "r_lease_token r = Some (cl_token c)" "cl_token c \<noteq> []"
    using r by (simp_all add: held_row_def)
  obtain d' where d': "mark_dead_reason now c reason cs d = (Inr (), d')"
    "sql_get (bound (cl_tenant c)) (cl_id c) d' = Some (r\<lparr>r_state := Dead, r_is_head := False, r_dead_reason := reason,
       r_last_error := clip (cause_text cs), r_finished_at := Some now, r_lease_until := None, r_lease_token := None\<rparr>)"
    by (rule mark_dead_reason_runs [OF inv rr])
  then show ?thesis using lost_get [OF ob_inv_ids [OF mark_dead_reason_inv [OF inv d'(1)]] d'(2)] by simp
qed

lemma halt_lets_go:
  assumes inv: "ob_inv d" and r: "held_row c r d" and p: "0 < pause"
  shows "lost c (snd (halt now c pause cs d))"
proof -
  have "lost c (snd (transition c (\<lambda>tx d. held (sql_halt tx now (cl_id c) (cl_token c) pause (clip (cause_text cs)) d)) d))"
    by (rule exec_lets_go [OF inv r, where f = "\<lambda>r. r\<lparr>r_next_attempt_at := now + pause, r_last_error := clip (cause_text cs),
              r_lease_until := None, r_lease_token := None, r_attempts := r_attempts r - 1\<rparr>"])
      (use p halt_inv [OF inv, of now c pause cs "Inr ()"] in \<open>simp_all add: sql_halt_def halt_def\<close>)
  then show ?thesis using p by (simp add: halt_def)
qed

lemma fail_lets_go:
  assumes inv: "ob_inv d" and r: "held_row c r d"
  shows "lost c (snd (fail now c l cs d))"
proof (cases "ladder_next l (int (cl_attempt c))")
  case None
  then show ?thesis using dead_reason_lets_go [OF inv r] by (simp add: fail_def)
next
  case (Some delay)
  have "lost c (snd (transition c (\<lambda>tx d. held (sql_retry tx now (cl_id c) (cl_token c) delay (clip (cause_text cs)) d)) d))"
    by (rule exec_lets_go [OF inv r, where f = "\<lambda>r. r\<lparr>r_next_attempt_at := now + delay, r_last_error := clip (cause_text cs),
              r_lease_until := None, r_lease_token := None\<rparr>"])
      (use Some fail_inv [OF inv, of now c l cs "Inr ()"] in \<open>simp_all add: sql_retry_def fail_def\<close>)
  then show ?thesis using Some by (simp add: fail_def)
qed

subsection \<open>Recording a delivery\<close>

definition waiting :: "bytes \<Rightarrow> odb \<Rightarrow> bytes set" where
  "waiting i d = x_record_id ` {x \<in> set (recs d). x_outbox_id x = i \<and> x_state x = RPrepared}"

lemma mark_dead_records_ok:
  assumes "r \<in> set (rows d)" "r_id r = i" "r_tenant r = t"
    and "distinct (map dr_record_id dead)" "dr_record_id ` set dead \<subseteq> waiting i d"
  shows "\<exists>d'. mark_dead_records (bound t) now i dead d = Inr d'"
  using assms
proof (induction dead arbitrary: d)
  case (Cons a dead)
  let ?s = "sql_mark_record_dead (bound t) now i (dr_record_id a) reason_not_retryable (clip (cause_text (dr_cause a))) d"
  have vis: "visible_rec (bound t) d x" if "x_outbox_id x = i" for x
    using Cons.prems(1-3) that by (auto simp: visible_rec_def list_ex_iff)
  obtain x where x: "x \<in> set (recs d)" "x_outbox_id x = i" "x_state x = RPrepared" "x_record_id x = dr_record_id a"
    using Cons.prems(5) by (auto simp: waiting_def)
  then have n: "fst ?s \<noteq> 0" using vis [OF x(2)] by (auto simp: sql_mark_record_dead_def Let_def filter_empty_conv)
  have rows: "rows (snd ?s) = rows d" by (simp add: sql_mark_record_dead_def Let_def)
  have "dr_record_id b \<in> waiting i (snd ?s)" if b: "b \<in> set dead" for b
  proof -
    obtain y where y: "y \<in> set (recs d)" "x_outbox_id y = i" "x_state y = RPrepared" "x_record_id y = dr_record_id b"
      using Cons.prems(5) b by (auto simp: waiting_def)
    moreover have "dr_record_id b \<noteq> dr_record_id a" using Cons.prems(4) b by (auto simp: image_iff)
    ultimately have "y \<in> set (recs (snd ?s))" unfolding sql_mark_record_dead_def Let_def by (force simp: image_iff)
    then show ?thesis unfolding waiting_def using y by (intro image_eqI [of _ _ y]) simp_all
  qed
  then have "\<exists>d'. mark_dead_records (bound t) now i dead (snd ?s) = Inr d'"
    using Cons.IH [of "snd ?s"] Cons.prems(1-4) rows by (auto simp: waiting_def image_subset_iff)
  then show ?case using n by (simp add: split_beta Let_def)
qed simp

lemma mark_dead_records_seq: "mark_dead_records tx now i rs d = Inr d' \<Longrightarrow> next_seq d' = next_seq d"
  by (induction rs arbitrary: d) (force simp: split_beta Let_def sql_mark_record_dead_def split: if_splits)+

lemma finished_row:
  assumes ids: "ids_ok d" and r: "held_row c r d" and unf: "unfinished r"
  defines "P \<equiv> \<lambda>r. holds_lease (bound (cl_tenant c)) (cl_id c) (cl_token c) r \<and> unfinished r"
  assumes d': "d' = sql_promote (bound (cl_tenant c)) (cl_tenant c) (r_ordering_key r) (update_rows P f d)" "ob_inv d'"
    and f: "r_id (f r) = r_id r" "r_tenant (f r) = r_tenant r" "\<not> r_is_head (f r)" "\<not> unfinished (f r)"
  shows "sql_get (bound (cl_tenant c)) (cl_id c) d' = Some (f r) \<and> matching P d = [r]"
proof -
  have rr: "r \<in> set (rows d)" "r_id r = cl_id c" "r_tenant r = cl_tenant c" "r_lease_token r = Some (cl_token c)"
    using r by (simp_all add: held_row_def)
  have hl: "holds_lease (bound (cl_tenant c)) (cl_id c) (cl_token c) r" using rr by (simp add: holds_lease_def visible_bound)
  have one: "one_row d P r" "matching P d \<noteq> []"
    using held_one_row [OF ids rr(1) hl, where Q = unfinished] unf unfolding P_def by blast+
  have m: "matching P d = [r]"
    using matching_cases [OF ids, of P "cl_id c"] one unfolding P_def by (metis (no_types, lifting) holds_lease_def one_row_def)
  have "mark_head j (f r) \<in> set (rows d')"
    if "j = map_option r_id (next_of_key (bound (cl_tenant c)) (cl_tenant c) (r_ordering_key r) (update_rows P f d))" for j
    using rr(1) unfolding d'(1) promote_rows that rows_one_row [OF one(1)] by force
  then obtain j where j: "mark_head j (f r) \<in> set (rows d')" by blast
  then have "f r \<in> set (rows d')"
    using f(3,4) head_first [OF d'(2) j] by (auto simp: mark_head_def first_of_key_def unfinished_def split: if_splits)
  then show ?thesis using sql_get_row [OF ob_inv_ids [OF d'(2)], of "f r"] rr(2,3) f(1,2) m by simp
qed

lemma delivered_lets_go:
  assumes inv: "ob_inv d" and r: "held_row c r d"
    and dead: "distinct (map dr_record_id dead)" "dr_record_id ` set dead \<subseteq> waiting (cl_id c) d"
  shows "\<exists>d'. mark_delivered now c dead d = (Inr (), d') \<and> lost c d'"
proof -
  note h = held_row_facts [OF inv r]
  have rr: "r \<in> set (rows d)" "r_id r = cl_id c" "r_tenant r = cl_tenant c" "cl_token c \<noteq> []"
    using r by (simp_all add: held_row_def)
  let ?t = "cl_tenant c" and ?P = "\<lambda>r. holds_lease (bound (cl_tenant c)) (cl_id c) (cl_token c) r \<and> unfinished r"
  define f where "f = (\<lambda>r::row. r\<lparr>r_state := Delivered, r_is_head := False, r_finished_at := Some now,
              r_lease_until := None, r_lease_token := None, r_last_error := []\<rparr>)"
  obtain d0 where d0: "mark_dead_records (bound ?t) now (cl_id c) dead d = Inr d0"
    using mark_dead_records_ok [OF rr(1-3) dead] by blast
  define d1 where "d1 = sql_mark_records_delivered (bound ?t) now (cl_id c) d0"
  have rows1: "rows d1 = rows d" using mark_dead_records_rows [OF d0] by (simp add: d1_def sql_mark_records_delivered_def)
  have m: "matching ?P d1 = matching ?P d" by (simp add: matching_def rows1)
  have "matching ?P d = [r]"
    using matching_cases [OF ob_inv_ids [OF inv], of ?P "cl_id c"] held_one_row [OF ob_inv_ids [OF inv] rr(1) h(3), where Q = unfinished] h(2)
    by (metis (no_types, lifting) holds_lease_def one_row_def)
  then have fin: "sql_mark_delivered (bound ?t) now (cl_id c) (cl_token c) d1 = (Some (r_ordering_key r), update_rows ?P f d1)"
    using m by (simp add: sql_mark_delivered_def finish_rows_def f_def)
  define d' where "d' = sql_promote (bound ?t) ?t (r_ordering_key r) (update_rows ?P f d1)"
  have run: "mark_delivered now c dead d = (Inr (), d')"
    using rr(4) d0 fin by (simp add: mark_delivered_def transition_def tenant_tx_valid [OF h(1)] begin_tx_def
        mark_delivered_in_def finish_in_def d1_def [symmetric] d'_def)
  have inv': "ob_inv d'" by (rule mark_delivered_inv [OF inv run])
  have "next_seq d1 = next_seq d" using mark_dead_records_seq [OF d0] by (simp add: d1_def sql_mark_records_delivered_def)
  then have ids1: "ids_ok d1" using ob_inv_ids [OF inv] rows1 by (simp add: ids_ok_def)
  have "sql_get (bound ?t) (cl_id c) d' = Some (f r)"
    using finished_row [OF ids1 _ h(2) d'_def inv'] r by (simp add: held_row_def rows1 f_def unfinished_def)
  then show ?thesis using run lost_get [OF ob_inv_ids [OF inv']] by (simp add: f_def)
qed

end
