(* ===== verification/Worker_Batch.thy ===== *)
theory Worker_Batch
  imports Worker_Facts
begin

text \<open>
  The drain's row and batch: whatever the provider, the ledger, the masker or the sink answers, a row
  that is worked lets go of its lease, and a pass over the outbox leaves no row under its token.
\<close>

subsection \<open>The records of a held row\<close>

lemma lost_split: "held_row c r d \<Longrightarrow> ob_inv d \<Longrightarrow> work_of c d = Inr \<lparr>w_provider = r_provider r, w_state = r_state r,
    w_body = (if r_state r = Pending then Some (r_raw_body r) else None)\<rparr>"
  using held_row_facts [of d c r] by (simp add: work_of_def tenant_tx_valid begin_tx_def sql_work_def)

lemma prepared_ids:
  assumes "ob_inv d" "held_row c r d" "prepared_records c d = Inr ps"
  shows "p_record_id ` set ps \<subseteq> waiting (cl_id c) d"
  using assms(3) held_row_facts(1) [OF assms(1,2)]
  by (auto simp: prepared_records_def tenant_tx_valid begin_tx_def sql_prepared_records_def waiting_def)

lemma reopen_all_ids: "reopen_all h u p t ps = Inr rs \<Longrightarrow> map rc_id rs = map p_record_id ps"
proof (induction ps arbitrary: rs)
  case (Cons a ps)
  obtain q qs where q: "reopen h u \<lparr>st_id = p_record_id a, st_op = p_op a, st_kind = p_kind a, st_document = p_document a\<rparr> p t = Inr q"
    "reopen_all h u p t ps = Inr qs" "rs = q # qs"
    using Cons.prems by (auto simp: bind_res_Inr split: sum.splits)
  have "rc_id q = p_record_id a" using q(1) by (auto simp: reopen_def split: sum.splits if_splits)
  then show ?case using Cons.IH [OF q(2)] q(3) by simp
qed simp

lemma documents_ids: "documents_of wire rs = Inr ps \<Longrightarrow> map p_record_id ps = map rc_id rs"
  by (induction rs arbitrary: ps) (auto simp: bind_res_Inr split: sum.splits)

lemma store_waiting: "sql_store_prepared tx now i ps d = Inr d' \<Longrightarrow> p_record_id ` set ps \<subseteq> waiting i d' \<and> rows d' = rows d"
proof -
  assume st: "sql_store_prepared tx now i ps d = Inr d'"
  have d': "d' = d\<lparr>recs := recs d @ map (\<lambda>(n, p). new_orec now i n p) (enumerate 0 ps)\<rparr>"
    using st by (auto simp: sql_store_prepared_def Let_def split: if_splits)
  have "p_record_id p \<in> waiting i d'" if p: "p \<in> set ps" for p
  proof -
    obtain j where j: "j < length ps" "ps ! j = p" using p by (metis in_set_conv_nth)
    have "new_orec now i j p \<in> set (recs d')"
    proof -
      have "map (\<lambda>j. new_orec now i (0 + j) (ps ! j)) [0..<length ps] ! j = new_orec now i j p" using j by simp
      then show ?thesis using j(1) nth_mem [of j "map (\<lambda>j. new_orec now i (0 + j) (ps ! j)) [0..<length ps]"]
        unfolding d' enumerate_new_recs by simp
    qed
    then show ?thesis unfolding waiting_def by (intro image_eqI [of _ _ "new_orec now i j p"]) (simp_all add: new_orec_def)
  qed
  then show ?thesis by (auto simp: d')
qed

text \<open>The first commit keeps the lease and stores every record as waiting.\<close>

lemma prepare_in_held:
  assumes inv: "ob_inv d" and r: "held_row c r d" "r_state r = Pending"
  shows "prepare_in (bound (cl_tenant c)) now c ps d \<noteq> Inl ErrLeaseLost"
    and "prepare_in (bound (cl_tenant c)) now c ps d = Inr (u, d') \<Longrightarrow>
      (\<exists>q. held_row c q d') \<and> p_record_id ` set ps \<subseteq> waiting (cl_id c) d'"
proof -
  note h = held_row_facts [OF inv r(1)]
  have rr: "r \<in> set (rows d)" "cl_token c \<noteq> []" "r_id r = cl_id c" "r_tenant r = cl_tenant c" "r_lease_token r = Some (cl_token c)"
    using r(1) by (simp_all add: held_row_def)
  let ?P = "\<lambda>r. holds_lease (bound (cl_tenant c)) (cl_id c) (cl_token c) r \<and> r_state r = Pending"
  let ?d1 = "update_rows ?P (\<lambda>r. r\<lparr>r_state := Prepared, r_prepared_at := Some now\<rparr>) d"
  have m: "matching ?P d \<noteq> []"
    using held_one_row [OF ob_inv_ids [OF inv] rr(1) h(3), where Q = "\<lambda>r. r_state r = Pending"] r(2) by simp
  have hd: "held (sql_mark_prepared (bound (cl_tenant c)) now (cl_id c) (cl_token c) d) = Inr ((), ?d1)"
    using m by (simp add: sql_mark_prepared_def held_def exec_rows_def)
  have nl: "sql_store_prepared tx now i ps e \<noteq> Inl ErrLeaseLost" for tx i e by (simp add: sql_store_prepared_def Let_def)
  show "prepare_in (bound (cl_tenant c)) now c ps d \<noteq> Inl ErrLeaseLost"
    using nl [of "bound (cl_tenant c)" "cl_id c" ?d1] by (auto simp: prepare_in_def hd rr(2) split: sum.split)
  have q: "held_row c (r\<lparr>r_state := Prepared, r_prepared_at := Some now\<rparr>) ?d1"
    using rr h(3) r(2) by (force simp: held_row_def)
  assume "prepare_in (bound (cl_tenant c)) now c ps d = Inr (u, d')"
  then have "(ps = [] \<and> d' = ?d1) \<or> sql_store_prepared (bound (cl_tenant c)) now (cl_id c) ps ?d1 = Inr d'"
    by (auto simp: prepare_in_def hd rr(2) split: if_splits sum.splits)
  then show "(\<exists>q. held_row c q d') \<and> p_record_id ` set ps \<subseteq> waiting (cl_id c) d'"
  proof
    assume "ps = [] \<and> d' = ?d1"
    then show ?thesis using q by auto
  next
    assume "sql_store_prepared (bound (cl_tenant c)) now (cl_id c) ps ?d1 = Inr d'"
    from store_waiting [OF this] show ?thesis using q unfolding held_row_def by metis
  qed
qed


lemma documents_records: "documents_of wire rs = Inr docs \<Longrightarrow> p_record_id ` set docs = rc_id ` set rs"
  using documents_ids [of wire rs docs] by (metis list.set_map)

lemma prepare_and_store_held:
  assumes inv: "ob_inv ob" and r: "held_row c r ob" "r_state r = Pending"
  shows "prepare_and_store dn now c n (pd, ob) = (Inl e, x) \<Longrightarrow> e \<noteq> WeOutbox ErrLeaseLost \<and> x = (pd, ob)"
    and "prepare_and_store dn now c n (pd, ob) = (Inr rs, (pd', ob')) \<Longrightarrow>
      ob_inv ob' \<and> (\<exists>q. held_row c q ob') \<and> rc_id ` set rs \<subseteq> waiting (cl_id c) ob'"
proof -
  note vt = held_row_facts(1) [OF inv r(1)]
  note p = prepare_in_held [OF inv r]
  {
    assume *: "prepare_and_store dn now c n (pd, ob) = (Inl e, x)"
    have nd: "documents_of wire rs \<noteq> Inl (WeOutbox ErrLeaseLost)" for wire rs
      by (induction rs) (auto split: sum.splits simp: bind_res_Inl)
    show "e \<noteq> WeOutbox ErrLeaseLost \<and> x = (pd, ob)"
      using * p(1) nd unfolding prepare_and_store_def
      by (auto dest: tenant_tx_rollback simp: tenant_tx_valid [OF vt] begin_tx_def bind_res_Inl bind_res_Inr map_err_Inl
            split: prod.splits sum.splits option.splits)
  next
    assume "prepare_and_store dn now c n (pd, ob) = (Inr rs, (pd', ob'))"
    then obtain docs u where "documents_of (dn_wire dn) rs = Inr docs" "prepare_in (bound (cl_tenant c)) now c docs ob = Inr (u, ob')"
      unfolding prepare_and_store_def
      by (auto simp: tenant_tx_commit bind_res_Inr map_err_Inr split: prod.splits option.splits)
    then show "ob_inv ob' \<and> (\<exists>q. held_row c q ob') \<and> rc_id ` set rs \<subseteq> waiting (cl_id c) ob'"
      using prepare_in_inv [OF inv] p(2) documents_records by metis
  }
qed

subsection \<open>A row is let go\<close>

definition settled_row :: "claimed \<Rightarrow> 'w wstate \<Rightarrow> bool" where
  "settled_row c s \<longleftrightarrow> ob_inv (ws_ob s) \<and> lost c (ws_ob s)"

lemma outcomes_settle:
  assumes inv: "ob_inv (ws_ob s)" and r: "held_row c r (ws_ob s)"
  shows "settled_row c (fail_row dn now c cs s)" "settled_row c (dead_row now c cs s)"
    "0 < dn_halt_pause dn \<Longrightarrow> settled_row c (halt_row dn now c cs s)"
    "settled_row c (fail_pipeline dn now c cl e s)"
proof -
  show f: "settled_row c (fail_row dn now c cs s)" for cs
    using fail_lets_go [OF inv r] fail_inv [OF inv prod.collapse [symmetric]] by (simp add: settled_row_def fail_row_def)
  show d: "settled_row c (dead_row now c cs s)" for cs
    using dead_reason_lets_go [OF inv r] mark_dead_reason_inv [OF inv prod.collapse [symmetric]]
    by (simp add: settled_row_def dead_row_def mark_dead_def)
  show "0 < dn_halt_pause dn \<Longrightarrow> settled_row c (halt_row dn now c cs s)"
    using halt_lets_go [OF inv r] halt_inv [OF inv prod.collapse [symmetric]] by (simp add: settled_row_def halt_row_def)
  show "settled_row c (fail_pipeline dn now c cl e s)" using f d by (simp add: fail_pipeline_def)
qed

lemma dead_from_ids: "dead_from rs seen qs = Some dead \<Longrightarrow>
   distinct (map dr_record_id dead) \<and> dr_record_id ` set dead \<subseteq> rc_id ` set rs - set seen"
proof (induction qs arbitrary: seen dead)
  case (Cons q qs)
  obtain rest where q: "rj_id q \<in> rc_id ` set rs" "rj_id q \<notin> set seen" "dead_from rs (rj_id q # seen) qs = Some rest"
    "dead = \<lparr>dr_record_id = rj_id q, dr_cause = rj_cause q\<rparr> # rest"
    using Cons.prems by (auto split: if_splits)
  show ?case using Cons.IH [OF q(3)] q by (simp add: subset_Diff_insert)
qed simp

lemma deliver_settles:
  assumes inv: "ob_inv (ws_ob s)" and r: "held_row c r (ws_ob s)" and p: "0 < dn_halt_pause dn"
    and rs: "rc_id ` set rs \<subseteq> waiting (cl_id c) (ws_ob s)"
  shows "settled_row c (deliver_records dn now c rs s)"
proof -
  have fin: "settled_row c (finish now c dead (s\<lparr>ws_rcv := w\<rparr>))"
    if "dead_from rs [] qs = Some dead" for dead qs w
  proof -
    have "distinct (map dr_record_id dead)" "dr_record_id ` set dead \<subseteq> waiting (cl_id c) (ws_ob s)"
      using dead_from_ids [OF that] subset_trans [OF _ rs] by simp_all
    from delivered_lets_go [OF inv r this, of now] show ?thesis
      using mark_delivered_inv [OF inv] by (auto simp: settled_row_def finish_def)
  qed
  have fin0: "settled_row c (finish now c [] s)"
    using fin [of "[]" "[]" "ws_rcv s"] by simp
  note out = outcomes_settle [where s = "s\<lparr>ws_rcv := w\<rparr>" for w, simplified, OF inv r]
  show ?thesis
    unfolding deliver_records_def dead_records_def
    using fin fin0 out(1,2) out(3) [OF p] outcomes_settle(3) [OF inv r p]
    by (auto split: option.splits prod.splits sum.splits sink_error.splits action.splits)
qed

lemma work_row_settles:
  assumes inv: "ob_inv (ws_ob s)" and r: "held_row c r (ws_ob s)" and p: "0 < dn_halt_pause dn"
  shows "settled_row c (work_row dn now now' c s)"
proof (cases "ladder_exhausted (dn_ladder dn) (int (cl_attempt c))")
  case True
  then show ?thesis
    using dead_reason_lets_go [OF inv r] mark_dead_reason_inv [OF inv prod.collapse [symmetric]]
    by (simp add: work_row_def settled_row_def mark_abandoned_def)
next
  case False
  let ?wk = "\<lparr>w_provider = r_provider r, w_state = r_state r, w_body = (if r_state r = Pending then Some (r_raw_body r) else None)\<rparr>"
  have run: "work_row dn now now' c s =
      (case ready_records dn now now' c ?wk s of (None, s') \<Rightarrow> s' | (Some rs, s') \<Rightarrow> deliver_records dn now' c rs s')"
    using False lost_split [OF r inv] by (simp add: work_row_def)
  note out = outcomes_settle [OF inv r]
  show ?thesis
  proof (cases "r_state r = Pending")
    case False
    have "settled_row c (deliver_records dn now' c rs s)"
      if "prepared_records c (ws_ob s) = Inr ps" "reopen_all (dn_hash dn) (dn_unmarshal dn) (r_provider r) (cl_tenant c) ps = Inr rs" for ps rs
      using deliver_settles [OF inv r p, of rs now'] prepared_ids [OF inv r that(1)] reopen_all_ids [OF that(2)]
      by (metis list.set_map)
    then show ?thesis using False out unfolding run ready_records_def by (auto split: sum.split)
  next
    case True
    note ps = prepare_and_store_held [OF inv r True]
    show ?thesis
    proof (cases "normalize (dn_hash dn) (dn_keep dn) (dn_registry dn)
        \<lparr>dv_tenant = cl_tenant c, dv_provider = r_provider r, dv_id = cl_id c, dv_body = r_raw_body r\<rparr>")
      case (Inl e)
      then show ?thesis using True out unfolding run ready_records_def by simp
    next
      case n: (Inr n)
      obtain res pd ob where st: "prepare_and_store dn now c n (ws_pd s, ws_ob s) = (res, (pd, ob))" by (metis prod.collapse)
      show ?thesis
      proof (cases res)
        case (Inl e)
        have "e \<noteq> WeOutbox ErrLeaseLost \<and> (pd, ob) = (ws_pd s, ws_ob s)" by (rule ps(1) [OF st [unfolded Inl]])
        then show ?thesis using True n st Inl out(4) unfolding run ready_records_def by simp
      next
        case (Inr rs)
        obtain q where q: "ob_inv ob" "held_row c q ob" "rc_id ` set rs \<subseteq> waiting (cl_id c) ob"
          using ps(2) [OF st [unfolded Inr]] by blast
        have "settled_row c (deliver_records dn now' c rs (s\<lparr>ws_pd := pd, ws_ob := ob\<rparr>))"
          by (rule deliver_settles [OF _ _ p]) (use q in simp_all)
        then show ?thesis using True n st Inr unfolding run ready_records_def by simp
      qed
    qed
  qed
qed

subsection \<open>A batch is let go\<close>

text \<open>No operation on a claimed row grants a lease.\<close>

definition no_new_lease :: "odb \<Rightarrow> odb \<Rightarrow> bool" where
  "no_new_lease d d' \<longleftrightarrow> (\<forall>r \<in> set (rows d'). r_lease_token r \<noteq> None \<longrightarrow>
     (\<exists>q \<in> set (rows d). r_id q = r_id r \<and> r_tenant q = r_tenant r \<and> r_lease_token q = r_lease_token r))"

lemma no_new_lease_refl [simp]: "no_new_lease d d"
  by (auto simp: no_new_lease_def)

lemma no_new_lease_trans: "no_new_lease a b \<Longrightarrow> no_new_lease b d \<Longrightarrow> no_new_lease a d"
  by (simp add: no_new_lease_def) metis

lemma no_new_lease_rows: "rows d' = map f (rows d) \<Longrightarrow>
    (\<And>r. r_id (f r) = r_id r \<and> r_tenant (f r) = r_tenant r \<and> (r_lease_token (f r) = None \<or> r_lease_token (f r) = r_lease_token r)) \<Longrightarrow>
    no_new_lease d d'"
  unfolding no_new_lease_def by fastforce

lemma lost_stays: "lost c d \<Longrightarrow> no_new_lease d d' \<Longrightarrow> lost c d'"
  unfolding lost_def no_new_lease_def by (metis option.distinct(1))

lemma exec_no_new:
  "held (exec_rows P f d) = Inr (u, d') \<Longrightarrow>
   (\<And>r. r_id (f r) = r_id r \<and> r_tenant (f r) = r_tenant r \<and> (r_lease_token (f r) = None \<or> r_lease_token (f r) = r_lease_token r)) \<Longrightarrow>
   no_new_lease d d'"
  by (rule no_new_lease_rows [where f = "\<lambda>r. if P r then f r else r"]) (auto simp: held_ok exec_rows_def)

lemma promote_no_new: "no_new_lease d (sql_promote tx t k d)"
  by (rule no_new_lease_rows [OF promote_rows(1)]) (simp add: mark_head_def)

lemma finish_no_new:
  assumes "finish_in tx c fin d = Inr (u, d')" "fin d = Inr (finish_rows P f d1)" "rows d1 = rows d"
    and f: "\<And>r. r_id (f r) = r_id r \<and> r_tenant (f r) = r_tenant r \<and> r_lease_token (f r) = None"
  shows "no_new_lease d d'"
proof -
  obtain k where "d' = sql_promote tx (cl_tenant c) k (update_rows P f d1)"
    using assms(1,2) by (auto simp: finish_in_def finish_rows_def split: list.splits)
  moreover have "no_new_lease d (update_rows P f d1)"
    by (rule no_new_lease_rows [where f = "\<lambda>r. if P r then f r else r"]) (auto simp: assms(3) f)
  ultimately show ?thesis using no_new_lease_trans promote_no_new by blast
qed

lemma transition_no_new:
  "(\<And>u d1. change (bound (cl_tenant c)) d = Inr (u, d1) \<Longrightarrow> no_new_lease d d1) \<Longrightarrow> no_new_lease d (snd (transition c change d))"
  by (rule transition_keeps [where Q = "no_new_lease d", OF no_new_lease_refl prod.collapse [symmetric]])

lemma release_no_new: "no_new_lease d (snd (release c d))"
  unfolding release_def
  by (rule transition_no_new) (auto simp: sql_release_def elim!: exec_no_new)

lemma halt_no_new: "no_new_lease d (snd (halt now c pause cs d))"
proof -
  have "no_new_lease d (snd (transition c (\<lambda>tx d. held (sql_halt tx now (cl_id c) (cl_token c) pause (clip (cause_text cs)) d)) d))"
    by (rule transition_no_new) (auto simp: sql_halt_def elim!: exec_no_new)
  then show ?thesis by (simp add: halt_def)
qed

lemma mark_dead_reason_no_new: "no_new_lease d (snd (mark_dead_reason now c reason cs d))"
  unfolding mark_dead_reason_def
  by (rule transition_no_new, erule finish_no_new [OF _ _ refl], unfold sql_mark_dead_def, rule refl) simp

lemma fail_no_new: "no_new_lease d (snd (fail now c l cs d))"
proof (cases "ladder_next l (int (cl_attempt c))")
  case None
  then show ?thesis using mark_dead_reason_no_new by (simp add: fail_def)
next
  case (Some delay)
  have "no_new_lease d (snd (transition c (\<lambda>tx d. held (sql_retry tx now (cl_id c) (cl_token c) delay (clip (cause_text cs)) d)) d))"
    by (rule transition_no_new) (auto simp: sql_retry_def elim!: exec_no_new)
  then show ?thesis using Some by (simp add: fail_def)
qed

lemma mark_delivered_no_new: "no_new_lease d (snd (mark_delivered now c dead d))"
  unfolding mark_delivered_def
proof (rule transition_no_new)
  fix u d1 assume *: "mark_delivered_in now c dead (bound (cl_tenant c)) d = Inr (u, d1)"
  then obtain d0 where d0: "mark_dead_records (bound (cl_tenant c)) now (cl_id c) dead d = Inr d0"
    unfolding mark_delivered_in_def finish_in_def by (auto split: sum.splits)
  show "no_new_lease d d1"
    by (rule finish_no_new [OF * [unfolded mark_delivered_in_def], unfolded d0 sum.case sql_mark_delivered_def, OF refl])
      (simp_all add: mark_dead_records_rows [OF d0])
qed

lemma prepare_in_no_new:
  assumes "prepare_in tx now c ps d = Inr (u, d')"
  shows "no_new_lease d d'"
proof -
  let ?d1 = "snd (sql_mark_prepared tx now (cl_id c) (cl_token c) d)"
  have "rows d' = rows ?d1"
    using assms store_waiting by (fastforce simp: prepare_in_def held_def split: if_splits sum.splits)
  then show ?thesis
    by (intro no_new_lease_rows [where f = "\<lambda>r. if holds_lease tx (cl_id c) (cl_token c) r \<and> r_state r = Pending
          then r\<lparr>r_state := Prepared, r_prepared_at := Some now\<rparr> else r"])
      (auto simp: sql_mark_prepared_def exec_rows_def)
qed

text \<open>What every outbox operation of a row keeps, the drain keeps.\<close>

locale row_outcomes =
  fixes keeps :: "odb \<Rightarrow> bool"
  assumes fail_keeps: "keeps d \<Longrightarrow> keeps (snd (fail now c l cs d))"
    and dead_keeps: "keeps d \<Longrightarrow> keeps (snd (mark_dead_reason now c reason cs d))"
    and halt_keeps: "keeps d \<Longrightarrow> keeps (snd (halt now c pause cs d))"
    and delivered_keeps: "keeps d \<Longrightarrow> keeps (snd (mark_delivered now c dead d))"
    and prepare_keeps: "keeps d \<Longrightarrow> prepare_in tx now c ps d = Inr (u, d') \<Longrightarrow> keeps d'"
begin

lemma store_keeps:
  assumes "keeps ob"
  shows "keeps (snd (snd (prepare_and_store dn now c n (pd, ob))))"
proof (cases "prepare_and_store dn now c n (pd, ob)")
  case (fields res pd' ob')
  show ?thesis
  proof (cases res)
    case (Inl e)
    have "(pd', ob') = (pd, ob)" by (rule tenant_tx_rollback [OF fields [unfolded Inl prepare_and_store_def]])
    then show ?thesis using fields assms by simp
  next
    case (Inr rs)
    then obtain docs u where "prepare_in (bound (cl_tenant c)) now c docs ob = Inr (u, ob')"
      using fields unfolding prepare_and_store_def
      by (auto simp: tenant_tx_commit bind_res_Inr map_err_Inr split: prod.splits option.splits)
    then show ?thesis using prepare_keeps [OF assms] fields by simp
  qed
qed

lemma outcome_keeps:
  assumes "keeps (ws_ob s)"
  shows "keeps (ws_ob (finish now c dead s))" "keeps (ws_ob (fail_row dn now c cs s))"
    "keeps (ws_ob (dead_row now c cs s))" "keeps (ws_ob (halt_row dn now c cs s))"
    "keeps (ws_ob (fail_pipeline dn now c cl e s))"
  using fail_keeps [OF assms] dead_keeps [OF assms] halt_keeps [OF assms] delivered_keeps [OF assms]
  by (simp_all add: finish_def fail_row_def dead_row_def mark_dead_def halt_row_def fail_pipeline_def)

lemma deliver_keeps:
  assumes "keeps (ws_ob s)"
  shows "keeps (ws_ob (deliver_records dn now c rs s))"
  unfolding deliver_records_def
  by (auto split: option.splits prod.splits sum.splits sink_error.splits action.splits intro!: outcome_keeps assms)

lemma ready_keeps:
  assumes k: "keeps (ws_ob s)" and run: "ready_records dn now now' c wk s = (x, s')"
  shows "keeps (ws_ob s')"
proof (cases "w_state wk = Pending")
  case False
  then show ?thesis using run outcome_keeps [OF k] k by (auto simp: ready_records_def split: sum.splits)
next
  case True
  show ?thesis
  proof (cases "normalize (dn_hash dn) (dn_keep dn) (dn_registry dn)
                 \<lparr>dv_tenant = cl_tenant c, dv_provider = w_provider wk, dv_id = cl_id c,
                  dv_body = (case w_body wk of None \<Rightarrow> [] | Some b \<Rightarrow> b)\<rparr>")
    case (Inl e)
    then show ?thesis using run True outcome_keeps [OF k] by (auto simp: ready_records_def)
  next
    case (Inr n)
    obtain res pd ob where st: "prepare_and_store dn now c n (ws_pd s, ws_ob s) = (res, (pd, ob))" by (metis prod.collapse)
    have a: "keeps (ws_ob (s\<lparr>ws_pd := pd, ws_ob := ob\<rparr>))" using store_keeps [OF k, of dn now c n "ws_pd s"] st by simp
    show ?thesis
      using run True Inr st a outcome_keeps [OF a] by (auto simp: ready_records_def split: sum.splits if_splits)
  qed
qed

lemma row_keeps:
  assumes k: "keeps (ws_ob s)"
  shows "keeps (ws_ob (work_row dn now now' c s))"
proof -
  have "keeps (snd (mark_abandoned now c (ws_ob s)))" by (simp add: mark_abandoned_def dead_keeps [OF k])
  then show ?thesis
    unfolding work_row_def
    by (auto split: sum.split prod.split option.split intro: outcome_keeps [OF k] ready_keeps [OF k] deliver_keeps [OF ready_keeps [OF k]])
qed

end

interpretation row_inv: row_outcomes ob_inv
  by unfold_locales (auto intro: fail_inv mark_dead_reason_inv halt_inv mark_delivered_inv prepare_in_inv prod.collapse [symmetric])

interpretation row_leases: row_outcomes "no_new_lease d" for d
  by unfold_locales
    (auto intro: no_new_lease_trans fail_no_new mark_dead_reason_no_new halt_no_new mark_delivered_no_new prepare_in_no_new)

text \<open>The lost rows of a batch and what can still be held.\<close>

lemma release_settles:
  assumes inv: "ob_inv d" and r: "held_row c r d"
  shows "lost c (snd (release c d))"
  unfolding release_def
  by (rule exec_lets_go [OF inv r, where f = "\<lambda>r. r\<lparr>r_lease_until := None, r_lease_token := None, r_attempts := r_attempts r - 1\<rparr>"])
    (use release_inv [OF inv, of c] in \<open>simp_all add: sql_release_def release_def\<close>)

text \<open>A claim no row contradicts: every row under its id and token is the tenant's.\<close>

definition claims_own :: "claimed \<Rightarrow> odb \<Rightarrow> bool" where
  "claims_own c d \<longleftrightarrow> cl_token c \<noteq> [] \<and>
     (\<forall>r \<in> set (rows d). r_id r = cl_id c \<and> r_lease_token r = Some (cl_token c) \<longrightarrow> r_tenant r = cl_tenant c)"

lemma claims_own_cases: "claims_own c d \<Longrightarrow> lost c d \<or> (\<exists>r. held_row c r d)"
  by (auto simp: claims_own_def lost_def held_row_def)

lemma claims_own_stays: "claims_own c d \<Longrightarrow> no_new_lease d d' \<Longrightarrow> claims_own c d'"
  unfolding claims_own_def no_new_lease_def by (metis option.distinct(1))

lemma give_back_settles:
  assumes "ob_inv d" "\<forall>c \<in> set cs. claims_own c d"
  shows "ob_inv (fold (\<lambda>c ob. snd (release c ob)) cs d) \<and> no_new_lease d (fold (\<lambda>c ob. snd (release c ob)) cs d) \<and>
    (\<forall>c \<in> set cs. lost c (fold (\<lambda>c ob. snd (release c ob)) cs d))"
  using assms
proof (induction cs arbitrary: d)
  case (Cons c cs)
  let ?d = "snd (release c d)"
  have inv: "ob_inv ?d" by (rule release_inv [OF Cons.prems(1) prod.collapse [symmetric]])
  have nn: "no_new_lease d ?d" by (rule release_no_new)
  have lost: "lost c ?d"
    using claims_own_cases [of c d] Cons.prems release_settles lost_stays [OF _ nn] by auto
  have "\<forall>c \<in> set cs. claims_own c ?d" using Cons.prems(2) claims_own_stays [OF _ nn] by simp
  from Cons.IH [OF inv this] show ?case using lost lost_stays no_new_lease_trans [OF nn] by auto
qed simp

lemma worked_batch_settles:
  assumes "ob_inv (ws_ob s)" "\<forall>c \<in> set cs. claims_own c (ws_ob s)" "0 < dn_halt_pause dn"
  shows "ob_inv (ws_ob (work_batch dn clock k cs s)) \<and> no_new_lease (ws_ob s) (ws_ob (work_batch dn clock k cs s)) \<and>
    (\<forall>c \<in> set cs. lost c (ws_ob (work_batch dn clock k cs s)))"
  using assms
proof (induction dn clock k cs s rule: work_batch.induct)
  case (2 dn clock c cs s)
  then show ?case using give_back_settles [of "ws_ob s" "c # cs"] by (simp add: give_back_def)
next
  case (3 dn clock k c cs s)
  let ?s = "work_row dn (fst (clock c)) (snd (clock c)) c s"
  have inv: "ob_inv (ws_ob ?s)" by (rule row_inv.row_keeps [OF 3(2)])
  have nn: "no_new_lease (ws_ob s) (ws_ob ?s)" by (rule row_leases.row_keeps) simp
  have lost: "lost c (ws_ob ?s)"
    using claims_own_cases [of c "ws_ob s"] 3(3) work_row_settles [OF 3(2) _ 3(4)] lost_stays [OF _ nn]
    by (auto simp: settled_row_def)
  have own: "\<forall>c \<in> set cs. claims_own c (ws_ob ?s)" using 3(3) claims_own_stays [OF _ nn] by simp
  from 3(1) [OF inv own 3(4)] show ?case using lost lost_stays no_new_lease_trans [OF nn] by auto
qed simp

lemma claim_owns:
  assumes run: "claim now tok locked n lease d = (Inr cs, d')" and tok: "tok \<noteq> []"
    and inv: "ids_ok d" and fresh: "\<forall>r \<in> set (rows d). r_lease_token r \<noteq> Some tok"
  shows "\<forall>c \<in> set cs. claims_own c d' \<and> cl_token c = tok"
    and "r \<in> set (rows d') \<Longrightarrow> r_lease_token r = Some tok \<Longrightarrow> \<exists>c \<in> set cs. cl_id c = r_id r"
proof -
  let ?cs = "claim_candidates now locked (min (nat n) max_batch) d"
  have cs: "cs = map (\<lambda>r. \<lparr>cl_id = r_id r, cl_tenant = r_tenant r, cl_attempt = Suc (r_attempts r), cl_token = tok\<rparr>) ?cs"
    and d': "d' = update_rows (\<lambda>r. r_id r \<in> set (map r_id ?cs)) (lease_row now lease tok) d"
    using claim_result [OF run] by (simp_all add: sql_claim_def Let_def)
  have own: "\<exists>q \<in> set ?cs. r_id r = r_id q \<and> r_tenant r = r_tenant q" if "r \<in> set (rows d')" "r_lease_token r = Some tok" for r
  proof -
    obtain r0 where r0: "r0 \<in> set (rows d)" "r = (if r_id r0 \<in> set (map r_id ?cs) then lease_row now lease tok r0 else r0)"
      using \<open>r \<in> set (rows d')\<close> by (auto simp: d')
    then have "r_id r0 \<in> set (map r_id ?cs)" using \<open>r_lease_token r = Some tok\<close> fresh by (auto split: if_splits)
    then obtain q where q: "q \<in> set ?cs" "r_id q = r_id r0" by auto
    then have "q = r0" using ids_inj [OF inv] claim_candidates_rows r0(1) by blast
    then show ?thesis using q r0(2) by (auto simp: lease_row_def split: if_splits)
  qed
  show "r \<in> set (rows d') \<Longrightarrow> r_lease_token r = Some tok \<Longrightarrow> \<exists>c \<in> set cs. cl_id c = r_id r"
    using own by (fastforce simp: cs)
  have "claims_own c d'" if c: "c \<in> set cs" for c
  proof -
    obtain q where q: "q \<in> set ?cs" "cl_id c = r_id q" "cl_tenant c = r_tenant q" "cl_token c = tok" using c by (auto simp: cs)
    have "r_tenant r = cl_tenant c" if r: "r \<in> set (rows d')" "r_id r = cl_id c" "r_lease_token r = Some (cl_token c)" for r
    proof -
      obtain q' where q': "q' \<in> set ?cs" "r_id r = r_id q'" "r_tenant r = r_tenant q'" using own [of r] r q(4) by auto
      then have "q' = q" using ids_inj [OF inv] claim_candidates_rows q(1,2) r(2) by metis
      then show ?thesis using q' q(3) by simp
    qed
    then show ?thesis using tok q(4) by (simp add: claims_own_def)
  qed
  then show "\<forall>c \<in> set cs. claims_own c d' \<and> cl_token c = tok" by (auto simp: cs)
qed

text \<open>A pass of the drain lets every row it claimed go. Whatever the providers, the ledger, the
  masker, the codec and the sinks answer (a sink that breaks its contract included), and wherever a
  shutdown cuts the batch, after \<open>once\<close> no row of the outbox is under the pass's lease token any more:
  each was delivered, killed, put on the retry ladder, halted or given back. The outbox's invariant
  holds again, so no pass strands a key.\<close>

theorem a_pass_lets_every_row_go:
  assumes "ob_reach h (ws_ob s)" and "hex_hash h" and "0 < dn_halt_pause dn" and "tok \<noteq> []"
    and "\<forall>r \<in> set (rows (ws_ob s)). r_lease_token r \<noteq> Some tok"
    and "once dn op now tok locked clock k s = (Inr n, s')"
  shows "ob_inv (ws_ob s') \<and> (\<forall>r \<in> set (rows (ws_ob s')). r_lease_token r \<noteq> Some tok)"
proof -
  note inv = ob_reach_inv [OF assms(1,2)]
  obtain cs ob where cl: "claim now tok locked (op_batch op) (op_lease op) (ws_ob s) = (Inr cs, ob)"
    and s': "s' = work_batch dn clock k cs (s\<lparr>ws_ob := ob\<rparr>)"
    using assms(6) by (auto simp: once_def split: prod.splits sum.splits)
  note own = claim_owns [OF cl assms(4) ob_inv_ids [OF inv] assms(5)]
  have inv1: "ob_inv ob" by (rule claim_inv [OF inv cl])
  have own1: "\<forall>c \<in> set cs. claims_own c (ws_ob (s\<lparr>ws_ob := ob\<rparr>))" using own(1) by simp
  note fin = worked_batch_settles [OF _ own1 assms(3), of clock k, folded s', simplified, OF inv1]
  have "r_lease_token r \<noteq> Some tok" if r: "r \<in> set (rows (ws_ob s'))" for r
  proof
    assume t: "r_lease_token r = Some tok"
    then obtain q where q: "q \<in> set (rows ob)" "r_id q = r_id r" "r_lease_token q = Some tok"
      using fin r unfolding no_new_lease_def by (metis option.distinct(1))
    obtain c where c: "c \<in> set cs" "cl_id c = r_id q" using own(2) [OF q(1,3)] by blast
    then show False using fin own(1) r t q(2) unfolding lost_def by metis
  qed
  then show ?thesis using fin by blast
qed


text \<open>A drain over no providers whose tenant has no sink: the claimed rows end as dead letters.\<close>

definition ex_drain :: "(unit, unit) drain" where
  "ex_drain = \<lparr>dn_hash = toy_hash, dn_keep = False, dn_registry = [], dn_mint = (\<lambda>_. None), dn_wire = (\<lambda>_. []),
     dn_unmarshal = (\<lambda>_. Inl (Invalid [] [])), dn_sinks = (\<lambda>_. None), dn_ladder = default_ladder, dn_halt_pause = 60\<rparr>"

definition ex_options :: drain_options where
  "ex_options = \<lparr>op_pool = 1, op_batch = 10, op_lease = 60, op_row_timeout = 30, op_poll = 1, op_halt_pause = 60, op_ladder = None\<rparr>"

definition ex_wstate :: "odb \<Rightarrow> unit wstate" where
  "ex_wstate d = \<lparr>ws_ob = d, ws_pd = \<lparr>pd_ledger = [], pd_redactions = []\<rparr>, ws_rcv = ()\<rparr>"

theorem a_pass_lets_every_row_go_witness:
  "fst (once ex_drain ex_options 1 ''tok'' [] (\<lambda>_. (2, 3)) 1 (ex_wstate ex3)) = Inr 2 \<and>
   list_all (\<lambda>r. r_lease_token r \<noteq> Some ''tok'')
     (rows (ws_ob (snd (once ex_drain ex_options 1 ''tok'' [] (\<lambda>_. (2, 3)) 1 (ex_wstate ex3)))))"
proof -
  have run: "fst (once ex_drain ex_options 1 ''tok'' [] (\<lambda>_. (2, 3)) 1 (ex_wstate ex3)) = Inr 2"
    by (simp add: once_def ex_options_def ex_wstate_def ex4_run)
  show ?thesis
    using run a_pass_lets_every_row_go [of ex_hash "ex_wstate ex3" ex_drain "''tok''" ex_options 1 "[]" "\<lambda>_. (2, 3)" 1 2,
        OF _ ex_hash_hex _ _ _ prod_eqI] ex_reach(3)
    by (simp add: ex_wstate_def ex_drain_def ex3_val ex_row_def list_all_iff)
qed

end
