(* ===== verification/Worker_Again.thy ===== *)
theory Worker_Again
  imports Worker_Batch
begin

text \<open>
  The two commits of a delivery: what the first one stored is what every later attempt offers the
  sink, in another process and after any number of crashes in between.
\<close>

subsection \<open>A prepared record reads back\<close>

text \<open>Linking and masking change three fields that no seal covers.\<close>

lemma seal_edited:
  assumes s: "seal_record h r p t = Inr u" and q: "q = u\<lparr>rc_supersedes := i, rc_title := ti, rc_text := te\<rparr>"
    and v: "validate q = None"
  shows "seal_record h (r\<lparr>rc_supersedes := i, rc_title := ti, rc_text := te\<rparr>) p t = Inr q"
proof -
  obtain j sl where u: "u = r\<lparr>rc_format := format_v1, rc_source := p, rc_id := j, rc_sealed := sl, rc_sealed_for := t\<rparr>"
    and j: "record_id h p (rc_external_id r) (rc_version r) (vi_scope (rc_visibility r)) t = Inr j"
    and w: "rc_sealed u = current_seal u"
    by (rule seal_fields [OF s])
  let ?r = "r\<lparr>rc_supersedes := i, rc_title := ti, rc_text := te\<rparr>"
  have "sl = current_seal u" using u w by simp
  then have e: "?r\<lparr>rc_format := format_v1, rc_source := p, rc_id := j,
      rc_sealed := current_seal (?r\<lparr>rc_format := format_v1, rc_source := p, rc_id := j\<rparr>), rc_sealed_for := t\<rparr> = q"
    using u q by (simp add: current_seal_def)
  then show ?thesis
    using s j v unfolding seal_record_def Let_def by (auto split: if_splits sum.splits option.splits)
qed

lemma documents_reopen:
  assumes "documents_of wire rs = Inr ps"
    and "\<And>q. q \<in> set rs \<Longrightarrow> validate q = None \<Longrightarrow> \<exists>r. seal_record h r p t = Inr q"
    and "list_all (codec_ok parse rfc wire) rs"
  shows "reopen_all h (unmarshal_json parse rfc) p t ps = Inr rs"
  using assms
proof (induction rs arbitrary: ps)
  case (Cons q rs)
  obtain doc ps' where d: "marshal_json wire q = Inr doc" "documents_of wire rs = Inr ps'"
    "ps = \<lparr>p_record_id = rc_id q, p_document = doc, p_op = rc_op q, p_kind = rc_kind q\<rparr> # ps'"
    using Cons.prems(1) by (auto simp: bind_res_Inr split: sum.splits)
  have v: "validate q = None" "doc = wire q" using d(1) by (auto simp: marshal_json_def split: option.splits if_splits)
  obtain r where r: "seal_record h r p t = Inr q" using Cons.prems(2) [of q] v(1) by auto
  have "reopen h (unmarshal_json parse rfc) \<lparr>st_id = rc_id q, st_op = rc_op q, st_kind = rc_kind q, st_document = wire q\<rparr> p t = Inr q"
    using reopen_sealed [OF r, of parse rfc wire] Cons.prems(3) by simp
  moreover have "reopen_all h (unmarshal_json parse rfc) p t ps' = Inr rs"
    by (rule Cons.IH [OF d(2)]) (use Cons.prems(2,3) in auto)
  ultimately show ?case by (simp add: d(3) v(2))
qed simp

lemma prepared_is_sealed:
  assumes n: "normalize h keep reg dl = Inr n" "reg_ok reg" and inv: "pdb_inv reg d"
    and p: "prepare mint (Some (tenant_txn (dv_tenant dl))) (dv_tenant dl) n d = ((out, None), d')"
    and q: "q \<in> set (pp_records out)" "validate q = None"
  shows "\<exists>r. seal_record h r (dv_provider dl) (dv_tenant dl) = Inr q"
proof -
  have "prepared_from (declared reg) (dv_tenant dl) n d d' q"
    using prepare_spec [OF n inv p] q(1) by (simp add: list_all_iff)
  then obtain u i ti te where u: "u \<in> set (nm_records n)" "q = u\<lparr>rc_supersedes := i, rc_title := ti, rc_text := te\<rparr>"
    by (auto simp: prepared_from_def list_ex_iff)
  then obtain r where "seal_record h r (dv_provider dl) (dv_tenant dl) = Inr u"
    using normalize_spec [OF n] by (auto simp: list_all_iff handed_over_def)
  from seal_edited [OF this u(2) q(2)] show ?thesis by blast
qed

subsection \<open>The stored rows\<close>

lemma fresh_row_has_no_records:
  assumes "ob_inv d" "r \<in> set (rows d)" "r_state r = Pending"
  shows "\<forall>x \<in> set (recs d). x_outbox_id x \<noteq> r_id r"
proof (intro ballI notI)
  fix x assume x: "x \<in> set (recs d)" "x_outbox_id x = r_id r"
  then obtain q where q: "q \<in> set (rows d)" "r_id q = r_id r" "r_prepared_at q \<noteq> None"
    using assms(1) by (auto simp: ob_inv_def recs_ok_def)
  then have "q = r" using ids_inj [OF ob_inv_ids [OF assms(1)]] assms(2) by blast
  then show False using q(3) ob_inv_row [OF assms(1,2)] assms(3) by (simp add: row_ok_def)
qed

lemma prepare_in_stores:
  assumes inv: "ob_inv d" and r: "held_row c r d" "r_state r = Pending"
    and p: "prepare_in (bound (cl_tenant c)) now c ps d = Inr (u, d')"
  shows "r\<lparr>r_state := Prepared, r_prepared_at := Some now\<rparr> \<in> set (rows d')"
    and "recs d' = recs d @ map (\<lambda>j. new_orec now (cl_id c) j (ps ! j)) [0..<length ps]"
proof -
  note h = held_row_facts [OF inv r(1)]
  have rr: "r \<in> set (rows d)" "cl_token c \<noteq> []" using r(1) by (simp_all add: held_row_def)
  let ?P = "\<lambda>r. holds_lease (bound (cl_tenant c)) (cl_id c) (cl_token c) r \<and> r_state r = Pending"
  let ?d1 = "update_rows ?P (\<lambda>r. r\<lparr>r_state := Prepared, r_prepared_at := Some now\<rparr>) d"
  have m: "matching ?P d \<noteq> []"
    using held_one_row [OF ob_inv_ids [OF inv] rr(1) h(3), where Q = "\<lambda>r. r_state r = Pending"] r(2) by simp
  have hd: "held (sql_mark_prepared (bound (cl_tenant c)) now (cl_id c) (cl_token c) d) = Inr ((), ?d1)"
    using m by (simp add: sql_mark_prepared_def held_def exec_rows_def)
  have "(ps = [] \<and> d' = ?d1) \<or> sql_store_prepared (bound (cl_tenant c)) now (cl_id c) ps ?d1 = Inr d'"
    using p by (auto simp: prepare_in_def hd rr(2) split: if_splits sum.splits)
  moreover have "d' = ?d1\<lparr>recs := recs d @ map (\<lambda>(n, p). new_orec now (cl_id c) n p) (enumerate 0 ps)\<rparr>"
    if "sql_store_prepared (bound (cl_tenant c)) now (cl_id c) ps ?d1 = Inr d'"
    using that by (auto simp: sql_store_prepared_def Let_def split: if_splits)
  ultimately have d': "rows d' = rows ?d1" "recs d' = recs d @ map (\<lambda>j. new_orec now (cl_id c) j (ps ! j)) [0..<length ps]"
    using enumerate_new_recs [of now "cl_id c" 0 ps] by auto
  show "recs d' = recs d @ map (\<lambda>j. new_orec now (cl_id c) j (ps ! j)) [0..<length ps]" by (rule d'(2))
  show "r\<lparr>r_state := Prepared, r_prepared_at := Some now\<rparr> \<in> set (rows d')"
    unfolding d'(1) using rr(1) h(3) r(2) by force
qed

lemma stored_records_come_back:
  assumes t: "valid_tenant (cl_tenant c)" and row: "r \<in> set (rows d)" "r_id r = cl_id c" "r_tenant r = cl_tenant c"
    and old: "\<forall>x \<in> set xs. x_outbox_id x \<noteq> cl_id c"
    and recs: "recs d = xs @ map (\<lambda>j. new_orec now (cl_id c) j (ps ! j)) [0..<length ps]"
  shows "prepared_records c d = Inr ps"
proof -
  let ?new = "map (\<lambda>j. new_orec now (cl_id c) j (ps ! j)) [0..<length ps]"
  let ?P = "\<lambda>x. visible_rec (bound (cl_tenant c)) d x \<and> x_outbox_id x = cl_id c \<and> x_state x = RPrepared"
  have vis: "visible_rec (bound (cl_tenant c)) d x" if "x_outbox_id x = cl_id c" for x
    using that row by (auto simp: visible_rec_def list_ex_iff)
  have "\<forall>x \<in> set ?new. ?P x" using vis by (auto simp: new_orec_def)
  then have "filter ?P ?new = ?new" by (rule filter_True)
  moreover have "filter ?P xs = []" by (rule filter_False) (use old in blast)
  ultimately have "filter ?P (recs d) = ?new" unfolding recs filter_append by simp
  moreover have "sort_key x_pos ?new = ?new" by (rule sort_key_id_if_sorted) (simp add: new_orec_def comp_def)
  ultimately have "sql_prepared_records (bound (cl_tenant c)) (cl_id c) d = ?new" by (simp add: sql_prepared_records_def)
  moreover have "map (\<lambda>x. \<lparr>p_record_id = x_record_id x, p_document = x_document x, p_op = x_op x, p_kind = x_kind x\<rparr>) ?new = ps"
    by (rule nth_equalityI) (simp_all add: new_orec_def)
  ultimately show ?thesis by (simp add: prepared_records_def tenant_tx_valid [OF t] begin_tx_def)
qed

lemma claimed_again:
  assumes inv: "ob_inv ob" and q: "q \<in> set (rows ob)" "r_id q = i"
    and cl: "claim now tok locked k lease ob = (Inr cs, ob')" "c \<in> set cs" "cl_id c = i" and tok: "tok \<noteq> []"
  shows "held_row c (lease_row now lease tok q) ob'" "cl_tenant c = r_tenant q" "recs ob' = recs ob" "ob_inv ob'"
proof -
  obtain r0 where r0: "r0 \<in> set (rows ob)" "lease_row now lease tok r0 \<in> set (rows ob')"
    "c = \<lparr>cl_id = r_id r0, cl_tenant = r_tenant r0, cl_attempt = Suc (r_attempts r0), cl_token = tok\<rparr>"
    by (rule claimed_row [OF cl(1,2)])
  have "r0 = q" by (rule ids_inj [OF ob_inv_ids [OF inv] r0(1) q(1)]) (use r0(3) cl(3) q(2) in simp)
  then show "held_row c (lease_row now lease tok q) ob'" "cl_tenant c = r_tenant q"
    using r0 tok by (simp_all add: held_row_def lease_row_def)
  show "recs ob' = recs ob" using claim_result [OF cl(1)] by (simp add: sql_claim_def Let_def)
  show "ob_inv ob'" by (rule claim_inv [OF inv cl(1)])
qed

text \<open>C2: What a sink is offered is what the first commit stored, however often the worker dies. When the
  first attempt at a delivery has prepared its records, stored them and marked the row prepared, then
  whoever claims the row later, in another process and with another token, is given the same records
  in the same order, sealed for the same tenant, without asking the provider, the ledger or the masker
  again. So a crash between the commits repeats a delivery and never changes or loses one.\<close>

theorem redelivery_offers_what_was_committed:
  assumes reg: "new_registry ps = Inr (dn_registry dn)" and pd: "pipe_run (dn_hash dn) (dn_registry dn) empty_pdb (ws_pd s)"
    and inv: "ob_inv (ws_ob s)" and row: "held_row c r (ws_ob s)" "r_state r = Pending"
    and first: "work_of c (ws_ob s) = Inr wk" "ready_records dn now now' c wk s = (Some rs, s')"
    and codec: "dn_unmarshal dn = unmarshal_json parse rfc" "list_all (codec_ok parse rfc (dn_wire dn)) rs"
    and again: "claim later tok locked k lease (ws_ob s') = (Inr cs, ob)" "c' \<in> set cs" "cl_id c' = cl_id c" "tok \<noteq> []"
  shows "\<exists>wk'. work_of c' ob = Inr wk' \<and> w_state wk' = Prepared \<and>
    ready_records dn a b c' wk' (s'\<lparr>ws_ob := ob\<rparr>) = (Some rs, s'\<lparr>ws_ob := ob\<rparr>)"
proof -
  let ?dl = "\<lparr>dv_tenant = cl_tenant c, dv_provider = r_provider r, dv_id = cl_id c, dv_body = r_raw_body r\<rparr>"
  have wk: "wk = \<lparr>w_provider = r_provider r, w_state = Pending, w_body = Some (r_raw_body r)\<rparr>"
    using first(1) lost_split [OF row(1) inv] row(2) by simp
  obtain n where n: "normalize (dn_hash dn) (dn_keep dn) (dn_registry dn) ?dl = Inr n"
    using first(2) wk by (auto simp: ready_records_def split: sum.splits)
  obtain pd' ob' where st: "prepare_and_store dn now c n (ws_pd s, ws_ob s) = (Inr rs, (pd', ob'))"
    and s': "s' = s\<lparr>ws_pd := pd', ws_ob := ob'\<rparr>"
    using first(2) wk n by (auto simp: ready_records_def split: sum.splits prod.splits)
  obtain out docs u where prep: "prepare (dn_mint dn) (Some (bound (cl_tenant c))) (cl_tenant c) n (ws_pd s) = ((out, None), pd')"
    and docs: "documents_of (dn_wire dn) (pp_records out) = Inr docs" "rs = pp_records out"
    and store: "prepare_in (bound (cl_tenant c)) now c docs (ws_ob s) = Inr (u, ob')"
    using st unfolding prepare_and_store_def
    by (auto simp: tenant_tx_commit bind_res_Inr map_err_Inr split: prod.splits option.splits)
  have inv': "ob_inv ob'" by (rule prepare_in_inv [OF inv store])
  let ?q = "r\<lparr>r_state := Prepared, r_prepared_at := Some now\<rparr>"
  have rr: "r \<in> set (rows (ws_ob s))" "r_id r = cl_id c" "r_tenant r = cl_tenant c" using row(1) by (simp_all add: held_row_def)
  note stored = prepare_in_stores [OF inv row store]
  have obs: "ws_ob s' = ob'" by (simp add: s')
  note ag = claimed_again [OF inv' stored(1) _ again(1) [unfolded obs] again(2) refl again(4)]
  have held: "held_row c' (lease_row later lease tok ?q) ob" "cl_tenant c' = cl_tenant c" "recs ob = recs ob'" "ob_inv ob"
    using ag again(3) rr(2,3) by simp_all
  let ?wk = "\<lparr>w_provider = r_provider r, w_state = Prepared, w_body = None\<rparr>"
  have work: "work_of c' ob = Inr ?wk" using lost_split [OF held(1,4)] by (simp add: lease_row_def)
  have "prepared_records c' ob = Inr docs"
  proof (rule stored_records_come_back [where xs = "recs (ws_ob s)" and now = now])
    show "valid_tenant (cl_tenant c')" by (rule held_row_facts(1) [OF held(4,1)])
    show "lease_row later lease tok ?q \<in> set (rows ob)" "r_id (lease_row later lease tok ?q) = cl_id c'"
      "r_tenant (lease_row later lease tok ?q) = cl_tenant c'" using held(1) by (simp_all add: held_row_def)
    show "\<forall>x \<in> set (recs (ws_ob s)). x_outbox_id x \<noteq> cl_id c'"
      using fresh_row_has_no_records [OF inv rr(1) row(2)] rr(2) again(3) by simp
    show "recs ob = recs (ws_ob s) @ map (\<lambda>j. new_orec now (cl_id c') j (docs ! j)) [0..<length docs]"
      using held(3) stored(2) again(3) by simp
  qed
  moreover have "reopen_all (dn_hash dn) (unmarshal_json parse rfc) (r_provider r) (cl_tenant c) docs = Inr rs"
  proof (rule documents_reopen [OF docs(1) [folded docs(2)] _ codec(2)])
    fix q assume q: "q \<in> set rs" "validate q = None"
    have p: "prepare (dn_mint dn) (Some (tenant_txn (dv_tenant ?dl))) (dv_tenant ?dl) n (ws_pd s) = ((out, None), pd')"
      using prep by (simp add: tenant_txn_def)
    show "\<exists>r'. seal_record (dn_hash dn) r' (r_provider r) (cl_tenant c) = Inr q"
      using prepared_is_sealed [OF n _ _ p q(1) [unfolded docs(2)] q(2)] reached_inv [OF reg pd] by simp
  qed
  ultimately show ?thesis using work codec(1) held(2) by (simp add: ready_records_def)
qed

subsection \<open>A delivery prepared, and claimed again\<close>

definition ex_again_row :: row where
  "ex_again_row = (lease_row 1 60 ''tok'' (ex_row ''i1'' 1 ''k'' ''x'' True))\<lparr>r_provider := ''fake''\<rparr>"

definition ex_again_ob :: odb where
  "ex_again_ob = \<lparr>rows = [ex_again_row], recs = [], next_seq = 2\<rparr>"

definition ex_again_drain :: "(unit, unit) drain" where
  "ex_again_drain = ex_drain\<lparr>dn_registry := ex_reg, dn_wire := (\<lambda>_. ''{}''), dn_unmarshal := unmarshal_json ex_parse (\<lambda>_. Some ex_time)\<rparr>"

definition ex_stored_doc :: prepared_record where
  "ex_stored_doc = \<lparr>p_record_id = rc_id ex_sealed, p_document = ''{}'', p_op = ''upsert'', p_kind = ''message''\<rparr>"

definition ex_stored_ob :: odb where
  "ex_stored_ob = \<lparr>rows = [ex_again_row\<lparr>r_state := Prepared, r_prepared_at := Some 2\<rparr>],
     recs = [new_orec 2 ''i1'' 0 ex_stored_doc], next_seq = 2\<rparr>"

definition ex_again_ob' :: odb where
  "ex_again_ob' = snd (claim 100 ''tok2'' [] 10 60 ex_stored_ob)"

lemma ex_again_inv: "ob_inv ex_again_ob"
  by (simp add: ob_inv_def ids_ok_def heads_ok_def row_ok_def recs_ok_def first_of_key_def ex_again_ob_def ex_again_row_def
      lease_row_def ex_row_def unfinished_def valid_acme bad_ordering_key_def storable_eval ord_of_def ex_hash_def of_key_def)

lemma ex_stored_storable: "\<not> bad_prepared ex_stored_doc"
proof -
  have "storable (rc_id ex_sealed)"
    using ex_seal by (intro plain_storable) (simp add: list_all_replicate plain_def ord_of_def)
  then show ?thesis using ex_seal by (simp add: bad_prepared_def ex_stored_doc_def storable_eval ord_of_def)
qed

lemma ex_again_prepared:
  "ready_records ex_again_drain 2 3 ex_claim \<lparr>w_provider = ''fake'', w_state = Pending, w_body = Some ''x''\<rparr> (ex_wstate ex_again_ob) =
     (Some [ex_sealed], (ex_wstate ex_again_ob)\<lparr>ws_pd := ex_pdb, ws_ob := ex_stored_ob\<rparr>)"
proof -
  have docs: "documents_of (\<lambda>_. ''{}'') [ex_sealed] = Inr [ex_stored_doc]"
    using reopen_sealed [OF ex_sealed_ok ex_codec, THEN conjunct1] by (simp add: ex_stored_doc_def ex_sealed_fields)
  have store: "prepare_in (bound ''acme'') 2 ex_claim [ex_stored_doc] ex_again_ob = Inr ((), ex_stored_ob)"
    using ex_stored_storable
    by (simp add: prepare_in_def ex_claim_def held_def sql_mark_prepared_def exec_rows_def matching_def holds_lease_def visible_bound
        ex_again_ob_def ex_again_row_def lease_row_def ex_row_def sql_store_prepared_def visible_rec_def update_rows_def
        ex_stored_ob_def Let_def new_orec_def)
  have "prepare_and_store ex_again_drain 2 ex_claim ex_normalized (empty_pdb, ex_again_ob) = (Inr [ex_sealed], (ex_pdb, ex_stored_ob))"
    using ex_prepares docs store
    by (simp add: prepare_and_store_def tenant_tx_valid begin_tx_def valid_acme ex_claim_def ex_again_drain_def ex_drain_def
        tenant_txn_def ex_prepared_def)
  then show ?thesis
    using ex_normalizes
    by (simp add: ready_records_def ex_again_drain_def ex_drain_def ex_claim_def ex_pdelivery_def ex_wstate_def empty_pdb_def)
qed

theorem redelivery_offers_what_was_committed_witness:
  "\<exists>wk'. work_of (ex_claim\<lparr>cl_attempt := 2, cl_token := ''tok2''\<rparr>) ex_again_ob' = Inr wk' \<and> w_state wk' = Prepared \<and>
     fst (ready_records ex_again_drain 101 102 (ex_claim\<lparr>cl_attempt := 2, cl_token := ''tok2''\<rparr>) wk'
       ((ex_wstate ex_again_ob)\<lparr>ws_pd := ex_pdb, ws_ob := ex_again_ob'\<rparr>)) = Some [ex_sealed]"
proof -
  have reg: "new_registry [Some (ex_provider [ex_rec])] = Inr (dn_registry ex_again_drain)"
    using ex_new_reg by (simp add: ex_again_drain_def)
  have held: "held_row ex_claim ex_again_row (ws_ob (ex_wstate ex_again_ob))" "r_state ex_again_row = Pending"
    by (simp_all add: held_row_def ex_claim_def ex_again_row_def ex_wstate_def ex_again_ob_def lease_row_def ex_row_def)
  have work: "work_of ex_claim (ws_ob (ex_wstate ex_again_ob)) = Inr \<lparr>w_provider = ''fake'', w_state = Pending, w_body = Some ''x''\<rparr>"
    using lost_split [OF held(1)] ex_again_inv
    by (simp add: ex_wstate_def ex_again_row_def lease_row_def ex_row_def)
  have cl: "claim 100 ''tok2'' [] 10 60 ex_stored_ob = (Inr [ex_claim\<lparr>cl_attempt := 2, cl_token := ''tok2''\<rparr>], ex_again_ob')"
    unfolding ex_again_ob'_def by (simp add: ex_stored_ob_def ex_again_row_def claim_eval ex_claim_def)
  show ?thesis
    using redelivery_offers_what_was_committed [OF reg _ _ held work ex_again_prepared, where k = 10 and lease = 60 and locked = "[]"
        and later = 100 and tok = "''tok2''" and parse = ex_parse and rfc = "\<lambda>_. Some ex_time"
        and cs = "[ex_claim\<lparr>cl_attempt := 2, cl_token := ''tok2''\<rparr>]" and ob = ex_again_ob'
        and c' = "ex_claim\<lparr>cl_attempt := 2, cl_token := ''tok2''\<rparr>" and a = 101 and b = 102]
      ex_again_inv ex_codec cl by (simp add: ex_wstate_def ex_again_drain_def empty_pdb_def ex_drain_def) (metis fst_conv)
qed

end
