(* ===== verification/Json_Struct.thy ===== *)
theory Json_Struct
  imports Record_Decode
begin

text \<open>
  How encoding/json fills a Go value from a JSON value, for the shapes the program decodes into:
  strings, \<open>int64\<close>, pointers, slices and structs. A target is updated, not built: \<open>null\<close> leaves it
  alone (and empties a pointer or a slice), a member that comes twice is decoded twice, and members
  the struct does not have are skipped. \<open>None\<close> is the decoder's type error; the callers discard what
  was decoded then.
\<close>

subsection \<open>Names\<close>

text \<open>A member is a field's if their names are equal under simple case folding. The field names of the
  program are ASCII, and besides the ASCII capitals two runes fold into that range.\<close>

definition fold_rune :: "nat \<Rightarrow> nat" where
  "fold_rune r = (if 65 \<le> r \<and> r \<le> 90 then r + 32 else if r = 0x212A then 107 else if r = 0x17F then 115 else r)"

definition same_name :: "bytes \<Rightarrow> bytes \<Rightarrow> bool" where
  "same_name field k \<longleftrightarrow> map fold_rune (runes k) = map ord_of field"

lemma same_name_ascii: "list_all (\<lambda>b. ord_of b < 128) k \<Longrightarrow> same_name f k \<longleftrightarrow> map (fold_rune \<circ> ord_of) k = map ord_of f"
  by (simp add: same_name_def ascii_runes_eval)

subsection \<open>Values\<close>

type_synonym 'a into = "json \<Rightarrow> 'a \<Rightarrow> 'a option"

definition into_string :: "bytes into" where
  "into_string j s = (case j of JStr t \<Rightarrow> Some t | JNull \<Rightarrow> Some s | _ \<Rightarrow> None)"

text \<open>\<open>strconv.ParseInt\<close> of a text, in base 10 and for 64 bits, without a plus sign.\<close>

definition decimal_value :: "bytes \<Rightarrow> nat" where
  "decimal_value s = foldl (\<lambda>n c. n * 10 + (ord_of c - 48)) 0 s"

definition parse_int64 :: "bytes \<Rightarrow> int option" where
  "parse_int64 s =
     (let neg = (s \<noteq> [] \<and> hd s = CHR ''-''); ds = (if neg then tl s else s); n = int (decimal_value ds) in
      if ds = [] \<or> \<not> list_all is_digit ds then None
      else if neg then (if n \<le> 2 ^ 63 then Some (- n) else None)
      else (if n < 2 ^ 63 then Some n else None))"

definition into_int64 :: "int into" where
  "into_int64 j n = (case j of JNum t \<Rightarrow> parse_int64 t | JNull \<Rightarrow> Some n | _ \<Rightarrow> None)"

definition into_pointer :: "'a \<Rightarrow> 'a into \<Rightarrow> 'a option into" where
  "into_pointer zero into j p =
     (case j of JNull \<Rightarrow> Some None
      | _ \<Rightarrow> map_option Some (into j (case p of None \<Rightarrow> zero | Some v \<Rightarrow> v)))"

text \<open>A slice is its backing array and its length. Decoding a second array into it reuses the elements
  that are there, those past the length included; an empty array or \<open>null\<close> makes a new one.\<close>

fun into_items :: "'a \<Rightarrow> 'a into \<Rightarrow> json list \<Rightarrow> 'a list \<Rightarrow> 'a list option" where
  "into_items zero into [] bs = Some bs"
| "into_items zero into (j # js) bs =
     (case into j (case bs of [] \<Rightarrow> zero | b # _ \<Rightarrow> b) of
        None \<Rightarrow> None
      | Some v \<Rightarrow> map_option (Cons v) (into_items zero into js (tl bs)))"

type_synonym 'a slice = "'a list \<times> nat"

definition elems :: "'a slice \<Rightarrow> 'a list" where
  "elems s = take (snd s) (fst s)"

definition into_slice :: "'a \<Rightarrow> 'a into \<Rightarrow> 'a slice into" where
  "into_slice zero into j s =
     (case j of
        JArr js \<Rightarrow> if js = [] then Some ([], 0) else map_option (\<lambda>b. (b, length js)) (into_items zero into js (fst s))
      | JNull \<Rightarrow> Some ([], 0)
      | _ \<Rightarrow> None)"

fun fill :: "(bytes \<times> 'a into) list \<Rightarrow> (bytes \<times> json) list \<Rightarrow> 'a \<Rightarrow> 'a option" where
  "fill shape [] v = Some v"
| "fill shape ((k, j) # ms) v =
     (case find (\<lambda>f. same_name (fst f) k) shape of
        None \<Rightarrow> fill shape ms v
      | Some f \<Rightarrow> (case snd f j v of None \<Rightarrow> None | Some v' \<Rightarrow> fill shape ms v'))"

definition into_struct :: "(bytes \<times> 'a into) list \<Rightarrow> 'a into" where
  "into_struct shape j v = (case j of JObj ms \<Rightarrow> fill shape ms v | JNull \<Rightarrow> Some v | _ \<Rightarrow> None)"

text \<open>The first JSON value of a text with what follows it, as a decoder reads it, and the white space
  between values.\<close>

type_synonym first_value = "bytes \<Rightarrow> (json \<times> bytes) option"

definition json_space :: "char \<Rightarrow> bool" where
  "json_space c \<longleftrightarrow> c = CHR '' '' \<or> ord_of c \<in> {9, 10, 13}"

subsection \<open>What every decoder of a field keeps, decoding keeps\<close>

definition keeps_into :: "('a \<Rightarrow> bool) \<Rightarrow> 'a into \<Rightarrow> bool" where
  "keeps_into P into \<longleftrightarrow> (\<forall>j v v'. P v \<longrightarrow> into j v = Some v' \<longrightarrow> P v')"

lemma keeps_intoD: "keeps_into P into \<Longrightarrow> P v \<Longrightarrow> into j v = Some v' \<Longrightarrow> P v'"
  by (auto simp: keeps_into_def)

lemma keeps_intoI: "(\<And>j v v'. P v \<Longrightarrow> into j v = Some v' \<Longrightarrow> P v') \<Longrightarrow> keeps_into P into"
  by (auto simp: keeps_into_def)

lemma keeps_field:
  assumes "keeps_into Q into" "\<And>v. P v \<Longrightarrow> Q (get v)" "\<And>v x. P v \<Longrightarrow> Q x \<Longrightarrow> P (upd x v)"
  shows "keeps_into P (\<lambda>j v. map_option (\<lambda>x. upd x v) (into j (get v)))"
proof (rule keeps_intoI)
  fix j v v' assume v: "P v" "map_option (\<lambda>x. upd x v) (into j (get v)) = Some v'"
  then obtain x where x: "into j (get v) = Some x" "v' = upd x v" by auto
  show "P v'" unfolding x(2) by (rule assms(3) [OF v(1) keeps_intoD [OF assms(1) assms(2) [OF v(1)] x(1)]])
qed

lemma keeps_struct: "(\<And>f. f \<in> set shape \<Longrightarrow> keeps_into P (snd f)) \<Longrightarrow> keeps_into P (into_struct shape)"
proof -
  assume f: "\<And>f. f \<in> set shape \<Longrightarrow> keeps_into P (snd f)"
  have "fill shape ms v = Some v' \<Longrightarrow> P v \<Longrightarrow> P v'" for ms v v'
  proof (induction ms arbitrary: v)
    case (Cons m ms)
    obtain k j where m: "m = (k, j)" by (cases m)
    show ?case
    proof (cases "find (\<lambda>f. same_name (fst f) k) shape")
      case None
      then show ?thesis using Cons m by simp
    next
      case (Some g)
      then have "g \<in> set shape" by (auto simp: find_Some_iff)
      then have g: "keeps_into P (snd g)" by (rule f)
      obtain w where w: "snd g j v = Some w" "fill shape ms w = Some v'"
        using Cons.prems(1) m Some by (auto split: option.splits)
      show ?thesis by (rule Cons.IH [OF w(2) keeps_intoD [OF g Cons.prems(2) w(1)]])
    qed
  qed simp
  then show ?thesis by (auto simp: keeps_into_def into_struct_def split: json.splits)
qed

lemma keeps_pointer:
  "keeps_into P into \<Longrightarrow> P zero \<Longrightarrow> keeps_into (pred_option P) (into_pointer zero into)"
  by (auto simp: keeps_into_def into_pointer_def split: json.splits option.splits)

lemma into_items_all:
  "keeps_into P into \<Longrightarrow> P zero \<Longrightarrow> list_all P bs \<Longrightarrow> into_items zero into js bs = Some bs' \<Longrightarrow> list_all P bs'"
proof (induction js arbitrary: bs bs')
  case (Cons j js)
  obtain v rest where v: "into j (case bs of [] \<Rightarrow> zero | b # _ \<Rightarrow> b) = Some v" "into_items zero into js (tl bs) = Some rest" "bs' = v # rest"
    using Cons.prems(4) by (auto split: option.splits)
  have "P (case bs of [] \<Rightarrow> zero | b # _ \<Rightarrow> b)" "list_all P (tl bs)" using Cons.prems(2,3) by (cases bs; simp)+
  then show ?case using keeps_intoD [OF Cons.prems(1) _ v(1)] Cons.IH [OF Cons.prems(1,2) _ v(2)] v(3) by simp
qed simp

lemma keeps_slice:
  "keeps_into P into \<Longrightarrow> P zero \<Longrightarrow> keeps_into (\<lambda>s. list_all P (fst s)) (into_slice zero into)"
  using into_items_all [of P into zero]
  by (auto simp: keeps_into_def into_slice_def split: json.splits if_splits)

lemma elems_all: "list_all P (fst s) \<Longrightarrow> list_all P (elems s)"
  by (auto simp: elems_def list_all_iff dest: in_set_takeD)

lemma parse_int64_bound: "parse_int64 s = Some n \<Longrightarrow> - (2 ^ 63) \<le> n \<and> n < 2 ^ 63"
  by (auto simp: parse_int64_def Let_def split: if_splits)

end
