(* ===== verification/Clickup_Parse.thy ===== *)
theory Clickup_Parse
  imports Json_Struct Subscriptions Url
begin

text \<open>
  internal/provider/clickup, the half that reads a delivery: clickup.go (the signature), parse.go (the
  delivery and its keys) and subscription.go (the one shape of a registration). HMAC-SHA256 and the
  JSON reader are parameters: \<open>first_value\<close> is the first value of a text with what follows it.
\<close>

abbreviation clickup_key :: bytes where "clickup_key \<equiv> ''clickup''"

abbreviation signature_header :: bytes where "signature_header \<equiv> ''X-Signature''"

subsection \<open>The signature\<close>

text \<open>\<open>hex.DecodeString\<close>, which reads both cases.\<close>

fun hex_decode :: "bytes \<Rightarrow> bytes option" where
  "hex_decode [] = Some []"
| "hex_decode [c] = None"
| "hex_decode (a # b # s) =
     (case (hex_val a, hex_val b, hex_decode s) of
        (Some x, Some y, Some bs) \<Rightarrow> Some (char_of (16 * x + y) # bs)
      | _ \<Rightarrow> None)"

definition clickup_verify :: "(bytes \<Rightarrow> bytes \<Rightarrow> bytes) \<Rightarrow> request \<Rightarrow> bytes \<Rightarrow> verify_answer" where
  "clickup_verify hmac r secret =
     (if secret = [] then NotVerified
      else case rq_header r signature_header of
        [sig] \<Rightarrow>
          (case hex_decode sig of
             None \<Rightarrow> NotVerified
           | Some want \<Rightarrow>
               if length want \<noteq> 32 then NotVerified
               else if hmac secret (rq_body r) = want then Verified else NotVerified)
      | _ \<Rightarrow> NotVerified)"

subsection \<open>Identifiers and times\<close>

abbreviation max_id :: nat where "max_id \<equiv> 64"

abbreviation max_digits :: nat where "max_digits \<equiv> 19"

datatype clickup_error = BadDelivery bytes | BadObject bytes | NoToken | RateLimited | ApiFailed bytes | ApiNotFound

definition valid_id :: "bytes \<Rightarrow> bool" where
  "valid_id s \<longleftrightarrow> s \<noteq> [] \<and> length s \<le> max_id \<and>
     list_all (\<lambda>c. is_lower c \<or> is_upper c \<or> is_digit c \<or> c = CHR ''_'' \<or> c = CHR ''-'') s"

definition all_digits :: "bytes \<Rightarrow> bool" where
  "all_digits s \<longleftrightarrow> list_all is_digit s \<and> s \<noteq> []"

definition epoch_millis :: "bytes \<Rightarrow> clickup_error + int" where
  "epoch_millis s =
     (if s = [] \<or> length s > max_digits \<or> \<not> all_digits s then Inl (BadDelivery ''a time is not epoch milliseconds'')
      else case parse_int64 s of
        None \<Rightarrow> Inl (BadDelivery ''a time is not epoch milliseconds'')
      | Some ms \<Rightarrow> Inr ms)"

subsection \<open>A delivery\<close>

datatype subject = SubjectTask | SubjectComment

definition handled_events :: "(bytes \<times> subject) list" where
  "handled_events =
     [(''taskCreated'', SubjectTask), (''taskUpdated'', SubjectTask), (''taskMoved'', SubjectTask),
      (''taskStatusUpdated'', SubjectTask), (''taskPriorityUpdated'', SubjectTask),
      (''taskAssigneeUpdated'', SubjectTask), (''taskDueDateUpdated'', SubjectTask),
      (''taskTagUpdated'', SubjectTask), (''taskTimeEstimateUpdated'', SubjectTask),
      (''taskTimeTrackedUpdated'', SubjectTask), (''taskCommentPosted'', SubjectComment),
      (''taskCommentUpdated'', SubjectComment)]"

definition handled :: "bytes \<Rightarrow> subject option" where
  "handled e = map_of handled_events e"

definition registered_events :: "bytes list" where
  "registered_events = [''taskCreated'', ''taskUpdated'', ''taskCommentPosted'', ''taskCommentUpdated'']"

text \<open>The comment of a history item is a pointer to a struct with one field, its id.\<close>

record history_item =
  hi_date :: "int option"
  hi_comment :: "bytes option"

record clickup_delivery =
  cd_event :: bytes
  cd_webhook :: bytes
  cd_task :: bytes
  cd_history :: "history_item slice"

definition zero_item :: history_item where
  "zero_item = \<lparr>hi_date = None, hi_comment = None\<rparr>"

definition zero_delivery :: clickup_delivery where
  "zero_delivery = \<lparr>cd_event = [], cd_webhook = [], cd_task = [], cd_history = ([], 0)\<rparr>"

text \<open>\<open>historyDate.UnmarshalJSON\<close>: what cannot be read is no date, and never an error.\<close>

definition into_date :: "int option into" where
  "into_date j d =
     (case j of
        JStr s \<Rightarrow> (case epoch_millis s of Inr ms \<Rightarrow> Some (Some ms) | Inl _ \<Rightarrow> Some d)
      | _ \<Rightarrow> Some d)"

definition into_item :: "history_item into" where
  "into_item = into_struct
     [(''date'', \<lambda>j h. map_option (\<lambda>d. h\<lparr>hi_date := d\<rparr>) (into_date j (hi_date h))),
      (''comment'', \<lambda>j h. map_option (\<lambda>c. h\<lparr>hi_comment := c\<rparr>)
         (into_pointer [] (into_struct [(''id'', into_string)]) j (hi_comment h)))]"

definition into_delivery :: "clickup_delivery into" where
  "into_delivery = into_struct
     [(''event'', \<lambda>j d. map_option (\<lambda>s. d\<lparr>cd_event := s\<rparr>) (into_string j (cd_event d))),
      (''webhook_id'', \<lambda>j d. map_option (\<lambda>s. d\<lparr>cd_webhook := s\<rparr>) (into_string j (cd_webhook d))),
      (''task_id'', \<lambda>j d. map_option (\<lambda>s. d\<lparr>cd_task := s\<rparr>) (into_string j (cd_task d))),
      (''history_items'', \<lambda>j d. map_option (\<lambda>h. d\<lparr>cd_history := h\<rparr>) (into_slice zero_item into_item j (cd_history d)))]"

text \<open>\<open>decode\<close>: one JSON value, of the right shape, and nothing after it.\<close>

definition decode_body :: "first_value \<Rightarrow> 'a into \<Rightarrow> 'a \<Rightarrow> bytes \<Rightarrow> clickup_error + 'a" where
  "decode_body first_value into zero body =
     (if \<not> valid_string body then Inl (BadDelivery ''the body is not UTF-8'')
      else case first_value body of
        None \<Rightarrow> Inl (BadDelivery ''the body is not the JSON object a delivery is'')
      | Some (j, rest) \<Rightarrow>
          (case into j zero of
             None \<Rightarrow> Inl (BadDelivery ''the body is not the JSON object a delivery is'')
           | Some v \<Rightarrow>
               if list_all json_space rest then Inr v
               else Inl (BadDelivery ''the body carries more than one document'')))"

definition clickup_keys :: "first_value \<Rightarrow> bytes \<Rightarrow> clickup_error + delivery_keys" where
  "clickup_keys first_value body =
     bind_res (decode_body first_value (into_struct [(''webhook_id'', into_string)]) [] body) (\<lambda>w.
       if \<not> valid_id w then Inl (BadDelivery ''the webhook id is missing or is not an identifier'')
       else Inr \<lparr>dk_workspace = [], dk_subscription = w\<rparr>)"

text \<open>\<open>commentID\<close>: the first history item that names one.\<close>

fun first_comment :: "history_item list \<Rightarrow> bytes" where
  "first_comment [] = []"
| "first_comment (h # hs) =
     (case hi_comment h of Some i \<Rightarrow> if i \<noteq> [] then i else first_comment hs | None \<Rightarrow> first_comment hs)"

definition comment_id :: "clickup_delivery \<Rightarrow> bytes" where
  "comment_id d = first_comment (elems (cd_history d))"

text \<open>The newest readable date, or zero.\<close>

definition event_time :: "clickup_delivery \<Rightarrow> int" where
  "event_time d = fold (\<lambda>h at. case hi_date h of None \<Rightarrow> at | Some ms \<Rightarrow> max at ms) (elems (cd_history d)) 0"

definition parse_delivery :: "first_value \<Rightarrow> bytes \<Rightarrow> clickup_error + clickup_delivery \<times> int" where
  "parse_delivery first_value body =
     bind_res (decode_body first_value into_delivery zero_delivery body) (\<lambda>d.
       if handled (cd_event d) = None
       then Inl (BadDelivery ''the event is missing, or is not one this provider handles'')
       else if \<not> valid_id (cd_webhook d) then Inl (BadDelivery ''the webhook id is missing or is not an identifier'')
       else if \<not> valid_id (cd_task d) then Inl (BadDelivery ''the task id is missing or is not an identifier'')
       else if handled (cd_event d) = Some SubjectComment \<and> \<not> valid_id (comment_id d)
       then Inl (BadDelivery ''a comment event carries no comment id'')
       else Inr (d, event_time d))"

definition external_id :: "clickup_delivery \<Rightarrow> clickup_error + bytes" where
  "external_id d =
     (case handled (cd_event d) of
        Some SubjectTask \<Rightarrow> Inr (clickup_key @ '':task:'' @ cd_task d)
      | Some SubjectComment \<Rightarrow> Inr (clickup_key @ '':comment:'' @ comment_id d)
      | None \<Rightarrow> Inl (BadDelivery ''the event has no subject''))"

definition clickup_parse :: "first_value \<Rightarrow> bytes \<Rightarrow> clickup_error + change list" where
  "clickup_parse first_value body =
     bind_res (parse_delivery first_value body) (\<lambda>(d, _).
     bind_res (external_id d) (\<lambda>e. Inr [\<lparr>ch_external_id = e, ch_op = op_upsert, ch_payload = body\<rparr>]))"

subsection \<open>A registration\<close>

datatype registration_error = RegTenant tenancy_error | RegWorkspace | RegWebhook | RegSecret

definition subscription_for :: "bytes \<Rightarrow> bytes \<Rightarrow> bytes \<Rightarrow> bytes \<Rightarrow> registration_error + sub" where
  "subscription_for t workspace webhook secret =
     (case parse_tenant t of
        Inl e \<Rightarrow> Inl (RegTenant e)
      | Inr _ \<Rightarrow>
          if \<not> valid_id workspace then Inl RegWorkspace
          else if \<not> valid_id webhook then Inl RegWebhook
          else if secret = [] then Inl RegSecret
          else Inr \<lparr>su_id = [], su_tenant = t, su_provider = clickup_key, su_resource = workspace,
                    su_workspace = [], su_external = webhook, su_secret = secret\<rparr>)"

end
