(* ===== verification/Clickup_Api.thy ===== *)
theory Clickup_Api
  imports Clickup_Parse Complex_Main
begin

text \<open>
  internal/provider/clickup/api.go: the rate limiter and the client. The server with everything between
  it and the client (net/http, the clock, the context of a call) is a parameter on a state \<open>'w\<close>: it
  answers a token and a URL. The bucket's \<open>float64\<close> arithmetic is exact here.
\<close>

subsection \<open>The rate limiter\<close>

abbreviation default_per_minute :: int where "default_per_minute \<equiv> 100"

abbreviation default_burst :: int where "default_burst \<equiv> 10"

record limiter =
  li_tokens :: rat
  li_last :: int
  li_burst :: rat
  li_per_token :: int

datatype clickup_config = ConfigNoTokens | ConfigBaseURL | ConfigRate

definition new_limiter :: "int \<Rightarrow> int \<Rightarrow> int \<Rightarrow> clickup_config + limiter" where
  "new_limiter per_minute burst now =
     (if per_minute \<le> 0 \<or> burst \<le> 0 then Inl ConfigRate
      else Inr \<lparr>li_tokens = of_int burst, li_last = now, li_burst = of_int burst,
                li_per_token = (60 * 1000000000) div per_minute\<rparr>)"

text \<open>A rate above one token a nanosecond makes \<open>perToken\<close> zero, and the division infinite.\<close>

definition refill :: "int \<Rightarrow> limiter \<Rightarrow> limiter" where
  "refill now l =
     (if now - li_last l > 0
      then l\<lparr>li_last := now,
             li_tokens := (if li_per_token l = 0 then li_burst l
                           else min (li_burst l) (li_tokens l + of_int (now - li_last l) / of_int (li_per_token l)))\<rparr>
      else l)"

definition allow :: "int \<Rightarrow> limiter \<Rightarrow> bool \<times> limiter" where
  "allow now l =
     (let l' = refill now l in
      if li_tokens l' < 1 then (False, l') else (True, l'\<lparr>li_tokens := li_tokens l' - 1\<rparr>))"

subsection \<open>The client\<close>

abbreviation api_prefix :: bytes where "api_prefix \<equiv> ''/api/v2''"

abbreviation max_response_bytes :: nat where "max_response_bytes \<equiv> 4 * 1024 * 1024"

abbreviation comment_page :: nat where "comment_page \<equiv> 25"

abbreviation max_comment_pages :: nat where "max_comment_pages \<equiv> 4"

abbreviation default_base_url :: bytes where "default_base_url \<equiv> ''https://api.clickup.com''"

record client =
  ac_base :: bytes
  ac_limiter :: limiter

text \<open>\<open>newAPI\<close>: \<open>usable\<close> is what net/url says of the base URL, zero numbers mean the defaults.\<close>

definition new_api :: "(bytes \<Rightarrow> bool) \<Rightarrow> bool \<Rightarrow> bytes \<Rightarrow> int \<Rightarrow> int \<Rightarrow> int \<Rightarrow> clickup_config + client" where
  "new_api usable has_tokens base per_minute burst now =
     (if \<not> has_tokens then Inl ConfigNoTokens
      else
        let base = trim_suffix (if base = [] then default_base_url else base) ''/'' in
        if \<not> usable base then Inl ConfigBaseURL
        else bind_res
          (new_limiter (if per_minute = 0 then default_per_minute else per_minute) (if burst = 0 then default_burst else burst) now)
          (\<lambda>l. Inr \<lparr>ac_base = base, ac_limiter = l\<rparr>))"

text \<open>No request, no answer (and whether the context is over), or a status with what could be read.\<close>

datatype api_reply = NotBuilt | NoReply bool | Reply int bytes bool

record 'w server =
  sv_clock :: "'w \<Rightarrow> int"
  sv_serve :: "bytes \<Rightarrow> bytes \<Rightarrow> 'w \<Rightarrow> api_reply \<times> 'w"
  sv_json :: "bytes \<Rightarrow> json option"

definition read_reply :: "(bytes \<Rightarrow> json option) \<Rightarrow> 'a into \<Rightarrow> 'a \<Rightarrow> api_reply \<Rightarrow> clickup_error + 'a" where
  "read_reply parse into zero reply =
     (case reply of
        NotBuilt \<Rightarrow> Inl (ApiFailed ''the request could not be built'')
      | NoReply cancelled \<Rightarrow> Inl (ApiFailed (if cancelled then ''context'' else ''the request did not complete''))
      | Reply status body read_ok \<Rightarrow>
          if status = 404 then Inl ApiNotFound
          else if status \<noteq> 200 then Inl (ApiFailed (''status '' @ show_int status))
          else if \<not> read_ok then Inl (ApiFailed ''the response could not be read'')
          else if length body > max_response_bytes then Inl (ApiFailed (''the response is over '' @ show_nat max_response_bytes @ '' bytes''))
          else (case parse body of
                  None \<Rightarrow> Inl (ApiFailed ''the response is not the JSON this call expects'')
                | Some j \<Rightarrow>
                    (case into j zero of
                       None \<Rightarrow> Inl (ApiFailed ''the response is not the JSON this call expects'')
                     | Some v \<Rightarrow> Inr v)))"

definition request_url :: "client \<Rightarrow> bytes \<Rightarrow> (bytes \<times> bytes) list \<Rightarrow> bytes" where
  "request_url a path query = ac_base a @ path @ (if query = [] then [] else ''?'' @ encode_query query)"

definition api_get ::
  "'w server \<Rightarrow> 'a into \<Rightarrow> 'a \<Rightarrow> bytes \<Rightarrow> bytes \<Rightarrow> (bytes \<times> bytes) list \<Rightarrow> client \<times> 'w \<Rightarrow> (clickup_error + 'a) \<times> client \<times> 'w" where
  "api_get sv into zero token path query s =
     (let (a, w) = s; (ok, l) = allow (sv_clock sv w) (ac_limiter a); a' = a\<lparr>ac_limiter := l\<rparr> in
      if \<not> ok then (Inl RateLimited, a', w)
      else let (reply, w') = sv_serve sv token (request_url a path query) w in
        (read_reply (sv_json sv) into zero reply, a', w'))"

subsection \<open>Tasks and comments\<close>

record user =
  us_id :: int
  us_name :: bytes

record clickup_task =
  ct_id :: bytes
  ct_name :: bytes
  ct_text_content :: bytes
  ct_description :: bytes
  ct_date_updated :: bytes
  ct_creator :: "user option"
  ct_list :: bytes

record clickup_comment =
  cc_id :: bytes
  cc_text :: bytes
  cc_date :: bytes
  cc_user :: "user option"

definition into_user :: "user into" where
  "into_user = into_struct
     [(''id'', \<lambda>j u. map_option (\<lambda>n. u\<lparr>us_id := n\<rparr>) (into_int64 j (us_id u))),
      (''username'', \<lambda>j u. map_option (\<lambda>s. u\<lparr>us_name := s\<rparr>) (into_string j (us_name u)))]"

definition zero_user :: user where
  "zero_user = \<lparr>us_id = 0, us_name = []\<rparr>"

definition into_task :: "clickup_task into" where
  "into_task = into_struct
     [(''id'', \<lambda>j t. map_option (\<lambda>s. t\<lparr>ct_id := s\<rparr>) (into_string j (ct_id t))),
      (''name'', \<lambda>j t. map_option (\<lambda>s. t\<lparr>ct_name := s\<rparr>) (into_string j (ct_name t))),
      (''text_content'', \<lambda>j t. map_option (\<lambda>s. t\<lparr>ct_text_content := s\<rparr>) (into_string j (ct_text_content t))),
      (''description'', \<lambda>j t. map_option (\<lambda>s. t\<lparr>ct_description := s\<rparr>) (into_string j (ct_description t))),
      (''date_updated'', \<lambda>j t. map_option (\<lambda>s. t\<lparr>ct_date_updated := s\<rparr>) (into_string j (ct_date_updated t))),
      (''creator'', \<lambda>j t. map_option (\<lambda>u. t\<lparr>ct_creator := u\<rparr>) (into_pointer zero_user into_user j (ct_creator t))),
      (''list'', \<lambda>j t. map_option (\<lambda>s. t\<lparr>ct_list := s\<rparr>) (into_struct [(''id'', into_string)] j (ct_list t)))]"

definition zero_task :: clickup_task where
  "zero_task = \<lparr>ct_id = [], ct_name = [], ct_text_content = [], ct_description = [], ct_date_updated = [],
     ct_creator = None, ct_list = []\<rparr>"

definition into_comment :: "clickup_comment into" where
  "into_comment = into_struct
     [(''id'', \<lambda>j c. map_option (\<lambda>s. c\<lparr>cc_id := s\<rparr>) (into_string j (cc_id c))),
      (''comment_text'', \<lambda>j c. map_option (\<lambda>s. c\<lparr>cc_text := s\<rparr>) (into_string j (cc_text c))),
      (''date'', \<lambda>j c. map_option (\<lambda>s. c\<lparr>cc_date := s\<rparr>) (into_string j (cc_date c))),
      (''user'', \<lambda>j c. map_option (\<lambda>u. c\<lparr>cc_user := u\<rparr>) (into_pointer zero_user into_user j (cc_user c)))]"

definition zero_comment :: clickup_comment where
  "zero_comment = \<lparr>cc_id = [], cc_text = [], cc_date = [], cc_user = None\<rparr>"

definition into_comments :: "clickup_comment slice into" where
  "into_comments = into_struct [(''comments'', into_slice zero_comment into_comment)]"

definition task_path :: "bytes \<Rightarrow> bytes" where
  "task_path i = api_prefix @ ''/task/'' @ path_escape i"

definition fetch_task :: "'w server \<Rightarrow> bytes \<Rightarrow> bytes \<Rightarrow> client \<times> 'w \<Rightarrow> (clickup_error + clickup_task) \<times> client \<times> 'w" where
  "fetch_task sv token i = api_get sv into_task zero_task token (task_path i) []"

text \<open>The search for one comment: \<open>n\<close> pages are left to read.\<close>

fun find_comment ::
  "'w server \<Rightarrow> bytes \<Rightarrow> bytes \<Rightarrow> bytes \<Rightarrow> nat \<Rightarrow> (bytes \<times> bytes) list \<Rightarrow> client \<times> 'w
   \<Rightarrow> (clickup_error + clickup_comment) \<times> client \<times> 'w" where
  "find_comment sv token path i 0 query s = (Inl ApiNotFound, s)"
| "find_comment sv token path i (Suc n) query s =
     (case api_get sv into_comments ([], 0) token path query s of
        (Inl e, s') \<Rightarrow> (Inl e, s')
      | (Inr page, s') \<Rightarrow>
          (case find (\<lambda>c. cc_id c = i) (elems page) of
             Some c \<Rightarrow> (Inr c, s')
           | None \<Rightarrow>
               if length (elems page) < comment_page then (Inl ApiNotFound, s')
               else let oldest = last (elems page) in
                 if cc_id oldest = [] \<or> cc_date oldest = [] then (Inl ApiNotFound, s')
                 else find_comment sv token path i n [(''start'', cc_date oldest), (''start_id'', cc_id oldest)] s'))"

definition fetch_comment ::
  "'w server \<Rightarrow> bytes \<Rightarrow> bytes \<Rightarrow> bytes \<Rightarrow> client \<times> 'w \<Rightarrow> (clickup_error + clickup_comment) \<times> client \<times> 'w" where
  "fetch_comment sv token task i = find_comment sv token (task_path task @ ''/comment'') i max_comment_pages []"

end
