(* ===== verification/Clickup.thy ===== *)
theory Clickup
  imports Clickup_Api
begin

text \<open>
  internal/provider/clickup/normalize.go: what a delivery hydrates to and the records it becomes, and
  the provider the registry holds. The tenants' tokens are a parameter. A time is epoch milliseconds;
  its year and its RFC 3339 text are computed by the proleptic Gregorian calendar, as package time does.
\<close>

subsection \<open>Times\<close>

text \<open>Year, month and day of a day number, day 0 being 1970-01-01. The year of the computation begins
  in March.\<close>

definition civil_of_day :: "int \<Rightarrow> int \<times> int \<times> int" where
  "civil_of_day day =
     (let z = day + 719468; era = z div 146097; doe = z mod 146097;
          yoe = (doe - doe div 1460 + doe div 36524 - doe div 146096) div 365;
          doy = doe - (365 * yoe + yoe div 4 - yoe div 100);
          mp = (5 * doy + 2) div 153;
          d = doy - (153 * mp + 2) div 5 + 1;
          m = (if mp < 10 then mp + 3 else mp - 9);
          y = yoe + era * 400 in
      (if m \<le> 2 then y + 1 else y, m, d))"

definition pad :: "nat \<Rightarrow> int \<Rightarrow> bytes" where
  "pad w n = (let s = show_nat (nat n) in replicate (w - length s) (CHR ''0'') @ s)"

abbreviation day_ms :: int where "day_ms \<equiv> 86400000"

definition fraction_text :: "int \<Rightarrow> bytes" where
  "fraction_text ms = (if ms = 0 then [] else CHR ''.'' # trim_right (CHR ''0'') (pad 3 ms))"

definition time_of_millis :: "int \<Rightarrow> go_time" where
  "time_of_millis ms =
     (let (y, m, d) = civil_of_day (ms div day_ms); r = ms mod day_ms in
      \<lparr>t_utc = True, t_year = y,
       t_text = pad 4 y @ ''-'' @ pad 2 m @ ''-'' @ pad 2 d @ ''T'' @ pad 2 (r div 3600000) @ '':'' @
         pad 2 (r div 60000 mod 60) @ '':'' @ pad 2 (r div 1000 mod 60) @ fraction_text (r mod 1000) @ ''Z''\<rparr>)"

definition occurred_at :: "int \<Rightarrow> clickup_error + go_time" where
  "occurred_at ms =
     (let t = time_of_millis ms in
      if t_year t < 1000 \<or> t_year t > 9999
      then Inl (BadObject ''a time is outside the years the record format holds'') else Inr t)"

subsection \<open>Hydrate\<close>

record object =
  ob_task :: clickup_task
  ob_comment :: "clickup_comment option"
  ob_delivery :: clickup_delivery
  ob_at :: int

type_synonym tokens = "bytes \<Rightarrow> bytes option"

definition hydrate ::
  "first_value \<Rightarrow> tokens \<Rightarrow> 'w server \<Rightarrow> bytes \<Rightarrow> change \<Rightarrow> client \<times> 'w \<Rightarrow> (clickup_error + object) \<times> client \<times> 'w" where
  "hydrate first_value tokens sv t c s =
     (if \<not> is_ok (parse_tenant t) then (Inl (BadObject ''tenant''), s)
      else case parse_delivery first_value (ch_payload c) of
        Inl e \<Rightarrow> (Inl e, s)
      | Inr (d, ev) \<Rightarrow>
     (case external_id d of
        Inl e \<Rightarrow> (Inl e, s)
      | Inr e \<Rightarrow>
          if e \<noteq> ch_external_id c then (Inl (BadObject ''the payload is not this change's''), s)
          else case tokens t of
            None \<Rightarrow> (Inl NoToken, s)
          | Some token \<Rightarrow>
              if token = [] then (Inl NoToken, s)
              else case fetch_task sv token (cd_task d) s of
                (Inl e, s') \<Rightarrow> (Inl e, s')
              | (Inr tk, s') \<Rightarrow>
                  if handled (cd_event d) = Some SubjectComment
                  then (case fetch_comment sv token (cd_task d) (comment_id d) s' of
                          (Inl e, s'') \<Rightarrow> (Inl e, s'')
                        | (Inr cm, s'') \<Rightarrow> (Inr \<lparr>ob_task = tk, ob_comment = Some cm, ob_delivery = d, ob_at = ev\<rparr>, s''))
                  else (Inr \<lparr>ob_task = tk, ob_comment = None, ob_delivery = d, ob_at = ev\<rparr>, s')))"

subsection \<open>Normalize\<close>

definition author_of :: "user option \<Rightarrow> author" where
  "author_of u =
     (case u of None \<Rightarrow> \<lparr>au_id = [], au_display = []\<rparr>
      | Some u \<Rightarrow> \<lparr>au_id = show_int (us_id u), au_display = clean_display (us_name u)\<rparr>)"

definition scope_for :: "bytes \<Rightarrow> clickup_error + bytes" where
  "scope_for i = (case scope_id clickup_key ''list'' i of Inl e \<Rightarrow> Inl (BadObject ''scope'') | Inr s \<Rightarrow> Inr s)"

definition task_record :: "object \<Rightarrow> int \<Rightarrow> clickup_error + rec" where
  "task_record o' ms =
     bind_res (scope_for (ct_list (ob_task o'))) (\<lambda>scope.
     bind_res (occurred_at ms) (\<lambda>tm.
       let text = (if ct_text_content (ob_task o') = [] then ct_description (ob_task o') else ct_text_content (ob_task o')) in
       Inr \<lparr>rc_format = [], rc_id = [], rc_op = op_upsert, rc_source = [], rc_kind = ''task'',
            rc_external_id = clickup_key @ '':task:'' @ cd_task (ob_delivery o'), rc_version = show_int ms, rc_supersedes = [],
            rc_occurred_at = tm, rc_title = clean_title (ct_name (ob_task o')), rc_text = clean_text text,
            rc_author = author_of (ct_creator (ob_task o')),
            rc_container = \<lparr>co_kind = ''list'', co_id = ct_list (ob_task o')\<rparr>,
            rc_visibility = \<lparr>vi_scope = scope, vi_audience = ''group''\<rparr>,
            rc_origin = \<lparr>or_automation = False, or_untrusted = False\<rparr>, rc_reply_parent = [], rc_delivery = [],
            rc_sealed = zero_seal, rc_sealed_for = []\<rparr>))"

definition comment_record :: "object \<Rightarrow> clickup_comment \<Rightarrow> clickup_error + rec" where
  "comment_record o' cm =
     bind_res (scope_for (ct_list (ob_task o'))) (\<lambda>scope.
     bind_res (epoch_millis (cc_date cm)) (\<lambda>posted.
     let ms = max posted (ob_at o') in
     bind_res (occurred_at ms) (\<lambda>tm.
       if \<not> valid_id (cc_id cm) then Inl (BadObject ''the comment the API returned has no usable id'')
       else Inr \<lparr>rc_format = [], rc_id = [], rc_op = op_upsert, rc_source = [], rc_kind = ''message'',
            rc_external_id = clickup_key @ '':comment:'' @ cc_id cm, rc_version = show_int ms, rc_supersedes = [],
            rc_occurred_at = tm, rc_title = [], rc_text = clean_text (cc_text cm),
            rc_author = author_of (cc_user cm),
            rc_container = \<lparr>co_kind = ''task'', co_id = cd_task (ob_delivery o')\<rparr>,
            rc_visibility = \<lparr>vi_scope = scope, vi_audience = ''group''\<rparr>,
            rc_origin = \<lparr>or_automation = False, or_untrusted = False\<rparr>,
            rc_reply_parent = clickup_key @ '':task:'' @ cd_task (ob_delivery o'), rc_delivery = [],
            rc_sealed = zero_seal, rc_sealed_for = []\<rparr>)))"

definition normalize_object :: "object \<Rightarrow> change \<Rightarrow> clickup_error + rec list" where
  "normalize_object o' c =
     (case external_id (ob_delivery o') of
        Inl _ \<Rightarrow> Inl (BadObject ''the object carries no event this provider handles'')
      | Inr e \<Rightarrow>
          if e \<noteq> ch_external_id c then Inl (BadObject ''the object is not this change's'')
          else if \<not> valid_id (ct_id (ob_task o')) then Inl (BadObject ''the task the API returned has no usable id'')
          else if \<not> valid_id (ct_list (ob_task o'))
          then Inl (BadObject ''the task the API returned is in no list this provider can name'')
          else bind_res (epoch_millis (ct_date_updated (ob_task o'))) (\<lambda>updated.
            case handled (cd_event (ob_delivery o')) of
              Some SubjectTask \<Rightarrow> bind_res (task_record o' (max updated (ob_at o'))) (\<lambda>r. Inr [r])
            | Some SubjectComment \<Rightarrow>
                (case ob_comment o' of
                   None \<Rightarrow> Inl (BadObject ''a comment event with no comment'')
                 | Some cm \<Rightarrow>
                     bind_res (task_record o' updated) (\<lambda>parent.
                     bind_res (comment_record o' cm) (\<lambda>r. Inr [parent, r])))
            | None \<Rightarrow> Inl (BadObject ''the event has no subject'')))"

subsection \<open>The provider\<close>

fun clickup_error_text :: "clickup_error \<Rightarrow> bytes" where
  "clickup_error_text (BadDelivery what) = ''clickup: bad delivery: '' @ what"
| "clickup_error_text (BadObject what) = ''clickup: bad object: '' @ what"
| "clickup_error_text NoToken = ''clickup: no API token for this tenant''"
| "clickup_error_text RateLimited = ''clickup: the rate limiter is at capacity''"
| "clickup_error_text (ApiFailed what) = ''clickup: the API call failed: '' @ what"
| "clickup_error_text ApiNotFound = ''clickup: the API does not have it''"

definition clickup_source :: "first_value \<Rightarrow> (bytes \<Rightarrow> bytes \<Rightarrow> bytes) \<Rightarrow> webhook_source" where
  "clickup_source first_value hmac =
     \<lparr>ws_handshake = (\<lambda>_ _. None),
      ws_delivery_keys = (\<lambda>body _. map_err clickup_error_text (clickup_keys first_value body)),
      ws_verify = clickup_verify hmac,
      ws_parse = (\<lambda>body. map_err clickup_error_text (clickup_parse first_value body)),
      ws_signs_url = False\<rparr>"

text \<open>The provider as the world stands when it is asked.\<close>

definition clickup_provider ::
  "first_value \<Rightarrow> (bytes \<Rightarrow> bytes \<Rightarrow> bytes) \<Rightarrow> tokens \<Rightarrow> 'w server \<Rightarrow> client \<times> 'w \<Rightarrow> object provider" where
  "clickup_provider first_value hmac tokens sv s =
     \<lparr>pv_key = clickup_key, pv_versions = OrderDecimal,
      pv_hydrate = (\<lambda>t c. map_err clickup_error_text (fst (hydrate first_value tokens sv t c s))),
      pv_normalize = (\<lambda>o' c. map_err clickup_error_text (normalize_object o' c)),
      pv_degrade = None, pv_source = Some (clickup_source first_value hmac)\<rparr>"

end
