(* ===== verification/Clickup_Facts.thy ===== *)
theory Clickup_Facts
  imports Clickup Pipeline_Facts
begin

text \<open>
  What the ClickUp provider gives the pipeline: records that seal whatever the API answered, versions
  the ledger can order, requests that stay where they belong, a rate that is bounded, and a
  registration its deliveries are found by.
\<close>

subsection \<open>Text that passes the format\<close>

definition printable :: "bytes \<Rightarrow> bool" where
  "printable s \<longleftrightarrow> list_all (\<lambda>b. 32 \<le> ord_of b \<and> ord_of b < 127) s"

lemma printable_append [simp]: "printable (a @ b) \<longleftrightarrow> printable a \<and> printable b"
  by (simp add: printable_def)

lemma printable_sep: "printable s \<Longrightarrow> sep \<notin> set s"
  by (auto simp: printable_def list_all_iff ord_of_def)

lemma printable_check: "printable s \<Longrightarrow> mn \<le> length s \<Longrightarrow> length s \<le> m \<Longrightarrow> check_string f s mn m rule = None"
  unfolding printable_def by (rule check_string_ascii)

lemma digit_printable: "is_digit c \<Longrightarrow> 32 \<le> ord_of c \<and> ord_of c < 127"
  by (auto simp: is_digit_def char_le_ord) (auto simp: ord_of_def)

lemma show_nat_printable: "printable (show_nat n)"
  using show_nat_digits digit_printable by (auto simp: printable_def list_all_iff)

lemma show_int_printable: "printable (show_int n)"
  using show_nat_printable by (simp add: show_int_def printable_def ord_of_def)

lemma show_nat_nonempty: "show_nat n \<noteq> []"
  by (subst show_nat.simps) simp

lemma show_int_nonempty: "show_int n \<noteq> []"
  by (simp add: show_int_def show_nat_nonempty)

definition int64 :: "int \<Rightarrow> bool" where
  "int64 n \<longleftrightarrow> - (2 ^ 63) \<le> n \<and> n < 2 ^ 63"

lemma show_int_length: "int64 n \<Longrightarrow> length (show_int n) \<le> 20"
proof -
  assume "int64 n"
  then have "nat \<bar>n\<bar> < 10 ^ Suc 18" by (auto simp: int64_def)
  then have "length (show_nat (nat \<bar>n\<bar>)) \<le> 19" using show_nat_length [of "nat \<bar>n\<bar>" 18] by simp
  then show ?thesis by (auto simp: show_int_def)
qed

lemma valid_id_chars: "valid_id s \<Longrightarrow> list_all (\<lambda>c. unreserved c \<and> 32 \<le> ord_of c \<and> ord_of c < 127) s"
  by (auto simp: valid_id_def unreserved_def list_all_iff is_lower_def is_upper_def is_digit_def char_le_ord)
    (auto simp: ord_of_def dest!: bspec)

lemma valid_id_printable: "valid_id s \<Longrightarrow> printable s"
  using valid_id_chars by (auto simp: printable_def list_all_iff)

lemma valid_id_escape:
  assumes "valid_id s"
  shows "concat (map esc s) = s" "path_escape s = s" "list_all (\<lambda>c. \<not> control c) s"
proof -
  have "\<forall>c \<in> set s. unreserved c" using valid_id_chars [OF assms] by (simp add: list_all_iff)
  then show "concat (map esc s) = s" "path_escape s = s" "list_all (\<lambda>c. \<not> control c) s"
    by (induction s) (auto simp: esc_def path_escape_def unreserved_no_control)
qed

lemma clickup_valid: "valid_provider_key clickup_key"
  by (simp add: valid_provider_key_def valid_name_def is_lower_def)

lemma scope_for_valid: "valid_id i \<Longrightarrow> scope_for i = Inr (clickup_key @ '':list:'' @ i)"
proof -
  assume v: "valid_id i"
  have "valid_name ''list'' max_kind False" by (simp add: valid_name_def is_lower_def)
  moreover have "i \<noteq> []" "length i \<le> 64" using v by (simp_all add: valid_id_def)
  ultimately have "scope_id clickup_key ''list'' i = Inr (clickup_key @ '':list:'' @ i)"
    using clickup_valid valid_id_escape [OF v] unfolding scope_id_Inr by simp
  then show ?thesis by (simp add: scope_for_def)
qed

lemma scope_ok: "valid_id i \<Longrightarrow> check_scope_id (clickup_key @ '':list:'' @ i) = None"
  using scope_for_valid [of i] check_scope_id_built by (force simp: scope_for_def split: sum.splits)

lemma external_ok:
  assumes "printable s" "s \<noteq> []" "length s \<le> 80"
  shows "check_external_id f (clickup_key @ CHR '':'' # s) = None"
proof -
  have "index_byte (clickup_key @ CHR '':'' # s) (CHR '':'') = Some (length clickup_key)"
    by (rule index_byte_append_notin) simp
  moreover have "check_string f (clickup_key @ CHR '':'' # s) 1 max_external_id IdentifierChars = None"
    by (rule printable_check) (use assms in \<open>simp_all add: printable_def ord_of_def\<close>)
  ultimately show ?thesis using assms(2) clickup_valid by (simp add: check_external_id_def)
qed

lemma author_ok:
  "pred_option (\<lambda>u. int64 (us_id u)) u \<Longrightarrow>
   check_string f (au_id (author_of u)) 0 max_author IdentifierChars = None \<and>
   check_string g (au_display (author_of u)) 0 max_author DisplayChars = None"
  using show_int_length show_int_printable printable_check [of "[]" 0 max_author]
  by (cases u) (auto simp: author_of_def cleaned_fields printable_def intro!: check_string_ascii le_trans [OF show_int_length])

subsection \<open>A record that seals\<close>

lemma hashed_record_id: "hex_hash h \<Longrightarrow> valid_record_id (record_prefix @ take record_hex_len (h x))"
proof -
  assume h: "hex_hash h"
  have "list_all (\<lambda>c. is_digit c \<or> CHR ''a'' \<le> c \<and> c \<le> CHR ''f'') (take record_hex_len (h x))"
    using h in_set_takeD [of _ record_hex_len "h x"] by (auto simp: hex_hash_def list_all_iff hex_digit_def is_digit_def)
  then show ?thesis using h by (simp add: valid_record_id_def hex_hash_def)
qed

text \<open>What the two record builders have in common.\<close>

definition clickup_shape :: "rec \<Rightarrow> bool" where
  "clickup_shape r \<longleftrightarrow> rc_op r = op_upsert \<and> rc_source r = [] \<and> rc_kind r \<in> set record_kinds \<and>
     (\<exists>e. rc_external_id r = clickup_key @ CHR '':'' # e \<and> printable e \<and> e \<noteq> [] \<and> length e \<le> 80) \<and>
     (\<exists>n. rc_version r = show_int n \<and> 0 \<le> n \<and> int64 n) \<and> rc_supersedes r = [] \<and>
     check_time (rc_occurred_at r) = None \<and>
     (\<forall>f. check_string f (rc_title r) 0 max_title OneLineChars = None) \<and>
     (\<forall>f. check_string f (rc_text r) 0 max_text ContentChars = None) \<and>
     (\<forall>f. check_string f (au_id (rc_author r)) 0 max_author IdentifierChars = None) \<and>
     (\<forall>f. check_string f (au_display (rc_author r)) 0 max_author DisplayChars = None) \<and>
     valid_name (co_kind (rc_container r)) max_kind False \<and> valid_id (co_id (rc_container r)) \<and>
     (\<exists>l. vi_scope (rc_visibility r) = clickup_key @ '':list:'' @ l \<and> valid_id l) \<and>
     vi_audience (rc_visibility r) = ''group'' \<and> \<not> or_automation (rc_origin r) \<and>
     (rc_reply_parent r = [] \<or> (\<exists>e. rc_reply_parent r = clickup_key @ CHR '':'' # e \<and> printable e \<and> e \<noteq> [] \<and> length e \<le> 80))"

lemma clickup_shape_seals:
  assumes s: "clickup_shape r" and h: "hex_hash h" and t: "valid_tenant t"
    and d: "check_string ''meta.delivery'' did 0 max_delivery IdentifierChars = None"
  shows "\<exists>q. seal_record h (r\<lparr>rc_delivery := did\<rparr>) clickup_key t = Inr q"
proof -
  obtain e where e: "rc_external_id r = clickup_key @ CHR '':'' # e" "printable e" "e \<noteq> []" "length e \<le> 80"
    using s by (auto simp: clickup_shape_def)
  obtain n where n: "rc_version r = show_int n" "int64 n" using s by (auto simp: clickup_shape_def)
  obtain l where l: "vi_scope (rc_visibility r) = clickup_key @ '':list:'' @ l" "valid_id l" using s by (auto simp: clickup_shape_def)
  let ?r = "r\<lparr>rc_delivery := did\<rparr>"
  have tp: "part_ok t" using t tenant_char_ascii by (fastforce simp: part_ok_def valid_tenant_def list_all_iff ord_of_def)
  have parts: "part_ok clickup_key" "part_ok (rc_external_id r)" "part_ok (rc_version r)" "part_ok (vi_scope (rc_visibility r))"
    using printable_sep [OF e(2)] printable_sep [OF show_int_printable] show_int_nonempty printable_sep [OF valid_id_printable [OF l(2)]]
    by (simp_all add: part_ok_def e(1) n(1) l(1))
  obtain x where x: "record_input (record_parts clickup_key (rc_external_id r) (rc_version r) (vi_scope (rc_visibility r)) t) [] False = Inr x"
    using parts tp by (simp add: record_input_parts)
  define i where "i = record_prefix @ take record_hex_len (h x)"
  have rid: "record_id h clickup_key (rc_external_id r) (rc_version r) (vi_scope (rc_visibility r)) t = Inr i"
    using x by (simp add: record_id_def i_def)
  have vid: "valid_record_id i" unfolding i_def by (rule hashed_record_id [OF h])
  let ?r1 = "?r\<lparr>rc_format := format_v1, rc_source := clickup_key, rc_id := i\<rparr>"
  let ?r2 = "?r1\<lparr>rc_sealed := current_seal ?r1, rc_sealed_for := t\<rparr>"
  have ext: "check_external_id f (rc_external_id r) = None" for f unfolding e(1) by (rule external_ok [OF e(2-4)])
  have ver: "check_string f (rc_version r) 1 max_version IdentifierChars = None" for f
    unfolding n(1) by (rule printable_check) (use show_int_printable show_int_length [OF n(2)] show_int_nonempty in \<open>auto simp: Suc_le_eq\<close>)
  have sc: "check_scope_id (vi_scope (rc_visibility r)) = None" unfolding l(1) by (rule scope_ok [OF l(2)])
  have par: "rc_reply_parent r \<noteq> [] \<Longrightarrow> check_external_id f (rc_reply_parent r) = None \<and> has_prefix (rc_reply_parent r) (clickup_key @ '':'')" for f
    using s external_ok by (auto simp: clickup_shape_def has_prefix_def)
  have co: "check_string f (co_id (rc_container r)) 1 max_container_id IdentifierChars = None" for f
    by (rule printable_check) (use s valid_id_printable in \<open>auto simp: clickup_shape_def valid_id_def Suc_le_eq\<close>)
  have src: "valid_name clickup_key max_source True" by (simp add: valid_name_def is_lower_def)
  have "validate ?r2 = None"
    unfolding validate_def first_error_None
    using s vid ext ver sc par co src d by (auto simp: clickup_shape_def)
  then show ?thesis
    using s rid sc par clickup_valid t
    by (simp add: seal_record_def Let_def clickup_shape_def has_prefix_def e(1) l(1) is_ok_iff) (auto simp: l(1) e(1))
qed

subsection \<open>What is read is in range\<close>

lemma int64_zero [simp]: "int64 0"
  by (simp add: int64_def)

lemma user_keeps: "keeps_into (\<lambda>u. int64 (us_id u)) into_user"
  unfolding into_user_def
proof (rule keeps_struct)
  have n: "keeps_into int64 into_int64"
    by (rule keeps_intoI) (auto simp: into_int64_def int64_def split: json.splits dest!: parse_int64_bound)
  fix f assume "f \<in> set [(''id'', \<lambda>j u. map_option (\<lambda>n. u\<lparr>us_id := n\<rparr>) (into_int64 j (us_id u))),
      (''username'', \<lambda>j u. map_option (\<lambda>s. u\<lparr>us_name := s\<rparr>) (into_string j (us_name u)))]"
  then show "keeps_into (\<lambda>u. int64 (us_id u)) (snd f)" using n by (auto simp: keeps_into_def)
qed

definition task_ok :: "clickup_task \<Rightarrow> bool" where
  "task_ok t \<longleftrightarrow> pred_option (\<lambda>u. int64 (us_id u)) (ct_creator t)"

definition comment_ok :: "clickup_comment \<Rightarrow> bool" where
  "comment_ok c \<longleftrightarrow> pred_option (\<lambda>u. int64 (us_id u)) (cc_user c)"

lemma pointer_user_keeps: "keeps_into (pred_option (\<lambda>u. int64 (us_id u))) (into_pointer zero_user into_user)"
  by (rule keeps_pointer [OF user_keeps]) (simp add: zero_user_def)

lemma task_keeps: "keeps_into task_ok into_task"
  unfolding into_task_def
  by (rule keeps_struct) (use pointer_user_keeps in \<open>auto simp: keeps_into_def task_ok_def\<close>)

lemma comment_keeps: "keeps_into comment_ok into_comment"
  unfolding into_comment_def
  by (rule keeps_struct) (use pointer_user_keeps in \<open>auto simp: keeps_into_def comment_ok_def\<close>)

lemma zeros_ok: "task_ok zero_task" "comment_ok zero_comment"
  by (simp_all add: task_ok_def zero_task_def comment_ok_def zero_comment_def)

lemma comments_keep: "keeps_into (\<lambda>s. list_all comment_ok (fst s)) into_comments"
  unfolding into_comments_def
  by (rule keeps_struct) (use keeps_slice [OF comment_keeps zeros_ok(2)] in simp)

lemma api_get_into: "api_get sv into zero tok path query s = (Inr v, s') \<Longrightarrow> \<exists>j. into j zero = Some v"
  by (auto simp: api_get_def read_reply_def Let_def split: prod.splits if_splits api_reply.splits option.splits)

lemma api_get_keeps: "keeps_into P into \<Longrightarrow> P zero \<Longrightarrow> api_get sv into zero tok path query s = (Inr v, s') \<Longrightarrow> P v"
  using api_get_into keeps_intoD by fast

lemma fetch_task_ok: "fetch_task sv tok i s = (Inr t, s') \<Longrightarrow> task_ok t"
  unfolding fetch_task_def by (rule api_get_keeps [OF task_keeps zeros_ok(1)])

lemma find_comment_ok:
  "find_comment sv tok path i n query s = (Inr c, s') \<Longrightarrow> comment_ok c \<and> cc_id c = i"
proof (induction n arbitrary: query s)
  case (Suc n)
  obtain page s1 where p: "api_get sv into_comments ([], 0) tok path query s = (Inr page, s1)"
    using Suc.prems by (auto split: prod.splits sum.splits)
  show ?case
  proof (cases "find (\<lambda>c. cc_id c = i) (elems page)")
    case None
    then show ?thesis using Suc p by (auto simp: Let_def split: if_splits)
  next
    case (Some d)
    then have "c = d" using Suc.prems p by simp
    moreover have "list_all comment_ok (fst page)" by (rule api_get_keeps [OF comments_keep _ p]) simp
    ultimately show ?thesis using Some elems_all [of comment_ok page] by (auto simp: find_Some_iff list_all_length)
  qed
qed simp

definition time_ok :: "int \<Rightarrow> bool" where
  "time_ok ms \<longleftrightarrow> 0 \<le> ms \<and> int64 ms"

lemma time_ok_max [simp]: "time_ok a \<Longrightarrow> time_ok b \<Longrightarrow> time_ok (max a b)"
  by (auto simp: time_ok_def max_def)

lemma epoch_millis_bound: "epoch_millis s = Inr ms \<Longrightarrow> time_ok ms"
proof -
  assume e: "epoch_millis s = Inr ms"
  then have d: "all_digits s" "parse_int64 s = Some ms" by (auto simp: epoch_millis_def split: if_splits option.splits)
  then have "hd s \<noteq> CHR ''-''" by (cases s) (auto simp: all_digits_def is_digit_def char_le_ord ord_of_def)
  then show ?thesis using d parse_int64_bound [OF d(2)] by (auto simp: parse_int64_def time_ok_def int64_def Let_def split: if_splits)
qed

definition item_ok :: "history_item \<Rightarrow> bool" where
  "item_ok h \<longleftrightarrow> pred_option time_ok (hi_date h)"

lemma date_keeps: "keeps_into (pred_option time_ok) into_date"
  by (rule keeps_intoI) (auto simp: into_date_def split: json.splits sum.splits dest: epoch_millis_bound)

lemma item_keeps: "keeps_into item_ok into_item"
  unfolding into_item_def
  by (rule keeps_struct) (use date_keeps in \<open>auto simp: keeps_into_def item_ok_def\<close>)

lemma history_keeps: "keeps_into (\<lambda>s. list_all item_ok (fst s)) (into_slice zero_item into_item)"
  by (rule keeps_slice [OF item_keeps]) (simp add: item_ok_def zero_item_def)

lemma delivery_keeps: "keeps_into (\<lambda>d. list_all item_ok (fst (cd_history d))) into_delivery"
  unfolding into_delivery_def
proof (rule keeps_struct)
  have h: "keeps_into (\<lambda>d :: clickup_delivery. list_all item_ok (fst (cd_history d)))
    (\<lambda>j d. map_option (\<lambda>h. d\<lparr>cd_history := h\<rparr>) (into_slice zero_item into_item j (cd_history d)))"
    by (rule keeps_field [OF history_keeps]) simp_all
  have t: "keeps_into (\<lambda>d. list_all item_ok (fst (cd_history d))) (\<lambda>j d. map_option (\<lambda>s. upd s d) (into_string j (get d)))"
    if "\<And>s d. cd_history (upd s d) = cd_history d" for upd :: "bytes \<Rightarrow> clickup_delivery \<Rightarrow> clickup_delivery" and get
    using that by (auto simp: keeps_into_def)
  fix f :: "bytes \<times> clickup_delivery into"
  assume "f \<in> set
     [(''event'', \<lambda>j d. map_option (\<lambda>s. d\<lparr>cd_event := s\<rparr>) (into_string j (cd_event d))),
      (''webhook_id'', \<lambda>j d. map_option (\<lambda>s. d\<lparr>cd_webhook := s\<rparr>) (into_string j (cd_webhook d))),
      (''task_id'', \<lambda>j d. map_option (\<lambda>s. d\<lparr>cd_task := s\<rparr>) (into_string j (cd_task d))),
      (''history_items'', \<lambda>j d. map_option (\<lambda>h. d\<lparr>cd_history := h\<rparr>) (into_slice zero_item into_item j (cd_history d)))]"
  then consider "snd f = (\<lambda>j d. map_option (\<lambda>s. d\<lparr>cd_event := s\<rparr>) (into_string j (cd_event d)))"
    | "snd f = (\<lambda>j d. map_option (\<lambda>s. d\<lparr>cd_webhook := s\<rparr>) (into_string j (cd_webhook d)))"
    | "snd f = (\<lambda>j d. map_option (\<lambda>s. d\<lparr>cd_task := s\<rparr>) (into_string j (cd_task d)))"
    | "snd f = (\<lambda>j d. map_option (\<lambda>h. d\<lparr>cd_history := h\<rparr>) (into_slice zero_item into_item j (cd_history d)))"
    by auto
  then show "keeps_into (\<lambda>d. list_all item_ok (fst (cd_history d))) (snd f)"
    by cases (simp_all add: h t)
qed

lemma event_time_bound: "list_all item_ok (elems (cd_history d)) \<Longrightarrow> time_ok (event_time d)"
proof -
  have "list_all item_ok hs \<Longrightarrow> time_ok m \<Longrightarrow>
      time_ok (fold (\<lambda>h n. case hi_date h of None \<Rightarrow> n | Some ms \<Rightarrow> max n ms) hs m)" for hs m
    by (induction hs arbitrary: m) (auto simp: item_ok_def split: option.split)
  then show "list_all item_ok (elems (cd_history d)) \<Longrightarrow> time_ok (event_time d)"
    by (simp add: event_time_def time_ok_def)
qed

lemma parse_delivery_ok:
  assumes "parse_delivery first_value body = Inr (d, ev)"
  shows "time_ok ev" "valid_id (cd_task d)" "handled (cd_event d) = Some SubjectComment \<longrightarrow> valid_id (comment_id d)"
proof -
  obtain j where j: "into_delivery j zero_delivery = Some d" and ev: "ev = event_time d"
    and ids: "valid_id (cd_task d)" "handled (cd_event d) = Some SubjectComment \<longrightarrow> valid_id (comment_id d)"
    using assms by (auto simp: parse_delivery_def decode_body_def bind_res_Inr split: if_splits option.splits)
  have "list_all item_ok (fst (cd_history d))" using keeps_intoD [OF delivery_keeps _ j] by (simp add: zero_delivery_def)
  then show "time_ok ev" unfolding ev by (intro event_time_bound elems_all)
  show "valid_id (cd_task d)" "handled (cd_event d) = Some SubjectComment \<longrightarrow> valid_id (comment_id d)" by (fact ids)+
qed

end
