(* ===== verification/Clickup_Pipeline.thy ===== *)
theory Clickup_Pipeline
  imports Clickup_Facts
begin

text \<open>
  The ClickUp provider under the pipeline: whatever its API answers, the records it builds pass the
  record format, so that a delivery of it is retried or refused for a reason the provider gives and
  never because a record of it does not seal.
\<close>

subsection \<open>What is hydrated\<close>

definition object_ok :: "object \<Rightarrow> bool" where
  "object_ok x \<longleftrightarrow> task_ok (ob_task x) \<and> valid_id (cd_task (ob_delivery x)) \<and> time_ok (ob_at x) \<and>
     pred_option (\<lambda>c. comment_ok c \<and> cc_id c = comment_id (ob_delivery x)) (ob_comment x)"

lemma hydrate_ok:
  assumes "hydrate fv tokens sv t c s = (Inr x, s')"
  shows "object_ok x \<and> external_id (ob_delivery x) = Inr (ch_external_id c)"
proof -
  obtain d ev where p: "parse_delivery fv (ch_payload c) = Inr (d, ev)" "external_id d = Inr (ch_external_id c)"
    using assms by (auto simp: hydrate_def split: if_splits sum.splits)
  then obtain tok tk s1 where tk: "fetch_task sv tok (cd_task d) s = (Inr tk, s1)"
      "(if handled (cd_event d) = Some SubjectComment
        then (case fetch_comment sv tok (cd_task d) (comment_id d) s1 of
                (Inl e, s'') \<Rightarrow> (Inl e, s'')
              | (Inr cm, s'') \<Rightarrow> (Inr \<lparr>ob_task = tk, ob_comment = Some cm, ob_delivery = d, ob_at = ev\<rparr>, s''))
        else (Inr \<lparr>ob_task = tk, ob_comment = None, ob_delivery = d, ob_at = ev\<rparr>, s1)) = (Inr x, s')"
    using assms by (auto simp: hydrate_def split: if_splits sum.splits option.splits prod.splits)
  note ok = parse_delivery_ok [OF p(1)] fetch_task_ok [OF tk(1)]
  show ?thesis
  proof (cases "handled (cd_event d) = Some SubjectComment")
    case True
    then obtain cm s2 where cm: "fetch_comment sv tok (cd_task d) (comment_id d) s1 = (Inr cm, s2)"
      "x = \<lparr>ob_task = tk, ob_comment = Some cm, ob_delivery = d, ob_at = ev\<rparr>"
      using tk(2) by (auto split: prod.splits sum.splits)
    show ?thesis using ok p(2) find_comment_ok [OF cm(1) [unfolded fetch_comment_def]] by (simp add: object_ok_def cm(2))
  next
    case False
    then show ?thesis using ok p(2) tk(2) by (auto simp: object_ok_def)
  qed
qed

subsection \<open>What it becomes\<close>

lemma occurred_ok: "occurred_at ms = Inr t \<Longrightarrow> check_time t = None"
  by (auto simp: occurred_at_def Let_def check_time_def time_of_millis_def split: if_splits prod.splits)

lemma valid_id_e: "valid_id i \<Longrightarrow> length k \<le> 16 \<Longrightarrow> printable k \<Longrightarrow> k \<noteq> [] \<Longrightarrow>
    \<exists>e. clickup_key @ CHR '':'' # k @ i = clickup_key @ CHR '':'' # e \<and> printable e \<and> e \<noteq> [] \<and> length e \<le> 80"
  using valid_id_printable [of i] by (auto simp: valid_id_def)

lemma container_names: "valid_name ''list'' max_kind False" "valid_name ''task'' max_kind False"
  by (simp_all add: valid_name_def is_lower_def)

lemma task_record_ok:
  assumes "task_record x ms = Inr r" "object_ok x" "valid_id (ct_list (ob_task x))" "time_ok ms"
  shows "clickup_shape r \<and> rc_external_id r = clickup_key @ '':task:'' @ cd_task (ob_delivery x) \<and> rc_version r = show_int ms"
proof -
  obtain tm where tm: "occurred_at ms = Inr tm" and r: "r = (let text = (if ct_text_content (ob_task x) = [] then ct_description (ob_task x) else ct_text_content (ob_task x)) in
       \<lparr>rc_format = [], rc_id = [], rc_op = op_upsert, rc_source = [], rc_kind = ''task'',
            rc_external_id = clickup_key @ '':task:'' @ cd_task (ob_delivery x), rc_version = show_int ms, rc_supersedes = [],
            rc_occurred_at = tm, rc_title = clean_title (ct_name (ob_task x)), rc_text = clean_text text,
            rc_author = author_of (ct_creator (ob_task x)),
            rc_container = \<lparr>co_kind = ''list'', co_id = ct_list (ob_task x)\<rparr>,
            rc_visibility = \<lparr>vi_scope = clickup_key @ '':list:'' @ ct_list (ob_task x), vi_audience = ''group''\<rparr>,
            rc_origin = \<lparr>or_automation = False, or_untrusted = False\<rparr>, rc_reply_parent = [], rc_delivery = [],
            rc_sealed = zero_seal, rc_sealed_for = []\<rparr>)"
    using assms(1) by (auto simp: task_record_def bind_res_Inr scope_for_valid [OF assms(3)] Let_def)
  have a: "check_string f (au_id (author_of (ct_creator (ob_task x)))) 0 max_author IdentifierChars = None"
    "check_string f (au_display (author_of (ct_creator (ob_task x)))) 0 max_author DisplayChars = None" for f
    using author_ok [of "ct_creator (ob_task x)" f f] assms(2) by (simp_all add: object_ok_def task_ok_def)
  have e: "\<exists>e. clickup_key @ '':task:'' @ cd_task (ob_delivery x) = clickup_key @ CHR '':'' # e \<and> printable e \<and> e \<noteq> [] \<and> length e \<le> 80"
    using valid_id_e [of "cd_task (ob_delivery x)" "''task:''"] assms(2) by (simp add: object_ok_def printable_def ord_of_def)
  have "clickup_shape r"
    unfolding clickup_shape_def r Let_def
    using e a assms(3,4) container_names occurred_ok [OF tm] cleaned_fields
    by (intro conjI) (auto simp: time_ok_def)
  then show ?thesis by (simp add: r Let_def)
qed

lemma comment_record_ok:
  assumes "comment_record x cm = Inr r" "object_ok x" "valid_id (ct_list (ob_task x))" "comment_ok cm"
  shows "clickup_shape r \<and> rc_external_id r = clickup_key @ '':comment:'' @ cc_id cm"
proof -
  obtain posted tm where tm: "epoch_millis (cc_date cm) = Inr posted" "occurred_at (max posted (ob_at x)) = Inr tm" "valid_id (cc_id cm)"
    and r: "r = \<lparr>rc_format = [], rc_id = [], rc_op = op_upsert, rc_source = [], rc_kind = ''message'',
            rc_external_id = clickup_key @ '':comment:'' @ cc_id cm, rc_version = show_int (max posted (ob_at x)), rc_supersedes = [],
            rc_occurred_at = tm, rc_title = [], rc_text = clean_text (cc_text cm),
            rc_author = author_of (cc_user cm),
            rc_container = \<lparr>co_kind = ''task'', co_id = cd_task (ob_delivery x)\<rparr>,
            rc_visibility = \<lparr>vi_scope = clickup_key @ '':list:'' @ ct_list (ob_task x), vi_audience = ''group''\<rparr>,
            rc_origin = \<lparr>or_automation = False, or_untrusted = False\<rparr>,
            rc_reply_parent = clickup_key @ '':task:'' @ cd_task (ob_delivery x), rc_delivery = [],
            rc_sealed = zero_seal, rc_sealed_for = []\<rparr>"
    using assms(1) by (auto simp: comment_record_def bind_res_Inr scope_for_valid [OF assms(3)] Let_def split: if_splits)
  have a: "check_string f (au_id (author_of (cc_user cm))) 0 max_author IdentifierChars = None"
    "check_string f (au_display (author_of (cc_user cm))) 0 max_author DisplayChars = None" for f
    using author_ok [of "cc_user cm" f f] assms(4) by (simp_all add: comment_ok_def)
  have e: "\<exists>e. clickup_key @ '':task:'' @ cd_task (ob_delivery x) = clickup_key @ CHR '':'' # e \<and> printable e \<and> e \<noteq> [] \<and> length e \<le> 80"
    "\<exists>e. clickup_key @ '':comment:'' @ cc_id cm = clickup_key @ CHR '':'' # e \<and> printable e \<and> e \<noteq> [] \<and> length e \<le> 80"
    using valid_id_e [of "cd_task (ob_delivery x)" "''task:''"] valid_id_e [of "cc_id cm" "''comment:''"] assms(2) tm(3)
    by (simp_all add: object_ok_def printable_def ord_of_def)
  have t: "time_ok (max posted (ob_at x))" using epoch_millis_bound [OF tm(1)] assms(2) by (simp add: object_ok_def)
  have nt: "check_string f [] 0 max_title OneLineChars = None" for f by (rule printable_check) (simp_all add: printable_def)
  have "clickup_shape r"
    unfolding clickup_shape_def r
    using e a nt assms(2,3) t container_names occurred_ok [OF tm(2)] cleaned_fields
    by (intro conjI) (auto simp: time_ok_def object_ok_def)
  then show ?thesis by (simp add: r)
qed

lemma normalize_object_ok:
  assumes "normalize_object x c = Inr rs" "object_ok x"
  shows "list_all clickup_shape rs \<and> rs \<noteq> [] \<and> length rs \<le> 2 \<and> rc_external_id (last rs) = ch_external_id c"
proof -
  obtain updated where n: "external_id (ob_delivery x) = Inr (ch_external_id c)" "valid_id (ct_list (ob_task x))"
      "epoch_millis (ct_date_updated (ob_task x)) = Inr updated"
      "(case handled (cd_event (ob_delivery x)) of
              Some SubjectTask \<Rightarrow> bind_res (task_record x (max updated (ob_at x))) (\<lambda>r. Inr [r])
            | Some SubjectComment \<Rightarrow>
                (case ob_comment x of
                   None \<Rightarrow> Inl (BadObject ''a comment event with no comment'')
                 | Some cm \<Rightarrow>
                     bind_res (task_record x updated) (\<lambda>parent.
                     bind_res (comment_record x cm) (\<lambda>r. Inr [parent, r])))
            | None \<Rightarrow> Inl (BadObject ''the event has no subject'')) = Inr rs"
    using assms(1) by (auto simp: normalize_object_def bind_res_Inr split: sum.splits if_splits)
  have u: "time_ok updated" "time_ok (max updated (ob_at x))"
    using epoch_millis_bound [OF n(3)] assms(2) by (simp_all add: object_ok_def)
  show ?thesis
  proof (cases "handled (cd_event (ob_delivery x))")
    case (Some sb)
    show ?thesis
    proof (cases sb)
      case SubjectTask
      then obtain r where r: "task_record x (max updated (ob_at x)) = Inr r" "rs = [r]"
        using n(4) Some by (auto simp: bind_res_Inr)
      show ?thesis using task_record_ok [OF r(1) assms(2) n(2) u(2)] r(2) n(1) Some SubjectTask by (simp add: external_id_def)
    next
      case SubjectComment
      then obtain cm p r where r: "ob_comment x = Some cm" "task_record x updated = Inr p" "comment_record x cm = Inr r" "rs = [p, r]"
        using n(4) Some by (auto simp: bind_res_Inr split: option.splits)
      have c: "comment_ok cm" "cc_id cm = comment_id (ob_delivery x)" using assms(2) r(1) by (simp_all add: object_ok_def)
      show ?thesis
        using task_record_ok [OF r(2) assms(2) n(2) u(1)] comment_record_ok [OF r(3) assms(2) n(2) c(1)] r(4) c(2) n(1) Some SubjectComment
        by (simp add: external_id_def)
    qed
  qed (use n(4) in simp)
qed

subsection \<open>Through the pipeline\<close>

lemma gate_all:
  assumes "hex_hash h" "valid_tenant t" "check_string ''meta.delivery'' did 0 max_delivery IdentifierChars = None"
  shows "list_all clickup_shape rs \<Longrightarrow>
    \<exists>qs. gate_and_seal h keep clickup_key t did rs n = Inr (n\<lparr>nm_records := nm_records n @ qs\<rparr>) \<and>
      list_all2 (\<lambda>r q. seal_record h (r\<lparr>rc_delivery := did\<rparr>) clickup_key t = Inr q) rs qs"
proof (induction rs arbitrary: n)
  case (Cons r rs)
  then have s: "clickup_shape r" by simp
  then obtain q where q: "seal_record h (r\<lparr>rc_delivery := did\<rparr>) clickup_key t = Inr q"
    using clickup_shape_seals [OF _ assms] by blast
  have "\<not> or_automation (rc_origin r)" using s by (simp add: clickup_shape_def)
  moreover obtain qs where "gate_and_seal h keep clickup_key t did rs (n\<lparr>nm_records := nm_records n @ [q]\<rparr>)
        = Inr (n\<lparr>nm_records := nm_records n @ q # qs\<rparr>)"
      "list_all2 (\<lambda>r q. seal_record h (r\<lparr>rc_delivery := did\<rparr>) clickup_key t = Inr q) rs qs"
    using Cons.IH [of "n\<lparr>nm_records := nm_records n @ [q]\<rparr>"] Cons.prems by auto
  ultimately show ?case using q by auto
qed simp

lemma sealed_like: "seal_record h (r\<lparr>rc_delivery := did\<rparr>) p t = Inr q \<Longrightarrow> clickup_shape r \<Longrightarrow>
    rc_external_id q = rc_external_id r \<and> sealed_for q t \<and> length (rc_external_id q) \<le> max_external_id_bytes \<and> is_decimal (rc_version q)"
proof (erule seal_fields)
  fix i sl
  assume s: "clickup_shape r"
    and q: "q = r\<lparr>rc_delivery := did, rc_format := format_v1, rc_source := p, rc_id := i, rc_sealed := sl, rc_sealed_for := t\<rparr>"
    and v: "valid_tenant t" "rc_sealed q = current_seal q"
  obtain n where n: "rc_version r = show_int n" "0 \<le> n" using s unfolding clickup_shape_def by blast
  obtain e where e: "rc_external_id r = clickup_key @ CHR '':'' # e" "length e \<le> 80" using s unfolding clickup_shape_def by blast
  have "is_decimal (rc_version r)" using n show_nat_nonempty show_nat_digits by (simp add: is_decimal_def show_int_def)
  moreover have "length (rc_external_id r) \<le> 2048" using e by simp
  moreover have "sealed_for q t" using v q by (auto simp: sealed_for_def valid_tenant_def)
  ultimately show ?thesis by (simp add: q)
qed

lemma sealed_all:
  "list_all2 (\<lambda>r q. seal_record h (r\<lparr>rc_delivery := did\<rparr>) p t = Inr q) rs qs \<Longrightarrow> list_all clickup_shape rs \<Longrightarrow>
   check_records t qs = None \<and> list_all (\<lambda>q. is_decimal (rc_version q)) qs \<and> map rc_external_id qs = map rc_external_id rs"
proof (induction rs qs rule: list_all2_induct)
  case (Cons r rs q qs)
  have "rc_external_id q = rc_external_id r \<and> sealed_for q t \<and> length (rc_external_id q) \<le> max_external_id_bytes \<and> is_decimal (rc_version q)"
    by (rule sealed_like [OF Cons.hyps(1)]) (use Cons.prems in simp)
  then have q: "rc_external_id q = rc_external_id r" "sealed_for q t" "\<not> length (rc_external_id q) > max_external_id_bytes" "is_decimal (rc_version q)"
    by auto
  show ?case unfolding check_records.simps using q Cons.IH Cons.prems by simp
qed simp

lemma registered_entry:
  assumes "new_registry ps = Inr reg" "Some p \<in> set ps"
  shows "\<exists>e. reg_lookup reg (pv_key p) = Some e \<and> en_provider e = p \<and> en_key e = pv_key p \<and> en_versions e = pv_versions p"
proof -
  have ok: "reg_ok reg" "map (\<lambda>x. Some (en_provider (snd x))) reg = ps" using new_registry_ok [OF assms(1)] by simp_all
  then obtain k e where x: "(k, e) \<in> set reg" "en_provider e = p" using assms(2) by auto
  then have "entry_ok (k, e)" using ok(1) by (auto simp: reg_ok_def list_all_iff)
  then show ?thesis using x ok(1) by (auto simp: entry_ok_def reg_lookup_def reg_ok_def intro!: map_of_is_SomeI)
qed

definition clickup_fit :: "first_value \<Rightarrow> pdelivery \<Rightarrow> normalized \<Rightarrow> bool" where
  "clickup_fit fv d n \<longleftrightarrow> nm_records n \<noteq> [] \<and> length (nm_records n) \<le> 2 \<and> check_records (dv_tenant d) (nm_records n) = None \<and>
     nm_versions n = OrderDecimal \<and> list_all (\<lambda>q. is_decimal (rc_version q)) (nm_records n) \<and>
     nm_automation n = 0 \<and> nm_degraded n = 0 \<and>
     clickup_parse fv (dv_body d) =
       Inr [\<lparr>ch_external_id = rc_external_id (last (nm_records n)), ch_op = op_upsert, ch_payload = dv_body d\<rparr>]"

text \<open>C3: A ClickUp delivery never dies of a record that does not seal. Whatever the API answers, and
  whatever the body of the delivery holds, \<open>Normalize\<close> gives one record, or the task and the comment,
  that pass the record format and every check \<open>Prepare\<close> makes before it asks the ledger, with versions
  the ledger can order and, last, the record of the entity the delivery was queued for; or it fails for
  a reason the provider or the router gives, and never with a dead letter for the seal.\<close>

theorem clickup_deliveries_seal:
  assumes "new_registry ps = Inr reg" and "Some (clickup_provider fv hmac tokens sv s) \<in> set ps" and "hex_hash h"
    and "dv_provider d = clickup_key" and "check_string ''meta.delivery'' (dv_id d) 0 max_delivery IdentifierChars = None"
  shows "case normalize h keep reg d of Inl f \<Rightarrow> (\<nexists>x. f = DeadLetter (ErrSeal x)) | Inr n \<Rightarrow> clickup_fit fv d n"
proof -
  let ?p = "clickup_provider fv hmac tokens sv s"
  let ?n = "\<lparr>nm_provider = clickup_key, nm_versions = OrderDecimal, nm_records = [], nm_automation = 0, nm_degraded = 0\<rparr>"
  obtain e where e: "reg_lookup reg clickup_key = Some e" "en_provider e = ?p" "en_key e = clickup_key" "en_versions e = OrderDecimal"
    using registered_entry [OF assms(1,2)] by (auto simp: clickup_provider_def)
  have src: "en_source e = Some (clickup_source fv hmac)" by (simp add: en_source_def e(2) clickup_provider_def)
  have step: "normalize h keep reg d = (case map_err clickup_error_text (clickup_parse fv (dv_body d)) of
      Inl x \<Rightarrow> Inl (DeadLetter (ErrParse x))
    | Inr cs \<Rightarrow> normalize_changes h keep e (dv_tenant d) (dv_id d) cs ?n)" if "valid_tenant (dv_tenant d)"
    using that by (simp add: normalize_def parse_tenant_valid assms(4) e src clickup_source_def split: sum.split)
  show ?thesis
  proof (cases "valid_tenant (dv_tenant d)")
    case False
    then have "parse_tenant (dv_tenant d) = Inl ErrInvalidID" by simp
    from this show ?thesis unfolding normalize_def by (simp only: sum.case) simp
  next
    case t: True
    show ?thesis
    proof (cases "clickup_parse fv (dv_body d)")
      case (Inl x)
      then show ?thesis using step [OF t] by simp
    next
      case (Inr cs)
      then obtain c where c: "cs = [c]" "c = \<lparr>ch_external_id = ch_external_id c, ch_op = op_upsert, ch_payload = dv_body d\<rparr>"
        by (auto simp: clickup_parse_def bind_res_Inr)
      show ?thesis
      proof (cases "hydrate_and_normalize ?p (dv_tenant d) c")
        case (Inl f)
        then have "normalize h keep reg d = Inl f" using step [OF t] Inr c(1) e(2) by simp
        then show ?thesis using Inl by (auto simp: hydrate_and_normalize_def clickup_provider_def split: sum.splits)
      next
        case hn: (Inr rd)
        obtain x s' rs where x: "hydrate fv tokens sv (dv_tenant d) c s = (Inr x, s')" "normalize_object x c = Inr rs" "rd = (rs, False)"
          using hn by (cases "hydrate fv tokens sv (dv_tenant d) c s")
            (auto simp: hydrate_and_normalize_def clickup_provider_def map_err_Inr split: sum.splits)
        have ok: "list_all clickup_shape rs \<and> rs \<noteq> [] \<and> length rs \<le> 2 \<and> rc_external_id (last rs) = ch_external_id c"
          by (rule normalize_object_ok [OF x(2) conjunct1 [OF hydrate_ok [OF x(1)]]])
        obtain qs where qs: "gate_and_seal h keep clickup_key (dv_tenant d) (dv_id d) rs ?n = Inr (?n\<lparr>nm_records := [] @ qs\<rparr>)"
          "list_all2 (\<lambda>r q. seal_record h (r\<lparr>rc_delivery := dv_id d\<rparr>) clickup_key (dv_tenant d) = Inr q) rs qs"
          using gate_all [OF assms(3) t assms(5) conjunct1 [OF ok], of keep ?n] by auto
        have n: "normalize h keep reg d = Inr (?n\<lparr>nm_records := qs\<rparr>)"
          using step [OF t] Inr c(1) e(2,3) hn x(3) qs(1) by simp
        have all: "check_records (dv_tenant d) qs = None \<and> list_all (\<lambda>q. is_decimal (rc_version q)) qs \<and> map rc_external_id qs = map rc_external_id rs"
          by (rule sealed_all [OF qs(2) conjunct1 [OF ok]])
        have l: "length qs = length rs" using list_all2_lengthD [OF qs(2)] by simp
        have "rc_external_id (last qs) = last (map rc_external_id rs)" using all ok l by (metis last_map length_0_conv)
        then have "rc_external_id (last qs) = ch_external_id c" using ok by (simp add: last_map)
        then show ?thesis using n all ok l c Inr by (auto simp: clickup_fit_def)
      qed
    qed
  qed
qed

definition ex_first_value :: first_value where
  "ex_first_value b = (if b = ''x'' then Some (JObj [(''event'', JStr ''taskCreated''), (''webhook_id'', JStr ''w1''),
     (''task_id'', JStr ''t1'')], []) else None)"

definition ex_server :: "unit server" where
  "ex_server = \<lparr>sv_clock = (\<lambda>_. 0), sv_serve = (\<lambda>_ _ w. (Reply 200 ''y'' True, w)),
     sv_json = (\<lambda>_. Some (JObj [(''id'', JStr ''t1''), (''name'', JStr ''hi''), (''date_updated'', JStr ''5''),
       (''list'', JObj [(''id'', JStr ''l1'')])]))\<rparr>"

definition ex_client :: client where
  "ex_client = \<lparr>ac_base = ''https://a'', ac_limiter = \<lparr>li_tokens = 1, li_last = 0, li_burst = 1, li_per_token = 1\<rparr>\<rparr>"

definition ex_clickup :: "object provider" where
  "ex_clickup = clickup_provider ex_first_value (\<lambda>_ _. []) (\<lambda>_. Some ''k'') ex_server (ex_client, ())"

definition ex_change :: change where
  "ex_change = \<lparr>ch_external_id = ''clickup:task:t1'', ch_op = op_upsert, ch_payload = ''x''\<rparr>"

definition ex_clickup_delivery :: pdelivery where
  "ex_clickup_delivery = \<lparr>dv_tenant = ''acme'', dv_provider = ''clickup'', dv_id = ''i1'', dv_body = ''x''\<rparr>"

definition ex_object :: object where
  "ex_object = \<lparr>ob_task = zero_task\<lparr>ct_id := ''t1'', ct_name := ''hi'', ct_date_updated := ''5'', ct_list := ''l1''\<rparr>, ob_comment = None,
     ob_delivery = \<lparr>cd_event = ''taskCreated'', cd_webhook = ''w1'', cd_task = ''t1'', cd_history = ([], 0)\<rparr>, ob_at = 0\<rparr>"

lemmas ex_eval = into_struct_def same_name_ascii fold_rune_def ord_of_def into_string_def into_int64_def into_pointer_def into_slice_def

lemma vx: "valid_string ''x''"
  by (rule valid_all_ascii) (simp add: ord_of_def)

lemma ex_parses: "clickup_parse ex_first_value ''x'' = Inr [ex_change]"
  by (simp add: clickup_parse_def parse_delivery_def decode_body_def ex_first_value_def into_delivery_def zero_delivery_def ex_eval vx handled_def handled_events_def valid_id_def is_lower_def is_digit_def external_id_def comment_id_def event_time_def ex_change_def elems_def
    del: valid_string.simps)

lemma ex_hydrates: "fst (hydrate ex_first_value (\<lambda>_. Some ''k'') ex_server ''acme'' ex_change (ex_client, ())) = Inr ex_object"
  by (simp add: hydrate_def parse_tenant_valid valid_acme parse_delivery_def decode_body_def ex_first_value_def into_delivery_def zero_delivery_def
      ex_eval vx handled_def handled_events_def valid_id_def is_lower_def is_digit_def external_id_def comment_id_def event_time_def ex_change_def elems_def
      fetch_task_def api_get_def allow_def refill_def ex_server_def ex_client_def read_reply_def into_task_def zero_task_def ex_object_def
    del: valid_string.simps)

lemma year_of_millis: "t_year (time_of_millis ms) = fst (civil_of_day (ms div day_ms))"
  by (simp add: time_of_millis_def Let_def split: prod.split)

lemma ex_occurred: "occurred_at 5 = Inr (time_of_millis 5)"
proof -
  have "fst (civil_of_day (5 div day_ms)) = 1970" by code_simp
  then show ?thesis by (simp add: occurred_at_def Let_def year_of_millis)
qed

lemma ex_is_normalized: "\<exists>r. normalize_object ex_object ex_change = Inr [r]"
proof -
  have "valid_id ''l1'' \<and> valid_id ''t1''" by (simp add: valid_id_def is_lower_def is_digit_def)
  moreover have "epoch_millis ''5'' = Inr 5"
    by (simp add: epoch_millis_def all_digits_def is_digit_def parse_int64_def decimal_value_def ord_of_def)
  moreover have "handled ''taskCreated'' = Some SubjectTask" by (simp add: handled_def handled_events_def)
  ultimately show ?thesis
    by (simp add: normalize_object_def ex_object_def ex_change_def external_id_def zero_task_def task_record_def scope_for_valid ex_occurred)
qed

definition ex_clickup_reg :: "object registry" where
  "ex_clickup_reg = [(''clickup'', \<lparr>en_key = ''clickup'', en_versions = OrderDecimal, en_provider = ex_clickup\<rparr>)]"

lemma ex_clickup_fields: "pv_key ex_clickup = clickup_key" "pv_versions ex_clickup = OrderDecimal"
  "pv_source ex_clickup = Some (clickup_source ex_first_value (\<lambda>_ _. []))"
  by (simp_all add: ex_clickup_def clickup_provider_def)

lemma ex_clickup_registered: "new_registry [Some ex_clickup] = Inr ex_clickup_reg"
  by (simp add: new_registry_def ex_clickup_fields clickup_valid reg_lookup_def order_valid_def ex_clickup_reg_def Let_def)

lemma ex_clickup_normalizes: "is_ok (normalize toy_hash False ex_clickup_reg ex_clickup_delivery)"
proof -
  obtain r where r: "normalize_object ex_object ex_change = Inr [r]" using ex_is_normalized by blast
  have h: "hydrate_and_normalize ex_clickup ''acme'' ex_change = Inr ([r], False)"
    by (simp add: hydrate_and_normalize_def ex_clickup_def clickup_provider_def ex_hydrates r)
  obtain s' where "hydrate ex_first_value (\<lambda>_. Some ''k'') ex_server ''acme'' ex_change (ex_client, ()) = (Inr ex_object, s')"
    using ex_hydrates by (cases "hydrate ex_first_value (\<lambda>_. Some ''k'') ex_server ''acme'' ex_change (ex_client, ())") simp
  then have s: "list_all clickup_shape [r]" using normalize_object_ok [OF r] hydrate_ok by blast
  have i: "check_string ''meta.delivery'' ''i1'' 0 max_delivery IdentifierChars = None"
    by (rule check_string_ascii) (simp_all add: ord_of_def)
  have g: "is_ok (gate_and_seal toy_hash False clickup_key ''acme'' ''i1'' [r] n)" for n
    using gate_all [OF toy_hash_hex valid_acme i s, of False n] by (auto simp: is_ok_iff)
  show ?thesis
    by (simp add: normalize_def ex_clickup_delivery_def parse_tenant_valid valid_acme reg_lookup_def ex_clickup_reg_def en_source_def
        ex_clickup_fields clickup_source_def ex_parses h del: gate_and_seal.simps)
      (rule bind_ok [OF g], simp)
qed

theorem clickup_deliveries_seal_witness:
  "\<exists>n. normalize toy_hash False ex_clickup_reg ex_clickup_delivery = Inr n \<and> clickup_fit ex_first_value ex_clickup_delivery n"
proof -
  have i: "check_string ''meta.delivery'' (dv_id ex_clickup_delivery) 0 max_delivery IdentifierChars = None"
    unfolding ex_clickup_delivery_def by (simp, rule check_string_ascii) (simp_all add: ord_of_def)
  have "Some ex_clickup \<in> set [Some ex_clickup]" by simp
  from clickup_deliveries_seal [OF ex_clickup_registered [unfolded ex_clickup_def] this [unfolded ex_clickup_def] toy_hash_hex _ i, of False] ex_clickup_normalizes
  show ?thesis by (auto simp: is_ok_iff ex_clickup_delivery_def split: sum.splits)
qed

end
