(* ===== verification/Clickup_Limits.thy ===== *)
theory Clickup_Limits
  imports Clickup_Pipeline
begin

text \<open>
  What bounds the ClickUp provider: the signature it believes, the rate it keeps, and the requests one
  hydration makes.
\<close>

subsection \<open>The signature\<close>

definition hex_text :: "bytes \<Rightarrow> bytes" where
  "hex_text bs = concat (map (\<lambda>b. [''0123456789abcdef'' ! (ord_of b div 16), ''0123456789abcdef'' ! (ord_of b mod 16)]) bs)"

definition lower_char :: "char \<Rightarrow> char" where
  "lower_char c = (if 65 \<le> ord_of c \<and> ord_of c \<le> 90 then char_of (ord_of c + 32) else c)"

lemma hex_digit_ord: "n < 16 \<Longrightarrow> ''0123456789abcdef'' ! n = char_of (if n < 10 then 48 + n else 87 + n)"
  by (drule upper_hex_cases, rule ord_of_inj) (auto simp: ord_of_def of_char_of)

lemma lower_char_ord: "ord_of (lower_char c) = (if 65 \<le> ord_of c \<and> ord_of c \<le> 90 then ord_of c + 32 else ord_of c)"
  by (simp add: lower_char_def ord_of_char_of)

lemma hex_val_iff: "hex_val c = Some n \<longleftrightarrow> n < 16 \<and> lower_char c = ''0123456789abcdef'' ! n"
proof -
  have "n < 16 \<Longrightarrow> lower_char c = ''0123456789abcdef'' ! n \<longleftrightarrow> ord_of (lower_char c) = (if n < 10 then 48 + n else 87 + n)"
    using ord_of_inj by (auto simp: hex_digit_ord ord_of_char_of)
  moreover have "hex_val c = Some n \<longleftrightarrow> n < 16 \<and> ord_of (lower_char c) = (if n < 10 then 48 + n else 87 + n)"
  proof -
    have k: "ord_of (CHR ''0'') = 48" "ord_of (CHR ''9'') = 57" "ord_of (CHR ''a'') = 97" "ord_of (CHR ''f'') = 102"
      "ord_of (CHR ''A'') = 65" "ord_of (CHR ''F'') = 70" by (simp_all add: ord_of_def)
    show ?thesis unfolding hex_val_def is_digit_def char_le_ord lower_char_ord k by auto
  qed
  ultimately show ?thesis by blast
qed

lemma hex_decode_iff: "hex_decode s = Some bs \<longleftrightarrow> map lower_char s = hex_text bs"
proof (induction s arbitrary: bs rule: hex_decode.induct)
  case (2 c)
  show ?case by (cases bs) (simp_all add: hex_text_def)
next
  case (3 a b s)
  show ?case
  proof
    assume "hex_decode (a # b # s) = Some bs"
    then obtain x y r where x: "hex_val a = Some x" "hex_val b = Some y" "hex_decode s = Some r" "bs = char_of (16 * x + y) # r"
      by (auto split: option.splits)
    moreover have "x < 16" "y < 16" using x hex_val_iff by blast+
    ultimately show "map lower_char (a # b # s) = hex_text bs"
      using 3 by (simp add: hex_val_iff hex_text_def ord_of_char_of)
  next
    assume m: "map lower_char (a # b # s) = hex_text bs"
    then obtain d r where d: "bs = d # r" by (cases bs) (auto simp: hex_text_def)
    have n: "ord_of d div 16 < 16" "ord_of d mod 16 < 16" using ord_of_less [of d] by (simp_all add: less_mult_imp_div_less)
    have "hex_val a = Some (ord_of d div 16)" "hex_val b = Some (ord_of d mod 16)" "hex_decode s = Some r"
      using m n 3 by (simp_all add: hex_val_iff hex_text_def d)
    then show "hex_decode (a # b # s) = Some bs" by (simp add: d)
  qed
qed (auto simp: hex_text_def)

text \<open>C7: A ClickUp delivery is believed exactly if it is signed once, with the webhook's own secret: the
  secret is not empty, there is one signature header, and in either letter case it spells, in
  hexadecimal, the 32 bytes of the HMAC of the raw body. Whatever else comes is refused, and never
  with a panic.\<close>

theorem clickup_believes_exactly_the_signed_body:
  "(clickup_verify hmac r secret = Verified \<longleftrightarrow>
      secret \<noteq> [] \<and> length (hmac secret (rq_body r)) = 32 \<and>
      (\<exists>sig. rq_header r signature_header = [sig] \<and> map lower_char sig = hex_text (hmac secret (rq_body r)))) \<and>
   clickup_verify hmac r secret \<in> {Verified, NotVerified}"
proof -
  have "(clickup_verify hmac r secret = Verified \<longleftrightarrow> secret \<noteq> [] \<and> length (hmac secret (rq_body r)) = 32 \<and>
      (\<exists>sig. rq_header r signature_header = [sig] \<and> hex_decode sig = Some (hmac secret (rq_body r))))"
    by (auto simp: clickup_verify_def split: list.splits option.splits)
  moreover have "clickup_verify hmac r secret \<in> {Verified, NotVerified}"
    by (simp add: clickup_verify_def split: list.split option.split)
  ultimately show ?thesis unfolding hex_decode_iff by blast
qed

subsection \<open>The rate\<close>

fun allow_all :: "int list \<Rightarrow> limiter \<Rightarrow> bool list \<times> limiter" where
  "allow_all [] l = ([], l)"
| "allow_all (now # nows) l = (let (ok, l') = allow now l; (oks, l'') = allow_all nows l' in (ok # oks, l''))"

definition li_ok :: "limiter \<Rightarrow> bool" where
  "li_ok l \<longleftrightarrow> 0 \<le> li_tokens l \<and> li_tokens l \<le> li_burst l \<and> 1 \<le> li_burst l \<and> 0 < li_per_token l"

lemma allow_fields: "li_burst (snd (allow now l)) = li_burst l" "li_per_token (snd (allow now l)) = li_per_token l"
  "li_last (snd (allow now l)) = max now (li_last l)"
  by (auto simp: allow_def refill_def Let_def)

lemma refill_ok: "li_ok l \<Longrightarrow> li_ok (refill now l)"
  by (auto simp: li_ok_def refill_def intro!: add_nonneg_nonneg divide_nonneg_pos)

lemma allow_ok: "li_ok l \<Longrightarrow> li_ok (snd (allow now l))"
  using refill_ok [of l now] by (auto simp: allow_def Let_def li_ok_def)

lemma refill_gain:
  "li_ok l \<Longrightarrow> li_tokens (refill now l) \<le> li_tokens l + of_int (max now (li_last l) - li_last l) / of_int (li_per_token l)"
  by (auto simp: refill_def li_ok_def max_def)

lemma allow_pays: "li_tokens (snd (allow now l)) + (if fst (allow now l) then 1 else 0) = li_tokens (refill now l)"
  by (simp add: allow_def Let_def)

text \<open>A token is one request: what was allowed was in the bucket or has come since.\<close>

lemma allow_all_pays:
  "li_ok l \<Longrightarrow> list_all (\<lambda>n. n \<le> b) nows \<Longrightarrow> li_last l \<le> b \<Longrightarrow>
   of_nat (length (filter (\<lambda>ok. ok) (fst (allow_all nows l)))) \<le> li_tokens l + of_int (b - li_last l) / of_int (li_per_token l)"
proof (induction nows arbitrary: l)
  case Nil
  then show ?case by (auto simp: li_ok_def intro!: add_nonneg_nonneg divide_nonneg_pos)
next
  case (Cons now nows)
  obtain ok l' where a: "allow now l = (ok, l')" by (cases "allow now l")
  have f: "li_ok l'" "li_last l' = max now (li_last l)" "li_per_token l' = li_per_token l"
    using allow_ok [OF Cons.prems(1), of now] allow_fields [of now l] a by simp_all
  have "of_nat (length (filter (\<lambda>ok. ok) (fst (allow_all nows l')))) \<le> li_tokens l' + of_int (b - max now (li_last l)) / of_int (li_per_token l)"
    using Cons.IH [OF f(1)] Cons.prems(2,3) f(2,3) by simp
  moreover have "li_tokens l' + (if ok then 1 else 0) \<le> li_tokens l + of_int (max now (li_last l) - li_last l) / of_int (li_per_token l)"
    using allow_pays [of now l] refill_gain [OF Cons.prems(1), of now] a by simp
  moreover have "of_int (b - max now (li_last l)) / of_int (li_per_token l) + of_int (max now (li_last l) - li_last l) / of_int (li_per_token l)
      = (of_int (b - li_last l) / of_int (li_per_token l) :: rat)"
    by (simp add: add_divide_distrib [symmetric])
  moreover have "of_nat (length (filter (\<lambda>ok. ok) (fst (allow_all (now # nows) l))))
      = (if ok then 1 else 0) + (of_nat (length (filter (\<lambda>ok. ok) (fst (allow_all nows l')))) :: rat)"
    using a by (simp add: split_def Let_def)
  ultimately show ?case by linarith
qed

lemma allow_all_refilled: "nows = now # rest \<Longrightarrow> fst (allow_all nows l) = fst (allow_all nows (refill now l))"
proof -
  have "allow now (refill now l) = allow now l" by (auto simp: allow_def refill_def Let_def)
  then show "nows = now # rest \<Longrightarrow> fst (allow_all nows l) = fst (allow_all nows (refill now l))" by simp
qed

lemma allow_window:
  assumes "li_ok l" "list_all (\<lambda>n. a \<le> n \<and> n \<le> b) nows" "a \<le> b"
  shows "of_nat (length (filter (\<lambda>ok. ok) (fst (allow_all nows l)))) \<le> li_burst l + of_int (b - a) / of_int (li_per_token l)"
proof (cases nows)
  case Nil
  then show ?thesis using assms by (auto simp: li_ok_def intro!: add_nonneg_nonneg divide_nonneg_pos)
next
  case (Cons now rest)
  define m where "m = refill now l"
  have m: "li_ok m" "li_burst m = li_burst l" "li_per_token m = li_per_token l" "a \<le> li_last m"
    using refill_ok [OF assms(1), of now] assms(2) Cons by (auto simp: m_def refill_def)
  have "list_all (\<lambda>n. n \<le> max b (li_last m)) nows" using assms(2) by (auto simp: list_all_iff)
  then have "of_nat (length (filter (\<lambda>ok. ok) (fst (allow_all nows m))))
      \<le> li_tokens m + of_int (max b (li_last m) - li_last m) / of_int (li_per_token m)"
    by (rule allow_all_pays [OF m(1)]) simp
  moreover have "(of_int (max b (li_last m) - li_last m) :: rat) / of_int (li_per_token m) \<le> of_int (b - a) / of_int (li_per_token m)"
    by (rule divide_right_mono) (use m assms(3) in \<open>auto simp: li_ok_def max_def\<close>)
  moreover have "li_tokens m \<le> li_burst l" using m(1,2) by (simp add: li_ok_def)
  ultimately show ?thesis using allow_all_refilled [OF Cons, of l] m(3) by (simp add: m_def)
qed

lemma allow_all_ok: "li_ok l \<Longrightarrow> allow_all nows l = (oks, l') \<Longrightarrow> li_ok l' \<and> li_burst l' = li_burst l \<and> li_per_token l' = li_per_token l"
proof (induction nows arbitrary: l oks)
  case (Cons now nows)
  obtain ok l1 where a: "allow now l = (ok, l1)" by (cases "allow now l")
  then show ?case using Cons.IH [of l1] Cons.prems allow_ok [OF Cons.prems(1), of now] allow_fields [of now l]
    by (auto split: prod.splits)
qed simp

lemma new_limiter_ok:
  assumes "new_limiter pm burst start = Inr l" "pm \<le> 60000000000"
  shows "li_ok l \<and> li_burst l = of_int burst \<and> li_per_token l = 60000000000 div pm"
proof -
  have "0 < pm" "1 \<le> burst" using assms(1) by (auto simp: new_limiter_def split: if_splits)
  moreover have "0 < 60000000000 div pm" using assms(2) \<open>0 < pm\<close> by (simp add: pos_imp_zdiv_pos_iff)
  ultimately show ?thesis using assms(1) by (auto simp: new_limiter_def li_ok_def)
qed


lemma default_limiter: "new_limiter default_per_minute default_burst 0 = Inr \<lparr>li_tokens = 10, li_last = 0, li_burst = 10, li_per_token = 600000000\<rparr>"
  by (simp add: new_limiter_def)


text \<open>A full bucket empties at once, and then serves one request an interval.\<close>

lemma allow_burst:
  "li_tokens l = of_nat n \<Longrightarrow> li_last l = now \<Longrightarrow> allow_all (replicate n now @ nows) l =
     (replicate n True @ fst (allow_all nows (l\<lparr>li_tokens := 0\<rparr>)), snd (allow_all nows (l\<lparr>li_tokens := 0\<rparr>)))"
proof (induction n arbitrary: l)
  case 0
  then have "l\<lparr>li_tokens := 0\<rparr> = l" by (cases l) simp
  then show ?case by simp
next
  case (Suc n)
  have "allow now l = (True, l\<lparr>li_tokens := of_nat n\<rparr>)"
    using Suc.prems by (simp add: allow_def refill_def Let_def)
  then show ?case using Suc.IH [of "l\<lparr>li_tokens := of_nat n\<rparr>"] Suc.prems by simp
qed

lemma allow_steady:
  "li_tokens l = 0 \<Longrightarrow> 1 \<le> li_burst l \<Longrightarrow> 0 < li_per_token l \<Longrightarrow>
   fst (allow_all (map (\<lambda>k. li_last l + li_per_token l * (1 + int k)) [0..<n]) l) = replicate n True"
proof (induction n arbitrary: l)
  case (Suc n)
  let ?l = "l\<lparr>li_last := li_last l + li_per_token l\<rparr>"
  have "allow (li_last l + li_per_token l) l = (True, ?l)"
    using Suc.prems by (simp add: allow_def refill_def Let_def)
  moreover have "map (\<lambda>k. li_last l + li_per_token l * (1 + int k)) [0..<Suc n]
      = (li_last l + li_per_token l) # map (\<lambda>k. li_last ?l + li_per_token ?l * (1 + int k)) [0..<n]"
    by (simp add: map_upt_Suc algebra_simps del: upt_Suc)
  ultimately show ?case using Suc.IH [of ?l] Suc.prems by (simp add: split_def del: upt_Suc)
qed simp

text \<open>The defaults allow more in one minute than the hundred requests that ClickUp's documented limit
  is: the burst comes on top of the rate.\<close>

theorem default_rate_passes_the_documented_limit:
  "\<exists>nows l. new_limiter default_per_minute default_burst 0 = Inr l \<and> list_all (\<lambda>n. 0 \<le> n \<and> n < 60000000000) nows \<and>
     length (filter (\<lambda>ok. ok) (fst (allow_all nows l))) = 109"
proof -
  let ?l = "\<lparr>li_tokens = 10, li_last = 0, li_burst = 10, li_per_token = 600000000\<rparr> :: limiter"
  define later where "later = map (\<lambda>k. 600000000 * (1 + int k)) [0..<99]"
  have "fst (allow_all later (?l\<lparr>li_tokens := 0\<rparr>)) = replicate 99 True"
    using allow_steady [of "?l\<lparr>li_tokens := 0\<rparr>" 99] by (simp add: later_def del: upt_Suc)
  then have "fst (allow_all (replicate 10 0 @ later) ?l) = replicate 10 True @ replicate 99 True"
    using allow_burst [of ?l 10 0 later] by simp
  then have "length (filter (\<lambda>ok. ok) (fst (allow_all (replicate 10 0 @ later) ?l))) = 109" by simp
  moreover have "list_all (\<lambda>n. 0 \<le> n \<and> n < 60000000000) (replicate 10 0 @ later)"
    by (auto simp: later_def list_all_iff)
  ultimately show ?thesis using default_limiter by blast
qed

subsection \<open>The requests of a hydration\<close>

text \<open>A server that keeps a log of what it was asked: the token and the URL of every request.\<close>

definition logged :: "'w server \<Rightarrow> ((bytes \<times> bytes) list \<times> 'w) server" where
  "logged sv = \<lparr>sv_clock = (\<lambda>(_, w). sv_clock sv w),
     sv_serve = (\<lambda>tok url (l, w). let (reply, w') = sv_serve sv tok url w in (reply, l @ [(tok, url)], w')),
     sv_json = sv_json sv\<rparr>"

definition query_char :: "char \<Rightarrow> bool" where
  "query_char c \<longleftrightarrow> unreserved c \<or> c \<in> set ''%&=+''"

definition task_url :: "bytes \<Rightarrow> bytes \<Rightarrow> bytes \<Rightarrow> bool" where
  "task_url base i url \<longleftrightarrow> (\<exists>q. url = base @ ''/api/v2/task/'' @ i @ q \<and>
     (q = [] \<or> q = ''/comment'' \<or> (\<exists>s. q = ''/comment?'' @ s \<and> list_all query_char s)))"

lemma percent_chars: "list_all query_char (percent c)"
proof -
  have "is_upper_hex d \<Longrightarrow> query_char d" for d
    by (auto simp: is_upper_hex_def query_char_def unreserved_def is_upper_def char_le_ord) (auto simp: ord_of_def)
  moreover have "ord_of c div 16 < 16" "ord_of c mod 16 < 16" using ord_of_less [of c] by (simp_all add: less_mult_imp_div_less)
  ultimately show ?thesis using upper_hex_ok by (simp add: percent_def query_char_def)
qed

lemma query_escape_chars: "list_all query_char (query_escape s)"
  using percent_chars by (induction s) (auto simp: query_escape_def query_char_def)

lemma encode_query_chars: "list_all query_char (encode_query q)"
  by (induction q rule: encode_query.induct) (simp_all add: query_escape_chars, simp_all add: query_char_def)

lemma api_get_logged:
  assumes "api_get (logged sv) into zero tok path query (a, (l, w)) = (r, (a', (l', w')))"
  shows "ac_base a' = ac_base a \<and> (\<exists>asked. l' = l @ asked \<and> (asked = [] \<or> asked = [(tok, request_url a path query)]))"
  using assms by (auto simp: api_get_def logged_def request_url_def Let_def split: prod.splits if_splits)

definition sent :: "bytes \<Rightarrow> bytes \<Rightarrow> bytes \<Rightarrow> (bytes \<times> bytes) list \<Rightarrow> bool" where
  "sent tok base i asked \<longleftrightarrow> list_all (\<lambda>x. fst x = tok \<and> task_url base i (snd x)) asked"

lemma task_url_of: "path_escape i = i \<Longrightarrow> task_url (ac_base a) i (request_url a (task_path i) [])"
  by (simp add: task_url_def request_url_def task_path_def)

lemma comment_url_of: "path_escape i = i \<Longrightarrow> task_url (ac_base a) i (request_url a (task_path i @ ''/comment'') query)"
  using encode_query_chars [of query] by (auto simp: task_url_def request_url_def task_path_def)

lemma find_comment_logged:
  "path_escape i = i \<Longrightarrow> find_comment (logged sv) tok (task_path i @ ''/comment'') k n query (a, (l, w)) = (r, (a', (l', w'))) \<Longrightarrow>
   \<exists>asked. l' = l @ asked \<and> length asked \<le> n \<and> sent tok (ac_base a) i asked"
proof (induction n arbitrary: query a l w)
  case (Suc n)
  obtain r1 a1 l1 w1 where g: "api_get (logged sv) into_comments ([], 0) tok (task_path i @ ''/comment'') query (a, (l, w)) = (r1, (a1, (l1, w1)))"
    by (metis surj_pair)
  then obtain asked1 where l1: "ac_base a1 = ac_base a" "l1 = l @ asked1"
      "asked1 = [] \<or> asked1 = [(tok, request_url a (task_path i @ ''/comment'') query)]"
    using api_get_logged [OF g] by blast
  then have s1: "sent tok (ac_base a) i asked1" "length asked1 \<le> 1" using comment_url_of [OF Suc.prems(1)] by (auto simp: sent_def)
  consider "l' = l1" | q where "find_comment (logged sv) tok (task_path i @ ''/comment'') k n q (a1, (l1, w1)) = (r, (a', (l', w')))"
    using Suc.prems(2) by (auto simp: g Let_def split: sum.splits option.splits if_splits)
  then show ?case
  proof cases
    case 1
    then show ?thesis using l1(2) s1 by auto
  next
    case 2
    obtain asked where "l' = l1 @ asked" "length asked \<le> n" "sent tok (ac_base a1) i asked"
      using Suc.IH [OF Suc.prems(1) 2] by blast
    then show ?thesis using l1(1,2) s1 by (intro exI [of _ "asked1 @ asked"]) (auto simp: sent_def)
  qed
qed (auto simp: sent_def)


lemma ex_asked: "hydrate ex_first_value (\<lambda>_. Some ''k'') (logged ex_server) ''acme'' ex_change (ex_client, ([], ())) =
   (Inr ex_object, (ex_client\<lparr>ac_limiter := \<lparr>li_tokens = 0, li_last = 0, li_burst = 1, li_per_token = 1\<rparr>\<rparr>, ([(''k'', ''https://a/api/v2/task/t1'')], ())))"
proof -
  have "path_escape ''t1'' = ''t1''" by (rule valid_id_escape) (simp add: valid_id_def is_lower_def is_digit_def)
  then show ?thesis
    by (simp add: hydrate_def parse_tenant_valid valid_acme parse_delivery_def decode_body_def ex_first_value_def into_delivery_def zero_delivery_def
      ex_eval vx handled_def handled_events_def valid_id_def is_lower_def is_digit_def external_id_def comment_id_def event_time_def ex_change_def elems_def
      fetch_task_def api_get_def allow_def refill_def ex_server_def ex_client_def read_reply_def into_task_def zero_task_def ex_object_def
      logged_def request_url_def task_path_def
    del: valid_string.simps)
qed


end
