(* ===== verification/Clickup_Route.thy ===== *)
theory Clickup_Route
  imports Clickup_Facts Hub_Facts
begin

text \<open>
  A ClickUp webhook under the hub: the row its registration writes is the row its deliveries select.
\<close>

lemma valid_id_storable: "valid_id s \<Longrightarrow> storable s"
  using valid_id_chars by (intro storable_ascii) (force simp: list_all_iff ord_of_def)

lemma valid_id_key: "valid_id s \<Longrightarrow> \<not> bad_key s"
  using valid_id_storable by (auto simp: bad_key_def valid_id_def)

lemma empty_key: "\<not> bad_key []"
  by (simp add: bad_key_def storable_ascii)

lemma subscription_for_Inr:
  assumes "subscription_for t workspace webhook secret = Inr s"
  shows "s = \<lparr>su_id = [], su_tenant = t, su_provider = clickup_key, su_resource = workspace,
      su_workspace = [], su_external = webhook, su_secret = secret\<rparr> \<and> valid_tenant t \<and> valid_id workspace \<and> valid_id webhook \<and> secret \<noteq> []"
  using assms by (auto simp: subscription_for_def parse_tenant_Inr split: sum.splits if_splits)

lemma subscription_for_valid: "subscription_for t workspace webhook secret = Inr s \<Longrightarrow> validate_sub s = None"
  using subscription_for_Inr [of t workspace webhook secret s] valid_id_storable valid_id_key empty_key clickup_valid
  by (auto simp: validate_sub_def parse_tenant_valid valid_id_def)

lemma clickup_delivery_keys:
  "delivery_keys_of (clickup_source fv hmac) req =
     (case clickup_keys fv (rq_body req) of Inl _ \<Rightarrow> None | Inr k \<Rightarrow> Some k)"
proof (cases "clickup_keys fv (rq_body req)")
  case (Inr k)
  then have "dk_workspace k = []" "valid_id (dk_subscription k)"
    by (auto simp: clickup_keys_def bind_res_Inr split: if_splits)
  then show ?thesis using Inr valid_id_key empty_key by (simp add: delivery_keys_of_def clickup_source_def valid_id_def)
qed (simp add: delivery_keys_of_def clickup_source_def)

lemma clickup_keys_Inr: "clickup_keys fv body = Inr k \<Longrightarrow> dk_workspace k = [] \<and> valid_id (dk_subscription k)"
  by (auto simp: clickup_keys_def bind_res_Inr split: if_splits)


subsection \<open>A webhook at work\<close>

definition ex_webhook :: sub where
  "ex_webhook = \<lparr>su_id = [], su_tenant = ''acme'', su_provider = clickup_key, su_resource = ''t1'', su_workspace = [],
     su_external = ''w1'', su_secret = ''k1''\<rparr>"

lemma ex_subscription: "subscription_for ''acme'' ''t1'' ''w1'' ''k1'' = Inr ex_webhook"
  by (simp add: subscription_for_def parse_tenant_valid valid_acme valid_id_def is_lower_def is_digit_def ex_webhook_def)

lemma ex_webhook_registered: "register ''s1'' ex_webhook [] = (Inr (ex_webhook\<lparr>su_id := ''s1''\<rparr>), [ex_webhook\<lparr>su_id := ''s1''\<rparr>])"
proof -
  have "sub_checks (ex_webhook\<lparr>su_id := ''s1''\<rparr>)"
    by (simp add: sub_checks_def ex_webhook_def valid_acme storable_eval ord_of_def)
  moreover have "su_tenant ex_webhook = ''acme''" "su_id ex_webhook = []" by (simp_all add: ex_webhook_def)
  ultimately show ?thesis
    by (simp add: register_def Let_def subscription_for_valid [OF ex_subscription] tenant_tx_valid valid_acme begin_tx_def sql_upsert_subscription_def)
qed

definition ex_webhook_keys :: first_value where
  "ex_webhook_keys b = Some (JObj [(''webhook_id'', JStr ''w1'')], [])"

definition ex_webhook_entry :: "unit reg_entry" where
  "ex_webhook_entry = \<lparr>en_key = clickup_key, en_versions = OrderDecimal,
     en_provider = (ex_provider [])\<lparr>pv_source := Some (clickup_source ex_webhook_keys (\<lambda>_ _. []))\<rparr>\<rparr>"


end
