(* ===== verification/Vault.thy ===== *)
theory Vault
  imports Json_Struct Trim Tenancy "HOL-Library.List_Lexorder" "HOL-Library.Char_ord"
begin

text \<open>
  internal/vault/vault.go, envelope.go and local.go: a credential, the envelope it is sealed in, and
  the vault that keeps envelopes in the table \<open>vault_credentials\<close> (migration 00007). AES-256-GCM and
  SHA-256 are parameters, the nonce of a seal is an argument, and so are the writer and the reader of
  JSON text. Of the columns the two times are left out. A Go map from strings is the list of its
  members in the order of their names.
\<close>

subsection \<open>Credentials\<close>

datatype vault_error =
    VaultNotFound | InvalidCredential | InvalidArgument | NoField bytes | Unsupported | Unavailable
  | NotSealed | WrongKey | NotDecrypted | NoMasterKey | VaultConfig bytes | VaultTx tenancy_error | VaultDb

abbreviation max_fields :: nat where "max_fields \<equiv> 16"

abbreviation max_field_name_len :: nat where "max_field_name_len \<equiv> 32"

abbreviation max_value_len :: nat where "max_value_len \<equiv> 8192"

type_synonym credential = "(bytes \<times> bytes) list"

definition valid_field_name :: "bytes \<Rightarrow> bool" where
  "valid_field_name name \<longleftrightarrow>
     (case name of [] \<Rightarrow> False
      | c # cs \<Rightarrow> length name \<le> max_field_name_len \<and> is_lower c \<and>
          list_all (\<lambda>x. is_lower x \<or> is_digit x \<or> x = CHR ''_'') cs)"

definition valid_value :: "bytes \<Rightarrow> bool" where
  "valid_value v \<longleftrightarrow> trim_space v \<noteq> [] \<and> v = trim_space v \<and> length v \<le> max_value_len \<and> valid_string v \<and> nul \<notin> set v"

definition new_credential :: "(bytes \<times> bytes) list \<Rightarrow> vault_error + credential" where
  "new_credential fs =
     (if fs = [] \<or> length fs > max_fields then Inl InvalidCredential
      else if list_all (\<lambda>(name, v). valid_field_name name \<and> valid_value v) fs then Inr fs
      else Inl InvalidCredential)"

definition credential_field :: "credential \<Rightarrow> bytes \<Rightarrow> vault_error + bytes" where
  "credential_field c name = (case map_of c name of Some v \<Rightarrow> Inr v | None \<Rightarrow> Inl (NoField name))"

definition credential_names :: "credential \<Rightarrow> bytes list" where
  "credential_names c = map fst c"

definition credential_is_zero :: "credential \<Rightarrow> bool" where
  "credential_is_zero c \<longleftrightarrow> c = []"

fun join_with :: "bytes \<Rightarrow> bytes list \<Rightarrow> bytes" where
  "join_with s [] = []"
| "join_with s [x] = x"
| "join_with s (x # xs) = x @ s @ join_with s xs"

definition credential_string :: "credential \<Rightarrow> bytes" where
  "credential_string c =
     (if credential_is_zero c then ''vault.Credential{}''
      else ''vault.Credential{'' @ join_with '' '' (map (\<lambda>n. n @ '':[redacted]'') (credential_names c)) @ ''}'')"

definition credential_log_value :: "credential \<Rightarrow> int \<times> bytes" where
  "credential_log_value c = (int (length c), join_with '','' (credential_names c))"

definition check_args :: "bytes \<Rightarrow> bytes \<Rightarrow> vault_error option" where
  "check_args t p =
     (if \<not> is_ok (parse_tenant t) then Some InvalidArgument
      else if t = sentinel then Some InvalidArgument
      else if \<not> valid_provider_key p then Some InvalidArgument
      else None)"

subsection \<open>The envelope\<close>

abbreviation format_v1 :: char where "format_v1 \<equiv> CHR 0x01"

abbreviation key_id_len :: nat where "key_id_len \<equiv> 8"

abbreviation header_len :: nat where "header_len \<equiv> 1 + key_id_len"

abbreviation gcm_overhead :: nat where "gcm_overhead \<equiv> 28"

abbreviation min_envelope_len :: nat where "min_envelope_len \<equiv> header_len + gcm_overhead"

abbreviation max_envelope_len :: nat where "max_envelope_len \<equiv> 1048576"

definition key_id_of :: "(bytes \<Rightarrow> bytes) \<Rightarrow> bytes \<Rightarrow> bytes" where
  "key_id_of sha key = take key_id_len (sha (''lawang vault key id v1'' @ [CHR 0x1F] @ key))"

definition aad :: "bytes \<Rightarrow> bytes \<Rightarrow> bytes \<Rightarrow> bytes" where
  "aad t p header = ''lawang.vault.v1'' @ [CHR 0x1F] @ t @ [CHR 0x1F] @ p @ [CHR 0x1F] @ header"

text \<open>AES-256-GCM under one key: a nonce, a plaintext and the authenticated data give a box, which
  begins with the nonce.\<close>

record aead =
  ae_seal :: "bytes \<Rightarrow> bytes \<Rightarrow> bytes \<Rightarrow> bytes"
  ae_open :: "bytes \<Rightarrow> bytes \<Rightarrow> bytes option"

record sealer =
  sl_aead :: aead
  sl_key_id :: bytes

abbreviation master_key_len :: nat where "master_key_len \<equiv> 32"

definition new_sealer :: "(bytes \<Rightarrow> aead) \<Rightarrow> (bytes \<Rightarrow> bytes) \<Rightarrow> bytes \<Rightarrow> vault_error + sealer" where
  "new_sealer gcm sha key =
     (if key = [] then Inl NoMasterKey
      else if length key \<noteq> master_key_len then Inl NoMasterKey
      else if key = replicate master_key_len nul then Inl NoMasterKey
      else Inr \<lparr>sl_aead = gcm key, sl_key_id = key_id_of sha key\<rparr>)"

definition seal_envelope :: "sealer \<Rightarrow> bytes \<Rightarrow> bytes \<Rightarrow> bytes \<Rightarrow> bytes \<Rightarrow> bytes" where
  "seal_envelope sl nonce t p plaintext =
     (let header = format_v1 # sl_key_id sl in header @ ae_seal (sl_aead sl) nonce plaintext (aad t p header))"

definition open_envelope :: "sealer \<Rightarrow> bytes \<Rightarrow> bytes \<Rightarrow> bytes \<Rightarrow> vault_error + bytes" where
  "open_envelope sl t p env =
     (if length env > max_envelope_len then Inl NotSealed
      else if length env < min_envelope_len then Inl NotSealed
      else if hd env \<noteq> format_v1 then Inl NotSealed
      else
        let header = take header_len env in
        if tl header \<noteq> sl_key_id sl then Inl WrongKey
        else case ae_open (sl_aead sl) (drop header_len env) (aad t p header) of
          None \<Rightarrow> Inl NotDecrypted
        | Some plaintext \<Rightarrow> Inr plaintext)"

subsection \<open>What is sealed\<close>

definition credential_tree :: "credential \<Rightarrow> json" where
  "credential_tree c = JObj [(''format'', JNum ''1''), (''fields'', JObj (map (\<lambda>(n, v). (n, JStr v)) c))]"

definition encode_credential :: "(json \<Rightarrow> bytes) \<Rightarrow> credential \<Rightarrow> vault_error + bytes" where
  "encode_credential render c = (if credential_is_zero c then Inl InvalidCredential else Inr (render (credential_tree c)))"

text \<open>\<open>encoding/json\<close> with unknown members refused, and into a map of strings: each value is decoded into
  an empty string, so \<open>null\<close> gives that, and a name that comes again replaces the value.\<close>

fun fill_strict :: "(bytes \<times> 'a into) list \<Rightarrow> (bytes \<times> json) list \<Rightarrow> 'a \<Rightarrow> 'a option" where
  "fill_strict shape [] v = Some v"
| "fill_strict shape ((k, j) # ms) v =
     (case find (\<lambda>f. same_name (fst f) k) shape of
        None \<Rightarrow> None
      | Some f \<Rightarrow> (case snd f j v of None \<Rightarrow> None | Some v' \<Rightarrow> fill_strict shape ms v'))"

definition into_strict :: "(bytes \<times> 'a into) list \<Rightarrow> 'a into" where
  "into_strict shape j v = (case j of JObj ms \<Rightarrow> fill_strict shape ms v | JNull \<Rightarrow> Some v | _ \<Rightarrow> None)"

fun map_put :: "bytes \<Rightarrow> 'v \<Rightarrow> (bytes \<times> 'v) list \<Rightarrow> (bytes \<times> 'v) list" where
  "map_put k v [] = [(k, v)]"
| "map_put k v ((k', v') # m) =
     (if k = k' then (k, v) # m else if k < k' then (k, v) # (k', v') # m else (k', v') # map_put k v m)"

fun put_members :: "(bytes \<times> json) list \<Rightarrow> (bytes \<times> bytes) list \<Rightarrow> (bytes \<times> bytes) list option" where
  "put_members [] m = Some m"
| "put_members ((k, j) # ms) m =
     (case into_string j [] of None \<Rightarrow> None | Some v \<Rightarrow> put_members ms (map_put k v m))"

definition into_map :: "(bytes \<times> bytes) list into" where
  "into_map j m = (case j of JObj ms \<Rightarrow> put_members ms m | JNull \<Rightarrow> Some [] | _ \<Rightarrow> None)"

record wire_credential =
  wc_format :: int
  wc_fields :: "(bytes \<times> bytes) list"

definition into_wire :: "wire_credential into" where
  "into_wire = into_strict
     [(''format'', \<lambda>j w. map_option (\<lambda>n. w\<lparr>wc_format := n\<rparr>) (into_int64 j (wc_format w))),
      (''fields'', \<lambda>j w. map_option (\<lambda>m. w\<lparr>wc_fields := m\<rparr>) (into_map j (wc_fields w)))]"

text \<open>\<open>Decoder.More\<close>: whether something follows that does not close an array or an object.\<close>

definition more_follows :: "bytes \<Rightarrow> bool" where
  "more_follows rest = (case dropWhile json_space rest of [] \<Rightarrow> False | c # _ \<Rightarrow> c \<noteq> CHR '']'' \<and> c \<noteq> CHR ''}'')"

definition decode_credential :: "first_value \<Rightarrow> bytes \<Rightarrow> vault_error + credential" where
  "decode_credential first_value b =
     (case first_value b of
        None \<Rightarrow> Inl NotDecrypted
      | Some (j, rest) \<Rightarrow>
     (case into_wire j \<lparr>wc_format = 0, wc_fields = []\<rparr> of
        None \<Rightarrow> Inl NotDecrypted
      | Some w \<Rightarrow>
          if more_follows rest then Inl NotDecrypted
          else if wc_format w \<noteq> 1 then Inl NotDecrypted
          else map_err (\<lambda>_. NotDecrypted) (new_credential (wc_fields w))))"

subsection \<open>The table\<close>

record vault_row =
  vr_tenant :: bytes
  vr_provider :: bytes
  vr_ciphertext :: bytes

definition looks_sealed :: "bytes \<Rightarrow> bool" where
  "looks_sealed b \<longleftrightarrow> length b \<ge> 37 \<and> hd b = CHR 0x01"

definition vault_row_visible :: "txn \<Rightarrow> bytes \<Rightarrow> bytes \<Rightarrow> vault_row \<Rightarrow> bool" where
  "vault_row_visible tx t p r \<longleftrightarrow> tx_tenant tx = Some (vr_tenant r) \<and> vr_tenant r = t \<and> vr_provider r = p"

definition sql_upsert_credential :: "txn \<Rightarrow> vault_row \<Rightarrow> vault_row list \<Rightarrow> vault_error + unit \<times> vault_row list" where
  "sql_upsert_credential tx r tbl =
     (if tx_tenant tx \<noteq> Some (vr_tenant r) \<or> \<not> valid_tenant (vr_tenant r) \<or> vr_provider r = [] \<or> length (vr_provider r) > 32
      then Inl VaultDb
      else if \<not> looks_sealed (vr_ciphertext r) then Inl NotSealed
      else if list_ex (\<lambda>q. vr_tenant q = vr_tenant r \<and> vr_provider q = vr_provider r) tbl
      then Inr ((), map (\<lambda>q. if vr_tenant q = vr_tenant r \<and> vr_provider q = vr_provider r
                             then q\<lparr>vr_ciphertext := vr_ciphertext r\<rparr> else q) tbl)
      else Inr ((), tbl @ [r]))"

definition sql_fetch_credential :: "txn \<Rightarrow> bytes \<Rightarrow> bytes \<Rightarrow> vault_row list \<Rightarrow> bytes option" where
  "sql_fetch_credential tx t p tbl = map_option vr_ciphertext (find (vault_row_visible tx t p) tbl)"

definition sql_delete_credential :: "txn \<Rightarrow> bytes \<Rightarrow> bytes \<Rightarrow> vault_row list \<Rightarrow> nat \<times> vault_row list" where
  "sql_delete_credential tx t p tbl =
     (length (filter (vault_row_visible tx t p) tbl), filter (\<lambda>r. \<not> vault_row_visible tx t p r) tbl)"

subsection \<open>The local vault\<close>

definition new_local :: "(bytes \<Rightarrow> aead) \<Rightarrow> (bytes \<Rightarrow> bytes) \<Rightarrow> bool \<Rightarrow> bytes \<Rightarrow> vault_error + sealer" where
  "new_local gcm sha has_db key = (if \<not> has_db then Inl (VaultConfig ''database'') else new_sealer gcm sha key)"

definition local_store ::
  "(json \<Rightarrow> bytes) \<Rightarrow> sealer \<Rightarrow> bytes \<Rightarrow> bytes \<Rightarrow> bytes \<Rightarrow> credential \<Rightarrow> vault_row list \<Rightarrow> (vault_error + unit) \<times> vault_row list" where
  "local_store render sl nonce t p c tbl =
     (case check_args t p of
        Some e \<Rightarrow> (Inl e, tbl)
      | None \<Rightarrow>
     (case encode_credential render c of
        Inl e \<Rightarrow> (Inl e, tbl)
      | Inr plaintext \<Rightarrow>
          tenant_tx VaultTx t
            (\<lambda>tx. sql_upsert_credential tx \<lparr>vr_tenant = t, vr_provider = p, vr_ciphertext = seal_envelope sl nonce t p plaintext\<rparr>) tbl))"

definition local_fetch ::
  "first_value \<Rightarrow> sealer \<Rightarrow> bytes \<Rightarrow> bytes \<Rightarrow> vault_row list \<Rightarrow> vault_error + credential" where
  "local_fetch first_value sl t p tbl =
     (case check_args t p of
        Some e \<Rightarrow> Inl e
      | None \<Rightarrow>
          bind_res (fst (tenant_tx VaultTx t
              (\<lambda>tx d. case sql_fetch_credential tx t p d of None \<Rightarrow> Inl VaultNotFound | Some b \<Rightarrow> Inr (b, d)) tbl))
            (\<lambda>env. bind_res (open_envelope sl t p env) (decode_credential first_value)))"

definition local_revoke :: "bytes \<Rightarrow> bytes \<Rightarrow> vault_row list \<Rightarrow> (vault_error + unit) \<times> vault_row list" where
  "local_revoke t p tbl =
     (case check_args t p of
        Some e \<Rightarrow> (Inl e, tbl)
      | None \<Rightarrow>
     (case tenant_tx VaultTx t (\<lambda>tx d. Inr (sql_delete_credential tx t p d)) tbl of
        (Inl e, tbl') \<Rightarrow> (Inl e, tbl')
      | (Inr n, tbl') \<Rightarrow> (if n = 0 then Inl VaultNotFound else Inr (), tbl')))"

end
