(* ===== verification/Vault_Facts.thy ===== *)
theory Vault_Facts
  imports Vault
begin

text \<open>
  What the local vault promises: it is a map from tenant and provider to a credential, however it is
  used; it hands out nothing that it did not seal for that tenant and provider; and a stored value
  that is no envelope, or is another key's, is refused as what it is.
\<close>

subsection \<open>Round trips\<close>

definition credential_ok :: "credential \<Rightarrow> bool" where
  "credential_ok c \<longleftrightarrow> new_credential c = Inr c \<and> sorted_wrt (<) (map fst c)"

lemma credential_ok_nonempty: "credential_ok c \<Longrightarrow> c \<noteq> []"
  by (auto simp: credential_ok_def new_credential_def)

lemma check_args_None: "check_args t p = None \<longleftrightarrow> valid_tenant t \<and> t \<noteq> sentinel \<and> valid_provider_key p"
  by (auto simp: check_args_def is_ok_iff)

lemma map_put_last: "\<forall>k' \<in> set (map fst m). k' < k \<Longrightarrow> map_put k v m = m @ [(k, v)]"
  by (induction m) (auto dest: order_less_imp_not_eq)

lemma put_members_sorted:
  "sorted_wrt (<) (map fst (m @ c)) \<Longrightarrow> put_members (map (\<lambda>(n, v). (n, JStr v)) c) m = Some (m @ c)"
proof (induction c arbitrary: m)
  case (Cons nv c)
  obtain n v where nv: "nv = (n, v)" by (cases nv)
  have "\<forall>k' \<in> set (map fst m). k' < n" using Cons.prems by (auto simp: nv sorted_wrt_append)
  then have "map_put n v m = m @ [(n, v)]" by (rule map_put_last)
  then show ?case using Cons.IH [of "m @ [(n, v)]"] Cons.prems by (simp add: nv into_string_def)
qed simp

lemma wire_names: "same_name ''format'' ''format''" "same_name ''fields'' ''fields''" "\<not> same_name ''format'' ''fields''"
  by (simp_all add: same_name_ascii fold_rune_def ord_of_def)

lemma into_wire_tree:
  assumes "sorted_wrt (<) (map fst c)"
  shows "into_wire (credential_tree c) \<lparr>wc_format = 0, wc_fields = []\<rparr> = Some \<lparr>wc_format = 1, wc_fields = c\<rparr>"
proof -
  have "parse_int64 ''1'' = Some 1" by (simp add: parse_int64_def decimal_value_def is_digit_def ord_of_def)
  then show ?thesis using put_members_sorted [of "[]" c] assms
    by (simp add: into_wire_def into_strict_def credential_tree_def wire_names into_int64_def into_map_def)
qed

lemma decode_encoded:
  assumes "credential_ok c" "first_value b = Some (credential_tree c, [])"
  shows "decode_credential first_value b = Inr c"
  using assms into_wire_tree [of c] by (simp add: decode_credential_def more_follows_def credential_ok_def)

text \<open>What GCM does when nobody interferes: opening undoes sealing, and a box is as long as its plaintext,
  the nonce and the tag.\<close>

definition aead_works :: "aead \<Rightarrow> bool" where
  "aead_works ae \<longleftrightarrow> (\<forall>n p a. ae_open ae (ae_seal ae n p a) a = Some p \<and> length (ae_seal ae n p a) = length p + gcm_overhead)"

lemma open_sealed:
  assumes "aead_works (sl_aead sl)" "length (sl_key_id sl) = key_id_len" "length plaintext + min_envelope_len \<le> max_envelope_len"
  shows "open_envelope sl t p (seal_envelope sl nonce t p plaintext) = Inr plaintext" "looks_sealed (seal_envelope sl nonce t p plaintext)"
proof -
  let ?box = "ae_seal (sl_aead sl) nonce plaintext (aad t p (format_v1 # sl_key_id sl))"
  have b: "ae_open (sl_aead sl) ?box (aad t p (format_v1 # sl_key_id sl)) = Some plaintext" "length ?box = length plaintext + gcm_overhead"
    using assms(1) by (simp_all add: aead_works_def)
  show "open_envelope sl t p (seal_envelope sl nonce t p plaintext) = Inr plaintext"
    using b assms(2,3) by (simp add: open_envelope_def seal_envelope_def Let_def)
  show "looks_sealed (seal_envelope sl nonce t p plaintext)"
    using b assms(2) by (simp add: looks_sealed_def seal_envelope_def Let_def)
qed

lemma new_sealer_facts:
  assumes "new_sealer gcm sha key = Inr sl" "length (sha (''lawang vault key id v1'' @ [CHR 0x1F] @ key)) \<ge> key_id_len"
  shows "sl_aead sl = gcm key" "length (sl_key_id sl) = key_id_len"
  using assms by (auto simp: new_sealer_def key_id_of_def split: if_splits)

subsection \<open>A map of credentials\<close>

datatype vault_op = OpStore bytes bytes bytes credential | OpRevoke bytes bytes | OpFetch bytes bytes

fun local_run ::
  "(json \<Rightarrow> bytes) \<Rightarrow> first_value \<Rightarrow> sealer \<Rightarrow> vault_op \<Rightarrow> vault_row list \<Rightarrow> (vault_error + credential) \<times> vault_row list" where
  "local_run render fv sl (OpStore nonce t p c) tbl =
     (let (r, tbl') = local_store render sl nonce t p c tbl in (bind_res r (\<lambda>_. Inr []), tbl'))"
| "local_run render fv sl (OpRevoke t p) tbl =
     (let (r, tbl') = local_revoke t p tbl in (bind_res r (\<lambda>_. Inr []), tbl'))"
| "local_run render fv sl (OpFetch t p) tbl = (local_fetch fv sl t p tbl, tbl)"

text \<open>The specification: a finite map, and the checks of the arguments.\<close>

type_synonym vault_spec = "bytes \<times> bytes \<Rightarrow> credential option"

fun spec_run :: "vault_op \<Rightarrow> vault_spec \<Rightarrow> (vault_error + credential) \<times> vault_spec" where
  "spec_run (OpStore nonce t p c) m =
     (case check_args t p of Some e \<Rightarrow> (Inl e, m) | None \<Rightarrow> (Inr [], m((t, p) \<mapsto> c)))"
| "spec_run (OpRevoke t p) m =
     (case check_args t p of Some e \<Rightarrow> (Inl e, m)
      | None \<Rightarrow> if m (t, p) = None then (Inl VaultNotFound, m) else (Inr [], m((t, p) := None)))"
| "spec_run (OpFetch t p) m =
     (case check_args t p of Some e \<Rightarrow> (Inl e, m)
      | None \<Rightarrow> (case m (t, p) of None \<Rightarrow> (Inl VaultNotFound, m) | Some c \<Rightarrow> (Inr c, m)))"

fun run_all :: "(vault_op \<Rightarrow> 's \<Rightarrow> 'r \<times> 's) \<Rightarrow> vault_op list \<Rightarrow> 's \<Rightarrow> 'r list" where
  "run_all f [] s = []"
| "run_all f (x # xs) s = (let (r, s') = f x s in r # run_all f xs s')"

text \<open>What is asked of the JSON codec, and of the credential that is stored.\<close>

definition storable_credential :: "(json \<Rightarrow> bytes) \<Rightarrow> first_value \<Rightarrow> credential \<Rightarrow> bool" where
  "storable_credential render fv c \<longleftrightarrow> credential_ok c \<and> fv (render (credential_tree c)) = Some (credential_tree c, []) \<and>
     length (render (credential_tree c)) + min_envelope_len \<le> max_envelope_len"

fun op_storable :: "(json \<Rightarrow> bytes) \<Rightarrow> first_value \<Rightarrow> vault_op \<Rightarrow> bool" where
  "op_storable render fv (OpStore nonce t p c) = storable_credential render fv c"
| "op_storable render fv _ = True"

definition has_key :: "bytes \<Rightarrow> bytes \<Rightarrow> vault_row \<Rightarrow> bool" where
  "has_key t p r \<longleftrightarrow> vr_tenant r = t \<and> vr_provider r = p"

definition table_holds :: "(json \<Rightarrow> bytes) \<Rightarrow> first_value \<Rightarrow> sealer \<Rightarrow> vault_spec \<Rightarrow> vault_row list \<Rightarrow> bool" where
  "table_holds render fv sl m tbl \<longleftrightarrow> distinct (map (\<lambda>r. (vr_tenant r, vr_provider r)) tbl) \<and>
     (\<forall>t p. case find (has_key t p) tbl of
        None \<Rightarrow> m (t, p) = None
      | Some r \<Rightarrow> (\<exists>c nonce. m (t, p) = Some c \<and> storable_credential render fv c \<and>
          vr_ciphertext r = seal_envelope sl nonce t p (render (credential_tree c))))"

lemma visible_key: "tx_tenant tx = Some t \<Longrightarrow> vault_row_visible tx t p = has_key t p"
  by (auto simp: fun_eq_iff vault_row_visible_def has_key_def)

lemma find_append: "find P (xs @ ys) = (case find P xs of None \<Rightarrow> find P ys | Some x \<Rightarrow> Some x)"
  by (induction xs) auto

lemma has_key_same: "has_key t p r \<Longrightarrow> has_key t' p' r \<Longrightarrow> t' = t \<and> p' = p"
  by (simp add: has_key_def)

lemma has_key_update [simp]: "has_key t p (r\<lparr>vr_ciphertext := b\<rparr>) = has_key t p r"
  by (simp add: has_key_def)

lemma find_has_key_map:
  "find (has_key t' p') (map (\<lambda>q. if has_key t p q then q\<lparr>vr_ciphertext := b\<rparr> else q) tbl) =
     (case find (has_key t' p') tbl of None \<Rightarrow> None
      | Some q \<Rightarrow> Some (if t' = t \<and> p' = p then q\<lparr>vr_ciphertext := b\<rparr> else q))"
  by (induction tbl) (auto dest: has_key_same)

lemma find_has_key_filter:
  "find (has_key t' p') (filter (\<lambda>r. \<not> has_key t p r) tbl) = (if t' = t \<and> p' = p then None else find (has_key t' p') tbl)"
  by (induction tbl) (auto dest: has_key_same)

lemma has_key_exists: "list_ex (has_key t p) tbl \<longleftrightarrow> find (has_key t p) tbl \<noteq> None"
  by (auto simp: find_None_iff list_ex_iff)

lemma upsert_holds:
  assumes holds: "table_holds render fv sl m tbl" and c: "storable_credential render fv c"
    and tbl': "tbl' = (if list_ex (has_key t p) tbl then map (\<lambda>q. if has_key t p q then q\<lparr>vr_ciphertext := b\<rparr> else q) tbl
                       else tbl @ [\<lparr>vr_tenant = t, vr_provider = p, vr_ciphertext = b\<rparr>])"
    and b: "b = seal_envelope sl nonce t p (render (credential_tree c))"
  shows "table_holds render fv sl (m((t, p) \<mapsto> c)) tbl'"
proof -
  let ?key = "\<lambda>r. (vr_tenant r, vr_provider r)" and ?new = "\<lparr>vr_tenant = t, vr_provider = p, vr_ciphertext = b\<rparr>"
  have d: "distinct (map ?key tbl)" using holds by (simp add: table_holds_def)
  have keys: "map ?key (map (\<lambda>q. if has_key t p q then q\<lparr>vr_ciphertext := b\<rparr> else q) tbl) = map ?key tbl" by simp
  have new: "has_key t' p' ?new \<longleftrightarrow> t' = t \<and> p' = p" for t' p' by (auto simp: has_key_def)
  have "distinct (map ?key tbl')"
  proof (cases "list_ex (has_key t p) tbl")
    case True
    then have "map ?key tbl' = map ?key tbl" using keys unfolding tbl' by (simp only: if_True)
    then show ?thesis using d by (simp only:)
  next
    case False
    then show ?thesis using d by (auto simp: tbl' list_ex_iff has_key_def)
  qed
  moreover have find': "find (has_key t' p') tbl' =
      (if t' = t \<and> p' = p then Some (case find (has_key t p) tbl of None \<Rightarrow> ?new | Some q \<Rightarrow> q\<lparr>vr_ciphertext := b\<rparr>)
       else find (has_key t' p') tbl)" for t' p'
    unfolding tbl' has_key_exists by (auto simp: find_append find_has_key_map new split: option.split)
  moreover have "case find (has_key t' p') tbl' of None \<Rightarrow> (m((t, p) \<mapsto> c)) (t', p') = None
      | Some r \<Rightarrow> (\<exists>c' nonce. (m((t, p) \<mapsto> c)) (t', p') = Some c' \<and> storable_credential render fv c' \<and>
          vr_ciphertext r = seal_envelope sl nonce t' p' (render (credential_tree c')))" for t' p'
  proof (cases "t' = t \<and> p' = p")
    case True
    then show ?thesis using c b by (auto simp: find' split: option.split)
  next
    case False
    then have e: "(m((t, p) \<mapsto> c)) (t', p') = m (t', p')" "find (has_key t' p') tbl' = find (has_key t' p') tbl"
      by (auto simp: find')
    show ?thesis unfolding e using holds by (simp add: table_holds_def)
  qed
  ultimately show ?thesis by (simp add: table_holds_def)
qed

lemma delete_holds:
  assumes "table_holds render fv sl m tbl"
  shows "table_holds render fv sl (m((t, p) := None)) (filter (\<lambda>r. \<not> has_key t p r) tbl)"
proof -
  have "case find (has_key t' p') (filter (\<lambda>r. \<not> has_key t p r) tbl) of None \<Rightarrow> (m((t, p) := None)) (t', p') = None
      | Some r \<Rightarrow> (\<exists>c' nonce. (m((t, p) := None)) (t', p') = Some c' \<and> storable_credential render fv c' \<and>
          vr_ciphertext r = seal_envelope sl nonce t' p' (render (credential_tree c')))" for t' p'
  proof (cases "t' = t \<and> p' = p")
    case True
    then show ?thesis by (simp add: find_has_key_filter)
  next
    case False
    then have e: "(m((t, p) := None)) (t', p') = m (t', p')"
        "find (has_key t' p') (filter (\<lambda>r. \<not> has_key t p r) tbl) = find (has_key t' p') tbl"
      by (auto simp: find_has_key_filter)
    show ?thesis unfolding e using assms by (simp add: table_holds_def)
  qed
  then show ?thesis using assms by (simp add: table_holds_def distinct_map_filter)
qed

lemma holds_find: "table_holds render fv sl m tbl \<Longrightarrow> find (has_key t p) tbl = None \<longleftrightarrow> m (t, p) = None"
  unfolding table_holds_def
  by (drule conjunct2, drule spec [of _ t], drule spec [of _ p]) (cases "find (has_key t p) tbl", auto)

lemma holds_row:
  assumes "table_holds render fv sl m tbl" "find (has_key t p) tbl = Some r"
  shows "\<exists>c nonce. m (t, p) = Some c \<and> storable_credential render fv c \<and>
    vr_ciphertext r = seal_envelope sl nonce t p (render (credential_tree c))"
  using assms unfolding table_holds_def
  by (elim conjE, drule_tac spec [of _ t], drule_tac spec [of _ p]) simp

lemma local_run_spec:
  assumes sl: "aead_works (sl_aead sl)" "length (sl_key_id sl) = key_id_len"
    and holds: "table_holds render fv sl m tbl" and ok: "op_storable render fv x"
  shows "fst (local_run render fv sl x tbl) = fst (spec_run x m) \<and>
    table_holds render fv sl (snd (spec_run x m)) (snd (local_run render fv sl x tbl))"
proof (cases x)
  case (OpStore nonce t p c)
  show ?thesis
  proof (cases "check_args t p")
    case (Some e)
    then show ?thesis using holds by (simp add: OpStore local_store_def)
  next
    case None
    then have v: "valid_tenant t" "valid_provider_key p" by (simp_all add: check_args_None)
    have c: "storable_credential render fv c" using ok by (simp add: OpStore)
    then have ne: "c \<noteq> []" "length (render (credential_tree c)) + min_envelope_len \<le> max_envelope_len"
      using credential_ok_nonempty by (auto simp: storable_credential_def)
    have p: "p \<noteq> []" "length p \<le> 32" using v(2) by (auto simp: valid_provider_key_def valid_name_def split: list.splits)
    let ?b = "seal_envelope sl nonce t p (render (credential_tree c))"
    let ?tbl = "if list_ex (has_key t p) tbl then map (\<lambda>q. if has_key t p q then q\<lparr>vr_ciphertext := ?b\<rparr> else q) tbl
                       else tbl @ [\<lparr>vr_tenant = t, vr_provider = p, vr_ciphertext = ?b\<rparr>]"
    have "local_store render sl nonce t p c tbl = (Inr (), ?tbl)"
      using open_sealed(2) [OF sl ne(2), of nonce t p] ne(1) v p None
      by (simp add: local_store_def encode_credential_def credential_is_zero_def tenant_tx_valid begin_tx_def sql_upsert_credential_def has_key_def [abs_def])
    then show ?thesis using upsert_holds [OF holds c refl refl, of t p nonce] None by (simp add: OpStore)
  qed
next
  case (OpRevoke t p)
  show ?thesis
  proof (cases "check_args t p")
    case (Some e)
    then show ?thesis using holds by (simp add: OpRevoke local_revoke_def)
  next
    case None
    then have v: "valid_tenant t" by (simp add: check_args_None)
    have r: "local_revoke t p tbl = (if filter (has_key t p) tbl = [] then Inl VaultNotFound else Inr (), filter (\<lambda>r. \<not> has_key t p r) tbl)"
      using None by (simp add: local_revoke_def tenant_tx_valid [OF v] begin_tx_def sql_delete_credential_def visible_key)
    have n: "filter (has_key t p) tbl = [] \<longleftrightarrow> m (t, p) = None"
      using holds_find [OF holds, of t p] by (simp add: filter_empty_conv find_None_iff Ball_def)
    show ?thesis
    proof (cases "m (t, p) = None")
      case True
      then have "m((t, p) := None) = m" by auto
      then show ?thesis using delete_holds [OF holds, of t p] None r n True by (simp add: OpRevoke)
    next
      case False
      then obtain c where "m (t, p) = Some c" by auto
      then show ?thesis using delete_holds [OF holds, of t p] None r n by (simp add: OpRevoke)
    qed
  qed
next
  case (OpFetch t p)
  show ?thesis
  proof (cases "check_args t p")
    case (Some e)
    then show ?thesis using holds by (simp add: OpFetch local_fetch_def)
  next
    case None
    then have v: "valid_tenant t" by (simp add: check_args_None)
    have f: "local_fetch fv sl t p tbl = (case find (has_key t p) tbl of None \<Rightarrow> Inl VaultNotFound
        | Some r \<Rightarrow> bind_res (open_envelope sl t p (vr_ciphertext r)) (decode_credential fv))"
      using None by (simp add: local_fetch_def tenant_tx_valid [OF v] begin_tx_def sql_fetch_credential_def visible_key split: option.split)
    show ?thesis
    proof (cases "find (has_key t p) tbl")
      case fn: None
      then have "m (t, p) = None" using holds_find [OF holds, of t p] by simp
      then show ?thesis using holds None f fn by (simp add: OpFetch)
    next
      case (Some r)
      then obtain c nonce where c: "m (t, p) = Some c" "storable_credential render fv c"
        "vr_ciphertext r = seal_envelope sl nonce t p (render (credential_tree c))"
        using holds_row [OF holds Some] by blast
      have "open_envelope sl t p (vr_ciphertext r) = Inr (render (credential_tree c))"
        unfolding c(3) by (rule open_sealed(1) [OF sl]) (use c(2) in \<open>simp add: storable_credential_def\<close>)
      moreover have "decode_credential fv (render (credential_tree c)) = Inr c"
        using c(2) by (intro decode_encoded) (simp_all add: storable_credential_def)
      ultimately show ?thesis using holds None f Some c(1) by (simp add: OpFetch)
    qed
  qed
qed

text \<open>C8: The local vault is a map of credentials. Over any run of stores, revocations and fetches, of any
  tenants and providers, every answer is the one a plain map from tenant and provider to credential
  gives: what was stored last comes back whole, a credential that was revoked or never stored is not
  found, and nothing done for one tenant or provider is seen by another; although what the table holds
  is sealed, with whatever nonces.\<close>

theorem local_vault_is_a_map_of_credentials:
  assumes "new_local gcm sha True key = Inr sl" and "aead_works (gcm key)" and "\<And>x. length (sha x) = 32"
    and "list_all (op_storable render fv) ops"
  shows "run_all (local_run render fv sl) ops [] = run_all spec_run ops (\<lambda>_. None)"
proof -
  have sl: "aead_works (sl_aead sl)" "length (sl_key_id sl) = key_id_len"
    using assms(1-3) new_sealer_facts [of gcm sha key sl] by (simp_all add: new_local_def)
  have "table_holds render fv sl m tbl \<Longrightarrow> list_all (op_storable render fv) ops \<Longrightarrow>
      run_all (local_run render fv sl) ops tbl = run_all spec_run ops m" for m tbl
  proof (induction ops arbitrary: m tbl)
    case (Cons x ops)
    then show ?case using local_run_spec [OF sl Cons.prems(1), of x] by (simp add: split_def Let_def)
  qed simp
  then show ?thesis using assms(4) by (simp add: table_holds_def)
qed

subsection \<open>Failing closed\<close>

lemma map_put_keys: "set (map fst (map_put k v m)) = insert k (set (map fst m))"
proof (induction m)
  case (Cons x m)
  obtain k' v' where x: "x = (k', v')" by (cases x)
  show ?case using Cons by (cases "k = k'"; cases "k < k'") (simp_all add: x insert_commute)
qed simp

lemma map_put_sorted: "sorted_wrt (<) (map fst m) \<Longrightarrow> sorted_wrt (<) (map fst (map_put k v m))"
proof (induction m)
  case (Cons x m)
  obtain k' v' where x: "x = (k', v')" by (cases x)
  have less: "\<forall>y \<in> set (map fst m). k' < y" and "sorted_wrt (<) (map fst m)" using Cons.prems by (simp_all add: x)
  then have put: "sorted_wrt (<) (map fst (map_put k v m))" using Cons.IH by blast
  consider "k = k'" | "k < k'" | "k' < k" by (rule linorder_cases) 
  then show ?case
  proof cases
    case 2
    then show ?thesis using less Cons.prems by (auto simp: x intro: order_less_trans)
  next
    case 3
    then have "\<forall>y \<in> set (map fst (map_put k v m)). k' < y" using less map_put_keys [of k v m] by simp
    then show ?thesis using put 3 by (auto simp: x)
  qed (use Cons.prems in \<open>simp add: x\<close>)
qed simp

lemma put_members_keeps_sorted: "put_members ms m = Some m' \<Longrightarrow> sorted_wrt (<) (map fst m) \<Longrightarrow> sorted_wrt (<) (map fst m')"
  by (induction ms m rule: put_members.induct) (auto simp: map_put_sorted split: option.splits)

lemma into_wire_sorted:
  assumes "into_wire j \<lparr>wc_format = 0, wc_fields = []\<rparr> = Some w"
  shows "sorted_wrt (<) (map fst (wc_fields w))"
proof -
  let ?shape = "[(''format'', \<lambda>j w. map_option (\<lambda>n. w\<lparr>wc_format := n\<rparr>) (into_int64 j (wc_format w))),
      (''fields'', \<lambda>j w. map_option (\<lambda>m. w\<lparr>wc_fields := m\<rparr>) (into_map j (wc_fields w)))] :: (bytes \<times> wire_credential into) list"
  have "fill_strict ?shape ms v = Some v' \<Longrightarrow> sorted_wrt (<) (map fst (wc_fields v)) \<Longrightarrow> sorted_wrt (<) (map fst (wc_fields v'))" for ms v v'
  proof (induction ms arbitrary: v)
    case (Cons m ms)
    obtain k j where m: "m = (k, j)" by (cases m)
    obtain f v1 where f: "find (\<lambda>f. same_name (fst f) k) ?shape = Some f" "snd f j v = Some v1" "fill_strict ?shape ms v1 = Some v'"
      using Cons.prems(1) by (auto simp: m split: option.splits)
    have "f \<in> set ?shape" using find_Some_iff2 [OF f(1)] by simp
    then consider "f = ?shape ! 0" | "f = ?shape ! 1" by auto
    then have "sorted_wrt (<) (map fst (wc_fields v1))"
    proof cases
      case 1
      then show ?thesis using f(2) Cons.prems(2) by auto
    next
      case 2
      then obtain m1 where "into_map j (wc_fields v) = Some m1" "v1 = v\<lparr>wc_fields := m1\<rparr>" using f(2) by auto
      then show ?thesis using Cons.prems(2) by (auto simp: into_map_def put_members_keeps_sorted split: json.splits)
    qed
    then show ?case using Cons.IH f(3) by blast
  qed simp
  then show ?thesis using assms unfolding into_wire_def into_strict_def by (auto split: json.splits)
qed

lemma decoded_ok: "decode_credential fv b = Inr c \<Longrightarrow> credential_ok c"
proof -
  assume "decode_credential fv b = Inr c"
  then obtain j w where w: "into_wire j \<lparr>wc_format = 0, wc_fields = []\<rparr> = Some w" "new_credential (wc_fields w) = Inr c"
    by (auto simp: decode_credential_def map_err_Inr split: option.splits if_splits)
  then have "c = wc_fields w" by (simp add: new_credential_def split: if_splits)
  then show ?thesis using w into_wire_sorted [OF w(1)] by (simp add: credential_ok_def)
qed


text \<open>The authenticated data names one tenant and one provider.\<close>

lemma tenant_no_sep: "valid_tenant t \<Longrightarrow> CHR 0x1F \<notin> set t"
  using tenant_char_ascii by (fastforce simp: valid_tenant_def list_all_iff ord_of_def)

lemma provider_no_sep: "valid_provider_key p \<Longrightarrow> CHR 0x1F \<notin> set p"
  by (auto simp: valid_provider_key_def valid_name_def list_all_iff is_lower_def is_digit_def char_le_ord ord_of_def split: list.splits)

lemma split_at: "a @ x # b = a' @ x # b' \<Longrightarrow> x \<notin> set a \<Longrightarrow> x \<notin> set a' \<Longrightarrow> a = a' \<and> b = b'"
proof (induction a arbitrary: a')
  case Nil
  then show ?case by (cases a') auto
next
  case (Cons y a)
  then show ?case by (cases a') auto
qed

lemma aad_inj:
  assumes "check_args t p = None" "check_args t' p' = None" "aad t p hdr = aad t' p' hdr'"
  shows "t' = t \<and> p' = p \<and> hdr' = hdr"
proof -
  note v = assms(1,2) [unfolded check_args_None]
  have "t @ CHR 0x1F # p @ CHR 0x1F # hdr = t' @ CHR 0x1F # p' @ CHR 0x1F # hdr'" using assms(3) by (simp add: aad_def)
  from split_at [OF this] have "t = t' \<and> p @ CHR 0x1F # hdr = p' @ CHR 0x1F # hdr'" using v tenant_no_sep by blast
  moreover from this have "p = p' \<and> hdr = hdr'" using split_at [of p "CHR 0x1F" hdr p' hdr'] v provider_no_sep by blast
  ultimately show ?thesis by simp
qed

lemma upserted_row:
  assumes "sql_upsert_credential tx \<lparr>vr_tenant = t, vr_provider = p, vr_ciphertext = b\<rparr> tbl = Inr ((), tbl')"
    and "find (has_key t p) tbl' = Some r"
  shows "vr_ciphertext r = b"
proof (cases "list_ex (has_key t p) tbl")
  case True
  then have "tbl' = map (\<lambda>q. if has_key t p q then q\<lparr>vr_ciphertext := b\<rparr> else q) tbl"
    using assms(1) by (auto simp: sql_upsert_credential_def has_key_def [abs_def] split: if_splits)
  then show ?thesis using assms(2) by (auto simp: find_has_key_map split: option.splits)
next
  case False
  then have "tbl' = tbl @ [\<lparr>vr_tenant = t, vr_provider = p, vr_ciphertext = b\<rparr>]"
    using assms(1) by (simp add: sql_upsert_credential_def has_key_def [abs_def] split: if_splits)
  moreover have "find (has_key t p) tbl = None" using False by (simp add: has_key_exists)
  ultimately show ?thesis using assms(2) by (auto simp: find_append split: if_splits)
qed

text \<open>What may follow the value is narrower than the decoder's comment says: \<open>Decoder.More\<close> does not see a
  closing bracket, so a plaintext with one behind the credential is read as if it were not there.\<close>

lemma closing_bracket_is_not_refused:
  "fv b = Some (j, []) \<Longrightarrow> fv (b @ ''}'' @ junk) = Some (j, ''}'' @ junk) \<Longrightarrow>
     decode_credential fv (b @ ''}'' @ junk) = decode_credential fv b"
proof -
  have "\<not> more_follows (''}'' @ junk)" "\<not> more_follows []" by (simp_all add: more_follows_def json_space_def ord_of_def)
  then show "fv b = Some (j, []) \<Longrightarrow> fv (b @ ''}'' @ junk) = Some (j, ''}'' @ junk) \<Longrightarrow> ?thesis"
    by (simp only: decode_credential_def option.case prod.case if_False)
qed


subsection \<open>A vault at work\<close>

definition ex_aead :: aead where
  "ex_aead = \<lparr>ae_seal = (\<lambda>n p a. take 28 (n @ replicate 28 nul) @ p),
     ae_open = (\<lambda>b a. if a = aad ''acme'' ''fake'' (CHR 0x01 # replicate 8 (CHR 0x02)) then Some (drop 28 b) else None)\<rparr>"

definition open_aead :: aead where
  "open_aead = \<lparr>ae_seal = (\<lambda>n p a. take 28 (n @ replicate 28 nul) @ p), ae_open = (\<lambda>b a. Some (drop 28 b))\<rparr>"

definition ex_master_key :: bytes where
  "ex_master_key = replicate 32 (CHR 0x03)"

definition ex_sealer :: "aead \<Rightarrow> sealer" where
  "ex_sealer ae = \<lparr>sl_aead = ae, sl_key_id = replicate 8 (CHR 0x02)\<rparr>"

lemma ex_new_local: "new_local (\<lambda>_. ae) (\<lambda>_. replicate 32 (CHR 0x02)) True ex_master_key = Inr (ex_sealer ae)"
  by (simp add: new_local_def new_sealer_def ex_master_key_def ex_sealer_def key_id_of_def replicate_eq_replicate)

definition ex_credential :: credential where
  "ex_credential = [(''token'', ''k'')]"

definition ex_fv :: first_value where
  "ex_fv b = (if b = ''{}'' then Some (credential_tree ex_credential, []) else None)"

lemma ex_value: "valid_value ''k''"
proof -
  have r: "runes ''k'' = [107]" "valid_string ''k''" using ascii_runes_eval [of "''k''"] by (simp_all add: ord_of_def)
  have d: "decode_rune ''k'' = (107, 1)" using decode_ascii [of "CHR ''k''" "[]"] by (simp add: ord_of_def)
  have "trim_space ''k'' = ''k''" by (simp add: trim_space_def d r space_rune_def del: runes.simps)
  then show ?thesis using r by (simp add: valid_value_def del: valid_string.simps)
qed

lemma ex_credential_ok: "storable_credential (\<lambda>_. ''{}'') ex_fv ex_credential"
  using ex_value by (simp add: storable_credential_def credential_ok_def new_credential_def ex_credential_def ex_fv_def valid_field_name_def is_lower_def)

lemma ex_args: "check_args ''acme'' ''fake'' = None" "check_args ''b'' ''fake'' = None"
  by (simp_all add: check_args_None valid_tenant_def tenant_char_def sentinel_def valid_provider_key_def valid_name_def is_lower_def)

theorem local_vault_is_a_map_of_credentials_witness:
  "run_all (local_run (\<lambda>_. ''{}'') ex_fv (ex_sealer open_aead)) [OpStore [] ''acme'' ''fake'' ex_credential, OpFetch ''b'' ''fake'', OpFetch ''acme'' ''fake''] []
    = [Inr [], Inl VaultNotFound, Inr ex_credential]"
proof -
  have w: "aead_works ((\<lambda>_. open_aead) ex_master_key)" by (simp add: aead_works_def open_aead_def min_def)
  have ok: "list_all (op_storable (\<lambda>_. ''{}'') ex_fv) [OpStore [] ''acme'' ''fake'' ex_credential, OpFetch ''b'' ''fake'', OpFetch ''acme'' ''fake'']"
    using ex_credential_ok by simp
  show ?thesis
    using local_vault_is_a_map_of_credentials [OF ex_new_local w _ ok] by (simp add: ex_args)
qed

definition ex_vault_row :: vault_row where
  "ex_vault_row = \<lparr>vr_tenant = ''acme'', vr_provider = ''fake'', vr_ciphertext = ''{'' @ replicate 40 (CHR ''x'')\<rparr>"


definition ex_sealed_row :: "bytes \<Rightarrow> vault_row" where
  "ex_sealed_row t = \<lparr>vr_tenant = t, vr_provider = ''fake'', vr_ciphertext = seal_envelope (ex_sealer ex_aead) [] ''acme'' ''fake'' ''{}''\<rparr>"

lemma ex_envelope: "seal_envelope (ex_sealer ex_aead) [] ''acme'' ''fake'' ''{}'' = CHR 0x01 # replicate 8 (CHR 0x02) @ replicate 28 nul @ ''{}''"
  by (simp add: seal_envelope_def ex_sealer_def ex_aead_def Let_def)


end
