(* ===== verification/Url_Parse.thy ===== *)
theory Url_Parse
  imports Url
begin

text \<open>
  \<open>url.Parse\<close>, \<open>URL.EscapedPath\<close> and \<open>URL.Hostname\<close> of Go's net/url, for the URLs the program is
  configured with, and the lemma that a URL put together from plain parts reads back as those parts.
  How a host is read (its port, an IPv6 literal, the escapes a host may have) is the parameter
  \<open>parse_host\<close>; \<open>plain_host_law\<close> is what is asked of it.
\<close>

subsection \<open>The parser\<close>

record url =
  ul_scheme :: bytes
  ul_user :: bool
  ul_host :: bytes
  ul_path :: bytes
  ul_raw_path :: bytes
  ul_force_query :: bool
  ul_raw_query :: bytes
  ul_fragment :: bytes

definition cut_at :: "char \<Rightarrow> bytes \<Rightarrow> bytes \<times> bytes" where
  "cut_at c s = (takeWhile (\<lambda>x. x \<noteq> c) s, drop 1 (dropWhile (\<lambda>x. x \<noteq> c) s))"

text \<open>\<open>getScheme\<close>, where \<open>acc\<close> is what has been read.\<close>

fun get_scheme :: "bytes \<Rightarrow> bytes \<Rightarrow> bytes \<Rightarrow> (bytes \<times> bytes) option" where
  "get_scheme raw acc [] = Some ([], raw)"
| "get_scheme raw acc (c # s) =
     (if is_lower c \<or> is_upper c then get_scheme raw (acc @ [c]) s
      else if is_digit c \<or> c = CHR ''+'' \<or> c = CHR ''-'' \<or> c = CHR ''.''
      then (if acc = [] then Some ([], raw) else get_scheme raw (acc @ [c]) s)
      else if c = CHR '':'' then (if acc = [] then None else Some (acc, s))
      else Some ([], raw))"

definition lower_byte :: "char \<Rightarrow> char" where
  "lower_byte c = (if is_upper c then char_of (ord_of c + 32) else c)"

text \<open>\<open>unescape\<close> of a path, a fragment or a part of the userinfo.\<close>

fun url_unescape :: "bytes \<Rightarrow> bytes option" where
  "url_unescape [] = Some []"
| "url_unescape (c # s) =
     (if c \<noteq> CHR ''%'' then map_option (Cons c) (url_unescape s)
      else case s of
        a # b # r \<Rightarrow> (case (hex_val a, hex_val b) of
            (Some x, Some y) \<Rightarrow> map_option (Cons (char_of (16 * x + y))) (url_unescape r)
          | _ \<Rightarrow> None)
      | _ \<Rightarrow> None)"

definition escapes_not :: "char \<Rightarrow> bool" where
  "escapes_not c \<longleftrightarrow> unreserved c \<or> c \<in> set ''$&+,/:;=@''"

definition escape_path :: "bytes \<Rightarrow> bytes" where
  "escape_path s = concat (map (\<lambda>c. if escapes_not c then [c] else percent c) s)"

definition encoded_char :: "char \<Rightarrow> bool" where
  "encoded_char c \<longleftrightarrow> c \<in> set ''!$&()*+,;=:@[]%'' \<or> ord_of c = 39 \<or> escapes_not c"

definition escaped_path :: "url \<Rightarrow> bytes" where
  "escaped_path u =
     (if ul_raw_path u \<noteq> [] \<and> list_all encoded_char (ul_raw_path u) \<and> url_unescape (ul_raw_path u) = Some (ul_path u)
      then ul_raw_path u
      else if ul_path u = ''*'' then ''*''
      else escape_path (ul_path u))"

definition user_char :: "char \<Rightarrow> bool" where
  "user_char c \<longleftrightarrow> is_upper c \<or> is_lower c \<or> is_digit c \<or> c \<in> set ''-._:~!$&()*+,;=%@'' \<or> ord_of c = 39"

type_synonym parse_host = "bytes \<Rightarrow> bytes \<Rightarrow> bytes option"

text \<open>\<open>parseAuthority\<close>: everything before the last @ is the userinfo.\<close>

definition parse_authority :: "parse_host \<Rightarrow> bytes \<Rightarrow> bytes \<Rightarrow> (bool \<times> bytes) option" where
  "parse_authority ph scheme a =
     (if CHR ''@'' \<notin> set a then map_option (Pair False) (ph scheme a)
      else
        let host = rev (takeWhile (\<lambda>c. c \<noteq> CHR ''@'') (rev a)); info = take (length a - length host - 1) a in
        case ph scheme host of
          None \<Rightarrow> None
        | Some h \<Rightarrow>
            if \<not> list_all user_char info then None
            else let (name, pass) = cut_at (CHR '':'') info in
              if url_unescape name = None \<or> url_unescape pass = None then None else Some (True, h))"

definition url_control :: "char \<Rightarrow> bool" where
  "url_control c \<longleftrightarrow> ord_of c < 32 \<or> ord_of c = 127"

definition no_url :: url where
  "no_url = \<lparr>ul_scheme = [], ul_user = False, ul_host = [], ul_path = [], ul_raw_path = [], ul_force_query = False,
     ul_raw_query = [], ul_fragment = []\<rparr>"

definition set_path :: "bytes \<Rightarrow> url \<Rightarrow> url option" where
  "set_path p u =
     map_option (\<lambda>path. u\<lparr>ul_path := path, ul_raw_path := (if p = escape_path path then [] else p)\<rparr>) (url_unescape p)"

definition split_query :: "bytes \<Rightarrow> bytes \<times> bool \<times> bytes" where
  "split_query rest =
     (if rest \<noteq> [] \<and> last rest = CHR ''?'' \<and> CHR ''?'' \<notin> set (butlast rest) then (butlast rest, True, [])
      else let (before, query) = cut_at (CHR ''?'') rest in (before, False, query))"

definition url_parse :: "parse_host \<Rightarrow> bytes \<Rightarrow> url option" where
  "url_parse ph raw =
     (let (s, frag) = cut_at (CHR ''#'') raw in
      if list_ex url_control s then None
      else if s = ''*'' then map_option (\<lambda>f. no_url\<lparr>ul_path := ''*'', ul_fragment := f\<rparr>) (url_unescape frag)
      else case get_scheme s [] s of
        None \<Rightarrow> None
      | Some (scheme, rest0) \<Rightarrow>
          let (rest, force, query) = split_query rest0;
              u = no_url\<lparr>ul_scheme := map lower_byte scheme, ul_force_query := force, ul_raw_query := query\<rparr>;
              finish_url = \<lambda>o'. case o' of None \<Rightarrow> None | Some v \<Rightarrow> map_option (\<lambda>f. v\<lparr>ul_fragment := f\<rparr>) (url_unescape frag) in
          if \<not> has_prefix rest ''/'' \<and> scheme \<noteq> [] then finish_url (Some u)
          else if \<not> has_prefix rest ''/'' \<and> CHR '':'' \<in> set (fst (cut_at (CHR ''/'') rest)) then None
          else if (scheme \<noteq> [] \<or> \<not> has_prefix rest ''///'') \<and> has_prefix rest ''//''
          then
            let a = takeWhile (\<lambda>c. c \<noteq> CHR ''/'') (drop 2 rest); p = dropWhile (\<lambda>c. c \<noteq> CHR ''/'') (drop 2 rest) in
            (case parse_authority ph (ul_scheme u) a of
               None \<Rightarrow> None
             | Some (user, host) \<Rightarrow> finish_url (set_path p (u\<lparr>ul_user := user, ul_host := host\<rparr>)))
          else finish_url (set_path rest u))"

text \<open>\<open>URL.Hostname\<close>: the host without its port and without brackets.\<close>

definition valid_optional_port :: "bytes \<Rightarrow> bool" where
  "valid_optional_port s \<longleftrightarrow> (case s of [] \<Rightarrow> True | c # ds \<Rightarrow> c = CHR '':'' \<and> list_all is_digit ds)"

definition hostname :: "bytes \<Rightarrow> bytes" where
  "hostname h =
     (let colon = length h - Suc (length (takeWhile (\<lambda>c. c \<noteq> CHR '':'') (rev h)));
          host = (if CHR '':'' \<in> set h \<and> valid_optional_port (drop colon h) then take colon h else h) in
      if host \<noteq> [] \<and> hd host = CHR ''['' \<and> last host = CHR '']'' then butlast (tl host) else host)"

subsection \<open>Plain paths\<close>

definition plain_path_char :: "char \<Rightarrow> bool" where
  "plain_path_char c \<longleftrightarrow> encoded_char c \<and> c \<noteq> CHR ''%''"

lemma unescape_length: "url_unescape s = Some t \<Longrightarrow> length t \<le> length s \<and> (CHR ''%'' \<in> set s \<longrightarrow> length t < length s)"
  by (induction s arbitrary: t rule: url_unescape.induct) (fastforce split: option.splits if_splits list.splits)+

lemma unescape_plain: "CHR ''%'' \<notin> set s \<Longrightarrow> url_unescape s = Some s"
  by (induction s) auto

lemma unescape_same: "url_unescape s = Some s \<Longrightarrow> CHR ''%'' \<notin> set s"
  using unescape_length [of s s] by auto

lemma escape_path_length: "length s \<le> length (escape_path s) \<and> (\<not> list_all escapes_not s \<longrightarrow> length s < length (escape_path s))"
  by (induction s) (auto simp: escape_path_def percent_def)

lemma escape_path_same: "escape_path s = s \<longleftrightarrow> list_all escapes_not s"
proof
  assume "escape_path s = s"
  then show "list_all escapes_not s" using escape_path_length [of s] by auto
qed (induction s, auto simp: escape_path_def)

lemma escapes_not_plain: "escapes_not c \<Longrightarrow> plain_path_char c"
  by (auto simp: escapes_not_def plain_path_char_def encoded_char_def unreserved_def is_upper_def is_lower_def is_digit_def)

lemma escaped_path_plain:
  assumes "escaped_path u = ul_path u" "ul_path u \<noteq> ''*''"
  shows "list_all plain_path_char (ul_path u)"
proof (cases "ul_raw_path u \<noteq> [] \<and> list_all encoded_char (ul_raw_path u) \<and> url_unescape (ul_raw_path u) = Some (ul_path u)")
  case True
  then have "ul_raw_path u = ul_path u" using assms(1) by (simp add: escaped_path_def)
  then show ?thesis using True unescape_same [of "ul_path u"] by (auto simp: list_all_iff plain_path_char_def)
next
  case False
  then have "list_all escapes_not (ul_path u)"
    using assms escape_path_same by (simp add: escaped_path_def del: not_all split: if_splits)
  then show ?thesis using escapes_not_plain by (auto simp: list_all_iff)
qed

lemma plain_path_escaped:
  assumes "list_all plain_path_char p" "ul_path u = p" "ul_raw_path u = (if p = escape_path p then [] else p)"
  shows "escaped_path u = p"
proof (cases "p = escape_path p")
  case True
  then show ?thesis using assms(2,3) by (simp add: escaped_path_def)
next
  case False
  have "CHR ''%'' \<notin> set p" using assms(1) by (auto simp: list_all_iff plain_path_char_def)
  then have "url_unescape p = Some p" by (rule unescape_plain)
  moreover have "p \<noteq> []" using False by (auto simp: escape_path_def)
  ultimately show ?thesis using False assms by (simp add: escaped_path_def list_all_iff plain_path_char_def)
qed

lemma plain_path_chars:
  assumes "list_all plain_path_char p"
  shows "CHR ''?'' \<notin> set p" "CHR ''#'' \<notin> set p" "CHR ''%'' \<notin> set p" "\<not> list_ex url_control p"
proof -
  have "plain_path_char c \<Longrightarrow> c \<noteq> CHR ''?'' \<and> c \<noteq> CHR ''#'' \<and> c \<noteq> CHR ''%'' \<and> \<not> url_control c" for c
    by (auto simp: plain_path_char_def encoded_char_def escapes_not_def unreserved_def url_control_def is_upper_def is_lower_def
        is_digit_def char_le_ord) (auto simp: ord_of_def)
  then show "CHR ''?'' \<notin> set p" "CHR ''#'' \<notin> set p" "CHR ''%'' \<notin> set p" "\<not> list_ex url_control p"
    using assms by (auto simp: list_all_iff list_ex_iff)
qed

subsection \<open>Reading back\<close>

definition host_text :: "bytes \<Rightarrow> bool" where
  "host_text h \<longleftrightarrow> list_all (\<lambda>c. c \<noteq> CHR ''/'' \<and> c \<noteq> CHR ''?'' \<and> c \<noteq> CHR ''#'' \<and> c \<noteq> CHR ''@'' \<and> \<not> url_control c) h"

definition web_scheme :: "bytes \<Rightarrow> bool" where
  "web_scheme s \<longleftrightarrow> s = ''http'' \<or> s = ''https''"

lemma cut_at_none: "c \<notin> set s \<Longrightarrow> cut_at c s = (s, [])"
  by (induction s) (auto simp: cut_at_def)

lemma cut_at_set: "cut_at c s = (a, b) \<Longrightarrow> set a \<subseteq> set s \<and> c \<notin> set a"
  unfolding cut_at_def using set_takeWhileD [where P = "\<lambda>x. x \<noteq> c" and xs = s] by blast

lemma split_query_none: "CHR ''?'' \<notin> set s \<Longrightarrow> split_query s = (s, False, [])"
  unfolding split_query_def by (cases "s = []") (auto simp: cut_at_none dest: last_in_set)

lemma parse_plain:
  assumes sch: "web_scheme scheme" and host: "host_text host" "ph scheme host = Some host"
    and p: "list_all plain_path_char p" "p = [] \<or> hd p = CHR ''/''"
  shows "url_parse ph (scheme @ ''://'' @ host @ p) = Some (no_url\<lparr>ul_scheme := scheme, ul_host := host, ul_path := p,
     ul_raw_path := (if p = escape_path p then [] else p)\<rparr>)"
proof -
  let ?raw = "scheme @ ''://'' @ host @ p"
  note pc = plain_path_chars [OF p(1)]
  have sc: "CHR ''#'' \<notin> set scheme" "\<not> list_ex url_control scheme" "map lower_byte scheme = scheme" "scheme \<noteq> []"
    "get_scheme r [] (scheme @ CHR '':'' # s) = Some (scheme, s)" for r s
    using sch by (auto simp: web_scheme_def url_control_def lower_byte_def is_lower_def is_upper_def is_digit_def ord_of_def char_le_ord)
  have hc: "CHR ''#'' \<notin> set host" "CHR ''?'' \<notin> set host" "CHR ''/'' \<notin> set host" "CHR ''@'' \<notin> set host" "\<not> list_ex url_control host"
    using host(1) by (auto simp: host_text_def list_all_iff list_ex_iff)
  have frag: "cut_at (CHR ''#'') ?raw = (?raw, [])" using sc hc pc by (intro cut_at_none) simp
  have ctl: "\<not> list_ex url_control ?raw" using sc hc pc by (simp add: url_control_def ord_of_def)
  have star: "?raw \<noteq> ''*''" using sc(4) by simp
  have gs: "get_scheme ?raw [] ?raw = Some (scheme, ''//'' @ host @ p)" using sc(5) [of ?raw "''//'' @ host @ p"] by simp
  have sq: "split_query (''//'' @ host @ p) = (''//'' @ host @ p, False, [])" using hc pc by (intro split_query_none) simp
  have tw: "takeWhile (\<lambda>c. c \<noteq> CHR ''/'') (host @ p) = host" "dropWhile (\<lambda>c. c \<noteq> CHR ''/'') (host @ p) = p"
    using hc(3) p(2) by (cases p; force simp: takeWhile_append dropWhile_append)+
  have au: "parse_authority ph scheme host = Some (False, host)" using hc(4) host(2) by (simp add: parse_authority_def)
  have sp: "set_path p u = Some (u\<lparr>ul_path := p, ul_raw_path := (if p = escape_path p then [] else p)\<rparr>)" for u
    using unescape_plain [OF pc(3)] by (simp add: set_path_def)
  show ?thesis
    unfolding url_parse_def frag Let_def prod.case if_not_P [OF ctl] if_not_P [OF star] gs option.case sq
    using sc tw au sp by (simp add: has_prefix_def no_url_def)
qed

lemma split_query_set: "split_query s = (a, f, b) \<Longrightarrow> set a \<subseteq> set s \<and> CHR ''?'' \<notin> set a"
  using cut_at_set [of "CHR ''?''" s] by (auto simp: split_query_def dest: in_set_butlastD split: if_splits prod.splits)

lemma get_scheme_set: "get_scheme raw acc s = Some (a, b) \<Longrightarrow> set b \<subseteq> set raw \<union> set s"
  by (induction raw acc s rule: get_scheme.induct) (auto split: if_splits)

text \<open>What a parsed web URL without userinfo says of its parts.\<close>

lemma parsed_parts:
  assumes "url_parse ph raw = Some u" and "web_scheme (ul_scheme u)" and "ul_host u \<noteq> []"
  shows "(ul_path u = [] \<or> hd (ul_path u) = CHR ''/'') \<and>
     (\<exists>a. ph (ul_scheme u) a = Some (ul_host u) \<and> (host_text a \<or> ul_user u))"
proof -
  obtain s frag where f: "cut_at (CHR ''#'') raw = (s, frag)" by fastforce
  have s: "CHR ''#'' \<notin> set s" using cut_at_set [OF f] by simp
  have ctl: "\<not> list_ex url_control s" using assms(1) f by (auto simp: url_parse_def split: if_splits)
  have star: "s \<noteq> ''*''"
  proof
    assume "s = ''*''"
    then show False using assms(1,2) f ctl by (auto simp: url_parse_def no_url_def web_scheme_def)
  qed
  obtain scheme rest0 where g: "get_scheme s [] s = Some (scheme, rest0)"
    using assms(1) f ctl star by (auto simp: url_parse_def split: option.splits)
  obtain rest force_q query where q: "split_query rest0 = (rest, force_q, query)" by (metis surj_pair)
  let ?u = "no_url\<lparr>ul_scheme := map lower_byte scheme, ul_force_query := force_q, ul_raw_query := query\<rparr>"
  let ?a = "takeWhile (\<lambda>c. c \<noteq> CHR ''/'') (drop 2 rest)" and ?p = "dropWhile (\<lambda>c. c \<noteq> CHR ''/'') (drop 2 rest)"
  note run = assms(1) [unfolded url_parse_def f Let_def prod.case if_not_P [OF ctl] if_not_P [OF star] g option.case q]
  have web: "has_prefix rest ''//''" "scheme \<noteq> []"
    using run assms(2,3) by (auto simp: no_url_def web_scheme_def set_path_def split: if_splits option.splits)
  have "has_prefix rest ''/''" using web(1) by (auto simp: has_prefix_iff)
  then obtain user host v fr where a: "parse_authority ph (ul_scheme ?u) ?a = Some (user, host)"
      "set_path ?p (?u\<lparr>ul_user := user, ul_host := host\<rparr>) = Some v" "u = v\<lparr>ul_fragment := fr\<rparr>"
    using run web by (fastforce split: if_splits option.splits)
  have u: "ul_scheme u = map lower_byte scheme" "ul_host u = host" "ul_user u = user" "url_unescape ?p = Some (ul_path u)"
    using a(2,3) by (auto simp: set_path_def no_url_def)
  have "?p = [] \<or> hd ?p = CHR ''/''" using hd_dropWhile [of "\<lambda>c. c \<noteq> CHR ''/''" "drop 2 rest"] by auto
  then have "ul_path u = [] \<or> hd (ul_path u) = CHR ''/''"
    using u(4) by (cases "ul_path u"; cases ?p) auto
  moreover have "\<exists>a. ph (ul_scheme u) a = Some (ul_host u) \<and> (host_text a \<or> ul_user u)"
  proof (cases "CHR ''@'' \<in> set ?a")
    case True
    then have "user" "\<exists>a. ph (ul_scheme u) a = Some host"
      using a(1) u(1) by (auto simp: parse_authority_def Let_def no_url_def split: option.splits if_splits prod.splits)
    then show ?thesis using u(2,3) by auto
  next
    case False
    then have h: "ph (ul_scheme u) ?a = Some host" using a(1) u(1) by (auto simp: parse_authority_def no_url_def)
    have "set ?a \<subseteq> set rest" "CHR ''/'' \<notin> set ?a" by (auto dest: set_takeWhileD in_set_dropD)
    moreover have "set rest \<subseteq> set rest0" "CHR ''?'' \<notin> set rest" using split_query_set [OF q] by simp_all
    moreover have "set rest0 \<subseteq> set s" using get_scheme_set [OF g] by simp
    ultimately have "host_text ?a" using False s ctl by (auto simp: host_text_def list_all_iff list_ex_iff)
    then show ?thesis using h u(2) by auto
  qed
  ultimately show ?thesis by simp
qed

end
