(* ===== verification/Vault_Remote.thy ===== *)
theory Vault_Remote
  imports Vault Url_Parse
begin

text \<open>
  internal/vault/nango.go and azureapp.go: the vaults whose credentials live somewhere else. What is
  between them and the other side (net/http, the context of a call) is a parameter on a state \<open>'w\<close>: it
  answers a request, or says that nothing or not all of the answer arrived. A request is what the code
  chooses of it. The readers of hosts and of JSON are parameters.
\<close>

subsection \<open>Requests\<close>

record remote_request =
  rr_method :: bytes
  rr_url :: bytes
  rr_authorization :: bytes
  rr_form :: bytes

datatype remote_reply = Unreached | Unread | Answered int bytes

record 'w remote =
  re_serve :: "remote_request \<Rightarrow> 'w \<Rightarrow> remote_reply \<times> 'w"
  re_clock :: "'w \<Rightarrow> int"
  re_json :: "bytes \<Rightarrow> json option"

abbreviation max_remote_response :: nat where "max_remote_response \<equiv> 262144"

text \<open>A base URL: absolute, on one of the schemes, with a host, and with nothing behind the path.\<close>

definition usable_base :: "parse_host \<Rightarrow> bytes list \<Rightarrow> bytes \<Rightarrow> bool" where
  "usable_base ph schemes base =
     (case url_parse ph base of
        None \<Rightarrow> False
      | Some u \<Rightarrow> ul_scheme u \<in> set schemes \<and> ul_host u \<noteq> [] \<and> ul_raw_query u = [] \<and> ul_fragment u = [] \<and> \<not> ul_user u)"

subsection \<open>Nango\<close>

record nango =
  na_base :: bytes
  na_secret :: bytes

definition new_nango :: "parse_host \<Rightarrow> bytes \<Rightarrow> bytes \<Rightarrow> vault_error + nango" where
  "new_nango ph base_url secret =
     (let base = trim_suffix base_url ''/'' in
      if base = [] then Inl (VaultConfig ''BaseURL'')
      else if \<not> usable_base ph [''http'', ''https''] base then Inl (VaultConfig ''BaseURL'')
      else if secret = [] then Inl (VaultConfig ''SecretKey'')
      else Inr \<lparr>na_base = base, na_secret = secret\<rparr>)"

definition nango_store :: "bytes \<Rightarrow> bytes \<Rightarrow> credential \<Rightarrow> vault_error + unit" where
  "nango_store t p c = (case check_args t p of Some e \<Rightarrow> Inl e | None \<Rightarrow> Inl Unsupported)"

record nango_credentials =
  nc_type :: bytes
  nc_access_token :: bytes
  nc_api_key :: bytes
  nc_username :: bytes
  nc_password :: bytes

record nango_connection =
  nd_connection_id :: bytes
  nd_provider :: bytes
  nd_credentials :: nango_credentials

definition into_nango_credentials :: "nango_credentials into" where
  "into_nango_credentials = into_struct
     [(''type'', \<lambda>j c. map_option (\<lambda>s. c\<lparr>nc_type := s\<rparr>) (into_string j (nc_type c))),
      (''access_token'', \<lambda>j c. map_option (\<lambda>s. c\<lparr>nc_access_token := s\<rparr>) (into_string j (nc_access_token c))),
      (''apikey'', \<lambda>j c. map_option (\<lambda>s. c\<lparr>nc_api_key := s\<rparr>) (into_string j (nc_api_key c))),
      (''username'', \<lambda>j c. map_option (\<lambda>s. c\<lparr>nc_username := s\<rparr>) (into_string j (nc_username c))),
      (''password'', \<lambda>j c. map_option (\<lambda>s. c\<lparr>nc_password := s\<rparr>) (into_string j (nc_password c)))]"

definition into_nango :: "nango_connection into" where
  "into_nango = into_struct
     [(''connection_id'', \<lambda>j d. map_option (\<lambda>s. d\<lparr>nd_connection_id := s\<rparr>) (into_string j (nd_connection_id d))),
      (''provider_config_key'', \<lambda>j d. map_option (\<lambda>s. d\<lparr>nd_provider := s\<rparr>) (into_string j (nd_provider d))),
      (''credentials'', \<lambda>j d. map_option (\<lambda>c. d\<lparr>nd_credentials := c\<rparr>) (into_nango_credentials j (nd_credentials d)))]"

definition zero_nango :: nango_connection where
  "zero_nango = \<lparr>nd_connection_id = [], nd_provider = [],
     nd_credentials = \<lparr>nc_type = [], nc_access_token = [], nc_api_key = [], nc_username = [], nc_password = []\<rparr>\<rparr>"

text \<open>\<open>strings.ToUpper\<close>, as far as it can give a word in ASCII: besides the small letters, two runes have a
  capital there.\<close>

definition upper_rune :: "nat \<Rightarrow> nat" where
  "upper_rune r = (if 97 \<le> r \<and> r \<le> 122 then r - 32 else if r = 0x131 then 73 else if r = 0x17F then 83 else r)"

definition is_word :: "bytes \<Rightarrow> bytes \<Rightarrow> bool" where
  "is_word w s \<longleftrightarrow> map upper_rune (runes s) = map ord_of w"

definition nango_credential :: "nango_credentials \<Rightarrow> vault_error + credential" where
  "nango_credential c =
     (let make = \<lambda>fields. map_err (\<lambda>_. Unavailable) (new_credential fields) in
      if is_word ''OAUTH2'' (nc_type c) then make [(''access_token'', nc_access_token c)]
      else if is_word ''API_KEY'' (nc_type c) then make [(''api_key'', nc_api_key c)]
      else if is_word ''BASIC'' (nc_type c) then make [(''password'', nc_password c), (''username'', nc_username c)]
      else Inl Unavailable)"

definition nango_request :: "nango \<Rightarrow> bytes \<Rightarrow> bytes \<Rightarrow> bytes \<Rightarrow> remote_request" where
  "nango_request n verb t p =
     \<lparr>rr_method = verb,
      rr_url = na_base n @ ''/connection/'' @ path_escape t @ ''?'' @ encode_query [(''provider_config_key'', p)],
      rr_authorization = ''Bearer '' @ na_secret n, rr_form = []\<rparr>"

definition nango_do :: "'w remote \<Rightarrow> nango \<Rightarrow> bytes \<Rightarrow> bytes \<Rightarrow> bytes \<Rightarrow> 'w \<Rightarrow> (vault_error + bytes \<times> int) \<times> 'w" where
  "nango_do re n verb t p w =
     (case re_serve re (nango_request n verb t p) w of
        (Answered status body, w') \<Rightarrow> (Inr (take max_remote_response body, status), w')
      | (_, w') \<Rightarrow> (Inl Unavailable, w'))"

definition nango_fetch :: "'w remote \<Rightarrow> nango \<Rightarrow> bytes \<Rightarrow> bytes \<Rightarrow> 'w \<Rightarrow> (vault_error + credential) \<times> 'w" where
  "nango_fetch re n t p w =
     (case check_args t p of
        Some e \<Rightarrow> (Inl e, w)
      | None \<Rightarrow>
     (case nango_do re n ''GET'' t p w of
        (Inl e, w') \<Rightarrow> (Inl e, w')
      | (Inr (body, status), w') \<Rightarrow>
          (if status = 404 then Inl VaultNotFound
           else if status \<noteq> 200 then Inl Unavailable
           else case Option.bind (re_json re body) (\<lambda>j. into_nango j zero_nango) of
             None \<Rightarrow> Inl Unavailable
           | Some doc \<Rightarrow>
               if nd_connection_id doc \<noteq> t \<or> nd_provider doc \<noteq> p then Inl Unavailable
               else nango_credential (nd_credentials doc), w')))"

definition nango_revoke :: "'w remote \<Rightarrow> nango \<Rightarrow> bytes \<Rightarrow> bytes \<Rightarrow> 'w \<Rightarrow> (vault_error + unit) \<times> 'w" where
  "nango_revoke re n t p w =
     (case check_args t p of
        Some e \<Rightarrow> (Inl e, w)
      | None \<Rightarrow>
     (case nango_do re n ''DELETE'' t p w of
        (Inl e, w') \<Rightarrow> (Inl e, w')
      | (Inr (_, status), w') \<Rightarrow>
          (if status = 404 then Inl VaultNotFound
           else if 200 \<le> status \<and> status \<le> 299 then Inr ()
           else Inl Unavailable, w')))"

subsection \<open>Microsoft Graph\<close>

abbreviation default_authority :: bytes where "default_authority \<equiv> ''https://login.microsoftonline.com''"

abbreviation default_scope :: bytes where "default_scope \<equiv> ''https://graph.microsoft.com/.default''"

abbreviation nanos :: int where "nanos \<equiv> 1000000000"

abbreviation leeway :: int where "leeway \<equiv> 300 * nanos"

abbreviation max_lifetime_seconds :: int where "max_lifetime_seconds \<equiv> 86400"

record azure_registration =
  ar_tenant :: bytes
  ar_provider :: bytes
  ar_directory :: bytes
  ar_client_id :: bytes
  ar_client_secret :: bytes
  ar_scope :: bytes

type_synonym azure_key = "bytes \<times> bytes"

text \<open>A cached token, and when it is given up.\<close>

type_synonym azure_token = "bytes \<times> int"

record azure =
  az_apps :: "azure_key \<rightharpoonup> azure_registration"
  az_authority :: bytes
  az_tokens :: "azure_key \<rightharpoonup> azure_token"

definition azure_char :: "char \<Rightarrow> bool" where
  "azure_char c \<longleftrightarrow> is_lower c \<or> is_upper c \<or> is_digit c \<or> c = CHR ''-'' \<or> c = CHR ''.''"

fun two_dots :: "bytes \<Rightarrow> bool" where
  "two_dots (a # b # s) = (a = CHR ''.'' \<and> b = CHR ''.'' \<or> two_dots (b # s))"
| "two_dots _ = False"

definition valid_azure_directory :: "bytes \<Rightarrow> bool" where
  "valid_azure_directory s \<longleftrightarrow>
     s \<noteq> [] \<and> length s \<le> 128 \<and> s \<noteq> ''.'' \<and> s \<noteq> ''..'' \<and> \<not> two_dots s \<and> list_all azure_char s"

definition valid_azure_scope :: "bytes \<Rightarrow> bool" where
  "valid_azure_scope s \<longleftrightarrow> s \<noteq> [] \<and> length s \<le> 256 \<and> list_all (\<lambda>r. r > 32 \<and> r \<noteq> 0x7F) (runes s)"

definition check_registration :: "azure_registration \<Rightarrow> vault_error option" where
  "check_registration a =
     (if ar_directory a = [] \<or> \<not> valid_azure_directory (ar_directory a) then Some (VaultConfig ''Directory'')
      else if ar_client_id a = [] then Some (VaultConfig ''ClientID'')
      else if ar_client_secret a = [] then Some (VaultConfig ''ClientSecret'')
      else if ar_scope a \<noteq> [] \<and> \<not> valid_azure_scope (ar_scope a) then Some (VaultConfig ''Scope'')
      else None)"

fun add_apps :: "azure_registration list \<Rightarrow> (azure_key \<rightharpoonup> azure_registration) \<Rightarrow> vault_error + (azure_key \<rightharpoonup> azure_registration)" where
  "add_apps [] m = Inr m"
| "add_apps (a # as) m =
     (case check_args (ar_tenant a) (ar_provider a) of
        Some e \<Rightarrow> Inl e
      | None \<Rightarrow>
     (case check_registration a of
        Some e \<Rightarrow> Inl e
      | None \<Rightarrow>
          let k = (ar_tenant a, ar_provider a) in
          if m k \<noteq> None then Inl (VaultConfig ''duplicate'')
          else add_apps as (m(k \<mapsto> (if ar_scope a = [] then a\<lparr>ar_scope := default_scope\<rparr> else a)))))"

definition new_azure :: "parse_host \<Rightarrow> azure_registration list \<Rightarrow> bytes \<Rightarrow> vault_error + azure" where
  "new_azure ph regs auth =
     (let auth' = trim_suffix auth ''/''; authority = (if auth' = [] then default_authority else auth') in
      if \<not> usable_base ph [''https''] authority then Inl (VaultConfig ''Authority'')
      else if regs = [] then Inl (VaultConfig ''Apps'')
      else bind_res (add_apps regs Map.empty) (\<lambda>m. Inr \<lparr>az_apps = m, az_authority = authority, az_tokens = Map.empty\<rparr>))"

definition azure_store :: "bytes \<Rightarrow> bytes \<Rightarrow> credential \<Rightarrow> vault_error + unit" where
  "azure_store t p c = (case check_args t p of Some e \<Rightarrow> Inl e | None \<Rightarrow> Inl Unsupported)"

definition azure_revoke :: "bytes \<Rightarrow> bytes \<Rightarrow> vault_error + unit" where
  "azure_revoke t p = (case check_args t p of Some e \<Rightarrow> Inl e | None \<Rightarrow> Inl Unsupported)"

text \<open>A token whose moment is now is given up.\<close>

definition azure_cached :: "int \<Rightarrow> azure_key \<Rightarrow> azure \<Rightarrow> bytes option" where
  "azure_cached now k az =
     (case az_tokens az k of Some (v, expires) \<Rightarrow> if now < expires then Some v else None | None \<Rightarrow> None)"

definition azure_remember :: "int \<Rightarrow> azure_key \<Rightarrow> bytes \<Rightarrow> int \<Rightarrow> azure \<Rightarrow> azure" where
  "azure_remember now k v lifetime az =
     (if lifetime \<le> leeway then az else az\<lparr>az_tokens := (az_tokens az)(k \<mapsto> (v, now + (lifetime - leeway)))\<rparr>)"

record azure_response =
  as_token_type :: bytes
  as_expires_in :: int
  as_access_token :: bytes

definition into_azure :: "azure_response into" where
  "into_azure = into_struct
     [(''token_type'', \<lambda>j r. map_option (\<lambda>s. r\<lparr>as_token_type := s\<rparr>) (into_string j (as_token_type r))),
      (''expires_in'', \<lambda>j r. map_option (\<lambda>n. r\<lparr>as_expires_in := n\<rparr>) (into_int64 j (as_expires_in r))),
      (''access_token'', \<lambda>j r. map_option (\<lambda>s. r\<lparr>as_access_token := s\<rparr>) (into_string j (as_access_token r)))]"

definition azure_request :: "azure \<Rightarrow> azure_registration \<Rightarrow> remote_request" where
  "azure_request az app =
     \<lparr>rr_method = ''POST'', rr_url = az_authority az @ ''/'' @ ar_directory app @ ''/oauth2/v2.0/token'', rr_authorization = [],
      rr_form = encode_query [(''client_id'', ar_client_id app), (''client_secret'', ar_client_secret app),
        (''grant_type'', ''client_credentials''), (''scope'', if ar_scope app = [] then default_scope else ar_scope app)]\<rparr>"

text \<open>The token and its lifetime in nanoseconds.\<close>

definition azure_issue :: "'w remote \<Rightarrow> azure \<Rightarrow> azure_registration \<Rightarrow> 'w \<Rightarrow> (vault_error + bytes \<times> int) \<times> 'w" where
  "azure_issue re az app w =
     (case re_serve re (azure_request az app) w of
        (Answered status body, w') \<Rightarrow>
          (if status \<noteq> 200 then Inl Unavailable
           else case Option.bind (re_json re (take max_remote_response body))
                   (\<lambda>j. into_azure j \<lparr>as_token_type = [], as_expires_in = 0, as_access_token = []\<rparr>) of
             None \<Rightarrow> Inl Unavailable
           | Some doc \<Rightarrow>
               if map fold_rune (runes (as_token_type doc)) \<noteq> map ord_of ''bearer'' then Inl Unavailable
               else if as_expires_in doc \<le> 0 then Inl Unavailable
               else if as_expires_in doc > max_lifetime_seconds then Inl Unavailable
               else Inr (as_access_token doc, as_expires_in doc * nanos), w')
      | (_, w') \<Rightarrow> (Inl Unavailable, w'))"

definition azure_fetch :: "'w remote \<Rightarrow> bytes \<Rightarrow> bytes \<Rightarrow> azure \<times> 'w \<Rightarrow> (vault_error + credential) \<times> azure \<times> 'w" where
  "azure_fetch re t p s =
     (let (az, w) = s in
      case check_args t p of
        Some e \<Rightarrow> (Inl e, az, w)
      | None \<Rightarrow>
     (case az_apps az (t, p) of
        None \<Rightarrow> (Inl VaultNotFound, az, w)
      | Some app \<Rightarrow>
     (case azure_cached (re_clock re w) (t, p) az of
        Some v \<Rightarrow> (new_credential [(''access_token'', v)], az, w)
      | None \<Rightarrow>
     (case azure_issue re az app w of
        (Inl e, w') \<Rightarrow> (Inl e, az, w')
      | (Inr (v, lifetime), w') \<Rightarrow>
          (case new_credential [(''access_token'', v)] of
             Inl _ \<Rightarrow> (Inl Unavailable, az, w')
           | Inr cred \<Rightarrow> (Inr cred, azure_remember (re_clock re w') (t, p) v lifetime az, w'))))))"

end
