(* ===== verification/Remote_Facts.thy ===== *)
theory Remote_Facts
  imports Vault_Remote Vault_Facts
begin

text \<open>
  What the vaults that keep their credentials somewhere else hand out: Nango's only what Nango says of the
  connection that was asked for, and Entra's only tokens that were issued for the same tenant and provider
  and have more than the leeway to live.
\<close>

subsection \<open>Nango\<close>

lemma escape_unreserved:
  assumes "list_all unreserved s"
  shows "path_escape s = s" "query_escape s = s"
  using assms by (induction s) (simp_all add: path_escape_def query_escape_def)

lemma args_unreserved:
  assumes "check_args t p = None"
  shows "list_all unreserved t" "list_all unreserved p"
proof -
  note a = assms [unfolded check_args_None]
  show "list_all unreserved t"
    using a by (auto simp: valid_tenant_def tenant_char_def unreserved_def list_all_iff is_lower_def is_upper_def is_digit_def)
  show "list_all unreserved p"
    using a by (auto simp: valid_provider_key_def valid_name_def unreserved_def list_all_iff split: list.splits)
qed

lemma new_credential_ok: "new_credential fs = Inr c \<Longrightarrow> sorted_wrt (<) (map fst fs) \<Longrightarrow> c = fs \<and> credential_ok c"
  by (auto simp: new_credential_def credential_ok_def split: if_splits)

definition nango_secrets :: "nango_credentials \<Rightarrow> bytes set" where
  "nango_secrets c = {nc_access_token c, nc_api_key c, nc_username c, nc_password c}"

lemma nango_credential_ok:
  assumes "nango_credential d = Inr c"
  shows "credential_ok c \<and> snd ` set c \<subseteq> nango_secrets d"
proof -
  have s: "''password'' < (''username'' :: bytes)" by (simp add: less_char_def)
  obtain fs where "new_credential fs = Inr c" "sorted_wrt (<) (map fst fs)" "snd ` set fs \<subseteq> nango_secrets d"
    using assms s by (auto simp: nango_credential_def Let_def map_err_Inr nango_secrets_def split: if_splits)
  then show ?thesis using new_credential_ok by blast
qed

text \<open>C14: The Nango vault hands out only what was asked for. A credential is the answer to one request, under the
  configured base URL and with the configured key, whose path is the tenant and whose query is the provider;
  the document that answered names this connection and this provider, its secrets are where the
  credential's values come from, and every field has a value that can authenticate something. Nothing is
  ever stored there, and nothing at all is sent for a tenant or a provider that is none.\<close>

theorem nango_hands_out_what_was_asked_for:
  assumes "nango_fetch re n t p w = (r, w')"
  shows "(\<forall>c. r = Inr c \<longrightarrow> credential_ok c \<and>
      (\<exists>body j doc.
        re_serve re \<lparr>rr_method = ''GET'', rr_url = na_base n @ ''/connection/'' @ t @ ''?provider_config_key='' @ p,
          rr_authorization = ''Bearer '' @ na_secret n, rr_form = []\<rparr> w = (Answered 200 body, w') \<and>
        re_json re (take max_remote_response body) = Some j \<and> into_nango j zero_nango = Some doc \<and>
        nd_connection_id doc = t \<and> nd_provider doc = p \<and> snd ` set c \<subseteq> nango_secrets (nd_credentials doc))) \<and>
    (check_args t p \<noteq> None \<longrightarrow> r = Inl InvalidArgument \<and> w' = w) \<and> \<not> is_ok (nango_store t p c0)"
proof -
  have bad: "r = Inl InvalidArgument \<and> w' = w" if "check_args t p \<noteq> None"
    using that assms by (auto simp: nango_fetch_def check_args_def split: if_splits)
  have good: "credential_ok c \<and> (\<exists>body j doc.
        re_serve re \<lparr>rr_method = ''GET'', rr_url = na_base n @ ''/connection/'' @ t @ ''?provider_config_key='' @ p,
          rr_authorization = ''Bearer '' @ na_secret n, rr_form = []\<rparr> w = (Answered 200 body, w') \<and>
        re_json re (take max_remote_response body) = Some j \<and> into_nango j zero_nango = Some doc \<and>
        nd_connection_id doc = t \<and> nd_provider doc = p \<and> snd ` set c \<subseteq> nango_secrets (nd_credentials doc))"
    if c: "r = Inr c" for c
  proof -
    have args: "check_args t p = None" using assms c by (auto simp: nango_fetch_def split: option.splits)
    have req: "nango_request n ''GET'' t p = \<lparr>rr_method = ''GET'', rr_url = na_base n @ ''/connection/'' @ t @ ''?provider_config_key='' @ p,
          rr_authorization = ''Bearer '' @ na_secret n, rr_form = []\<rparr>"
    proof -
      have "query_escape ''provider_config_key'' = ''provider_config_key''"
        by (rule escape_unreserved(2)) (simp add: unreserved_def is_lower_def)
      then show ?thesis using escape_unreserved args_unreserved [OF args] by (simp add: nango_request_def)
    qed
    obtain body doc j where "re_serve re (nango_request n ''GET'' t p) w = (Answered 200 body, w')"
        "re_json re (take max_remote_response body) = Some j" "into_nango j zero_nango = Some doc"
        "nd_connection_id doc = t" "nd_provider doc = p" "nango_credential (nd_credentials doc) = Inr c"
      using assms c args
      by (auto simp: nango_fetch_def nango_do_def split: remote_reply.splits prod.splits sum.splits option.splits if_splits bind_splits)
    then show ?thesis using nango_credential_ok unfolding req by blast
  qed
  show ?thesis using bad good by (auto simp: nango_store_def split: option.splits)
qed

subsection \<open>Microsoft Graph\<close>

text \<open>A token that a fetch had issued: whose it is, what it is, how long it lives and when it came. What a run of
  fetches leaves behind is the vault and the list of the tokens that were issued. Between two fetches the
  world may change in any way.\<close>

definition issued :: "'w remote \<Rightarrow> azure \<Rightarrow> bytes \<Rightarrow> bytes \<Rightarrow> 'w \<Rightarrow> (azure_key \<times> bytes \<times> int \<times> int) list" where
  "issued re az t p w =
     (case (check_args t p, az_apps az (t, p), azure_cached (re_clock re w) (t, p) az) of
        (None, Some app, None) \<Rightarrow>
          (case azure_issue re az app w of (Inr (v, l), w') \<Rightarrow> [((t, p), v, l, re_clock re w')] | _ \<Rightarrow> [])
      | _ \<Rightarrow> [])"

fun azure_calls :: "'w remote \<Rightarrow> (bytes \<times> bytes \<times> 'w) list \<Rightarrow> azure \<Rightarrow> azure \<times> (azure_key \<times> bytes \<times> int \<times> int) list" where
  "azure_calls re [] az = (az, [])"
| "azure_calls re ((t, p, w) # cs) az =
     (let (_, az', _) = azure_fetch re t p (az, w); (az'', l) = azure_calls re cs az' in (az'', issued re az t p w @ l))"

definition lives :: "int \<Rightarrow> bool" where
  "lives l \<longleftrightarrow> 0 < l \<and> l \<le> max_lifetime_seconds * nanos"

definition cache_ok :: "(azure_key \<times> bytes \<times> int \<times> int) list \<Rightarrow> azure \<Rightarrow> bool" where
  "cache_ok log' az \<longleftrightarrow>
     (\<forall>k v e. az_tokens az k = Some (v, e) \<longrightarrow> (\<exists>l came. (k, v, l, came) \<in> set log' \<and> lives l \<and> e = came + (l - leeway)))"

lemma azure_issue_lives: "azure_issue re az app w = (Inr (v, l), w') \<Longrightarrow> lives l"
  by (auto simp: azure_issue_def lives_def split: remote_reply.splits prod.splits option.splits if_splits)

lemma cache_ok_more: "cache_ok log' az \<Longrightarrow> cache_ok (log' @ more') az"
  unfolding cache_ok_def set_append by blast

lemma fetch_keeps_cache:
  assumes "cache_ok log' az" and "azure_fetch re t p (az, w) = (r, az', w')"
  shows "cache_ok (log' @ issued re az t p w) az'"
proof (cases "az' = az")
  case True
  then show ?thesis using cache_ok_more [OF assms(1)] by simp
next
  case False
  then obtain app v l where f: "check_args t p = None" "az_apps az (t, p) = Some app" "azure_cached (re_clock re w) (t, p) az = None"
      "azure_issue re az app w = (Inr (v, l), w')" "az' = azure_remember (re_clock re w') (t, p) v l az"
    using assms(2) by (auto simp: azure_fetch_def split: option.splits sum.splits prod.splits)
  have i: "issued re az t p w = [((t, p), v, l, re_clock re w')]" using f by (simp add: issued_def)
  have az': "az_tokens az' = (az_tokens az)((t, p) \<mapsto> (v, re_clock re w' + (l - leeway)))"
    using f(5) False by (auto simp: azure_remember_def split: if_splits)
  have old: "cache_ok (log' @ issued re az t p w) az" using cache_ok_more [OF assms(1)] .
  show ?thesis unfolding cache_ok_def
  proof (intro allI impI)
    fix k v' e assume t: "az_tokens az' k = Some (v', e)"
    show "\<exists>l came. (k, v', l, came) \<in> set (log' @ issued re az t p w) \<and> lives l \<and> e = came + (l - leeway)"
    proof (cases "k = (t, p)")
      case True
      then show ?thesis using t az' i azure_issue_lives [OF f(4)] by auto
    next
      case False
      then have "az_tokens az k = Some (v', e)" using t az' by simp
      then show ?thesis using old unfolding cache_ok_def by blast
    qed
  qed
qed

lemma calls_keep_cache: "cache_ok log' az \<Longrightarrow> azure_calls re cs az = (az', l) \<Longrightarrow> cache_ok (log' @ l) az'"
proof (induction cs arbitrary: log' az l)
  case (Cons c cs)
  obtain t p w where c: "c = (t, p, w)" by (cases c)
  obtain r az1 w1 where f: "azure_fetch re t p (az, w) = (r, az1, w1)" by (metis surj_pair)
  obtain l' where l: "azure_calls re cs az1 = (az', l')" "l = issued re az t p w @ l'"
    using Cons.prems(2) c f by (auto split: prod.splits)
  show ?case using Cons.IH [OF fetch_keeps_cache [OF Cons.prems(1) f] l(1)] l(2) by simp
qed simp


text \<open>What is sent for a token goes under the registered directory, which is one segment of a path.\<close>

lemma azure_directory_is_a_segment: "check_registration a = None \<Longrightarrow> CHR ''/'' \<notin> set (ar_directory a) \<and> CHR ''?'' \<notin> set (ar_directory a) \<and>
   CHR ''#'' \<notin> set (ar_directory a) \<and> ar_directory a \<notin> {[], ''.'', ''..''}"
  by (auto simp: check_registration_def valid_azure_directory_def list_all_iff azure_char_def is_lower_def is_upper_def is_digit_def
      split: if_splits)

subsection \<open>The two at work\<close>

definition ex_document :: json where
  "ex_document = JObj [(''connection_id'', JStr ''acme''), (''provider_config_key'', JStr ''fake''),
     (''credentials'', JObj [(''type'', JStr ''API_KEY''), (''apiKey'', JStr ''k'')])]"

definition ex_nango_remote :: "unit remote" where
  "ex_nango_remote = \<lparr>re_serve = (\<lambda>_ w. (Answered 200 [], w)), re_clock = (\<lambda>_. 0), re_json = (\<lambda>_. Some ex_document)\<rparr>"

definition ex_nango :: nango where
  "ex_nango = \<lparr>na_base = ''http://nango'', na_secret = ''s''\<rparr>"

lemma ex_nango_names: "same_name ''connection_id'' ''connection_id''" "\<not> same_name ''connection_id'' ''provider_config_key''"
  "same_name ''provider_config_key'' ''provider_config_key''" "\<not> same_name ''connection_id'' ''credentials''"
  "\<not> same_name ''provider_config_key'' ''credentials''" "same_name ''credentials'' ''credentials''" "same_name ''type'' ''type''"
  "\<not> same_name ''type'' ''apiKey''" "\<not> same_name ''access_token'' ''apiKey''" "same_name ''apikey'' ''apiKey''"
  by (simp_all add: same_name_ascii fold_rune_def ord_of_def)

lemma ex_into_nango: "into_nango ex_document zero_nango = Some \<lparr>nd_connection_id = ''acme'', nd_provider = ''fake'',
   nd_credentials = \<lparr>nc_type = ''API_KEY'', nc_access_token = [], nc_api_key = ''k'', nc_username = [], nc_password = []\<rparr>\<rparr>"
  by (simp add: into_nango_def into_nango_credentials_def into_struct_def ex_document_def zero_nango_def ex_nango_names into_string_def)

lemma ex_single: "valid_field_name n \<Longrightarrow> new_credential [(n, ''k'')] = Inr [(n, ''k'')]"
  using ex_value by (simp add: new_credential_def)

lemma ex_field_names: "valid_field_name ''api_key''" "valid_field_name ''access_token''"
  by (simp_all add: valid_field_name_def is_lower_def)

lemma ex_word: "\<not> is_word ''OAUTH2'' ''API_KEY''" "is_word ''API_KEY'' ''API_KEY''"
proof -
  have "runes ''API_KEY'' = [65, 80, 73, 95, 75, 69, 89]" using ascii_runes_eval [of "''API_KEY''"] by (simp add: ord_of_def)
  then show "\<not> is_word ''OAUTH2'' ''API_KEY''" "is_word ''API_KEY'' ''API_KEY''"
    by (simp_all add: is_word_def upper_rune_def ord_of_def)
qed

theorem nango_hands_out_what_was_asked_for_witness:
  "nango_fetch ex_nango_remote ex_nango ''acme'' ''fake'' () = (Inr [(''api_key'', ''k'')], ()) \<and> credential_ok [(''api_key'', ''k'')]"
proof -
  have f: "nango_fetch ex_nango_remote ex_nango ''acme'' ''fake'' () = (Inr [(''api_key'', ''k'')], ())"
    using ex_single [OF ex_field_names(1)]
    by (simp add: nango_fetch_def nango_do_def ex_args ex_nango_remote_def ex_into_nango nango_credential_def ex_word Let_def)
  from nango_hands_out_what_was_asked_for [OF this] show ?thesis using f by blast
qed

definition ex_token_tree :: json where
  "ex_token_tree = JObj [(''token_type'', JStr ''Bearer''), (''expires_in'', JNum ''3600''), (''access_token'', JStr ''k'')]"

definition ex_azure_remote :: "int remote" where
  "ex_azure_remote = \<lparr>re_serve = (\<lambda>_ w. (Answered 200 [], w + 1)), re_clock = (\<lambda>w. w), re_json = (\<lambda>_. Some ex_token_tree)\<rparr>"

definition ex_registration :: azure_registration where
  "ex_registration = \<lparr>ar_tenant = ''acme'', ar_provider = ''fake'', ar_directory = ''acme.example'', ar_client_id = ''id'',
     ar_client_secret = ''s'', ar_scope = ''s''\<rparr>"

definition ex_azure :: azure where
  "ex_azure = \<lparr>az_apps = [(''acme'', ''fake'') \<mapsto> ex_registration], az_authority = ''https://login.example'', az_tokens = Map.empty\<rparr>"

lemma ex_new_azure: "new_azure (\<lambda>_ a. Some a) [ex_registration] ''https://login.example/'' = Inr ex_azure"
proof -
  have u: "usable_base (\<lambda>_ a. Some a) [''https''] ''https://login.example''" by code_simp
  have "valid_azure_directory ''acme.example''" by code_simp
  moreover have "valid_azure_scope ''s''"
    using ascii_runes_eval [of "''s''"] by (simp add: valid_azure_scope_def ord_of_def)
  ultimately show ?thesis
    using u by (simp add: new_azure_def trim_suffix_def ex_registration_def ex_args check_registration_def ex_azure_def)
qed

lemma ex_azure_issue: "azure_issue ex_azure_remote az app w = (Inr (''k'', 3600 * nanos), w + 1)"
proof -
  have n: "same_name ''token_type'' ''token_type''" "\<not> same_name ''token_type'' ''expires_in''" "same_name ''expires_in'' ''expires_in''"
    "\<not> same_name ''token_type'' ''access_token''" "\<not> same_name ''expires_in'' ''access_token''" "same_name ''access_token'' ''access_token''"
    by (simp_all add: same_name_ascii fold_rune_def ord_of_def)
  have i: "parse_int64 ''3600'' = Some 3600" by (simp add: parse_int64_def decimal_value_def is_digit_def ord_of_def)
  have b: "map fold_rune (runes ''Bearer'') = map ord_of ''bearer''"
    using ascii_runes_eval [of "''Bearer''"] by (simp add: fold_rune_def ord_of_def)
  have t: "into_azure ex_token_tree \<lparr>as_token_type = [], as_expires_in = 0, as_access_token = []\<rparr> =
      Some \<lparr>as_token_type = ''Bearer'', as_expires_in = 3600, as_access_token = ''k''\<rparr>"
    by (simp add: into_azure_def into_struct_def ex_token_tree_def n into_string_def into_int64_def i)
  show ?thesis using b by (simp add: azure_issue_def ex_azure_remote_def t del: runes.simps)
qed


end
