(* ===== verification/Master_Key.thy ===== *)
theory Master_Key
  imports Versions Trim Record_Decode
begin

text \<open>
  internal/config/vaultkey.go: the vault's master key as it arrives from the environment. It has one
  spelling, and however a key is printed, what is printed depends on where it came from and not on
  what it is. The bytes of a generated key are an argument.
\<close>

subsection \<open>The key\<close>

abbreviation key_len :: nat where "key_len \<equiv> 32"

record master_key =
  mk_key :: bytes
  mk_set :: bool
  mk_generated :: bool

datatype key_error = KeyEmpty | KeyWhitespace | KeyEncoding | KeyLength nat

definition no_key :: master_key where
  "no_key = \<lparr>mk_key = replicate key_len (CHR 0x00), mk_set = False, mk_generated = False\<rparr>"

text \<open>\<open>base64.StdEncoding.Strict()\<close> on a text without line breaks: the bits of the last character that are
  not used have to be zero.\<close>

fun unused_bits_zero :: "bytes \<Rightarrow> bool" where
  "unused_bits_zero [a, b, c, d] =
     (if d \<noteq> CHR ''='' then True
      else if c = CHR ''='' then (case b64_val b of Some v \<Rightarrow> v mod 16 = 0 | None \<Rightarrow> False)
      else (case b64_val c of Some v \<Rightarrow> v mod 4 = 0 | None \<Rightarrow> False))"
| "unused_bits_zero (a # b # c # d # rest) = unused_bits_zero rest"
| "unused_bits_zero _ = True"

definition b64_strict :: "bytes \<Rightarrow> bytes option" where
  "b64_strict s = (case b64_decode True s of None \<Rightarrow> None | Some raw \<Rightarrow> if unused_bits_zero s then Some raw else None)"

definition parse_master_key :: "bytes \<Rightarrow> key_error + master_key" where
  "parse_master_key encoded =
     (if encoded = [] then Inl KeyEmpty
      else if list_ex space_rune (runes encoded) then Inl KeyWhitespace
      else case b64_strict encoded of
        None \<Rightarrow> Inl KeyEncoding
      | Some raw \<Rightarrow>
          if length raw \<noteq> key_len then Inl (KeyLength (length raw))
          else Inr \<lparr>mk_key = raw, mk_set = True, mk_generated = False\<rparr>)"

definition generated_master_key :: "bytes \<Rightarrow> master_key" where
  "generated_master_key random = \<lparr>mk_key = random, mk_set = True, mk_generated = True\<rparr>"

definition key_is_zero :: "master_key \<Rightarrow> bool" where
  "key_is_zero k \<longleftrightarrow> \<not> mk_set k"

definition key_bytes :: "master_key \<Rightarrow> bytes option" where
  "key_bytes k = (if \<not> mk_set k then None else Some (mk_key k))"

definition key_state :: "master_key \<Rightarrow> bytes" where
  "key_state k =
     (if \<not> mk_set k then ''none''
      else if mk_generated k then ''generated for development, and gone when this process ends''
      else ''configured'')"

definition key_string :: "master_key \<Rightarrow> bytes" where
  "key_string k = ''['' @ key_state k @ '']''"

definition key_go_string :: "master_key \<Rightarrow> bytes" where
  "key_go_string k = ''config.MasterKey{'' @ key_state k @ ''}''"

lemma parsed_key:
  assumes "parse_master_key s = Inr k"
  shows "\<not> mk_generated k" "mk_set k" "length (mk_key k) = key_len"
  using assms by (auto simp: parse_master_key_def split: if_splits option.splits)

subsection \<open>One spelling\<close>

definition b64_num :: "nat \<Rightarrow> nat option" where
  "b64_num n = (if 65 \<le> n \<and> n \<le> 90 then Some (n - 65) else if 97 \<le> n \<and> n \<le> 122 then Some (n - 71)
     else if 48 \<le> n \<and> n \<le> 57 then Some (n + 4) else if n = 43 then Some 62 else if n = 47 then Some 63 else None)"

lemma char_eq_ord: "c = d \<longleftrightarrow> ord_of c = ord_of d"
  using ord_of_inj by blast

lemma b64_val_num: "b64_val c = b64_num (ord_of c)"
proof -
  have o: "ord_of (CHR ''A'') = 65" "ord_of (CHR ''Z'') = 90" "ord_of (CHR ''a'') = 97" "ord_of (CHR ''z'') = 122"
    "ord_of (CHR ''0'') = 48" "ord_of (CHR ''9'') = 57" "ord_of (CHR ''+'') = 43" "ord_of (CHR ''/'') = 47"
    by (simp_all add: ord_of_def)
  show ?thesis by (simp only: b64_val_def b64_num_def is_upper_def is_lower_def is_digit_def char_le_ord char_eq_ord o)
qed

lemma b64_num_bound: "b64_num n = Some v \<Longrightarrow> v < 64"
  by (simp add: b64_num_def split: if_splits)

definition b64_back :: "nat \<Rightarrow> nat" where
  "b64_back v = (if v < 26 then v + 65 else if v < 52 then v + 71 else if v < 62 then v - 4 else if v = 62 then 43 else 47)"

lemma b64_num_back: "b64_num n = Some v \<Longrightarrow> b64_back v = n"
  by (auto simp: b64_num_def b64_back_def split: if_splits)

lemma b64_num_inj: "b64_num m = Some v \<Longrightarrow> b64_num n = Some v \<Longrightarrow> m = n"
  by (drule b64_num_back, drule b64_num_back) simp

lemma b64_val_bound: "b64_val c = Some v \<Longrightarrow> v < 64"
  by (simp add: b64_val_num b64_num_bound)

lemma b64_val_inj: "b64_val a = Some v \<Longrightarrow> b64_val b = Some v \<Longrightarrow> a = b"
  unfolding b64_val_num by (rule ord_of_inj) (rule b64_num_inj)

lemma b64_val_pad [simp]: "b64_val (CHR ''='') = None"
  by (simp add: b64_val_num b64_num_def) (simp add: ord_of_def)

lemma char_of_same: "char_of m = (char_of n :: char) \<Longrightarrow> m < 256 \<Longrightarrow> n < 256 \<Longrightarrow> m = (n :: nat)"
  by (metis ord_of_char_of)

lemma char_of_parts:
  assumes "char_of (x * k + r) = (char_of (x' * k + r') :: char)" "x * k + r < 256" "x' * k + r' < 256" "r < k" "r' < (k :: nat)"
  shows "x = x' \<and> r = r'"
proof -
  have e: "x * k + r = x' * k + r'" by (rule char_of_same [OF assms(1-3)])
  have "(x * k + r) div k = x" "(x' * k + r') div k = x'" using assms(4,5) by simp_all
  then have "x = x'" using e by metis
  then show ?thesis using e by simp
qed

lemma first_byte:
  assumes "char_of (a * 4 + b div 16) = (char_of (a' * 4 + b' div 16) :: char)" "a < 64" "b < 64" "a' < 64" "b' < (64 :: nat)"
  shows "a = a' \<and> b div 16 = b' div 16"
proof (rule char_of_parts [OF assms(1)])
  show r: "b div 16 < 4" "b' div 16 < 4" using assms(3,5) by (simp_all add: less_mult_imp_div_less)
  show "a * 4 + b div 16 < 256" "a' * 4 + b' div 16 < 256" using assms(2,4) r by linarith+
qed

lemma second_byte:
  assumes "char_of (b mod 16 * 16 + c div 4) = (char_of (b' mod 16 * 16 + c' div 4) :: char)" "c < 64" "c' < (64 :: nat)"
  shows "b mod 16 = b' mod 16 \<and> c div 4 = c' div 4"
proof (rule char_of_parts [OF assms(1)])
  show r: "c div 4 < 16" "c' div 4 < 16" using assms(2,3) by (simp_all add: less_mult_imp_div_less)
  have "b mod 16 < 16" "b' mod 16 < 16" by simp_all
  then show "b mod 16 * 16 + c div 4 < 256" "b' mod 16 * 16 + c' div 4 < 256" using r by linarith+
qed

lemma third_byte:
  assumes "char_of (c mod 4 * 64 + d) = (char_of (c' mod 4 * 64 + d') :: char)" "d < 64" "d' < (64 :: nat)"
  shows "c mod 4 = c' mod 4 \<and> d = d'"
proof (rule char_of_parts [OF assms(1)])
  have "c mod 4 < 4" "c' mod 4 < 4" by simp_all
  then show "c mod 4 * 64 + d < 256" "c' mod 4 * 64 + d' < 256" using assms(2,3) by linarith+
qed (use assms(2,3) in simp_all)

lemma div_mod_same: "a div n = b div n \<Longrightarrow> a mod n = b mod n \<Longrightarrow> a = (b :: nat)"
  by (metis div_mult_mod_eq)

text \<open>What one group of four characters stands for: its bytes, and whether it has to be the last.\<close>

definition b64_group :: "char \<Rightarrow> char \<Rightarrow> char \<Rightarrow> char \<Rightarrow> (bytes \<times> bool) option" where
  "b64_group a b c d =
     (case (b64_val a, b64_val b) of
        (Some va, Some vb) \<Rightarrow>
          if d = CHR ''='' then
            (if c = CHR ''='' then (if vb mod 16 = 0 then Some (b64_two va vb, True) else None)
             else case b64_val c of Some vc \<Rightarrow> if vc mod 4 = 0 then Some (b64_three va vb vc, True) else None | None \<Rightarrow> None)
          else (case (b64_val c, b64_val d) of (Some vc, Some vd) \<Rightarrow> Some (b64_four va vb vc vd, False) | _ \<Rightarrow> None)
      | _ \<Rightarrow> None)"

lemma group_cases:
  assumes "b64_group a b c d = Some (bs, l)"
  obtains va vb where "b64_val a = Some va" "b64_val b = Some vb" "c = CHR ''=''" "d = CHR ''=''" "vb mod 16 = 0"
      "bs = b64_two va vb" "l"
  | va vb vc where "b64_val a = Some va" "b64_val b = Some vb" "b64_val c = Some vc" "d = CHR ''=''" "vc mod 4 = 0"
      "bs = b64_three va vb vc" "l"
  | va vb vc vd where "b64_val a = Some va" "b64_val b = Some vb" "b64_val c = Some vc" "b64_val d = Some vd"
      "bs = b64_four va vb vc vd" "\<not> l"
  using assms unfolding b64_group_def by (auto split: option.splits if_splits)

lemma group_inj:
  assumes g: "b64_group a b c d = Some (bs, l)" and g': "b64_group a' b' c' d' = Some (bs, l')"
  shows "a = a' \<and> b = b' \<and> c = c' \<and> d = d' \<and> l' = l"
  using g
proof (cases rule: group_cases)
  case (1 va vb)
  note one = this
  show ?thesis using g'
  proof (cases rule: group_cases)
    case (1 va' vb')
    have "va = va' \<and> vb div 16 = vb' div 16"
      using one(6) 1(6) by (intro first_byte b64_val_bound [OF one(1)] b64_val_bound [OF one(2)] b64_val_bound [OF 1(1)] b64_val_bound [OF 1(2)])
        (simp add: b64_two_def)
    then have "va = va'" "vb = vb'" using one(5) 1(5) div_mod_same [of vb 16 vb'] by simp_all
    then show ?thesis using one 1 b64_val_inj by blast
  qed (use one in \<open>simp_all add: b64_two_def b64_three_def b64_four_def\<close>)
next
  case (2 va vb vc)
  note two = this
  show ?thesis using g'
  proof (cases rule: group_cases)
    case (2 va' vb' vc')
    have "va = va' \<and> vb div 16 = vb' div 16"
      using two(6) 2(6) by (intro first_byte b64_val_bound [OF two(1)] b64_val_bound [OF two(2)] b64_val_bound [OF 2(1)] b64_val_bound [OF 2(2)])
        (simp add: b64_three_def)
    moreover have "vb mod 16 = vb' mod 16 \<and> vc div 4 = vc' div 4"
      using two(6) 2(6) by (intro second_byte b64_val_bound [OF two(3)] b64_val_bound [OF 2(3)]) (simp add: b64_three_def)
    ultimately have "va = va'" "vb = vb'" "vc = vc'"
      using two(5) 2(5) div_mod_same [of vb 16 vb'] div_mod_same [of vc 4 vc'] by simp_all
    then show ?thesis using two 2 b64_val_inj by blast
  qed (use two in \<open>simp_all add: b64_two_def b64_three_def b64_four_def\<close>)
next
  case (3 va vb vc vd)
  note three = this
  show ?thesis using g'
  proof (cases rule: group_cases)
    case (3 va' vb' vc' vd')
    have "va = va' \<and> vb div 16 = vb' div 16"
      using three(5) 3(5) by (intro first_byte b64_val_bound [OF three(1)] b64_val_bound [OF three(2)] b64_val_bound [OF 3(1)] b64_val_bound [OF 3(2)])
        (simp add: b64_four_def)
    moreover have "vb mod 16 = vb' mod 16 \<and> vc div 4 = vc' div 4"
      using three(5) 3(5) by (intro second_byte b64_val_bound [OF three(3)] b64_val_bound [OF 3(3)]) (simp add: b64_four_def)
    moreover have "vc mod 4 = vc' mod 4 \<and> vd = vd'"
      using three(5) 3(5) by (intro third_byte b64_val_bound [OF three(4)] b64_val_bound [OF 3(4)]) (simp add: b64_four_def)
    ultimately have "va = va'" "vb = vb'" "vc = vc'" "vd = vd'"
      using div_mod_same [of vb 16 vb'] div_mod_same [of vc 4 vc'] by simp_all
    then show ?thesis using three 3 b64_val_inj by blast
  qed (use three in \<open>simp_all add: b64_two_def b64_three_def b64_four_def\<close>)
qed

lemma unused_bits_step: "rest \<noteq> [] \<Longrightarrow> unused_bits_zero (a # b # c # d # rest) = unused_bits_zero rest"
  by (cases rest) simp_all

lemma strict_step:
  "b64_strict (a # b # c # d # rest) = Some bs \<longleftrightarrow>
     (\<exists>g l t. b64_group a b c d = Some (g, l) \<and> bs = g @ t \<and> (if l then rest = [] \<and> t = [] else b64_strict rest = Some t))"
proof (cases "rest = []")
  case True
  then show ?thesis unfolding b64_strict_def b64_group_def
    by (cases "b64_val a"; cases "b64_val b"; cases "b64_val c"; cases "b64_val d") (auto split: if_splits)
next
  case False
  have dec: "b64_strict (a # b # c # d # rest) =
      (case (b64_val a, b64_val b, b64_val c, b64_val d) of
         (Some va, Some vb, Some vc, Some vd) \<Rightarrow> map_option ((@) (b64_four va vb vc vd)) (b64_strict rest) | _ \<Rightarrow> None)"
    unfolding b64_strict_def unused_bits_step [OF False] using False
    by (cases "b64_val a"; cases "b64_val b"; cases "b64_val c"; cases "b64_val d"; cases "b64_decode True rest") simp_all
  show ?thesis
  proof
    assume "b64_strict (a # b # c # d # rest) = Some bs"
    then obtain va vb vc vd t where v: "b64_val a = Some va" "b64_val b = Some vb" "b64_val c = Some vc" "b64_val d = Some vd"
        "b64_strict rest = Some t" "bs = b64_four va vb vc vd @ t"
      unfolding dec by (auto split: option.splits)
    have "d \<noteq> CHR ''=''" using v(4) by auto
    then have "b64_group a b c d = Some (b64_four va vb vc vd, False)" using v by (simp add: b64_group_def)
    then show "\<exists>g l t. b64_group a b c d = Some (g, l) \<and> bs = g @ t \<and> (if l then rest = [] \<and> t = [] else b64_strict rest = Some t)"
      using v(5,6) by auto
  next
    assume "\<exists>g l t. b64_group a b c d = Some (g, l) \<and> bs = g @ t \<and> (if l then rest = [] \<and> t = [] else b64_strict rest = Some t)"
    then obtain g l t where "b64_group a b c d = Some (g, l)" "bs = g @ t" "if l then rest = [] \<and> t = [] else b64_strict rest = Some t"
      by blast
    then have "b64_group a b c d = Some (g, False)" "bs = g @ t" "b64_strict rest = Some t" using False by (auto split: if_splits)
    then show "b64_strict (a # b # c # d # rest) = Some bs" unfolding dec by (elim group_cases) simp_all
  qed
qed

lemma strict_short: "b64_strict [] = Some []" "b64_strict [a] = None" "b64_strict [a, b] = None" "b64_strict [a, b, c] = None"
  by (simp_all add: b64_strict_def split: option.splits)

lemma strict_cases:
  assumes "b64_strict s = Some bs"
  obtains "s = []" "bs = []" | a b c d rest g l t where "s = a # b # c # d # rest" "b64_group a b c d = Some (g, l)" "bs = g @ t"
     "if l then rest = [] \<and> t = [] else b64_strict rest = Some t"
proof -
  consider "s = []" | a where "s = [a]" | a b where "s = [a, b]" | a b c where "s = [a, b, c]" | a b c d rest where "s = a # b # c # d # rest"
    by (metis list.exhaust)
  then show thesis
  proof cases
    case 1
    then show ?thesis using assms that(1) by (simp add: strict_short)
  next
    case 5
    then show ?thesis using assms that(2) by (metis strict_step)
  qed (use assms strict_short in auto)
qed

lemma group_length: "b64_group a b c d = Some (g, l) \<Longrightarrow> g \<noteq> [] \<and> (if l then length g < 3 else length g = 3)"
  by (erule group_cases) (simp_all add: b64_two_def b64_three_def b64_four_def)

lemma strict_inj: "b64_strict s = Some bs \<Longrightarrow> b64_strict s' = Some bs \<Longrightarrow> s' = s"
proof (induction "length s" arbitrary: s s' bs rule: less_induct)
  case less
  show ?case using less.prems(1)
  proof (cases rule: strict_cases)
    case 1
    show ?thesis using less.prems(2) by (cases rule: strict_cases) (use 1 group_length in auto)
  next
    case (2 a b c d rest g l t)
    note one = this
    show ?thesis using less.prems(2)
    proof (cases rule: strict_cases)
      case 1
      then show ?thesis using one group_length by auto
    next
      case (2 a' b' c' d' rest' g' l' t')
      have len: "if l then length g < 3 else length g = 3" "if l' then length g' < 3 else length g' = 3"
        using group_length one(2) 2(2) by blast+
      have app: "g @ t = g' @ t'" using one(3) 2(3) by simp
      have g: "g' = g \<and> l' = l \<and> t' = t"
      proof (cases "l \<or> l'")
        case True
        have "l \<Longrightarrow> t = []" "l' \<Longrightarrow> t' = []" using one(4) 2(4) by auto
        then have "l' = l" using True len arg_cong [OF app, of length] by (auto split: if_splits)
        then show ?thesis using True app \<open>l \<Longrightarrow> t = []\<close> \<open>l' \<Longrightarrow> t' = []\<close> by auto
      next
        case False
        then show ?thesis using len app by simp
      qed
      have "a' = a \<and> b' = b \<and> c' = c \<and> d' = d" using group_inj one(2) 2(2) g by blast
      moreover have "rest' = rest"
      proof (cases l)
        case True
        then show ?thesis using one(4) 2(4) g by simp
      next
        case False
        then show ?thesis using less.hyps [of rest t rest'] one 2(4) g by simp
      qed
      ultimately show ?thesis using one(1) 2(1) by simp
    qed
  qed
qed

subsection \<open>The spelling\<close>

definition b64_char :: "nat \<Rightarrow> char" where
  "b64_char n = char_of (b64_back n)"

fun b64_encode :: "bytes \<Rightarrow> bytes" where
  "b64_encode [] = []"
| "b64_encode [x] = [b64_char (ord_of x div 4), b64_char (ord_of x mod 4 * 16), CHR ''='', CHR ''='']"
| "b64_encode [x, y] = [b64_char (ord_of x div 4), b64_char (ord_of x mod 4 * 16 + ord_of y div 16), b64_char (ord_of y mod 16 * 4), CHR ''='']"
| "b64_encode (x # y # z # s) = [b64_char (ord_of x div 4), b64_char (ord_of x mod 4 * 16 + ord_of y div 16),
     b64_char (ord_of y mod 16 * 4 + ord_of z div 64), b64_char (ord_of z mod 64)] @ b64_encode s"

lemma b64_num_of_back: "n < 64 \<Longrightarrow> b64_num (b64_back n) = Some n"
  by (auto simp: b64_num_def b64_back_def)

lemma b64_char_val: "n < 64 \<Longrightarrow> b64_val (b64_char n) = Some n"
proof -
  assume n: "n < 64"
  then have "b64_back n < 256" by (auto simp: b64_back_def)
  then show ?thesis using b64_num_of_back [OF n] by (simp add: b64_val_num b64_char_def ord_of_char_of)
qed

lemma b64_char_not_pad: "n < 64 \<Longrightarrow> b64_char n \<noteq> CHR ''=''"
  using b64_char_val b64_val_pad by force

lemma byte_parts: "ord_of x div 4 < 64" "ord_of x mod 4 * 16 + ord_of y div 16 < 64" "ord_of y mod 16 * 4 + ord_of z div 64 < 64"
proof -
  note l = ord_of_less [of x] ord_of_less [of y] ord_of_less [of z]
  show "ord_of x div 4 < 64" "ord_of x mod 4 * 16 + ord_of y div 16 < 64" "ord_of y mod 16 * 4 + ord_of z div 64 < 64"
    using l by linarith+
qed

lemma byte_parts_short: "ord_of x mod 4 * 16 < 64" "ord_of y mod 16 * 4 < 64" "ord_of z mod 64 < 64"
  by linarith+

lemma low_part: "r < k \<Longrightarrow> (m * k + r) div k = m \<and> (m * k + r) mod k = (r :: nat)"
  by simp

lemma quotients: "ord_of y div 16 < 16" "ord_of z div 64 < 4"
  using ord_of_less [of y] ord_of_less [of z] by linarith+

lemma join_first: "ord_of x div 4 * 4 + (ord_of x mod 4 * 16 + ord_of y div 16) div 16 = ord_of x"
  by (simp only: low_part [OF quotients(1)] div_mult_mod_eq)

lemma join_second: "(ord_of x mod 4 * 16 + ord_of y div 16) mod 16 * 16 + (ord_of y mod 16 * 4 + ord_of z div 64) div 4 = ord_of y"
  by (simp only: low_part [OF quotients(1)] low_part [OF quotients(2)] div_mult_mod_eq)

lemma join_third: "(ord_of y mod 16 * 4 + ord_of z div 64) mod 4 * 64 + ord_of z mod 64 = ord_of z"
  by (simp only: low_part [OF quotients(2)] div_mult_mod_eq)

lemma strict_encode: "b64_strict (b64_encode s) = Some s"
proof (induction s rule: b64_encode.induct)
  case (2 x)
  have "b64_group (b64_char (ord_of x div 4)) (b64_char (ord_of x mod 4 * 16)) (CHR ''='') (CHR ''='') = Some ([x], True)"
    using byte_parts(1) [of x] byte_parts_short(1) [of x] by (simp add: b64_group_def b64_char_val b64_two_def)
  then show ?case by (auto simp: strict_step)
next
  case (3 x y)
  have "b64_group (b64_char (ord_of x div 4)) (b64_char (ord_of x mod 4 * 16 + ord_of y div 16)) (b64_char (ord_of y mod 16 * 4)) (CHR ''='') = Some ([x, y], True)"
    using byte_parts(1) [of x] byte_parts(2) [of x y] byte_parts_short(2) [of y] join_first [of x y]
    by (simp add: b64_group_def b64_char_val b64_char_not_pad b64_three_def)
  then show ?case by (auto simp: strict_step)
next
  case (4 x y z s)
  have "b64_group (b64_char (ord_of x div 4)) (b64_char (ord_of x mod 4 * 16 + ord_of y div 16))
      (b64_char (ord_of y mod 16 * 4 + ord_of z div 64)) (b64_char (ord_of z mod 64)) = Some ([x, y, z], False)"
    using byte_parts(1) [of x] byte_parts(2) [of x y] byte_parts(3) [of y z] byte_parts_short(3) [of z] join_first [of x y] join_second [of x y z] join_third [of y z]
    by (simp add: b64_group_def b64_char_val b64_char_not_pad b64_four_def)
  then show ?case using 4 by (auto simp: strict_step)
qed (simp add: strict_short)

lemma b64_strict_iff: "b64_strict s = Some raw \<longleftrightarrow> s = b64_encode raw"
  using strict_encode strict_inj by blast

lemma b64_encode_eq: "b64_encode a = b64_encode b \<longleftrightarrow> a = b"
  by (metis strict_encode option.inject)

definition b64_text :: "char \<Rightarrow> bool" where
  "b64_text c \<longleftrightarrow> 32 < ord_of c \<and> ord_of c < 128"

lemma b64_char_text: "n < 64 \<Longrightarrow> b64_text (b64_char n)"
proof -
  assume "n < 64"
  then have "32 < b64_back n" "b64_back n < 128" by (auto simp: b64_back_def)
  then show ?thesis by (simp add: b64_text_def b64_char_def ord_of_char_of)
qed

lemma b64_encode_text: "list_all b64_text (b64_encode s)"
proof -
  have "b64_text (CHR ''='')" by (simp add: b64_text_def ord_of_def)
  then show ?thesis
    using byte_parts byte_parts_short by (induction s rule: b64_encode.induct) (simp_all add: b64_char_text)
qed

lemma b64_encode_length: "length (b64_encode s) = (length s + 2) div 3 * 4"
proof (induction s rule: b64_encode.induct)
  case (4 x y z s)
  have "length (x # y # z # s) + 2 = length s + 2 + 1 * 3" by simp
  then have "(length (x # y # z # s) + 2) div 3 = (length s + 2) div 3 + 1" by (simp only: div_mult_self1)
  then show ?case using 4 by simp
qed simp_all

lemma b64_text_no_space: "list_all b64_text s \<Longrightarrow> \<not> list_ex space_rune (runes s)"
proof -
  assume t: "list_all b64_text s"
  then have "list_all (\<lambda>c. ord_of c < 128) s" by (simp add: b64_text_def list_all_iff)
  then have r: "runes s = map ord_of s" by (simp add: ascii_runes_eval)
  have "b64_text c \<Longrightarrow> \<not> space_rune (ord_of c)" for c by (auto simp: b64_text_def space_rune_def)
  then show ?thesis unfolding r using t by (auto simp: list_all_iff list_ex_iff)
qed

lemma parse_master_key_iff:
  "parse_master_key s = Inr k \<longleftrightarrow>
     (\<exists>raw. length raw = key_len \<and> s = b64_encode raw \<and> length s = 44 \<and> k = \<lparr>mk_key = raw, mk_set = True, mk_generated = False\<rparr>)"
proof -
  have "s \<noteq> [] \<and> \<not> list_ex space_rune (runes s)" if "s = b64_encode raw" "length raw = key_len" for raw
    using that b64_text_no_space [OF b64_encode_text [of raw]] b64_encode_length [of raw] by auto
  moreover have "length (b64_encode raw) = 44" if "length raw = key_len" for raw using that by (simp add: b64_encode_length)
  ultimately show ?thesis
    by (cases "b64_strict s") (auto simp: parse_master_key_def b64_strict_iff strict_encode b64_encode_eq)
qed

text \<open>C13: \<open>ParseMasterKey\<close> accepts exactly the standard base64 of 32 bytes, which is 44 characters, and gives
  those bytes back. So every key can be configured and has one spelling: no value in the environment
  can be read as a key in two ways, and no two values are the same key.\<close>

theorem master_key_has_one_spelling:
  "parse_master_key s = Inr k \<longleftrightarrow>
     (\<exists>raw. length raw = key_len \<and> s = b64_encode raw \<and> length s = 44 \<and> k = \<lparr>mk_key = raw, mk_set = True, mk_generated = False\<rparr>)"
  by (rule parse_master_key_iff)

end
