(* ===== verification/Config_Facts.thy ===== *)
theory Config_Facts
  imports Config Vault
begin

text \<open>
  What a configuration that loads is worth: the base URL is a fixed point of its own normalisation,
  production gets nothing that was made up, nothing secret is printed, and the key is one the vault
  takes unless it is all zeros.
\<close>

subsection \<open>The base URL\<close>

text \<open>What is asked of the reader of hosts: a host that comes out as plain text is made of the bytes it was
  read from and reads back as itself.\<close>

definition plain_host :: "bytes \<Rightarrow> bool" where
  "plain_host h \<longleftrightarrow> list_all (\<lambda>c. ord_of c < 0x80 \<and> c \<noteq> CHR ''%'') h"

definition plain_host_law :: "parse_host \<Rightarrow> bool" where
  "plain_host_law ph \<longleftrightarrow> (\<forall>scheme a h. ph scheme a = Some h \<longrightarrow> plain_host h \<longrightarrow> set h \<subseteq> set a \<and> ph scheme h = Some h)"

lemma trim_right_same: "trim_right c s = s \<or> s \<noteq> [] \<and> last s = c"
  by (induction s rule: rev_induct) (auto simp: trim_right_def)

lemma trim_right_last: "trim_right c s = [] \<or> last (trim_right c s) \<noteq> c"
proof -
  have "trim_left c t = [] \<or> hd (trim_left c t) \<noteq> c" for t by (induction t) auto
  then show ?thesis by (simp add: trim_right_def last_rev)
qed

lemma trim_right_twice: "trim_right c (trim_right c s) = trim_right c s"
  using trim_right_same [of c "trim_right c s"] trim_right_last [of c s] by auto

lemma trim_right_prefix: "\<exists>t. s = trim_right c s @ t"
  using trim_left_suffix [of "rev s" c] unfolding trim_right_def by (metis rev_append rev_rev_ident)

lemma normalized_parts:
  assumes law: "plain_host_law ph" and n: "normalize_public_base_url ph raw = Inr s"
  shows "\<exists>scheme host p. s = scheme @ ''://'' @ host @ p \<and> web_scheme scheme \<and> host_text host \<and> ph scheme host = Some host \<and>
     hostname host \<noteq> [] \<and> last host \<noteq> CHR '':'' \<and> plain_host host \<and> list_all plain_path_char p \<and> (p = [] \<or> hd p = CHR ''/'') \<and>
     trim_right (CHR ''/'') p = p \<and> (p \<noteq> [] \<longrightarrow> path_clean p = p)"
proof -
  obtain u where u: "url_parse ph raw = Some u" using n by (auto simp: normalize_public_base_url_def split: option.splits)
  let ?p = "trim_right (CHR ''/'') (ul_path u)"
  have c: "web_scheme (ul_scheme u)" "hostname (ul_host u) \<noteq> []" "last (ul_host u) \<noteq> CHR '':''" "plain_host (ul_host u)" "\<not> ul_user u"
      "escaped_path u = ul_path u" "?p \<noteq> [] \<longrightarrow> path_clean ?p = ?p" "s = ul_scheme u @ ''://'' @ ul_host u @ ?p"
    using n u by (auto simp: normalize_public_base_url_def web_scheme_def plain_host_def list_all_iff list_ex_iff Let_def split: if_splits)
  have "ul_host u \<noteq> []" using c(2) by (auto simp: hostname_def)
  from parsed_parts [OF u c(1) this] c(5) obtain a where
    path: "ul_path u = [] \<or> hd (ul_path u) = CHR ''/''" and a: "ph (ul_scheme u) a = Some (ul_host u)" "host_text a" by auto
  have h: "set (ul_host u) \<subseteq> set a" "ph (ul_scheme u) (ul_host u) = Some (ul_host u)"
    using law a(1) c(4) unfolding plain_host_law_def by blast+
  have "host_text (ul_host u)" using a(2) h(1) by (auto simp: host_text_def list_all_iff)
  moreover have "ul_path u \<noteq> ''*''" using path by auto
  then have "list_all plain_path_char (ul_path u)" by (rule escaped_path_plain [OF c(6)])
  moreover obtain t where t: "ul_path u = ?p @ t" using trim_right_prefix by blast
  ultimately have "list_all plain_path_char ?p" "?p = [] \<or> hd ?p = CHR ''/''"
    using path by (metis list_all_append) (metis hd_append2 path t append_is_Nil_conv)
  then show ?thesis using c h \<open>host_text (ul_host u)\<close> trim_right_twice by blast
qed

lemma normalized_again:
  assumes "plain_host_law ph" and "normalize_public_base_url ph raw = Inr s"
  shows "normalize_public_base_url ph s = Inr s" "last s \<noteq> CHR ''/''" "has_prefix s ''http://'' \<or> has_prefix s ''https://''"
proof -
  obtain scheme host p where s: "s = scheme @ ''://'' @ host @ p" and w: "web_scheme scheme" and h: "host_text host" "ph scheme host = Some host"
      "hostname host \<noteq> []" "last host \<noteq> CHR '':''" "plain_host host" and p: "list_all plain_path_char p" "p = [] \<or> hd p = CHR ''/''"
      "trim_right (CHR ''/'') p = p" "p \<noteq> [] \<longrightarrow> path_clean p = p"
    using normalized_parts [OF assms] by blast
  let ?u = "no_url\<lparr>ul_scheme := scheme, ul_host := host, ul_path := p, ul_raw_path := (if p = escape_path p then [] else p)\<rparr>"
  have u: "url_parse ph s = Some ?u" unfolding s by (rule parse_plain) fact+
  have e: "escaped_path ?u = p" by (rule plain_path_escaped [OF p(1)]) simp_all
  have n: "host \<noteq> []" using h(3) by (auto simp: hostname_def)
  have "last host \<noteq> CHR ''/''" using h(1) n by (auto simp: host_text_def list_all_iff)
  moreover have "p \<noteq> [] \<Longrightarrow> last p \<noteq> CHR ''/''" using trim_right_last [of "CHR ''/''" p] p(3) by simp
  ultimately show "last s \<noteq> CHR ''/''" using n by (cases "p = []") (simp_all add: s)
  show "has_prefix s ''http://'' \<or> has_prefix s ''https://''" using w by (auto simp: s web_scheme_def has_prefix_def)
  show "normalize_public_base_url ph s = Inr s"
  proof -
    note ball = h(5) [unfolded plain_host_def list_all_iff]
    have a: "\<not> list_ex (\<lambda>c. 0x80 \<le> ord_of c) host" "CHR ''%'' \<notin> set host"
      unfolding list_ex_iff using ball by (meson not_le) (use ball in blast)
    have b: "\<not> (scheme \<noteq> ''http'' \<and> scheme \<noteq> ''https'')" using w by (auto simp: web_scheme_def)
    have f: "ul_scheme ?u = scheme" "ul_host ?u = host" "ul_path ?u = p" "\<not> ul_user ?u" "ul_raw_query ?u = []" "\<not> ul_force_query ?u"
      "ul_fragment ?u = []" by (simp_all add: no_url_def)
    have q: "\<not> (p \<noteq> [] \<and> path_clean p \<noteq> p)" using p(4) by blast
    show ?thesis
      unfolding normalize_public_base_url_def u option.case f Let_def p(3) if_not_P [OF a(1)] if_not_P [OF b] if_not_P [OF q] e
      using a h(3,4) f by (simp add: s)
  qed
qed

subsection \<open>What a process starts with\<close>

lemma load_parts:
  assumes "load ph random getenv = Inr c"
  shows "load_env getenv = (cf_env c, [])" "load_database_url ph getenv (cf_env c) = (cf_database_url c, [])"
    "load_listen_addr getenv = (cf_listen_addr c, [])" "load_public_base_url ph getenv = (cf_public_base_url c, [])"
    "load_vault_key random getenv (cf_env c) = (cf_vault_key c, [])" "load_log_level getenv = (cf_log_level c, [])"
    "load_log_format getenv (cf_env c) = (cf_log_format c, [])"
  using assms by (auto simp: load_def split: prod.splits if_splits)

lemma loaded_base_url:
  assumes "load ph random getenv = Inr c" and "plain_host_law ph"
  shows "cf_public_base_url c \<noteq> [] \<longrightarrow> normalize_public_base_url ph (cf_public_base_url c) = Inr (cf_public_base_url c)"
  using load_parts(4) [OF assms(1)] normalized_again [OF assms(2)]
  by (auto simp: load_public_base_url_def Let_def split: if_splits sum.splits)

text \<open>C11: What a process starts with. Whatever the environment holds, a configuration that loads is development
  only if the variable says \<open>development\<close> in exactly these letters. Otherwise it is production, and then
  nothing in it was made up: the database URL is the one that was configured and is a Postgres URL, the
  master key is the one that was configured and not one this process generated, so loading again gives the
  same configuration. In both cases the port is numeric and the base URL is a fixed point.\<close>

theorem production_starts_on_what_was_configured:
  assumes "load ph random getenv = Inr c" and "plain_host_law ph"
  shows "(cf_env c = Development \<longleftrightarrow> getenv ''LAWANG_ENV'' = ''development'') \<and>
    (cf_env c = Production \<longrightarrow>
       cf_database_url c = getenv ''LAWANG_DATABASE_URL'' \<and> check_database_url ph (cf_database_url c) = None \<and>
       parse_master_key (getenv ''LAWANG_VAULT_KEY'') = Inr (cf_vault_key c) \<and> \<not> mk_generated (cf_vault_key c) \<and>
       (\<forall>random'. load ph random' getenv = Inr c)) \<and>
    (\<exists>host port n. split_host_port (cf_listen_addr c) = Some (host, port) \<and> parse_uint16 port = Some n \<and> n < 65536) \<and>
    (cf_public_base_url c \<noteq> [] \<longrightarrow> normalize_public_base_url ph (cf_public_base_url c) = Inr (cf_public_base_url c))"
proof -
  note l = load_parts [OF assms(1)]
  have env: "cf_env c = Development \<longleftrightarrow> getenv ''LAWANG_ENV'' = ''development''"
    using l(1) by (auto simp: load_env_def Let_def split: if_splits)
  have prod: "cf_database_url c = getenv ''LAWANG_DATABASE_URL'' \<and> check_database_url ph (cf_database_url c) = None \<and>
       parse_master_key (getenv ''LAWANG_VAULT_KEY'') = Inr (cf_vault_key c) \<and> \<not> mk_generated (cf_vault_key c) \<and>
       (\<forall>random'. load ph random' getenv = Inr c)" if p: "cf_env c = Production"
  proof -
    have k: "parse_master_key (getenv ''LAWANG_VAULT_KEY'') = Inr (cf_vault_key c)"
      using l(5) p by (auto simp: load_vault_key_def Let_def split: if_splits sum.splits)
    then have g: "\<not> mk_generated (cf_vault_key c)" by (rule parsed_key)
    have "load_vault_key random' getenv (cf_env c) = load_vault_key random getenv (cf_env c)" for random'
      using k p by (simp add: load_vault_key_def)
    then have "load ph random' getenv = load ph random getenv" for random' using l by (simp add: load_def)
    then show ?thesis
      using l(2) p k g assms(1) by (auto simp: load_database_url_def Let_def split: if_splits option.splits)
  qed
  have "parse_uint16 ''8080'' = Some 8080" "split_host_port default_listen_addr = Some ([], ''8080'')"
    by (simp_all add: parse_uint16_def is_digit_def char_le_ord ord_of_def split_host_port_def last_index_def)
  then have "\<exists>host port n. split_host_port (cf_listen_addr c) = Some (host, port) \<and> parse_uint16 port = Some n"
    using l(3) by (auto simp: load_listen_addr_def check_listen_addr_def Let_def split: if_splits option.splits)
  moreover have "parse_uint16 port = Some n \<Longrightarrow> n < 65536" for port n by (simp add: parse_uint16_def Let_def split: if_splits)
  moreover note loaded_base_url [OF assms]
  ultimately show ?thesis using env prod by blast
qed

text \<open>Nothing secret is printed: what is printed of a configuration does not depend on the database URL and the
  bytes of the key. And Load reads the published variables, and no other.\<close>

lemma printing_hides_the_secrets:
  assumes "c' = c\<lparr>cf_database_url := d, cf_vault_key := (cf_vault_key c)\<lparr>mk_key := k\<rparr>\<rparr>"
  shows "config_string c' = config_string c \<and> config_go_string c' = config_go_string c \<and> config_log_value c' = config_log_value c"
  by (simp add: assms config_string_def config_go_string_def config_log_value_def key_string_def key_state_def)

lemma load_reads_the_published_variables:
  assumes "\<And>v. v \<in> set variables \<Longrightarrow> getenv (va_name v) = getenv' (va_name v)"
  shows "load ph random getenv = load ph random getenv'"
proof -
  have "getenv n = getenv' n" if "n \<in> va_name ` set variables" for n using that assms by auto
  then have "getenv ''LAWANG_ENV'' = getenv' ''LAWANG_ENV''" "getenv ''LAWANG_DATABASE_URL'' = getenv' ''LAWANG_DATABASE_URL''"
    "getenv ''LAWANG_LISTEN_ADDR'' = getenv' ''LAWANG_LISTEN_ADDR''" "getenv ''LAWANG_PUBLIC_BASE_URL'' = getenv' ''LAWANG_PUBLIC_BASE_URL''"
    "getenv ''LAWANG_VAULT_KEY'' = getenv' ''LAWANG_VAULT_KEY''" "getenv ''LAWANG_LOG_LEVEL'' = getenv' ''LAWANG_LOG_LEVEL''"
    "getenv ''LAWANG_LOG_FORMAT'' = getenv' ''LAWANG_LOG_FORMAT''"
    by (simp_all add: variables_def)
  then show ?thesis
    by (simp add: load_def load_env_def load_database_url_def load_listen_addr_def load_public_base_url_def load_vault_key_def
        load_log_level_def load_log_format_def)
qed

subsection \<open>A configuration at work\<close>

definition simple_host :: parse_host where
  "simple_host scheme a = (if list_all (\<lambda>c. is_lower c \<or> is_digit c \<or> c = CHR ''.'') a then Some a else None)"

lemma simple_host_law: "plain_host_law simple_host"
  by (simp add: plain_host_law_def simple_host_def)

definition ex_getenv :: "bytes \<Rightarrow> bytes \<Rightarrow> bytes" where
  "ex_getenv key n =
     (if n = ''LAWANG_DATABASE_URL'' then ''postgres://db/lawang'' else if n = ''LAWANG_VAULT_KEY'' then b64_encode key else [])"

definition ex_config :: "bytes \<Rightarrow> config" where
  "ex_config key = \<lparr>cf_env = Production, cf_database_url = ''postgres://db/lawang'', cf_listen_addr = '':8080'', cf_log_level = 0,
     cf_log_format = ''json'', cf_public_base_url = [], cf_vault_key = \<lparr>mk_key = key, mk_set = True, mk_generated = False\<rparr>\<rparr>"

lemma ex_database_url: "check_database_url simple_host ''postgres://db/lawang'' = None"
  by code_simp

lemma ex_load: "length key = key_len \<Longrightarrow> load simple_host random (ex_getenv key) = Inr (ex_config key)"
proof -
  assume k: "length key = key_len"
  then have "parse_master_key (b64_encode key) = Inr \<lparr>mk_key = key, mk_set = True, mk_generated = False\<rparr>"
    by (simp add: parse_master_key_iff b64_encode_length b64_encode_eq)
  moreover have "b64_encode key \<noteq> []" using k b64_encode_length [of key] by auto
  ultimately show ?thesis
    by (simp add: load_def load_env_def load_database_url_def load_listen_addr_def load_public_base_url_def load_vault_key_def
        load_log_level_def load_log_format_def ex_getenv_def ex_database_url ex_config_def)
qed

theorem production_starts_on_what_was_configured_witness:
  "cf_env (ex_config (replicate 32 (CHR ''k''))) = Production \<and> \<not> mk_generated (cf_vault_key (ex_config (replicate 32 (CHR ''k''))))"
  using production_starts_on_what_was_configured [OF ex_load simple_host_law, of "replicate 32 (CHR ''k'')"] by (simp add: ex_config_def)

text \<open>The comment on \<open>MasterKey.set\<close> says that \<open>ParseMasterKey\<close> refuses the key of zeros. It does not: a process
  starts on it in production, and only the vault turns it away.\<close>

theorem zero_key_passes_start_up:
  "(\<exists>c. load simple_host random (ex_getenv (replicate 32 nul)) = Inr c \<and> cf_env c = Production \<and>
     key_bytes (cf_vault_key c) = Some (replicate 32 nul)) \<and>
   new_local gcm sha True (replicate 32 nul) = Inl NoMasterKey"
  using ex_load [of "replicate 32 nul" random] by (simp add: ex_config_def key_bytes_def new_local_def new_sealer_def)

lemma loaded_key: "load_vault_key random getenv e = (k, []) \<Longrightarrow> length random = key_len \<Longrightarrow> mk_set k \<and> length (mk_key k) = key_len"
  using parsed_key by (auto simp: load_vault_key_def generated_master_key_def Let_def split: if_splits sum.splits)

text \<open>Any other key that loads makes a vault.\<close>

lemma configured_key_makes_a_vault:
  assumes "load ph random getenv = Inr c" and "length random = key_len" and "mk_key (cf_vault_key c) \<noteq> replicate 32 nul"
  shows "\<exists>key sl. key_bytes (cf_vault_key c) = Some key \<and> new_local gcm sha True key = Inr sl"
proof -
  have "mk_set (cf_vault_key c) \<and> length (mk_key (cf_vault_key c)) = key_len"
    using loaded_key [OF load_parts(5) [OF assms(1)] assms(2)] .
  then show ?thesis using assms(3) by (auto simp: key_bytes_def new_local_def new_sealer_def)
qed

end
