(* ===== verification/Config_Edge.thy ===== *)
theory Config_Edge
  imports Config_Facts Ingress_Facts
begin

text \<open>
  The base URL on its way through the program: \<open>Load\<close> normalises what the operator wrote, the webhook edge
  normalises what \<open>Load\<close> stored, and a signature is checked over what the edge holds.
\<close>

definition norm_url :: "parse_host \<Rightarrow> bytes \<Rightarrow> bytes option" where
  "norm_url ph b = (case normalize_public_base_url ph b of Inr s \<Rightarrow> Some s | Inl _ \<Rightarrow> None)"

text \<open>C12: The URL a signature is checked over is the one that was configured. \<open>NormalizePublicBaseURL\<close> gives a fixed
  point, an http or https URL with no slash at its end: so the edge takes what \<open>Load\<close> stored, unless another of
  its options is refused, and builds the URL of a request by putting the request's URI behind it.\<close>

theorem signed_url_is_the_configured_one:
  assumes "plain_host_law ph" and "normalize_public_base_url ph raw = Inr s"
  shows "normalize_public_base_url ph s = Inr s \<and> last s \<noteq> CHR ''/'' \<and> (has_prefix s ''http://'' \<or> has_prefix s ''https://'') \<and>
    (\<forall>h. new_edge (norm_url ph) parse_media reg max_body accept_timeout s = Inr h \<longrightarrow> public_url h r = s @ hr_request_uri r) \<and>
    (0 \<le> max_body \<and> 0 \<le> accept_timeout \<longrightarrow> is_ok (new_edge (norm_url ph) parse_media reg max_body accept_timeout s))"
proof -
  note n = normalized_again [OF assms]
  have "s \<noteq> []" using n(3) by (auto simp: has_prefix_def)
  then show ?thesis using n by (auto simp: new_edge_def norm_url_def public_url_def split: if_splits)
qed

theorem signed_url_is_the_configured_one_witness:
  "normalize_public_base_url simple_host ''https://a.example/in'' = Inr ''https://a.example/in''"
proof -
  have "normalize_public_base_url simple_host ''HTTPS://a.example/in/'' = Inr ''https://a.example/in''" by code_simp
  from signed_url_is_the_configured_one [OF simple_host_law this] show ?thesis by blast
qed

end
