(* ===== verification/Go_Errors.thy ===== *)
theory Go_Errors
  imports Sink
begin

text \<open>
  Errors as the program takes them apart, and the three places where it reduces one it did not make to
  something it is willing to log: internal/store/connerr.go, \<open>listenError\<close> of cmd/lawang/serve.go and
  \<open>outside\<close> of internal/worker/worker.go. An error is a tree: what one of its nodes is (which types it
  is found as, its type's name, its text) and what it wraps, by \<open>Unwrap() error\<close> or by \<open>Unwrap() []error\<close>.
\<close>

subsection \<open>Errors\<close>

record go_node =
  gn_type :: bytes
  gn_text :: bytes
  gn_sqlstate :: "bytes option"
  gn_connect :: bool
  gn_op :: bool
  gn_dns :: "(bool \<times> bool) option"
  gn_timeout :: "bool option"
  gn_pg_timeout :: bool
  gn_deadline :: bool
  gn_errno :: "bytes option"
  gn_tls :: bool
  gn_fault :: "bytes option"

datatype go_error = GoError (ge_node: go_node) (ge_joined: bool) (ge_wraps: "go_error list")

text \<open>\<open>errors.As\<close> and \<open>errors.Is\<close> look at an error and then at what it wraps, depth first.\<close>

fun go_nodes :: "go_error \<Rightarrow> go_node list" where
  "go_nodes (GoError n j es) = n # concat (map go_nodes es)"

fun first_as :: "(go_node \<Rightarrow> 'a option) \<Rightarrow> go_node list \<Rightarrow> 'a option" where
  "first_as f [] = None"
| "first_as f (n # ns) = (case f n of Some x \<Rightarrow> Some x | None \<Rightarrow> first_as f ns)"

definition errors_as :: "(go_node \<Rightarrow> 'a option) \<Rightarrow> go_error \<Rightarrow> 'a option" where
  "errors_as f e = first_as f (go_nodes e)"

definition errors_is :: "(go_node \<Rightarrow> bool) \<Rightarrow> go_error \<Rightarrow> bool" where
  "errors_is f e \<longleftrightarrow> list_ex f (go_nodes e)"

definition errors_unwrap :: "go_error \<Rightarrow> go_error option" where
  "errors_unwrap e = (if ge_joined e then None else case ge_wraps e of [] \<Rightarrow> None | x # _ \<Rightarrow> Some x)"

abbreviation go_text :: "go_error \<Rightarrow> bytes" where "go_text e \<equiv> gn_text (ge_node e)"

definition plain_node :: "bytes \<Rightarrow> bytes \<Rightarrow> go_node" where
  "plain_node ty txt = \<lparr>gn_type = ty, gn_text = txt, gn_sqlstate = None, gn_connect = False, gn_op = False, gn_dns = None,
     gn_timeout = None, gn_pg_timeout = False, gn_deadline = False, gn_errno = None, gn_tls = False, gn_fault = None\<rparr>"

text \<open>\<open>errors.New\<close>, and \<open>fmt.Errorf\<close> with a prefix and one \<open>%w\<close>.\<close>

definition new_error :: "bytes \<Rightarrow> go_error" where
  "new_error txt = GoError (plain_node ''*errors.errorString'' txt) False []"

definition wrap_error :: "bytes \<Rightarrow> go_error \<Rightarrow> go_error" where
  "wrap_error pre e = GoError (plain_node ''*fmt.wrapError'' (pre @ '': '' @ go_text e)) False [e]"

text \<open>An operating system's error number, with its text from the system's table.\<close>

definition errno_error :: "bytes \<Rightarrow> go_error" where
  "errno_error txt = GoError ((plain_node ''syscall.Errno'' txt)\<lparr>gn_errno := Some txt, gn_timeout := Some False\<rparr>) False []"

subsection \<open>The database\<close>

fun contains :: "bytes \<Rightarrow> bytes \<Rightarrow> bool" where
  "contains [] sub = (sub = [])"
| "contains (c # s) sub = (has_prefix (c # s) sub \<or> contains s sub)"

abbreviation conn_err_prefix :: bytes where "conn_err_prefix \<equiv> ''LAWANG_DATABASE_URL: cannot use the database''"

definition valid_sqlstate :: "bytes \<Rightarrow> bool" where
  "valid_sqlstate code \<longleftrightarrow> length code = 5 \<and> list_all (\<lambda>c. is_digit c \<or> is_upper c) code"

definition describe_sqlstate :: "bytes \<Rightarrow> bytes" where
  "describe_sqlstate code =
     (if \<not> valid_sqlstate code then ''the server refused, with no usable SQLSTATE''
      else if has_prefix code ''28'' then ''authentication failed, check the user, the password and pg_hba.conf (SQLSTATE '' @ code @ '')''
      else if code = ''3D000'' then ''the database does not exist (SQLSTATE 3D000)''
      else if code = ''42501'' then ''the role may not connect to the database (SQLSTATE 42501)''
      else if code = ''53300'' then ''the server has no connection slot left (SQLSTATE 53300)''
      else if code = ''57P03'' then ''the server is not accepting connections yet (SQLSTATE 57P03)''
      else ''the server refused (SQLSTATE '' @ code @ '')'')"

definition is_tls_failure :: "go_error \<Rightarrow> bool" where
  "is_tls_failure e \<longleftrightarrow> errors_is gn_tls e \<or> contains (go_text e) ''tls error'' \<or> contains (go_text e) ''server refused TLS connection''"

definition dns_phrase :: "bool \<times> bool \<Rightarrow> bytes" where
  "dns_phrase d =
     (if fst d then ''the host name does not resolve''
      else if snd d then ''the host name lookup timed out''
      else ''the host name lookup failed'')"

text \<open>\<open>ctx_err\<close> is what the context says, when it is over.\<close>

definition conn_error :: "go_error option \<Rightarrow> go_error \<Rightarrow> go_error" where
  "conn_error ctx_err e =
     (case errors_as gn_sqlstate e of
        Some code \<Rightarrow> new_error (conn_err_prefix @ '': '' @ describe_sqlstate code)
      | None \<Rightarrow>
     (case ctx_err of
        Some c \<Rightarrow> wrap_error conn_err_prefix c
      | None \<Rightarrow>
     (case errors_as gn_dns e of
        Some d \<Rightarrow> new_error (conn_err_prefix @ '': '' @ dns_phrase d)
      | None \<Rightarrow>
          if errors_is gn_pg_timeout e \<or> errors_is gn_deadline e \<or> errors_as gn_timeout e = Some True
          then new_error (conn_err_prefix @ '': the connection attempt timed out (the host drops packets, or connect_timeout is too short)'')
          else (case errors_as gn_errno e of
            Some txt \<Rightarrow> wrap_error conn_err_prefix (errno_error txt)
          | None \<Rightarrow>
              if is_tls_failure e then new_error (conn_err_prefix @ '': TLS negotiation failed (check sslmode and the certificates)'')
              else new_error (conn_err_prefix @ '': the connection failed'')))))"

definition scrub :: "go_error option \<Rightarrow> go_error option \<Rightarrow> go_error option" where
  "scrub ctx_err e =
     (case e of
        None \<Rightarrow> None
      | Some e \<Rightarrow>
          if errors_is gn_connect e \<or> errors_is gn_op e \<or> errors_as gn_dns e \<noteq> None then Some (conn_error ctx_err e) else Some e)"

subsection \<open>The listener\<close>

abbreviation listen_prefix :: bytes where "listen_prefix \<equiv> ''LAWANG_LISTEN_ADDR: cannot listen''"

definition listen_error_of :: "go_error option \<Rightarrow> go_error \<Rightarrow> go_error" where
  "listen_error_of ctx_err e =
     (case errors_as gn_errno e of
        Some txt \<Rightarrow> wrap_error listen_prefix (errno_error txt)
      | None \<Rightarrow>
     (case ctx_err of
        Some c \<Rightarrow> wrap_error listen_prefix c
      | None \<Rightarrow>
     (case errors_as gn_dns e of
        Some d \<Rightarrow> new_error (listen_prefix @ '': '' @ dns_phrase d)
      | None \<Rightarrow> new_error (listen_prefix @ '': the address is not valid for a TCP listener''))))"

subsection \<open>The drain\<close>

abbreviation max_why_depth :: nat where "max_why_depth \<equiv> 8"

text \<open>The names of the types along the chain, at most \<open>n\<close> more of them.\<close>

fun type_chain :: "nat \<Rightarrow> bool \<Rightarrow> go_error option \<Rightarrow> bytes" where
  "type_chain n later None = []"
| "type_chain 0 later (Some e) = '' wrapping more''"
| "type_chain (Suc n) later (Some e) =
     (if later then '' wrapping '' else []) @ gn_type (ge_node e) @ type_chain n True (errors_unwrap e)"

definition outside :: "go_error \<Rightarrow> bytes" where
  "outside e =
     (case errors_as gn_fault e of
        Some d \<Rightarrow> if d \<noteq> [] \<and> known_detail d then d else type_chain max_why_depth False (Some e)
      | None \<Rightarrow> type_chain max_why_depth False (Some e))"

subsection \<open>What they quote\<close>

text \<open>An error with every text in it replaced.\<close>

fun reworded :: "(bytes \<Rightarrow> bytes) \<Rightarrow> go_error \<Rightarrow> go_error" where
  "reworded f (GoError n j es) = GoError (n\<lparr>gn_text := f (gn_text n)\<rparr>) j (map (reworded f) es)"

lemma go_nodes_reworded: "go_nodes (reworded f e) = map (\<lambda>n. n\<lparr>gn_text := f (gn_text n)\<rparr>) (go_nodes e)"
proof (induction e)
  case (GoError n j es)
  then have "map (\<lambda>e. go_nodes (reworded f e)) es = map (\<lambda>e. map (\<lambda>n. n\<lparr>gn_text := f (gn_text n)\<rparr>) (go_nodes e)) es"
    by (intro map_cong) auto
  then show ?case unfolding reworded.simps go_nodes.simps list.map map_concat map_map o_def by (simp only:)
qed

lemma first_as_reworded:
  "(\<And>n t. g (n\<lparr>gn_text := t\<rparr>) = g n) \<Longrightarrow> first_as g (map (\<lambda>n. n\<lparr>gn_text := f (gn_text n)\<rparr>) ns) = first_as g ns"
  by (induction ns) (simp_all split: option.split)

lemma errors_as_reworded: "(\<And>n t. g (n\<lparr>gn_text := t\<rparr>) = g n) \<Longrightarrow> errors_as g (reworded f e) = errors_as g e"
  by (simp add: errors_as_def go_nodes_reworded first_as_reworded)

lemma errors_is_reworded: "(\<And>n t. g (n\<lparr>gn_text := t\<rparr>) = g n) \<Longrightarrow> errors_is g (reworded f e) = errors_is g e"
  by (auto simp: errors_is_def go_nodes_reworded list_ex_iff)

lemma node_reworded: "ge_node (reworded f e) = (ge_node e)\<lparr>gn_text := f (go_text e)\<rparr>" "ge_joined (reworded f e) = ge_joined e"
  "ge_wraps (reworded f e) = map (reworded f) (ge_wraps e)"
  by (cases e; simp)+

lemma unwrap_reworded: "errors_unwrap (reworded f e) = map_option (reworded f) (errors_unwrap e)"
  by (simp add: errors_unwrap_def node_reworded split: list.split)

lemma type_chain_reworded: "type_chain n later (map_option (reworded f) e) = type_chain n later e"
proof (induction n later e rule: type_chain.induct)
  case (3 n later e)
  then show ?case by (simp add: node_reworded unwrap_reworded)
qed simp_all

lemma outside_reworded: "outside (reworded f e) = outside e"
  using type_chain_reworded [of max_why_depth False f "Some e"] by (simp add: outside_def errors_as_reworded split: option.split)

lemma first_as_in: "first_as g ns = Some x \<Longrightarrow> \<exists>n \<in> set ns. g n = Some x"
  by (induction ns) (auto split: option.splits)

definition fixed_phrases :: "bytes list" where
  "fixed_phrases =
     [''the host name does not resolve'', ''the host name lookup timed out'', ''the host name lookup failed'',
      ''the connection attempt timed out (the host drops packets, or connect_timeout is too short)'',
      ''TLS negotiation failed (check sslmode and the certificates)'', ''the connection failed'',
      ''the address is not valid for a TCP listener'']"

text \<open>What may stand behind the prefix: a phrase of the program, its words for a SQLSTATE that is one, the
  operating system's words for an error number, or the context's.\<close>

definition own_words :: "go_error option \<Rightarrow> go_error \<Rightarrow> bytes \<Rightarrow> bool" where
  "own_words ctx_err e t \<longleftrightarrow>
     t \<in> set fixed_phrases \<or>
     (\<exists>code. errors_as gn_sqlstate e = Some code \<and> t = describe_sqlstate (if valid_sqlstate code then code else [])) \<or>
     (\<exists>n \<in> set (go_nodes e). gn_errno n = Some t) \<or> (\<exists>c. ctx_err = Some c \<and> t = go_text c)"

lemma dns_own_words: "own_words ctx_err e (dns_phrase d)"
  by (simp add: own_words_def fixed_phrases_def dns_phrase_def)

lemma fixed_own_words: "t \<in> set fixed_phrases \<Longrightarrow> own_words ctx_err e t"
  by (simp add: own_words_def)

lemma errno_own_words: "errors_as gn_errno e = Some t \<Longrightarrow> own_words ctx_err e t"
  using first_as_in [of gn_errno "go_nodes e" t] by (auto simp: own_words_def errors_as_def)

lemma code_own_words: "errors_as gn_sqlstate e = Some code \<Longrightarrow> own_words ctx_err e (describe_sqlstate code)"
  unfolding own_words_def by (rule disjI2, rule disjI1) (auto simp: describe_sqlstate_def valid_sqlstate_def)

lemma texts [simp]: "go_text (new_error t) = t" "go_text (wrap_error p c) = p @ '': '' @ go_text c" "go_text (errno_error t) = t"
  by (simp_all add: new_error_def wrap_error_def errno_error_def plain_node_def)

lemma context_own_words: "own_words (Some c) e (go_text c)"
  by (simp add: own_words_def)

lemma conn_error_words: "\<exists>t. go_text (conn_error ctx_err e) = conn_err_prefix @ '': '' @ t \<and> own_words ctx_err e t"
proof (cases "errors_as gn_sqlstate e")
  case (Some code)
  then show ?thesis using code_own_words by (simp add: conn_error_def)
next
  case no_code: None
  show ?thesis
  proof (cases ctx_err)
    case (Some c)
    then show ?thesis using no_code context_own_words by (simp add: conn_error_def)
  next
    case no_ctx: None
    show ?thesis
    proof (cases "errors_as gn_dns e")
      case (Some d)
      then show ?thesis using no_code no_ctx dns_own_words by (simp add: conn_error_def)
    next
      case no_dns: None
      show ?thesis
      proof (cases "errors_as gn_errno e")
        case (Some t)
        then show ?thesis using no_code no_ctx no_dns errno_own_words [OF Some] fixed_own_words
          by (simp add: conn_error_def fixed_phrases_def)
      next
        case None
        then show ?thesis using no_code no_ctx no_dns fixed_own_words by (simp add: conn_error_def fixed_phrases_def)
      qed
    qed
  qed
qed

lemma listen_error_words: "\<exists>t. go_text (listen_error_of ctx_err e) = listen_prefix @ '': '' @ t \<and> own_words ctx_err e t"
proof (cases "errors_as gn_errno e")
  case (Some t)
  then show ?thesis using errno_own_words [OF Some] by (simp add: listen_error_of_def)
next
  case no_errno: None
  show ?thesis
  proof (cases ctx_err)
    case (Some c)
    then show ?thesis using no_errno context_own_words by (simp add: listen_error_of_def)
  next
    case None
    then show ?thesis using no_errno dns_own_words fixed_own_words
      by (cases "errors_as gn_dns e") (simp_all add: listen_error_of_def fixed_phrases_def)
  qed
qed


end
