(* ===== verification/Store_Open.thy ===== *)
theory Store_Open
  imports Tenancy Go_Errors
begin

text \<open>
  internal/store/store.go and migrate.go: opening the pool, with every check of the preflight, and running
  the migrations. What the driver and the server answer is an argument: whether the URL parses, what
  making the pool says, and the rows of the three catalogue queries, each of which may fail.
\<close>

subsection \<open>Opening\<close>

abbreviation min_server_version :: int where "min_server_version \<equiv> 160000"

abbreviation default_connect_timeout :: int where "default_connect_timeout \<equiv> 10 * 1000000000"

definition helper_roles :: "bytes list" where
  "helper_roles = [''lawang_resolver'', ''lawang_worker'']"

text \<open>What the pool's configuration is made to say: the search path, the application's name and the connect
  timeout, in nanoseconds.\<close>

record pool_config =
  pc_search_path :: bytes
  pc_application_name :: bytes
  pc_connect_timeout :: int

text \<open>What the catalogue says of the login role: superuser, bypassing row-level security; whether the schema
  exists and is its own.\<close>

record login_state =
  lg_super :: bool
  lg_bypass :: bool
  lg_has_schema :: bool
  lg_own_schema :: bool

record database =
  db_parse :: "bytes \<Rightarrow> pool_config option"
  db_pool :: "go_error option"
  db_version :: "go_error + int"
  db_login :: "go_error + login_state"
  db_helpers :: "go_error + helper_state list"

datatype open_error =
    BadUrl | ConnFailed go_error | OldServer int | UnsafeLogin | ShortAnswer nat | RoleRefused role_verdict

definition pool_config_of :: "database \<Rightarrow> bytes \<Rightarrow> open_error + pool_config" where
  "pool_config_of db url =
     (case db_parse db url of
        None \<Rightarrow> Inl BadUrl
      | Some pc \<Rightarrow> Inr (pc\<lparr>pc_search_path := ''lawang'', pc_application_name := ''lawang'',
          pc_connect_timeout := (if pc_connect_timeout pc = 0 then default_connect_timeout else pc_connect_timeout pc)\<rparr>))"

definition check_version :: "int \<Rightarrow> open_error option" where
  "check_version v = (if v < min_server_version then Some (OldServer v) else None)"

definition helper_states :: "go_error option \<Rightarrow> database \<Rightarrow> open_error + helper_state list" where
  "helper_states ctx_err db =
     (case db_helpers db of
        Inl e \<Rightarrow> Inl (ConnFailed (conn_error ctx_err e))
      | Inr hs \<Rightarrow> if length hs \<noteq> length helper_roles then Inl (ShortAnswer (length hs)) else Inr hs)"

definition preflight :: "go_error option \<Rightarrow> database \<Rightarrow> open_error option" where
  "preflight ctx_err db =
     (case db_version db of
        Inl e \<Rightarrow> Some (ConnFailed (conn_error ctx_err e))
      | Inr v \<Rightarrow>
     (case check_version v of
        Some e \<Rightarrow> Some e
      | None \<Rightarrow>
     (case db_login db of
        Inl e \<Rightarrow> Some (ConnFailed (conn_error ctx_err e))
      | Inr l \<Rightarrow>
          if lg_super l \<or> lg_bypass l then Some UnsafeLogin
          else (case helper_states ctx_err db of
            Inl e \<Rightarrow> Some e
          | Inr hs \<Rightarrow>
              (case preflight_roles (lg_has_schema l) (lg_own_schema l) hs of RoleOk \<Rightarrow> None | v \<Rightarrow> Some (RoleRefused v))))))"

definition open_db :: "go_error option \<Rightarrow> database \<Rightarrow> bytes \<Rightarrow> open_error + pool_config" where
  "open_db ctx_err db url =
     (case pool_config_of db url of
        Inl e \<Rightarrow> Inl e
      | Inr pc \<Rightarrow>
     (case db_pool db of
        Some e \<Rightarrow> Inl (ConnFailed (conn_error ctx_err e))
      | None \<Rightarrow> (case preflight ctx_err db of Some e \<Rightarrow> Inl e | None \<Rightarrow> Inr pc)))"

subsection \<open>Migrating\<close>

text \<open>\<open>Migrate\<close>: what building goose's provider says, then how many migrations were applied and how that ended.\<close>

definition migrate_db :: "go_error option \<Rightarrow> go_error option \<Rightarrow> nat \<times> go_error option \<Rightarrow> nat \<times> go_error option" where
  "migrate_db ctx_err built up =
     (case built of
        Some e \<Rightarrow> (0, map_option (wrap_error ''store: migrate'') (scrub ctx_err (Some e)))
      | None \<Rightarrow> (fst up, map_option (wrap_error ''store: migrate'') (scrub ctx_err (snd up))))"

text \<open>C17: A pool is handed out only where row-level security confines the program. The start-up check passes exactly
  if the URL parses, the server answers and is Postgres 16 or newer, the login role is neither a superuser nor
  exempt from row-level security and owns the schema, and both helper roles exist, are confined themselves,
  are not inherited and not administered by the login role and can be assumed by it. An answer that is short of
  a role has verified nothing. The pool then has the program's search path and a bound on connecting.\<close>

theorem pool_opens_only_as_a_confined_role:
  "open_db ctx_err db url = Inr pc \<longleftrightarrow>
     (\<exists>pc0 v l hs. db_parse db url = Some pc0 \<and> db_pool db = None \<and> db_version db = Inr v \<and> 160000 \<le> v \<and>
        db_login db = Inr l \<and> \<not> lg_super l \<and> \<not> lg_bypass l \<and> lg_has_schema l \<and> lg_own_schema l \<and>
        db_helpers db = Inr hs \<and> length hs = 2 \<and>
        list_all (\<lambda>h. h_exists h \<and> \<not> h_unsafe h \<and> \<not> h_inherited h \<and> \<not> h_administers h \<and> h_can_set h) hs \<and>
        pc = pc0\<lparr>pc_search_path := ''lawang'', pc_application_name := ''lawang'',
          pc_connect_timeout := (if pc_connect_timeout pc0 = 0 then default_connect_timeout else pc_connect_timeout pc0)\<rparr>)"
proof -
  have pre: "preflight ctx_err db = None \<longleftrightarrow>
     (\<exists>v l hs. db_version db = Inr v \<and> 160000 \<le> v \<and> db_login db = Inr l \<and> \<not> lg_super l \<and> \<not> lg_bypass l \<and>
        db_helpers db = Inr hs \<and> length hs = 2 \<and> preflight_roles (lg_has_schema l) (lg_own_schema l) hs = RoleOk)"
    by (auto simp: preflight_def check_version_def helper_states_def helper_roles_def split: sum.splits if_splits role_verdict.splits)
  have "open_db ctx_err db url = Inr pc \<longleftrightarrow> pool_config_of db url = Inr pc \<and> db_pool db = None \<and> preflight ctx_err db = None"
    by (auto simp: open_db_def split: sum.splits option.splits)
  moreover have "pool_config_of db url = Inr pc \<longleftrightarrow> (\<exists>pc0. db_parse db url = Some pc0 \<and> pc = pc0\<lparr>pc_search_path := ''lawang'', pc_application_name := ''lawang'',
          pc_connect_timeout := (if pc_connect_timeout pc0 = 0 then default_connect_timeout else pc_connect_timeout pc0)\<rparr>)"
    by (auto simp: pool_config_of_def split: option.splits)
  ultimately show ?thesis unfolding pre preflight_roles_ok list_all_iff by blast
qed

end
