(* ===== verification/Commands.thy ===== *)
theory Commands
  imports Config_Edge Store_Open
begin

text \<open>
  cmd/lawang and internal/appversion: the command line, the order in which \<open>serve\<close> starts, and the version.
  The bodies of the other commands, the database, the listener and the server are arguments. What a
  command logs is left out, and the usage text, the SQL of \<open>migrate bootstrap\<close> and the version are
  arguments of \<open>run\<close>.
\<close>

subsection \<open>The version\<close>

abbreviation revision_len :: nat where "revision_len \<equiv> 12"

definition describe_version :: "bytes \<Rightarrow> (bytes \<times> bytes) list \<Rightarrow> bytes" where
  "describe_version version settings =
     (if version \<noteq> [] then version
      else
        let (rev, dirty) = foldl (\<lambda>(rev, dirty) (k, v).
              (if k = ''vcs.revision'' then v else rev, if k = ''vcs.modified'' then v = ''true'' else dirty)) ([], False) settings in
        if rev = [] then ''dev''
        else ''dev-'' @ take revision_len rev @ (if dirty then ''-dirty'' else []))"

subsection \<open>What a refused configuration is told\<close>

definition url_error_text :: "url_error \<Rightarrow> bytes" where
  "url_error_text e = (case e of
     UrlInvalid \<Rightarrow> ''not a valid URL''
   | UrlScheme \<Rightarrow> ''scheme must be http or https, and the URL must be absolute''
   | UrlNoHost \<Rightarrow> ''missing host''
   | UrlHostColon \<Rightarrow> ''the host must not end in a colon with no port''
   | UrlHostAscii \<Rightarrow> ''the host must be written in ASCII, and an internationalized name in its punycode (xn--) form''
   | UrlHostEscape \<Rightarrow> ''the host must be written plainly, with no percent-escape''
   | UrlUser \<Rightarrow> ''must not carry credentials''
   | UrlQuery \<Rightarrow> ''must not carry a query or a fragment''
   | UrlEscaped \<Rightarrow> ''the path prefix must be written plainly, with no percent-escape and no character that needs one''
   | UrlPath \<Rightarrow> ''the path prefix must be a clean absolute path, for example /lawang'')"

definition database_error_text :: "url_error \<Rightarrow> bytes" where
  "database_error_text e = (if e = UrlScheme then ''scheme must be postgres or postgresql'' else url_error_text e)"

definition key_error_text :: "key_error \<Rightarrow> bytes" where
  "key_error_text e = (case e of
     KeyEmpty \<Rightarrow> ''it is empty''
   | KeyWhitespace \<Rightarrow> ''it contains whitespace (a value read from a file keeps the newline at the end of it)''
   | KeyEncoding \<Rightarrow> ''it must be 32 bytes in standard base64 with padding (44 characters, as printed by: openssl rand -base64 32)''
   | KeyLength n \<Rightarrow> ''it decodes to '' @ show_nat n @ '' bytes and the key is 32 bytes (a 64 character hex key decodes to 48)'')"

definition not_one_of :: "bytes \<Rightarrow> bytes list \<Rightarrow> bytes" where
  "not_one_of name values = name @ '': must be one of: '' @ join_with '', '' values"

definition config_error_text :: "config_error \<Rightarrow> bytes" where
  "config_error_text e = (case e of
     EnvUnknown \<Rightarrow> not_one_of ''LAWANG_ENV'' env_values
   | DatabaseUrl x \<Rightarrow> ''LAWANG_DATABASE_URL: '' @ database_error_text x
   | DatabaseRequired \<Rightarrow> ''LAWANG_DATABASE_URL: required in production''
   | ListenAddr ListenShape \<Rightarrow> ''LAWANG_LISTEN_ADDR: must be host:port or :port''
   | ListenAddr ListenPort \<Rightarrow> ''LAWANG_LISTEN_ADDR: port must be a number from 0 to 65535 (service names are not accepted)''
   | PublicUrl x \<Rightarrow> ''LAWANG_PUBLIC_BASE_URL: '' @ url_error_text x
   | VaultKey x \<Rightarrow> ''LAWANG_VAULT_KEY: '' @ key_error_text x
   | VaultKeyRequired \<Rightarrow> ''LAWANG_VAULT_KEY: required in production''
   | LogLevelUnknown \<Rightarrow> not_one_of ''LAWANG_LOG_LEVEL'' log_level_values
   | LogFormatUnknown \<Rightarrow> not_one_of ''LAWANG_LOG_FORMAT'' log_format_values)"

subsection \<open>The command line\<close>

record run_result =
  ru_code :: int
  ru_stdout :: bytes
  ru_stderr :: bytes
  ru_started :: "(bytes \<times> config) option"

abbreviation nl :: bytes where "nl \<equiv> newline"

definition printed :: "bytes \<Rightarrow> run_result" where
  "printed s = \<lparr>ru_code = 0, ru_stdout = s, ru_stderr = [], ru_started = None\<rparr>"

definition usage_error :: "bytes \<Rightarrow> run_result" where
  "usage_error s = \<lparr>ru_code = 2, ru_stdout = [], ru_stderr = s, ru_started = None\<rparr>"

definition refuse_arguments :: "bytes \<Rightarrow> bytes list \<Rightarrow> run_result option" where
  "refuse_arguments usage args =
     (if length args = 1 then None else Some (usage_error (''lawang: '' @ hd args @ '' takes no arguments'' @ nl @ nl @ usage)))"

definition help_words :: "bytes list" where
  "help_words = [''help'', ''-h'', ''--help'']"

definition command_words :: "bytes list" where
  "command_words = [''serve'', ''worker'', ''migrate'']"

text \<open>\<open>body\<close> runs a command that needs the configuration, and says whether it failed. The worker is not built
  yet and always fails.\<close>

definition run ::
  "bytes \<Rightarrow> bytes \<Rightarrow> bytes \<Rightarrow> (bytes \<Rightarrow> config \<Rightarrow> bool) \<Rightarrow> parse_host \<Rightarrow> bytes \<Rightarrow> bytes list \<Rightarrow> (bytes \<Rightarrow> bytes) \<Rightarrow> run_result" where
  "run usage bootstrap version body ph random args getenv =
     (if args = [] then usage_error usage
      else
        let c = hd args; refusal = refuse_arguments usage args in
        if c = ''version'' then (case refusal of Some r \<Rightarrow> r | None \<Rightarrow> printed (version @ nl))
        else if c \<in> set help_words then (case refusal of Some r \<Rightarrow> r | None \<Rightarrow> printed usage)
        else if c = ''migrate'' \<and> length args > 1
        then (if args ! 1 \<noteq> ''bootstrap'' \<or> length args > 2 then usage_error (''lawang: usage: lawang migrate [bootstrap]'' @ nl)
              else printed bootstrap)
        else if c \<notin> set command_words then usage_error (''lawang: unknown command'' @ nl @ nl @ usage)
        else case refusal of
          Some r \<Rightarrow> r
        | None \<Rightarrow>
            (case load ph random getenv of
               Inl errs \<Rightarrow>
                 \<lparr>ru_code = 1, ru_stdout = [],
                  ru_stderr = ''lawang: invalid configuration:'' @ nl @ join_with nl (map config_error_text errs) @ nl, ru_started = None\<rparr>
             | Inr cfg \<Rightarrow>
                 \<lparr>ru_code = (if c = ''worker'' \<or> body c cfg then 1 else 0), ru_stdout = [], ru_stderr = [], ru_started = Some (c, cfg)\<rparr>))"

subsection \<open>Serving\<close>

definition healthz :: response where
  "healthz = \<lparr>rs_status = 200, rs_content_type = content_type_text, rs_retry_after = None, rs_body = ''ok'' @ nl\<rparr>"

definition healthz_route :: route where
  "healthz_route = \<lparr>rt_method = ''GET'', rt_path = ''/healthz'', rt_handled = True\<rparr>"

text \<open>What net/http's mux says of a table of patterns (\<open>new_mux\<close>).\<close>

record mux_answers =
  mx_panics :: "bytes list \<Rightarrow> bytes \<Rightarrow> bool"
  mx_redirects :: "bytes list \<Rightarrow> bytes \<Rightarrow> bytes \<Rightarrow> bool"
  mx_parse_media :: media_parser

definition new_handler :: "mux_answers \<Rightarrow> parse_host \<Rightarrow> 'h registry \<Rightarrow> bytes \<Rightarrow> edge_error + 'h edge \<times> bytes list" where
  "new_handler mx ph reg base =
     bind_res (new_edge (norm_url ph) (mx_parse_media mx) reg 0 0 base) (\<lambda>h.
     bind_res (new_mux (mx_panics mx) (mx_redirects mx) [healthz_route]) (\<lambda>patterns. Inr (h, patterns)))"

datatype serve_error =
    ServeStore open_error | ServeRegistry reg_error | ServeHub hub_error | ServeEdge edge_error | ServeListen bytes | ServeHttp

text \<open>\<open>serveOn\<close>: the server ends by itself, or the context is cancelled and the server is shut down, within the
  grace or not, and says why it ended.\<close>

datatype http_end = HttpEnded | HttpClosed

datatype serving = ServerEnds | Cancelled bool http_end

definition serve_on :: "serving \<Rightarrow> serve_error option" where
  "serve_on sv =
     (case sv of
        ServerEnds \<Rightarrow> Some ServeHttp
      | Cancelled in_grace e \<Rightarrow> if \<not> in_grace then Some ServeHttp else if e = HttpClosed then None else Some ServeHttp)"

text \<open>The world a process meets: what the database answers, what listening answers, what the context says and how
  serving ends.\<close>

record serve_world =
  sw_db :: database
  sw_listen :: "bytes \<Rightarrow> go_error option"
  sw_ctx :: "go_error option"
  sw_serving :: serving

text \<open>\<open>serve\<close> over the providers of the binary, with what it bound and serves.\<close>

definition serve_with ::
  "'h provider option list \<Rightarrow> mux_answers \<Rightarrow> parse_host \<Rightarrow> serve_world \<Rightarrow> config \<Rightarrow> serve_error option \<times> 'h edge option" where
  "serve_with providers mx ph wd cfg =
     (case open_db (sw_ctx wd) (sw_db wd) (cf_database_url cfg) of
        Inl e \<Rightarrow> (Some (ServeStore e), None)
      | Inr _ \<Rightarrow>
     (case new_registry providers of
        Inl e \<Rightarrow> (Some (ServeRegistry e), None)
      | Inr reg \<Rightarrow>
     (case new_hub reg (cf_public_base_url cfg) 0 of
        Inl e \<Rightarrow> (Some (ServeHub e), None)
      | Inr _ \<Rightarrow>
     (case new_handler mx ph reg (cf_public_base_url cfg) of
        Inl e \<Rightarrow> (Some (ServeEdge e), None)
      | Inr (h, _) \<Rightarrow>
     (case sw_listen wd (cf_listen_addr cfg) of
        Some e \<Rightarrow> (Some (ServeListen (go_text (listen_error_of (sw_ctx wd) e))), None)
      | None \<Rightarrow> (serve_on (sw_serving wd), Some h))))))"

text \<open>The binary registers no provider yet.\<close>

definition serve :: "mux_answers \<Rightarrow> parse_host \<Rightarrow> serve_world \<Rightarrow> config \<Rightarrow> serve_error option" where
  "serve mx ph wd cfg = fst (serve_with ([] :: unit provider option list) mx ph wd cfg)"

text \<open>\<open>migrate\<close>: the number of migrations applied, or what failed.\<close>

definition migrate_command ::
  "serve_world \<Rightarrow> go_error option \<Rightarrow> nat \<times> go_error option \<Rightarrow> config \<Rightarrow> open_error + nat \<times> go_error option" where
  "migrate_command wd built up cfg =
     bind_res (open_db (sw_ctx wd) (sw_db wd) (cf_database_url cfg)) (\<lambda>_. Inr (migrate_db (sw_ctx wd) built up))"

subsection \<open>What is started, and on what\<close>

definition known_word :: "bytes \<Rightarrow> bool" where
  "known_word c \<longleftrightarrow> c = ''version'' \<or> c \<in> set help_words \<or> c \<in> set command_words"

lemma run_unknown: "\<not> known_word c \<Longrightarrow> run usage bootstrap version body ph random (c # as) getenv = usage_error (''lawang: unknown command'' @ nl @ nl @ usage)"
  by (auto simp: run_def known_word_def command_words_def Let_def)

definition run_command ::
  "(bytes \<Rightarrow> config \<Rightarrow> bool) \<Rightarrow> parse_host \<Rightarrow> bytes \<Rightarrow> bytes \<Rightarrow> (bytes \<Rightarrow> bytes) \<Rightarrow> run_result" where
  "run_command body ph random c getenv =
     (case load ph random getenv of
        Inl errs \<Rightarrow>
          \<lparr>ru_code = 1, ru_stdout = [],
           ru_stderr = ''lawang: invalid configuration:'' @ nl @ join_with nl (map config_error_text errs) @ nl, ru_started = None\<rparr>
      | Inr cfg \<Rightarrow>
          \<lparr>ru_code = (if c = ''worker'' \<or> body c cfg then 1 else 0), ru_stdout = [], ru_stderr = [], ru_started = Some (c, cfg)\<rparr>)"

lemma run_single:
  assumes "c \<in> set command_words"
  shows "run usage bootstrap version body ph random [c] getenv = run_command body ph random c getenv"
proof -
  have "c \<noteq> ''version''" "c \<notin> set help_words" using assms by (auto simp: command_words_def help_words_def)
  then show ?thesis using assms by (simp add: run_def run_command_def refuse_arguments_def)
qed

lemma result_simps [simp]: "ru_code (printed s) = 0" "ru_code (usage_error s) = 2" "ru_started (printed s) = None" "ru_started (usage_error s) = None"
  by (simp_all add: printed_def usage_error_def)

lemma refused_result: "refuse_arguments usage args = Some x \<Longrightarrow> ru_code x = 2 \<and> ru_started x = None"
  by (auto simp: refuse_arguments_def split: if_splits)

lemma not_refused: "refuse_arguments usage args = None \<Longrightarrow> args = [hd args]"
  by (cases args) (auto simp: refuse_arguments_def split: if_splits)

text \<open>Either a command ran, or nothing of the environment mattered.\<close>

lemma run_elsewhere:
  assumes "\<not> (\<exists>c. args = [c] \<and> c \<in> set command_words)"
  shows "ru_started (run usage bootstrap version body ph random args getenv) = None \<and>
    ru_code (run usage bootstrap version body ph random args getenv) \<in> {0, 2} \<and>
    run usage bootstrap version body ph random args getenv' = run usage bootstrap version body ph random args getenv"
proof (cases "refuse_arguments usage args")
  case None
  then obtain c where args: "args = [c]" using not_refused by blast
  then have "c \<notin> set command_words" using assms by blast
  then show ?thesis using None by (auto simp: run_def args Let_def)
next
  case (Some x)
  then show ?thesis using refused_result [OF Some] by (auto simp: run_def Let_def)
qed



text \<open>A deployment that could verify nothing never listens: what \<open>serve\<close> binds has a base URL whenever a provider
  signs over the URL, and signs over the one of the configuration.\<close>

lemma serve_binds_what_it_can_verify:
  assumes "serve_with providers mx ph wd cfg = (err, Some h)" and "plain_host_law ph" and "load ph random getenv = Inr cfg"
  shows "is_ok (open_db (sw_ctx wd) (sw_db wd) (cf_database_url cfg)) \<and> new_registry providers = Inr (eg_reg h) \<and>
    eg_public_base_url h = cf_public_base_url cfg \<and>
    (cf_public_base_url cfg = [] \<longrightarrow> list_all (\<lambda>e. case en_source e of None \<Rightarrow> True | Some src \<Rightarrow> \<not> ws_signs_url src) (reg_entries (eg_reg h)))"
proof -
  obtain reg n ps where s: "is_ok (open_db (sw_ctx wd) (sw_db wd) (cf_database_url cfg))" "new_registry providers = Inr reg" "new_hub reg (cf_public_base_url cfg) 0 = Inr n"
      "new_handler mx ph reg (cf_public_base_url cfg) = Inr (h, ps)"
    using assms(1) by (auto simp: serve_with_def split: if_splits sum.splits option.splits)
  have e: "new_edge (norm_url ph) (mx_parse_media mx) reg 0 0 (cf_public_base_url cfg) = Inr h"
    using s(4) by (auto simp: new_handler_def bind_res_Inr)
  have "cf_public_base_url cfg \<noteq> [] \<longrightarrow> normalize_public_base_url ph (cf_public_base_url cfg) = Inr (cf_public_base_url cfg)"
    using loaded_base_url [OF assms(3,2)] by blast
  then have "eg_reg h = reg" "eg_public_base_url h = cf_public_base_url cfg"
    using e by (auto simp: new_edge_def norm_url_def split: if_splits)
  moreover have "list_all (\<lambda>e. case en_source e of None \<Rightarrow> True | Some src \<Rightarrow> \<not> ws_signs_url src) (reg_entries reg)"
    if "cf_public_base_url cfg = []"
    using s(3) that by (fastforce simp: new_hub_def Let_def list_all_iff find_None_iff split: option.splits if_splits)
  ultimately show ?thesis using s by auto
qed

end
