(* ===== verification/Drain_Loop.thy ===== *)
theory Drain_Loop
  imports Worker_Batch
begin

text \<open>
  The loop of one goroutine of the drain (\<open>Run\<close>, \<open>loop\<close> and \<open>wait\<close> of internal/worker/worker.go). A tick
  is one turn of the loop: what everybody else did to the tables since the last one (the hub, the other
  goroutines, other replicas, an operator), the clock and the token of the claim, and how many rows are
  started before the shutdown. The context is cancelled when the ticks are used up.
\<close>

record 'w tick =
  tk_before :: "'w wstate \<Rightarrow> 'w wstate"
  tk_now :: int
  tk_token :: bytes
  tk_locked :: "bytes list"
  tk_clock :: "claimed \<Rightarrow> int \<times> int"
  tk_started :: nat

text \<open>How often the goroutine waited for the poll interval, and the state it leaves.\<close>

fun drain_loop :: "('h, 'w) drain \<Rightarrow> drain_options \<Rightarrow> 'w tick list \<Rightarrow> 'w wstate \<Rightarrow> nat \<times> 'w wstate" where
  "drain_loop dn op [] s = (0, s)"
| "drain_loop dn op (tk # tks) s =
     (let (r, s1) = once dn op (tk_now tk) (tk_token tk) (tk_locked tk) (tk_clock tk) (tk_started tk) (tk_before tk s);
          waited = (case r of Inl _ \<Rightarrow> 1 | Inr n \<Rightarrow> if n = 0 then 1 else 0);
          (n, s2) = drain_loop dn op tks s1 in
      (waited + n, s2))"

text \<open>No row is under one of the tokens.\<close>

definition clean_of :: "bytes set \<Rightarrow> 'w wstate \<Rightarrow> bool" where
  "clean_of U s \<longleftrightarrow> (\<forall>r \<in> set (rows (ws_ob s)). \<forall>tok \<in> U. r_lease_token r \<noteq> Some tok)"

definition others_keep :: "bytes set \<Rightarrow> 'w tick \<Rightarrow> bool" where
  "others_keep U tk \<longleftrightarrow> tk_token tk \<in> U \<and>
     (\<forall>s. ob_inv (ws_ob s) \<longrightarrow> clean_of U s \<longrightarrow> ob_inv (ws_ob (tk_before tk s)) \<and> clean_of U (tk_before tk s))"

lemma drain_claim_result:
  "claim now tok locked n lease d = (Inl e, d') \<Longrightarrow> d' = d"
  "claim now tok locked n lease d = (Inr cs, d') \<Longrightarrow> r \<in> set (rows d') \<Longrightarrow>
     r_lease_token r = Some tok \<or> (\<exists>q \<in> set (rows d). r_lease_token q = r_lease_token r)"
  by (auto simp: claim_def role_tx_def begin_tx_def sql_claim_def update_rows_def lease_row_def split_beta Let_def split: if_splits sum.splits)

lemma once_keeps_clean:
  assumes inv: "ob_inv (ws_ob s)" and clean: "clean_of U s" and tok: "tok \<in> U" "[] \<notin> U" and pause: "0 < dn_halt_pause dn"
    and run: "once dn op now tok locked clock k s = (r, s')"
  shows "ob_inv (ws_ob s') \<and> clean_of U s'"
proof -
  obtain res ob where cl: "claim now tok locked (op_batch op) (op_lease op) (ws_ob s) = (res, ob)" by fastforce
  show ?thesis
  proof (cases res)
    case (Inl e)
    then have "ob = ws_ob s" using drain_claim_result(1) cl by simp
    then show ?thesis using run inv clean cl Inl by (simp add: once_def clean_of_def)
  next
    case (Inr cs)
    note cl = cl [unfolded Inr]
    have s': "s' = work_batch dn clock k cs (s\<lparr>ws_ob := ob\<rparr>)" using run cl by (simp add: once_def)
    have ne: "tok \<noteq> []" using tok by metis
    have fresh: "\<forall>r \<in> set (rows (ws_ob s)). r_lease_token r \<noteq> Some tok" using clean tok(1) by (simp add: clean_of_def)
    note own = claim_owns [OF cl ne ob_inv_ids [OF inv] fresh]
    have inv1: "ob_inv ob" by (rule claim_inv [OF inv cl])
    have own1: "\<forall>c \<in> set cs. claims_own c (ws_ob (s\<lparr>ws_ob := ob\<rparr>))" using own(1) by simp
    note fin = worked_batch_settles [OF _ own1 pause, of clock k, folded s', simplified, OF inv1]
    have "r_lease_token r \<noteq> Some tok'" if r: "r \<in> set (rows (ws_ob s'))" "tok' \<in> U" for r tok'
    proof
      assume t: "r_lease_token r = Some tok'"
      then obtain q where q: "q \<in> set (rows ob)" "r_id q = r_id r" "r_lease_token q = Some tok'"
        using fin r unfolding no_new_lease_def by (metis option.distinct(1))
      show False
      proof (cases "tok' = tok")
        case True
        obtain c where c: "c \<in> set cs" "cl_id c = r_id q" using own(2) [OF q(1)] q(3) True by blast
        then show False using fin own(1) r(1) t q(2) True unfolding lost_def by metis
      next
        case False
        then show False using drain_claim_result(2) [OF cl q(1)] q(3) clean r(2) unfolding clean_of_def by auto
      qed
    qed
    then show ?thesis using fin unfolding clean_of_def by blast
  qed
qed

lemma drain_loop_clean:
  "ob_inv (ws_ob s) \<Longrightarrow> clean_of U s \<Longrightarrow> [] \<notin> U \<Longrightarrow> 0 < dn_halt_pause dn \<Longrightarrow> list_all (others_keep U) tks \<Longrightarrow>
   ob_inv (ws_ob (snd (drain_loop dn op tks s))) \<and> clean_of U (snd (drain_loop dn op tks s)) \<and> fst (drain_loop dn op tks s) \<le> length tks"
proof (induction tks arbitrary: s)
  case (Cons tk tks)
  let ?s0 = "tk_before tk s"
  obtain r s1 where o: "once dn op (tk_now tk) (tk_token tk) (tk_locked tk) (tk_clock tk) (tk_started tk) ?s0 = (r, s1)" by fastforce
  have b: "ob_inv (ws_ob ?s0)" "clean_of U ?s0" "tk_token tk \<in> U" using Cons.prems by (auto simp: others_keep_def)
  have n: "ob_inv (ws_ob s1)" "clean_of U s1" using once_keeps_clean [OF b(1,2,3) Cons.prems(3,4) o] by simp_all
  have w: "(case r of Inl _ \<Rightarrow> 1 | Inr n \<Rightarrow> if n = 0 then 1 else 0) \<le> (1 :: nat)" by (auto split: sum.split)
  obtain k s2 where d: "drain_loop dn op tks s1 = (k, s2)" by fastforce
  have "ob_inv (ws_ob s2) \<and> clean_of U s2 \<and> k \<le> length tks" using Cons.IH [OF n Cons.prems(3,4)] Cons.prems(5) d by simp
  then show ?case using w by (simp add: o d)
qed simp


definition ex_tick :: "bytes \<Rightarrow> unit tick" where
  "ex_tick tok = \<lparr>tk_before = (\<lambda>s. s), tk_now = 1, tk_token = tok, tk_locked = [], tk_clock = (\<lambda>_. (2, 3)), tk_started = 1\<rparr>"


end
