(* ===== verification/Fake.thy ===== *)
theory Fake
  imports Clickup_Limits Url_Parse
begin

text \<open>
  internal/provider/fake: the strict provider the tests of the edge, the hub and the pipeline run on.
  It is the one provider of the repository that answers a handshake and can degrade. HMAC-SHA256 and
  the JSON reader are parameters, as they are of ClickUp's provider, and so are \<open>time.Time\<close>'s reader of
  a quoted time (\<open>rfc3339\<close>) and its \<open>UTC\<close> method (\<open>utc\<close>). The delivery keeps the bytes of each of its
  events (\<open>json.RawMessage\<close>), so objects are read here out of their text.
\<close>

subsection \<open>Reading an object with its members' bytes\<close>

definition skip_space :: "bytes \<Rightarrow> bytes" where
  "skip_space s = dropWhile json_space s"

text \<open>The first value of a text, the bytes it is written in, and what follows it.\<close>

definition first_raw :: "first_value \<Rightarrow> bytes \<Rightarrow> (json \<times> bytes \<times> bytes) option" where
  "first_raw fv s =
     (let s' = skip_space s in
      case fv s' of None \<Rightarrow> None | Some (j, rest) \<Rightarrow> Some (j, take (length s' - length rest) s', rest))"

text \<open>The members of an object and the elements of an array, after the opening bracket; the number
  bounds how many are read, and the length of the text is enough.\<close>

fun raw_members :: "first_value \<Rightarrow> nat \<Rightarrow> bytes \<Rightarrow> (bytes \<times> bytes) list" where
  "raw_members fv 0 s = []"
| "raw_members fv (Suc n) s =
     (case first_raw fv s of
        Some (JStr k, _, rest) \<Rightarrow>
          (case first_raw fv (tl (skip_space rest)) of
             Some (_, raw, rest') \<Rightarrow> (k, raw) # raw_members fv n (tl (skip_space rest'))
           | None \<Rightarrow> [])
      | _ \<Rightarrow> [])"

fun raw_items :: "first_value \<Rightarrow> nat \<Rightarrow> bytes \<Rightarrow> bytes list" where
  "raw_items fv 0 s = []"
| "raw_items fv (Suc n) s =
     (case first_raw fv s of
        Some (_, raw, rest) \<Rightarrow> raw # raw_items fv n (tl (skip_space rest))
      | None \<Rightarrow> [])"

type_synonym 'a raw_into = "bytes \<Rightarrow> 'a \<Rightarrow> 'a option"

definition of_value :: "first_value \<Rightarrow> 'a into \<Rightarrow> 'a raw_into" where
  "of_value fv into raw v = (case fv raw of None \<Rightarrow> None | Some (j, _) \<Rightarrow> into j v)"

definition into_bool :: "bool into" where
  "into_bool j b = (case j of JBool x \<Rightarrow> Some x | JNull \<Rightarrow> Some b | _ \<Rightarrow> None)"

definition into_raw_items :: "first_value \<Rightarrow> bytes list raw_into" where
  "into_raw_items fv raw v =
     (case fv raw of
        Some (JArr js, _) \<Rightarrow> Some (raw_items fv (length raw) (tl raw))
      | Some (JNull, _) \<Rightarrow> Some []
      | _ \<Rightarrow> None)"

text \<open>\<open>DisallowUnknownFields\<close>: a member the shape does not have is an error.\<close>

fun fill_strict :: "(bytes \<times> 'a raw_into) list \<Rightarrow> (bytes \<times> bytes) list \<Rightarrow> 'a \<Rightarrow> 'a option" where
  "fill_strict shape [] v = Some v"
| "fill_strict shape ((k, raw) # ms) v =
     (case find (\<lambda>f. same_name (fst f) k) shape of
        None \<Rightarrow> None
      | Some f \<Rightarrow> (case snd f raw v of None \<Rightarrow> None | Some v' \<Rightarrow> fill_strict shape ms v'))"

datatype fake_error = FakeBadDelivery bytes | FakeBadChange bytes | FakeUnavailable | FakeStopped bytes

definition decode_strict :: "first_value \<Rightarrow> (bytes \<times> 'a raw_into) list \<Rightarrow> 'a \<Rightarrow> bytes \<Rightarrow> fake_error + 'a" where
  "decode_strict fv shape zero body =
     (if \<not> valid_string body then Inl (FakeBadDelivery ''not UTF-8'')
      else case first_raw fv body of
        None \<Rightarrow> Inl (FakeBadDelivery ''not the expected JSON'')
      | Some (j, raw, rest) \<Rightarrow>
          (case (case j of
                   JObj _ \<Rightarrow> fill_strict shape (raw_members fv (length raw) (tl raw)) zero
                 | JNull \<Rightarrow> Some zero
                 | _ \<Rightarrow> None) of
             None \<Rightarrow> Inl (FakeBadDelivery ''not the expected JSON'')
           | Some v \<Rightarrow> if list_all json_space rest then Inr v else Inl (FakeBadDelivery ''trailing data'')))"

subsection \<open>A delivery\<close>

abbreviation fake_max_id :: nat where "fake_max_id \<equiv> 128"

definition printable_ascii :: "bytes \<Rightarrow> bool" where
  "printable_ascii s \<longleftrightarrow> list_all (\<lambda>c. 0x20 \<le> ord_of c \<and> ord_of c \<le> 0x7E) s"

definition valid_provider_id :: "bytes \<Rightarrow> bool" where
  "valid_provider_id s \<longleftrightarrow> s \<noteq> [] \<and> length s \<le> fake_max_id \<and> printable_ascii s"

record fake_envelope =
  fe_type :: bytes
  fe_workspace :: bytes
  fe_subscription :: bytes
  fe_events :: "bytes list"

definition envelope_shape :: "first_value \<Rightarrow> (bytes \<times> fake_envelope raw_into) list" where
  "envelope_shape fv =
     [(''type'', \<lambda>r e. map_option (\<lambda>s. e\<lparr>fe_type := s\<rparr>) (of_value fv into_string r (fe_type e))),
      (''workspace'', \<lambda>r e. map_option (\<lambda>s. e\<lparr>fe_workspace := s\<rparr>) (of_value fv into_string r (fe_workspace e))),
      (''subscription'', \<lambda>r e. map_option (\<lambda>s. e\<lparr>fe_subscription := s\<rparr>) (of_value fv into_string r (fe_subscription e))),
      (''events'', \<lambda>r e. map_option (\<lambda>s. e\<lparr>fe_events := s\<rparr>) (into_raw_items fv r (fe_events e)))]"

definition parse_envelope :: "first_value \<Rightarrow> bytes \<Rightarrow> fake_error + fake_envelope" where
  "parse_envelope fv body =
     bind_res (decode_strict fv (envelope_shape fv)
        \<lparr>fe_type = [], fe_workspace = [], fe_subscription = [], fe_events = []\<rparr> body) (\<lambda>e.
       if fe_type e \<noteq> ''event'' then Inl (FakeBadDelivery ''not an event'')
       else if \<not> valid_provider_id (fe_workspace e) then Inl (FakeBadDelivery ''workspace'')
       else if fe_subscription e \<noteq> [] \<and> \<not> valid_provider_id (fe_subscription e) then Inl (FakeBadDelivery ''subscription'')
       else Inr e)"

definition fake_keys :: "first_value \<Rightarrow> bytes \<Rightarrow> fake_error + delivery_keys" where
  "fake_keys fv body =
     bind_res (parse_envelope fv body) (\<lambda>e. Inr \<lparr>dk_workspace = fe_workspace e, dk_subscription = fe_subscription e\<rparr>)"

record fake_event =
  fv_external :: bytes
  fv_op :: bytes
  fv_version :: bytes
  fv_container :: bytes
  fv_title :: bytes
  fv_text :: bytes
  fv_author :: bytes
  fv_occurred :: go_time
  fv_automation :: bool
  fv_hydrate :: bytes

text \<open>The zero time, which \<open>IsZero\<close> asks for.\<close>

definition zero_time :: go_time where
  "zero_time = \<lparr>t_utc = True, t_year = 1, t_text = ''0001-01-01T00:00:00Z''\<rparr>"

definition zero_event :: fake_event where
  "zero_event = \<lparr>fv_external = [], fv_op = [], fv_version = [], fv_container = [], fv_title = [], fv_text = [],
     fv_author = [], fv_occurred = zero_time, fv_automation = False, fv_hydrate = []\<rparr>"

text \<open>\<open>time.Time.UnmarshalJSON\<close> reads the bytes between the quotes as they are.\<close>

definition into_time :: "(bytes \<Rightarrow> go_time option) \<Rightarrow> go_time raw_into" where
  "into_time rfc3339 raw t =
     (if raw = ''null'' then Some t
      else if length raw < 2 \<or> hd raw \<noteq> CHR 0x22 \<or> last raw \<noteq> CHR 0x22 then None
      else rfc3339 (butlast (tl raw)))"

definition event_shape :: "first_value \<Rightarrow> (bytes \<Rightarrow> go_time option) \<Rightarrow> (bytes \<times> fake_event raw_into) list" where
  "event_shape fv rfc3339 =
     [(''external_id'', \<lambda>r e. map_option (\<lambda>s. e\<lparr>fv_external := s\<rparr>) (of_value fv into_string r (fv_external e))),
      (''op'', \<lambda>r e. map_option (\<lambda>s. e\<lparr>fv_op := s\<rparr>) (of_value fv into_string r (fv_op e))),
      (''version'', \<lambda>r e. map_option (\<lambda>s. e\<lparr>fv_version := s\<rparr>) (of_value fv into_string r (fv_version e))),
      (''container'', \<lambda>r e. map_option (\<lambda>s. e\<lparr>fv_container := s\<rparr>) (of_value fv into_string r (fv_container e))),
      (''title'', \<lambda>r e. map_option (\<lambda>s. e\<lparr>fv_title := s\<rparr>) (of_value fv into_string r (fv_title e))),
      (''text'', \<lambda>r e. map_option (\<lambda>s. e\<lparr>fv_text := s\<rparr>) (of_value fv into_string r (fv_text e))),
      (''author'', \<lambda>r e. map_option (\<lambda>s. e\<lparr>fv_author := s\<rparr>) (of_value fv into_string r (fv_author e))),
      (''occurred_at'', \<lambda>r e. map_option (\<lambda>t. e\<lparr>fv_occurred := t\<rparr>) (into_time rfc3339 r (fv_occurred e))),
      (''automation'', \<lambda>r e. map_option (\<lambda>b. e\<lparr>fv_automation := b\<rparr>) (of_value fv into_bool r (fv_automation e))),
      (''hydrate'', \<lambda>r e. map_option (\<lambda>s. e\<lparr>fv_hydrate := s\<rparr>) (of_value fv into_string r (fv_hydrate e)))]"

abbreviation hydrate_fail :: bytes where "hydrate_fail \<equiv> ''fail''"

definition parse_event ::
  "first_value \<Rightarrow> (bytes \<Rightarrow> go_time option) \<Rightarrow> (go_time \<Rightarrow> go_time) \<Rightarrow> bytes \<Rightarrow> bytes \<Rightarrow> fake_error + fake_event" where
  "parse_event fv rfc3339 utc key raw =
     bind_res (decode_strict fv (event_shape fv rfc3339) zero_event raw) (\<lambda>e.
       if fv_op e \<noteq> op_upsert \<and> fv_op e \<noteq> op_delete then Inl (FakeBadDelivery ''op'')
       else if \<not> has_prefix (fv_external e) (key @ '':'') \<or> length (fv_external e) > fake_max_id
       then Inl (FakeBadDelivery ''external_id'')
       else if \<not> valid_provider_id (fv_version e) \<or> \<not> valid_provider_id (fv_container e)
       then Inl (FakeBadDelivery ''version or container'')
       else if fv_hydrate e \<noteq> [] \<and> fv_hydrate e \<noteq> hydrate_fail then Inl (FakeBadDelivery ''hydrate'')
       else if fv_author e \<noteq> [] \<and> \<not> valid_provider_id (fv_author e) then Inl (FakeBadDelivery ''author'')
       else if utc (fv_occurred e) = zero_time then Inl (FakeBadDelivery ''occurred_at'')
       else Inr (e\<lparr>fv_occurred := utc (fv_occurred e)\<rparr>))"

fun parse_events ::
  "first_value \<Rightarrow> (bytes \<Rightarrow> go_time option) \<Rightarrow> (go_time \<Rightarrow> go_time) \<Rightarrow> bytes \<Rightarrow> bytes list \<Rightarrow> fake_error + change list" where
  "parse_events fv rfc3339 utc key [] = Inr []"
| "parse_events fv rfc3339 utc key (raw # raws) =
     bind_res (parse_event fv rfc3339 utc key raw) (\<lambda>e.
     bind_res (parse_events fv rfc3339 utc key raws) (\<lambda>cs.
       Inr (\<lparr>ch_external_id = fv_external e, ch_op = fv_op e, ch_payload = raw\<rparr> # cs)))"

definition fake_parse ::
  "first_value \<Rightarrow> (bytes \<Rightarrow> go_time option) \<Rightarrow> (go_time \<Rightarrow> go_time) \<Rightarrow> bytes \<Rightarrow> bytes \<Rightarrow> fake_error + change list" where
  "fake_parse fv rfc3339 utc key body =
     bind_res (parse_envelope fv body) (\<lambda>e.
       if fe_events e = [] then Inl (FakeBadDelivery ''no events'')
       else parse_events fv rfc3339 utc key (fe_events e))"

subsection \<open>The signature\<close>

abbreviation fake_signature_header :: bytes where "fake_signature_header \<equiv> ''X-Fake-Signature''"

definition fake_sign :: "(bytes \<Rightarrow> bytes \<Rightarrow> bytes) \<Rightarrow> bytes \<Rightarrow> bytes \<Rightarrow> bytes" where
  "fake_sign hmac secret body = hex_text (hmac secret body)"

definition fake_verify :: "(bytes \<Rightarrow> bytes \<Rightarrow> bytes) \<Rightarrow> request \<Rightarrow> bytes \<Rightarrow> verify_answer" where
  "fake_verify hmac r secret =
     (if secret = [] then NotVerified
      else case rq_header r fake_signature_header of
        [sig] \<Rightarrow>
          (case hex_decode sig of
             None \<Rightarrow> NotVerified
           | Some want \<Rightarrow>
               if length want \<noteq> 32 then NotVerified
               else if hmac secret (rq_body r) = want then Verified else NotVerified)
      | _ \<Rightarrow> NotVerified)"

subsection \<open>The handshake\<close>

text \<open>\<open>url.QueryUnescape\<close> and \<open>URL.Query\<close>: pairs that cannot be read are left out, and a
  query of too many pairs is empty.\<close>

definition query_unescape :: "bytes \<Rightarrow> bytes option" where
  "query_unescape s = url_unescape (map (\<lambda>c. if c = CHR ''+'' then CHR '' '' else c) s)"

fun split_amp :: "bytes \<Rightarrow> bytes list" where
  "split_amp [] = [[]]"
| "split_amp (c # s) =
     (if c = CHR ''&'' then [] # split_amp s
      else case split_amp s of [] \<Rightarrow> [[c]] | p # ps \<Rightarrow> (c # p) # ps)"

definition query_pair :: "bytes \<Rightarrow> (bytes \<times> bytes) option" where
  "query_pair p =
     (if CHR '';'' \<in> set p \<or> p = [] then None
      else case (query_unescape (fst (cut_at (CHR ''='') p)), query_unescape (snd (cut_at (CHR ''='') p))) of
        (Some k, Some v) \<Rightarrow> Some (k, v)
      | _ \<Rightarrow> None)"

abbreviation max_query_params :: nat where "max_query_params \<equiv> 10000"

definition query_values :: "bytes \<Rightarrow> bytes \<Rightarrow> bytes list" where
  "query_values uri name =
     (let ps = split_amp (snd (cut_at (CHR ''?'') uri)) in
      if length ps > max_query_params then []
      else map snd (filter (\<lambda>kv. fst kv = name) (List.map_filter query_pair ps)))"

abbreviation max_challenge :: nat where "max_challenge \<equiv> 256"

definition bad_challenge :: reply where
  "bad_challenge = \<lparr>rp_status = 400, rp_content_type = [], rp_body = ''bad challenge'' @ [CHR 0x0A]\<rparr>"

definition echoed :: "bytes \<Rightarrow> bool" where
  "echoed s \<longleftrightarrow> s \<noteq> [] \<and> length s \<le> max_challenge \<and> printable_ascii s"

text \<open>How \<open>json.Marshal\<close> writes a string of printable ASCII: quotes and backslashes are escaped, and the
  three characters that mean something in HTML.\<close>

definition marshal_char :: "char \<Rightarrow> bytes" where
  "marshal_char c =
     (if ord_of c = 0x22 \<or> ord_of c = 0x5C then [CHR 0x5C, c]
      else if c = CHR ''<'' then CHR 0x5C # ''u003c''
      else if c = CHR ''>'' then CHR 0x5C # ''u003e''
      else if c = CHR ''&'' then CHR 0x5C # ''u0026''
      else [c])"

definition marshal_ascii :: "bytes \<Rightarrow> bytes" where
  "marshal_ascii s = CHR 0x22 # concat (map marshal_char s) @ [CHR 0x22]"

definition handshake_shape :: "first_value \<Rightarrow> (bytes \<times> (bytes \<times> bytes) raw_into) list" where
  "handshake_shape fv =
     [(''type'', \<lambda>r v. map_option (\<lambda>s. (s, snd v)) (of_value fv into_string r (fst v))),
      (''challenge'', \<lambda>r v. map_option (\<lambda>s. (fst v, s)) (of_value fv into_string r (snd v)))]"

definition fake_handshake :: "first_value \<Rightarrow> request \<Rightarrow> bytes \<Rightarrow> reply option" where
  "fake_handshake fv r body =
     (case query_values (rq_url r) ''validationToken'' of
        [] \<Rightarrow>
          (case decode_strict fv (handshake_shape fv) ([], []) body of
             Inl _ \<Rightarrow> None
           | Inr (ty, ch) \<Rightarrow>
               if ty \<noteq> ''handshake'' then None
               else if \<not> echoed ch then Some bad_challenge
               else Some \<lparr>rp_status = 0, rp_content_type = ''application/json'',
                      rp_body = CHR ''{'' # marshal_ascii ''challenge'' @ '':'' @ marshal_ascii ch @ ''}''\<rparr>)
      | [tok] \<Rightarrow>
          if echoed tok then Some \<lparr>rp_status = 0, rp_content_type = ''text/plain; charset=utf-8'', rp_body = tok\<rparr>
          else Some bad_challenge
      | _ \<Rightarrow> Some bad_challenge)"

subsection \<open>The records\<close>

abbreviation unknown_container :: bytes where "unknown_container \<equiv> ''?''"

record fake_object =
  fo_event :: fake_event
  fo_text :: bytes

definition fake_hydrate ::
  "first_value \<Rightarrow> (bytes \<Rightarrow> go_time option) \<Rightarrow> (go_time \<Rightarrow> go_time) \<Rightarrow> bytes \<Rightarrow> bytes option \<Rightarrow> bytes \<Rightarrow> change \<Rightarrow> fake_error + fake_object" where
  "fake_hydrate fv rfc3339 utc key stopped t c =
     (case stopped of
        Some why \<Rightarrow> Inl (FakeStopped why)
      | None \<Rightarrow>
          if t = [] then Inl (FakeBadChange ''no tenant'')
          else bind_res (parse_event fv rfc3339 utc key (ch_payload c)) (\<lambda>e.
            if fv_external e \<noteq> ch_external_id c then Inl (FakeBadChange ''the payload is not this change's'')
            else if fv_hydrate e = hydrate_fail then Inl FakeUnavailable
            else Inr \<lparr>fo_event = (if fv_container e = unknown_container then e\<lparr>fv_container := ''resolved''\<rparr> else e),
                      fo_text = ''hydrated '' @ fv_external e\<rparr>))"

definition fake_scope :: "bytes \<Rightarrow> fake_event \<Rightarrow> fake_error + bytes" where
  "fake_scope key e = (case scope_id key ''list'' (fv_container e) of Inl _ \<Rightarrow> Inl (FakeBadChange ''scope'') | Inr s \<Rightarrow> Inr s)"

definition event_record :: "fake_event \<Rightarrow> bytes \<Rightarrow> bytes \<Rightarrow> rec" where
  "event_record e scope hydrated_text =
     \<lparr>rc_format = [], rc_id = [], rc_op = fv_op e, rc_source = [], rc_kind = ''task'',
      rc_external_id = fv_external e, rc_version = fv_version e, rc_supersedes = [],
      rc_occurred_at = fv_occurred e, rc_title = fv_title e,
      rc_text = (if fv_text e \<noteq> [] then fv_text e else hydrated_text),
      rc_author = \<lparr>au_id = fv_author e, au_display = fv_author e\<rparr>,
      rc_container = \<lparr>co_kind = ''list'', co_id = fv_container e\<rparr>,
      rc_visibility = \<lparr>vi_scope = scope, vi_audience = ''group''\<rparr>,
      rc_origin = \<lparr>or_automation = fv_automation e, or_untrusted = False\<rparr>, rc_reply_parent = [], rc_delivery = [],
      rc_sealed = zero_seal, rc_sealed_for = []\<rparr>"

definition records_for :: "bytes \<Rightarrow> fake_event \<Rightarrow> bytes \<Rightarrow> fake_error + rec list" where
  "records_for key e hydrated_text = bind_res (fake_scope key e) (\<lambda>scope. Inr [event_record e scope hydrated_text])"

definition fake_normalize :: "bytes \<Rightarrow> fake_object \<Rightarrow> change \<Rightarrow> fake_error + rec list" where
  "fake_normalize key o' c =
     (if fv_external (fo_event o') \<noteq> ch_external_id c then Inl (FakeBadChange ''the object is not this change's'')
      else records_for key (fo_event o') (fo_text o'))"

fun fake_error_text :: "fake_error \<Rightarrow> bytes" where
  "fake_error_text (FakeBadDelivery what) = ''fake: bad delivery: '' @ what"
| "fake_error_text (FakeBadChange what) = ''fake: bad change: '' @ what"
| "fake_error_text FakeUnavailable = ''fake: the API is unreachable''"
| "fake_error_text (FakeStopped why) = why"

definition fake_degrade ::
  "first_value \<Rightarrow> (bytes \<Rightarrow> go_time option) \<Rightarrow> (go_time \<Rightarrow> go_time) \<Rightarrow> bytes \<Rightarrow> change \<Rightarrow> degrade_answer" where
  "fake_degrade fv rfc3339 utc key c =
     (case parse_event fv rfc3339 utc key (ch_payload c) of
        Inl e \<Rightarrow> DegradeFailed (fake_error_text e)
      | Inr e \<Rightarrow>
          if fv_external e \<noteq> ch_external_id c
          then DegradeFailed (fake_error_text (FakeBadChange ''the payload is not this change's''))
          else if fv_container e = unknown_container then CannotDegrade ''the delivery does not name the container''
          else (case records_for key e [] of
                  Inl x \<Rightarrow> DegradeFailed (fake_error_text x)
                | Inr rs \<Rightarrow> Degraded rs))"

definition fake_provider ::
  "first_value \<Rightarrow> (bytes \<Rightarrow> go_time option) \<Rightarrow> (go_time \<Rightarrow> go_time) \<Rightarrow> (bytes \<Rightarrow> bytes \<Rightarrow> bytes) \<Rightarrow> bytes option \<Rightarrow>
   bytes \<Rightarrow> version_order \<Rightarrow> fake_object provider" where
  "fake_provider fv rfc3339 utc hmac stopped key order =
     \<lparr>pv_key = key, pv_versions = order,
      pv_hydrate = (\<lambda>t c. map_err fake_error_text (fake_hydrate fv rfc3339 utc key stopped t c)),
      pv_normalize = (\<lambda>o' c. map_err fake_error_text (fake_normalize key o' c)),
      pv_degrade = Some (fake_degrade fv rfc3339 utc key),
      pv_source = Some \<lparr>ws_handshake = fake_handshake fv,
         ws_delivery_keys = (\<lambda>body _. map_err fake_error_text (fake_keys fv body)),
         ws_verify = fake_verify hmac,
         ws_parse = (\<lambda>body. map_err fake_error_text (fake_parse fv rfc3339 utc key body)),
         ws_signs_url = False\<rparr>\<rparr>"

end
