(* ===== verification/Fake_Facts.thy ===== *)
theory Fake_Facts
  imports Fake
begin

text \<open>
  What the double promises: what its parser lets through, that every change it parses takes one of the
  three paths of the pipeline, and that the degraded path and the hydrated path mint the same record
  id, which is the rule \<open>provider.Degrader\<close> states. The rule is a locale over a provider.
\<close>

subsection \<open>The rule of a degrader\<close>

text \<open>Two records are the same version of the same entity: everything their id is made of agrees.\<close>

definition same_version :: "rec \<Rightarrow> rec \<Rightarrow> bool" where
  "same_version a b \<longleftrightarrow> rc_external_id a = rc_external_id b \<and> rc_version a = rc_version b \<and>
     vi_scope (rc_visibility a) = vi_scope (rc_visibility b) \<and> rc_op a = rc_op b \<and> rc_kind a = rc_kind b"

lemma same_version_id:
  assumes "same_version a b" "seal_record h a key t = Inr q" "seal_record h b key t = Inr q'"
  shows "rc_id q = rc_id q'"
  using assms seal_record_Inr [OF assms(2)] seal_record_Inr [OF assms(3)] unfolding same_version_def
  by (metis sum.inject(2))

locale degrader =
  fixes p :: "'h provider"
  assumes one_version: "pv_degrade p = Some deg \<Longrightarrow> deg c = Degraded rs \<Longrightarrow> pv_hydrate p t c = Inr o' \<Longrightarrow>
    pv_normalize p o' c = Inr rs' \<Longrightarrow> list_all2 same_version rs rs'"
begin

text \<open>Whichever path an attempt takes, what it seals has the ids another attempt gives.\<close>

lemma one_id:
  assumes "pv_degrade p = Some deg" "deg c = Degraded rs" "pv_hydrate p t c = Inr o'" "pv_normalize p o' c = Inr rs'"
    and "i < length rs" and "seal_record h (rs ! i) key t = Inr q" and "seal_record h (rs' ! i) key t = Inr q'"
  shows "rc_id q = rc_id q'"
  by (rule same_version_id [OF list_all2_nthD [OF one_version [OF assms(1-4)] assms(5)] assms(6,7)])

end

subsection \<open>What parses\<close>

lemma parse_event_Inr:
  assumes "parse_event fv rfc utc key raw = Inr e"
  shows "(fv_op e = op_upsert \<or> fv_op e = op_delete) \<and> has_prefix (fv_external e) (key @ '':'') \<and>
    length (fv_external e) \<le> fake_max_id \<and> valid_provider_id (fv_version e) \<and> valid_provider_id (fv_container e) \<and>
    (fv_hydrate e = [] \<or> fv_hydrate e = hydrate_fail)"
proof -
  obtain e0 where d: "decode_strict fv (event_shape fv rfc) zero_event raw = Inr e0"
    using assms by (cases "decode_strict fv (event_shape fv rfc) zero_event raw") (simp_all add: parse_event_def)
  show ?thesis using assms unfolding parse_event_def d by (auto split: if_splits)
qed

lemma parse_events_member:
  "parse_events fv rfc utc key raws = Inr cs \<Longrightarrow> c \<in> set cs \<Longrightarrow>
     \<exists>e. parse_event fv rfc utc key (ch_payload c) = Inr e \<and> fv_external e = ch_external_id c \<and> fv_op e = ch_op c"
proof (induction raws arbitrary: cs)
  case (Cons raw raws)
  obtain e where e: "parse_event fv rfc utc key raw = Inr e"
    using Cons.prems(1) by (cases "parse_event fv rfc utc key raw") simp_all
  obtain ds where ds: "parse_events fv rfc utc key raws = Inr ds"
    using Cons.prems(1) e by (cases "parse_events fv rfc utc key raws") simp_all
  show ?case using Cons.IH [OF ds] Cons.prems e ds by auto
qed simp

lemma fake_parse_member:
  assumes "fake_parse fv rfc utc key body = Inr cs" "c \<in> set cs"
  obtains e where "parse_event fv rfc utc key (ch_payload c) = Inr e" "fv_external e = ch_external_id c" "fv_op e = ch_op c"
proof -
  obtain env where "parse_envelope fv body = Inr env"
    using assms(1) by (cases "parse_envelope fv body") (simp_all add: fake_parse_def)
  then have "parse_events fv rfc utc key (fe_events env) = Inr cs" using assms(1) by (simp add: fake_parse_def split: if_splits)
  from parse_events_member [OF this assms(2)] show thesis using that by blast
qed

subsection \<open>The scope\<close>

lemma escape_bytes_runs:
  "length b + 3 * length cs \<le> max_scope_id \<Longrightarrow> list_all (\<lambda>c. unreserved c \<or> \<not> control c) cs \<Longrightarrow> \<exists>s. escape_bytes b cs = Inr s"
  by (induction cs arbitrary: b) (auto simp: Let_def)

lemma printable_not_control: "0x20 \<le> ord_of c \<Longrightarrow> ord_of c \<le> 0x7E \<Longrightarrow> \<not> control c"
  by (auto simp: control_def)

lemma fake_scope_runs:
  assumes "valid_provider_key key" "valid_provider_id (fv_container e)"
  shows "\<exists>s. fake_scope key e = Inr s"
proof -
  have k: "valid_name ''list'' max_kind False" by (simp add: valid_name_def is_lower_def)
  have l: "length key \<le> max_kind" using assms(1) by (auto simp: valid_provider_key_def valid_name_def split: list.splits)
  have "list_all (\<lambda>c. unreserved c \<or> \<not> control c) (fv_container e)"
    using assms(2) printable_not_control by (auto simp: valid_provider_id_def printable_ascii_def list_all_iff)
  then have "\<exists>s. escape_bytes (key @ CHR '':'' # ''list'' @ '':'') (fv_container e) = Inr s"
    using assms(2) l by (intro escape_bytes_runs) (simp_all add: valid_provider_id_def)
  then obtain s where "escape_bytes (key @ CHR '':'' # ''list'' @ '':'') (fv_container e) = Inr s" by blast
  then have "scope_id key ''list'' (fv_container e) = Inr s"
    using assms k by (simp add: scope_id_def valid_provider_id_def)
  then show ?thesis by (simp add: fake_scope_def)
qed

lemma records_for_run:
  assumes "valid_provider_key key" "valid_provider_id (fv_container e)"
  obtains s where "fake_scope key e = Inr s" "\<And>text. records_for key e text = Inr [event_record e s text]"
  using fake_scope_runs [OF assms] by (auto simp: records_for_def)

subsection \<open>One id, whichever path\<close>

lemma event_record_version: "same_version (event_record e s text) (event_record e s text')"
  by (simp add: same_version_def event_record_def)

lemma fake_degrade_Degraded:
  assumes "fake_degrade fv rfc utc key c = Degraded rs"
  obtains e s where "parse_event fv rfc utc key (ch_payload c) = Inr e" "fv_external e = ch_external_id c"
    "fv_container e \<noteq> unknown_container" "fake_scope key e = Inr s" "rs = [event_record e s []]"
  using assms by (auto simp: fake_degrade_def records_for_def split: sum.splits if_splits elim!: bind_res.elims)

interpretation fake: degrader "fake_provider fv rfc utc hmac stopped key order" for fv rfc utc hmac stopped key order
proof
  fix deg c rs t o' rs'
  let ?p = "fake_provider fv rfc utc hmac stopped key order"
  assume a: "pv_degrade ?p = Some deg" "deg c = Degraded rs" "pv_hydrate ?p t c = Inr o'" "pv_normalize ?p o' c = Inr rs'"
  have "fake_degrade fv rfc utc key c = Degraded rs" using a(1,2) by (simp add: fake_provider_def)
  then obtain e s where e: "parse_event fv rfc utc key (ch_payload c) = Inr e" "fv_external e = ch_external_id c"
    "fv_container e \<noteq> unknown_container" "fake_scope key e = Inr s" "rs = [event_record e s []]"
    by (rule fake_degrade_Degraded)
  have "map_err fake_error_text (fake_hydrate fv rfc utc key stopped t c) = Inr o'" using a(3) by (simp add: fake_provider_def)
  then have "o' = \<lparr>fo_event = e, fo_text = ''hydrated '' @ fv_external e\<rparr>"
    using e(1-3) by (auto simp: fake_hydrate_def map_err_Inr split: option.splits if_splits)
  then have "rs' = [event_record e s (''hydrated '' @ fv_external e)]"
    using a(4) e(2,4) by (auto simp: fake_provider_def fake_normalize_def records_for_def map_err_Inr split: if_splits)
  then show "list_all2 same_version rs rs'" using e(5) event_record_version by simp
qed

subsection \<open>The three paths\<close>

definition resolved :: "fake_event \<Rightarrow> fake_event" where
  "resolved e = (if fv_container e = unknown_container then e\<lparr>fv_container := ''resolved''\<rparr> else e)"

lemma resolved_fields [simp]:
  "fv_external (resolved e) = fv_external e" "valid_provider_id (fv_container e) \<Longrightarrow> valid_provider_id (fv_container (resolved e))"
  by (simp_all add: resolved_def valid_provider_id_def printable_ascii_def ord_of_def)

text \<open>Every change the double parsed reaches the pipeline as a record, hydrated unless its event asks for
  a failure and degraded then, except that a failed one that does not name its container is tried
  again; none of them is a dead letter.\<close>

theorem fake_takes_its_three_paths:
  assumes "fake_parse fv rfc utc key body = Inr cs" "c \<in> set cs" "valid_provider_key key" "t \<noteq> []"
  shows "\<exists>e s. parse_event fv rfc utc key (ch_payload c) = Inr e \<and>
    hydrate_and_normalize (fake_provider fv rfc utc hmac None key order) t c =
      (if fv_hydrate e \<noteq> hydrate_fail then Inr ([event_record (resolved e) s (''hydrated '' @ fv_external e)], False)
       else if fv_container e = unknown_container then Inl (Retryable (ErrHydrate ''fake: the API is unreachable''))
       else Inr ([event_record e s []], True))"
proof -
  obtain e where e: "parse_event fv rfc utc key (ch_payload c) = Inr e" "fv_external e = ch_external_id c"
    using fake_parse_member [OF assms(1,2)] by metis
  have ok: "valid_provider_id (fv_container e)" using parse_event_Inr [OF e(1)] by simp
  then have ok': "valid_provider_id (fv_container (resolved e))" by (rule resolved_fields(2))
  show ?thesis
  proof (cases "fv_hydrate e = hydrate_fail")
    case True
    obtain s where s: "\<And>text. records_for key e text = Inr [event_record e s text]" by (rule records_for_run [OF assms(3) ok]) metis
    show ?thesis using True e assms(4) s
      by (intro exI [of _ e] exI [of _ s])
        (simp add: hydrate_and_normalize_def fake_provider_def fake_hydrate_def fake_degrade_def)
  next
    case False
    obtain s where s: "\<And>text. records_for key (resolved e) text = Inr [event_record (resolved e) s text]"
      by (rule records_for_run [OF assms(3) ok']) metis
    have "fake_hydrate fv rfc utc key None t c = Inr \<lparr>fo_event = resolved e, fo_text = ''hydrated '' @ fv_external e\<rparr>"
      using False e assms(4) by (simp add: fake_hydrate_def resolved_def)
    then show ?thesis using False e s
      by (intro exI [of _ e] exI [of _ s]) (simp add: hydrate_and_normalize_def fake_provider_def fake_normalize_def)
  qed
qed

subsection \<open>The signature and the handshake\<close>

lemma lower_hex_digit: "n < 16 \<Longrightarrow> lower_char (''0123456789abcdef'' ! n) = ''0123456789abcdef'' ! n"
  by (rule ord_of_inj) (simp add: lower_char_ord hex_digit_ord ord_of_char_of)

lemma hex_decode_text: "hex_decode (hex_text bs) = Some bs"
  unfolding hex_decode_iff hex_text_def map_concat map_map
proof (rule arg_cong [where f = concat], rule map_cong [OF refl])
  fix b
  have n: "ord_of b div 16 < 16" "ord_of b mod 16 < 16" using ord_of_less [of b] by (simp_all add: less_mult_imp_div_less)
  show "(map lower_char \<circ> (\<lambda>b. [''0123456789abcdef'' ! (ord_of b div 16), ''0123456789abcdef'' ! (ord_of b mod 16)])) b =
      [''0123456789abcdef'' ! (ord_of b div 16), ''0123456789abcdef'' ! (ord_of b mod 16)]"
    unfolding o_apply list.map lower_hex_digit [OF n(1)] lower_hex_digit [OF n(2)] ..
qed

lemma signed_delivery_verifies:
  assumes "secret \<noteq> []" "length (hmac secret (rq_body r)) = 32" "rq_header r fake_signature_header = [fake_sign hmac secret (rq_body r)]"
  shows "fake_verify hmac r secret = Verified"
proof -
  have "hex_decode (fake_sign hmac secret (rq_body r)) = Some (hmac secret (rq_body r))"
    unfolding fake_sign_def by (rule hex_decode_text)
  then show ?thesis using assms by (simp add: fake_verify_def)
qed

lemma marshal_char_length: "length (marshal_char c) \<le> 6"
  by (simp add: marshal_char_def)

lemma marshal_ascii_length: "length (marshal_ascii s) \<le> 2 + 6 * length s"
proof -
  have "length (concat (map marshal_char s)) \<le> 6 * length s"
  proof (induction s)
    case (Cons c s)
    then show ?case using marshal_char_length [of c] by simp
  qed simp
  then show ?thesis by (simp add: marshal_ascii_def)
qed

text \<open>A handshake is answered with the challenge or with a 400, and the answer stays short.\<close>

lemma fake_handshake_reply:
  assumes "fake_handshake fv r body = Some p"
  shows "rp_status p \<in> {0, 400} \<and> length (rp_body p) \<le> 2000"
proof -
  have m: "length (marshal_ascii ch) \<le> 1538" if "echoed ch" for ch
    using marshal_ascii_length [of ch] that by (simp add: echoed_def)
  have c: "length (marshal_ascii ''challenge'') \<le> 56" using marshal_ascii_length [of "''challenge''"] by simp
  show ?thesis
  proof (cases "query_values (rq_url r) ''validationToken''")
    case Nil
    then show ?thesis using assms m c
      by (fastforce simp: fake_handshake_def bad_challenge_def split: sum.splits prod.splits if_splits)
  next
    case (Cons tok toks)
    then show ?thesis using assms
      by (cases toks) (auto simp: fake_handshake_def bad_challenge_def echoed_def split: if_splits)
  qed
qed

end
