(* ===== verification/Spec2Isabelle.thy ===== *)
theory Spec2Isabelle
  imports Outbox_Facts Record_Decode Versions Pipeline_Facts Mask_Facts Ingress_Facts Sink_Facts Worker_Again Clickup_Limits Clickup_Route Vault_Facts Remote_Facts Commands Drain_Loop Fake_Facts
begin

text \<open>
  Lawang is a service that takes webhooks of work tools (ClickUp first), turns each into records of one
  format, and delivers the records to a receiver (a sink), for many tenants that must not see each
  other. This development models its Go code and proves what makes it correct. Every theory opens with a
  note of what it holds; this is the map of all of them.

  \<^bold>\<open>How the parts interact.\<close> A request reaches the webhook edge (internal/ingress), which bounds its body
  and asks the hub (internal/hub) whose it is: the hub selects the subscriptions the delivery's keys name,
  has the provider verify the signature with the secret of every one of them, and stores the body for the
  only one that verifies in the outbox (internal/outbox), a Postgres table that is a FIFO queue for each
  tenant and ordering key. The drain (internal/worker) claims rows under a lease. It has the pipeline
  (internal/pipeline) normalise the body through its provider (internal/provider), seal each record
  (internal/record, internal/ids), order it in the ledger of its entity, and mask personal values; commits
  the records beside the row; offers them to the tenant's sink (internal/sink); and ends the row as
  delivered, to be tried again, or dead. A provider's API needs a credential, which a vault
  (internal/vault) keeps. internal/tenancy and internal/store bind every transaction to one tenant,
  internal/config and cmd/lawang start the whole.

  \<^bold>\<open>Vocabulary.\<close> A Go string or byte slice is a list of 8-bit characters (Prelude, Utf8, Trim). A function
  that returns a value and an error is a sum with the error on the left; a handler that changes a state
  returns it, and an error leaves it as the rolled back transaction does. A table is the list of its rows
  in insertion order, and a SQL statement of queries.sql is one definition over it that sees only the rows
  its transaction may see. Clocks, minted ULIDs, nonces and generated keys are arguments.

  \<^bold>\<open>Theories and sources.\<close>
  \<^item> Ids: internal/ids (\<open>record_id\<close>, \<open>delivery_id\<close>). Scope_Id, Record_Chars, Record_Format,
    Record_Storable, Record_Decode: internal/record (scope.go, validate.go, clean.go, record.go,
    decode.go), with \<open>seal_record\<close>, \<open>validate\<close>, \<open>unmarshal_json\<close> and \<open>reopen\<close> for \<open>Seal\<close>, \<open>Validate\<close>,
    \<open>UnmarshalJSON\<close> and \<open>Reopen\<close>.
  \<^item> Tenancy: internal/tenancy and the transactions of internal/store (\<open>tenant_tx\<close>, \<open>role_tx\<close>);
    Store_Open: opening the pool and its preflight, and migrating; Go_Errors: store/connerr.go,
    \<open>listenError\<close> and \<open>outside\<close>.
  \<^item> Cause, Outbox_Table, Outbox: internal/outbox, one definition per statement and per operation
    (\<open>accept\<close>, \<open>claim\<close>, \<open>prepare_in\<close>, \<open>mark_delivered\<close>, \<open>fail\<close>, \<open>release\<close>, \<open>halt\<close>, \<open>park\<close>, \<open>replay\<close>, ...);
    the state is \<open>odb\<close>, the tables outbox and outbox_record. Outbox_Inv: the invariant and its
    preservation; Outbox_Reach: the step relation under all operations; Outbox_Fifo: the queue contract as
    a locale and its interpretation; Outbox_Facts: the properties.
  \<^item> Registry, Versions: internal/provider and the comparison of versions of the pipeline. Ledger,
    Ledger_Chain, Mask, Mask_Facts, Redact, Pipeline, Pipeline_Facts: internal/pipeline (ledger.go,
    mask.go, redact.go, pipeline.go, pipelinedb); the state is \<open>pdb\<close>, the ledger and the redaction map.
  \<^item> Subscriptions, Hub, Hub_Facts: internal/hub (subscriptions.go, hub.go, hubdb). Url, Ingress,
    Ingress_Facts: internal/ingress; the edge's side of the hub is the locale \<open>edge_hub\<close>.
  \<^item> Sink, Sink_Local, Sink_Facts: internal/sink (sink.go, http.go, jsonl.go, stub.go); the locale
    \<open>sink_contract\<close> is interpreted on each of the three sinks.
  \<^item> Worker, Worker_Facts, Worker_Batch, Worker_Again, Drain_Loop: internal/worker (\<open>workRow\<close>,
    \<open>prepare\<close>, \<open>deliver\<close>, \<open>workBatch\<close>, \<open>release\<close>, \<open>loop\<close>, \<open>Run\<close>), over the tables of the outbox and of the
    pipeline and the state of the receivers.
  \<^item> Json_Struct: encoding/json filling Go values. Clickup_Parse, Clickup_Api, Clickup: the provider
    internal/provider/clickup; Clickup_Facts, Clickup_Pipeline, Clickup_Limits, Clickup_Route: what it
    gives the pipeline and the hub. Fake, Fake_Facts: internal/provider/fake.
  \<^item> Vault, Vault_Facts: the local vault (vault.go, envelope.go, local.go, vaultdb); Vault_Remote,
    Remote_Facts: nango.go and azureapp.go.
  \<^item> Url_Parse, Master_Key, Config, Config_Facts, Config_Edge: internal/config; Commands: cmd/lawang and
    internal/appversion.

  \<^bold>\<open>What is shown.\<close> The queue: in every reachable state of the outbox, under any callers with any claims, the
  invariant holds, the deliveries of a key finish in the order they came, a delivery is accepted once, only
  fronts are claimed, a lost lease changes nothing, no key with work is left without a front, and each way
  an attempt ends does what it says. The drain: a loop that is shut down leaves no row under its leases,
  and a redelivery offers what was committed. Records: a seal cannot be forged or outlive a change,
  documents read back as what was stored and fail closed, scope ids have one spelling. The pipeline: the
  ledger is a chain per entity, nothing is prepared twice, locks cannot deadlock, a value has one token.
  The hub and the edge: a delivery is stored for the only owner whose secret verifies it, 401 means exactly
  a refused signature, and reading is bounded. ClickUp: what it normalises seals, a registered webhook is
  found, its signature is an equivalence, its rate and its requests are bounded. The vaults: the local one
  is a map of credentials and fails closed, an envelope cannot be moved, the remote ones hand out only what
  was issued for who asks. Start: production runs on what was configured, as a role that row security
  confines, and what is logged of a foreign error quotes nothing of it.

  \<^bold>\<open>Parameters.\<close> Third-party code and what the Go library does below the level the program relies on are
  arguments: BLAKE3, SHA-256, HMAC and AES-GCM (what is asked of them stands in the hypotheses:
  \<open>hex_hash\<close>, \<open>aead_works\<close>, and that a box opens only under the data it was sealed with), the JSON text
  reader and writer (\<open>first_value\<close>, \<open>codec_ok\<close>), the reader of RFC 3339 times, the reader of hosts
  (\<open>plain_host_law\<close>), the parser of media types, net/http's client and multiplexer, the database driver
  and the answers of the catalogue. The receivers and servers the program talks to are functions on a state
  of their own, so the theorems hold whatever they answer.

  \<^bold>\<open>Idealisations and bounds.\<close> The advisory locks and mutexes make each operation one atomic step; other
  workers, replicas and operators act between the steps, in any number and order, and a crash is a run
  that ends between two commits. The order in which the entity locks are taken is modelled on its own. The
  limiter's \<open>float64\<close> arithmetic is exact. A lost connection is a failed, rolled back statement. The drain's
  loop runs over a list of ticks, which is used up when the context is cancelled, so every finite run is
  covered; paging has the bound of the code; the readers of raw JSON in
  Fake count down from the length of the text. Integers are unbounded except where the code depends on
  their width: ports, epoch milliseconds, lifetimes of tokens and HTTP lengths are bounded as the code
  bounds them. Columns no statement reads are left out.

  \<^bold>\<open>Not modelled.\<close> Log lines, the prose of the usage text and of error messages that no code inspects; the
  listening HTTP server with its timeouts and the signals that stop it; goroutine scheduling, and the
  recovery of a panic in the drain, after which a row keeps its lease; the entropy behind ULIDs, tokens,
  nonces and generated keys; migrations/migrations.go, which embeds the SQL files (the constraints of the
  tables are modelled with the components that own them); and the support of the tests
  (internal/testdb, internal/provider/providertest, internal/acceptance), which drives a real database
  and the testing package and holds no logic of the program.

  \<^bold>\<open>What modelling showed.\<close> Three comments promise more than the code does: \<open>closing_bracket_is_not_refused\<close>
  (what may follow a decrypted credential), \<open>zero_key_passes_start_up\<close> (the master key of zeros) and
  \<open>default_rate_passes_the_documented_limit\<close> (the burst beside ClickUp's rate).
\<close>

end
